(* ===== verification/Prelude.thy ===== *)
theory Prelude
  imports Main "HOL-Library.Word" "HOL-Library.AList" "HOL-Library.Multiset" "HOL-Library.Sublist"
begin

text \<open>
  What every component of the development shares.

  \<^item> Machine integers: the source's \<^verbatim>\<open>u8\<close>, \<^verbatim>\<open>u32\<close> and \<^verbatim>\<open>u64\<close> are words, so that
    \<^verbatim>\<open>+=\<close> wraps as it does in a release build.
  \<^item> Time: a \<^verbatim>\<open>SystemTime\<close> is an integer number of nanoseconds relative to the Unix
    epoch, a \<^verbatim>\<open>Duration\<close> a natural number of nanoseconds, with the standard library's
    limits.
  \<^item> Asynchronous code: an \<^verbatim>\<open>async fn\<close> that runs against a state of type \<open>'s\<close> is a
    function \<open>'s \<Rightarrow> 'a outcome \<times> 's\<close>. It returns a value, is still waiting at an
    \<^verbatim>\<open>await\<close>, holds the executor's thread, or panics. The state it returns holds every
    effect made so far. A \<^verbatim>\<open>Result\<close> is a sum, with \<open>Inl\<close> the error.
  \<^item> \<^verbatim>\<open>HashMap\<close>: an association list with distinct keys. The list order is the map's
    iteration order; Rust leaves that order open, so no theorem depends on the one an
    update produces.
\<close>

named_theorems outcome_simps \<open>unfolding the sequencing of asynchronous steps\<close>
named_theorems keeps_intros \<open>steps that keep an invariant\<close>
named_theorems hm_simps \<open>lookups in updated hash maps\<close>


section \<open>Machine integers and time\<close>

type_synonym u8 = "8 word"
type_synonym u32 = "32 word"
type_synonym u64 = "64 word"

type_synonym time = int
type_synonym duration = nat

definition nanos_per_sec :: nat where
  "nanos_per_sec = 1000000000"

definition from_secs :: "nat \<Rightarrow> duration" where
  "from_secs n = n * nanos_per_sec"

definition from_millis :: "nat \<Rightarrow> duration" where
  "from_millis n = n * 1000000"

definition duration_max :: duration where
  "duration_max = (2 ^ 64 - 1) * nanos_per_sec + 999999999"

definition system_time_max :: time where
  "system_time_max = (2 ^ 63 - 1) * 1000000000 + 999999999"

text \<open>\<^verbatim>\<open>later.duration_since(earlier)\<close>: an error when the clock went backwards.\<close>

definition duration_since :: "time \<Rightarrow> time \<Rightarrow> duration + duration" where
  "duration_since later earlier =
     (if earlier \<le> later then Inr (nat (later - earlier)) else Inl (nat (earlier - later)))"

text \<open>\<^verbatim>\<open>t.checked_add(d)\<close>: \<open>None\<close> when the sum is not representable.\<close>

definition time_checked_add :: "time \<Rightarrow> duration \<Rightarrow> time option" where
  "time_checked_add t d = (if t + int d \<le> system_time_max then Some (t + int d) else None)"

lemma duration_since_Inr [simp]:
  "earlier \<le> later \<Longrightarrow> duration_since later earlier = Inr (nat (later - earlier))"
  by (simp add: duration_since_def)

lemma duration_since_Inl [simp]:
  "later < earlier \<Longrightarrow> duration_since later earlier = Inl (nat (earlier - later))"
  by (simp add: duration_since_def)

lemma unat_u32_inc: "unat (n :: u32) < 2 ^ 32 - 1 \<Longrightarrow> unat (n + 1) = unat n + 1"
  by (simp add: unat_word_ariths)

lemma unat_u32_le: "unat (n :: u32) \<le> 2 ^ 32 - 1"
  using unsigned_less [of n, where ?'a = nat] by simp


section \<open>Asynchronous steps\<close>

datatype 'a outcome =
    Ret 'a
  | Pending
  | Blocked
  | Panic string

type_synonym ('s, 'a) act = "'s \<Rightarrow> 'a outcome \<times> 's"

definition ret :: "'a \<Rightarrow> ('s, 'a) act" where
  "ret x = (\<lambda>s. (Ret x, s))"

definition halt :: "string \<Rightarrow> ('s, 'a) act" where
  "halt e = (\<lambda>s. (Panic e, s))"

text \<open>Sequencing: \<^verbatim>\<open>let x = m.await; k(x)\<close>.\<close>

definition bindA :: "('s, 'a) act \<Rightarrow> ('a \<Rightarrow> ('s, 'b) act) \<Rightarrow> ('s, 'b) act" where
  "bindA m k = (\<lambda>s. case m s of
       (Ret x, s') \<Rightarrow> k x s'
     | (Pending, s') \<Rightarrow> (Pending, s')
     | (Blocked, s') \<Rightarrow> (Blocked, s')
     | (Panic e, s') \<Rightarrow> (Panic e, s'))"

text \<open>The question-mark operator: \<^verbatim>\<open>let x = m.await?; k(x)\<close>.\<close>

definition bindQ :: "('s, 'e + 'a) act \<Rightarrow> ('a \<Rightarrow> ('s, 'e + 'b) act) \<Rightarrow> ('s, 'e + 'b) act" where
  "bindQ m k = bindA m (\<lambda>r. case r of Inl e \<Rightarrow> ret (Inl e) | Inr x \<Rightarrow> k x)"

text \<open>\<^verbatim>\<open>for x in xs { f(x).await }\<close> and the variant that returns at the first error.\<close>

fun forA :: "('a \<Rightarrow> ('s, 'b) act) \<Rightarrow> 'a list \<Rightarrow> ('s, unit) act" where
  "forA f [] = ret ()"
| "forA f (x # xs) = bindA (f x) (\<lambda>_. forA f xs)"

fun forQ :: "('a \<Rightarrow> ('s, 'e + unit) act) \<Rightarrow> 'a list \<Rightarrow> ('s, 'e + unit) act" where
  "forQ f [] = ret (Inr ())"
| "forQ f (x # xs) = bindQ (f x) (\<lambda>_. forQ f xs)"

definition getA :: "('s \<Rightarrow> 'a) \<Rightarrow> ('s, 'a) act" where
  "getA f = (\<lambda>s. (Ret (f s), s))"

definition putA :: "('s \<Rightarrow> 's) \<Rightarrow> ('s, unit) act" where
  "putA f = (\<lambda>s. (Ret (), f s))"

text \<open>
  \<^verbatim>\<open>tokio::time::timeout(d, m)\<close>: the result of \<open>m\<close> if it is ready by the deadline,
  otherwise the elapsed error. The state is the one at the last poll. A future that
  holds its thread cannot be timed out: the timer is not polled.
\<close>

definition timeoutA :: "('s, 'a) act \<Rightarrow> ('s, unit + 'a) act" where
  "timeoutA m = (\<lambda>s. case m s of
       (Ret x, s') \<Rightarrow> (Ret (Inr x), s')
     | (Pending, s') \<Rightarrow> (Ret (Inl ()), s')
     | (Blocked, s') \<Rightarrow> (Blocked, s')
     | (Panic e, s') \<Rightarrow> (Panic e, s'))"

lemma ret_app [outcome_simps]: "ret x s = (Ret x, s)"
  by (simp add: ret_def)

lemma halt_app [outcome_simps]: "halt e s = (Panic e, s)"
  by (simp add: halt_def)

lemma getA_app [outcome_simps]: "getA f s = (Ret (f s), s)"
  by (simp add: getA_def)

lemma putA_app [outcome_simps]: "putA f s = (Ret (), f s)"
  by (simp add: putA_def)

lemma bindA_Ret: "m s = (Ret x, s') \<Longrightarrow> bindA m k s = k x s'"
  by (simp add: bindA_def)

lemma bindQ_Inr: "m s = (Ret (Inr x), s') \<Longrightarrow> bindQ m k s = k x s'"
  by (simp add: bindQ_def bindA_def)

lemma bindQ_Inl: "m s = (Ret (Inl e), s') \<Longrightarrow> bindQ m k s = (Ret (Inl e), s')"
  by (simp add: bindQ_def bindA_def ret_def)

lemma bindA_ret [outcome_simps]: "bindA (ret x) k = k x"
  by (simp add: bindA_def ret_def)

lemma bindQ_ret_Inr [outcome_simps]: "bindQ (ret (Inr x)) k = k x"
  by (simp add: bindQ_def outcome_simps)

lemma bindQ_ret_Inl [outcome_simps]: "bindQ (ret (Inl e)) k = ret (Inl e)"
  by (simp add: bindQ_def bindA_ret)

lemma bindQ_unit [outcome_simps]: "bindQ m (\<lambda>_. ret (Inr ())) = m"
  by (rule ext) (auto simp: bindQ_def bindA_def ret_def split: prod.splits outcome.splits sum.splits)

lemma bindA_halt [outcome_simps]: "bindA (halt e) k = halt e"
  by (simp add: bindA_def halt_def)

lemma bindA_assoc: "bindA (bindA m f) g = bindA m (\<lambda>x. bindA (f x) g)"
  by (rule ext) (simp add: bindA_def split: prod.splits outcome.splits)

lemma bindA_RetE:
  assumes "bindA m k s = (Ret y, t)"
  obtains x s' where "m s = (Ret x, s')" and "k x s' = (Ret y, t)"
  using assms by (auto simp: bindA_def split: prod.splits outcome.splits)

lemma bindQ_RetE:
  assumes "bindQ m k s = (Ret y, t)"
  obtains (Err) e where "m s = (Ret (Inl e), t)" and "y = Inl e"
    | (Ok) x s' where "m s = (Ret (Inr x), s')" and "k x s' = (Ret y, t)"
  using assms unfolding bindQ_def
  by (elim bindA_RetE) (auto simp: ret_def split: sum.splits)

lemma bindQ_OkE:
  assumes "bindQ m k s = (Ret (Inr y), t)"
  obtains x s' where "m s = (Ret (Inr x), s')" and "k x s' = (Ret (Inr y), t)"
  using assms by (elim bindQ_RetE) auto

text \<open>
  An invariant of the state that each step keeps, whatever its outcome: the step may have
  returned, be waiting, or have panicked.
\<close>

definition keeps :: "('s \<Rightarrow> bool) \<Rightarrow> ('s, 'a) act \<Rightarrow> bool" where
  "keeps I m \<longleftrightarrow> (\<forall>s. I s \<longrightarrow> I (snd (m s)))"

lemma keepsI: "(\<And>s. I s \<Longrightarrow> I (snd (m s))) \<Longrightarrow> keeps I m"
  by (simp add: keeps_def)

lemma keepsD: "keeps I m \<Longrightarrow> I s \<Longrightarrow> I (snd (m s))"
  by (simp add: keeps_def)

lemma keeps_ret [keeps_intros]: "keeps I (ret x)"
  by (simp add: keeps_def ret_def)

lemma keeps_halt [keeps_intros]: "keeps I (halt e)"
  by (simp add: keeps_def halt_def)

lemma keeps_getA [keeps_intros]: "keeps I (getA f)"
  by (simp add: keeps_def getA_def)

lemma keeps_putA [keeps_intros]: "(\<And>s. I s \<Longrightarrow> I (f s)) \<Longrightarrow> keeps I (putA f)"
  by (simp add: keeps_def putA_def)

lemma keeps_bindA [keeps_intros]:
  assumes "keeps I m" and "\<And>x. keeps I (k x)"
  shows "keeps I (bindA m k)"
proof (rule keepsI)
  fix s assume "I s"
  with assms(1) have "I (snd (m s))" by (rule keepsD)
  with assms(2) show "I (snd (bindA m k s))"
    by (auto simp: bindA_def keeps_def split: prod.splits outcome.splits)
qed

lemma keeps_bindQ [keeps_intros]:
  "keeps I m \<Longrightarrow> (\<And>x. keeps I (k x)) \<Longrightarrow> keeps I (bindQ m k)"
  unfolding bindQ_def by (rule keeps_bindA) (auto intro: keeps_ret split: sum.splits)

lemma keeps_case_sum [keeps_intros]:
  "(\<And>e. keeps I (f e)) \<Longrightarrow> (\<And>x. keeps I (g x)) \<Longrightarrow> keeps I (case r of Inl e \<Rightarrow> f e | Inr x \<Rightarrow> g x)"
  by (cases r) auto

lemma keeps_case_option [keeps_intros]:
  "keeps I f \<Longrightarrow> (\<And>x. keeps I (g x)) \<Longrightarrow> keeps I (case r of None \<Rightarrow> f | Some x \<Rightarrow> g x)"
  by (cases r) auto

lemma keeps_case_prod [keeps_intros]:
  "(\<And>x y. keeps I (f x y)) \<Longrightarrow> keeps I (case p of (x, y) \<Rightarrow> f x y)"
  by (cases p) auto

lemma keeps_if [keeps_intros]:
  "keeps I f \<Longrightarrow> keeps I g \<Longrightarrow> keeps I (if b then f else g)"
  by simp

lemma keeps_forA [keeps_intros]: "(\<And>x. x \<in> set xs \<Longrightarrow> keeps I (f x)) \<Longrightarrow> keeps I (forA f xs)"
  by (induction xs) (auto intro!: keeps_ret keeps_bindA)

lemma keeps_forQ [keeps_intros]: "(\<And>x. x \<in> set xs \<Longrightarrow> keeps I (f x)) \<Longrightarrow> keeps I (forQ f xs)"
  by (induction xs) (auto intro!: keeps_ret keeps_bindQ)

lemma keeps_timeoutA [keeps_intros]: "keeps I m \<Longrightarrow> keeps I (timeoutA m)"
  by (auto simp: keeps_def timeoutA_def split: prod.splits outcome.splits)


text \<open>
  Total correctness: from every state of \<open>I\<close> the action returns a value of \<open>P\<close> in a state
  of \<open>I\<close>.
\<close>

definition total_in :: "('s \<Rightarrow> bool) \<Rightarrow> ('a \<Rightarrow> bool) \<Rightarrow> ('s, 'a) act \<Rightarrow> bool" where
  "total_in I P m \<longleftrightarrow> (\<forall>s. I s \<longrightarrow> (\<exists>x s'. m s = (Ret x, s') \<and> P x \<and> I s'))"

definition is_ok :: "'e + 'a \<Rightarrow> bool" where
  "is_ok r \<longleftrightarrow> \<not> isl r"

lemma is_ok_simps [simp]: "is_ok (Inr x)" "\<not> is_ok (Inl e)"
  by (simp_all add: is_ok_def)

named_theorems total_intros \<open>total correctness of the control operators\<close>

lemma total_inI: "(\<And>s. I s \<Longrightarrow> \<exists>x s'. m s = (Ret x, s') \<and> P x \<and> I s') \<Longrightarrow> total_in I P m"
  by (simp add: total_in_def)

lemma total_inE:
  assumes "total_in I P m" and "I s"
  obtains x s' where "m s = (Ret x, s')" and "P x" and "I s'"
  using assms by (auto simp: total_in_def)

lemma total_ret [total_intros]: "P x \<Longrightarrow> total_in I P (ret x)"
  by (simp add: total_in_def ret_def)

lemma total_getA: "(\<And>s. I s \<Longrightarrow> P (f s)) \<Longrightarrow> total_in I P (getA f)"
  by (simp add: total_in_def getA_def)

lemma total_putA: "(\<And>s. I s \<Longrightarrow> I (f s)) \<Longrightarrow> P () \<Longrightarrow> total_in I P (putA f)"
  by (simp add: total_in_def putA_def)

lemma total_bindA:
  assumes "total_in I Q m" and "\<And>x. Q x \<Longrightarrow> total_in I P (k x)"
  shows "total_in I P (bindA m k)"
proof (rule total_inI)
  fix s assume "I s"
  then obtain x s' where "m s = (Ret x, s')" "Q x" "I s'" by (rule total_inE [OF assms(1)])
  with assms(2) show "\<exists>y t. bindA m k s = (Ret y, t) \<and> P y \<and> I t"
    by (auto simp: bindA_def total_in_def)
qed

lemmas total_bindA_any [total_intros] = total_bindA [where Q = "\<lambda>_. True"]

lemma total_bindQ [total_intros]:
  "total_in I is_ok m \<Longrightarrow> (\<And>x. total_in I P (k x)) \<Longrightarrow> total_in I P (bindQ m k)"
  unfolding bindQ_def
  by (rule total_bindA [where Q = is_ok]) (auto simp: is_ok_def split: sum.splits)

lemma total_if [total_intros]:
  "(b \<Longrightarrow> total_in I P f) \<Longrightarrow> (\<not> b \<Longrightarrow> total_in I P g) \<Longrightarrow> total_in I P (if b then f else g)"
  by simp

lemma total_weaken: "total_in I P m \<Longrightarrow> (\<And>x. P x \<Longrightarrow> Q x) \<Longrightarrow> total_in I Q m"
  by (auto simp: total_in_def)


section \<open>Hash maps\<close>

type_synonym ('k, 'v) hashmap = "('k \<times> 'v) list"

abbreviation hm_get :: "('k, 'v) hashmap \<Rightarrow> 'k \<Rightarrow> 'v option" where
  "hm_get m k \<equiv> map_of m k"

abbreviation hm_insert :: "'k \<Rightarrow> 'v \<Rightarrow> ('k, 'v) hashmap \<Rightarrow> ('k, 'v) hashmap" where
  "hm_insert k v m \<equiv> AList.update k v m"

abbreviation hm_remove :: "'k \<Rightarrow> ('k, 'v) hashmap \<Rightarrow> ('k, 'v) hashmap" where
  "hm_remove k m \<equiv> AList.delete k m"

abbreviation hm_keys :: "('k, 'v) hashmap \<Rightarrow> 'k list" where
  "hm_keys m \<equiv> map fst m"

abbreviation hm_values :: "('k, 'v) hashmap \<Rightarrow> 'v list" where
  "hm_values m \<equiv> map snd m"

abbreviation hm_contains :: "('k, 'v) hashmap \<Rightarrow> 'k \<Rightarrow> bool" where
  "hm_contains m k \<equiv> map_of m k \<noteq> None"

abbreviation hm_wf :: "('k, 'v) hashmap \<Rightarrow> bool" where
  "hm_wf m \<equiv> distinct (map fst m)"

text \<open>\<^verbatim>\<open>m.entry(k).or_default()\<close> followed by an in-place update, and \<^verbatim>\<open>get_mut\<close>.\<close>

definition hm_entry_or :: "'v \<Rightarrow> ('v \<Rightarrow> 'v) \<Rightarrow> 'k \<Rightarrow> ('k, 'v) hashmap \<Rightarrow> ('k, 'v) hashmap" where
  "hm_entry_or d f k m = hm_insert k (f (case hm_get m k of None \<Rightarrow> d | Some v \<Rightarrow> v)) m"

definition hm_modify :: "('v \<Rightarrow> 'v) \<Rightarrow> 'k \<Rightarrow> ('k, 'v) hashmap \<Rightarrow> ('k, 'v) hashmap" where
  "hm_modify f k m = (case hm_get m k of None \<Rightarrow> m | Some v \<Rightarrow> hm_insert k (f v) m)"

definition hm_map_values :: "('v \<Rightarrow> 'v) \<Rightarrow> ('k, 'v) hashmap \<Rightarrow> ('k, 'v) hashmap" where
  "hm_map_values f m = map (\<lambda>(k, v). (k, f v)) m"

lemma hm_get_insert [hm_simps, simp]:
  "hm_get (hm_insert k v m) k' = (if k' = k then Some v else hm_get m k')"
  by (simp add: update_conv')

lemma hm_get_remove [hm_simps, simp]:
  "hm_get (hm_remove k m) k' = (if k' = k then None else hm_get m k')"
  by (simp add: delete_conv')

lemma hm_get_entry_or [hm_simps]:
  "hm_get (hm_entry_or d f k m) k' =
     (if k' = k then Some (f (case hm_get m k of None \<Rightarrow> d | Some v \<Rightarrow> v)) else hm_get m k')"
  by (simp add: hm_entry_or_def)

lemma hm_get_modify [hm_simps]:
  "hm_get (hm_modify f k m) k' = (if k' = k then map_option f (hm_get m k) else hm_get m k')"
  by (auto simp: hm_modify_def split: option.splits)

lemma hm_get_map_values [hm_simps]:
  "hm_get (hm_map_values f m) k = map_option f (hm_get m k)"
  by (induction m) (auto simp: hm_map_values_def)

lemma hm_keys_map_values [simp]: "hm_keys (hm_map_values f m) = hm_keys m"
  by (induction m) (auto simp: hm_map_values_def)

lemma hm_wf_insert [simp]: "hm_wf m \<Longrightarrow> hm_wf (hm_insert k v m)"
  by (rule distinct_update)

lemma hm_wf_remove [simp]: "hm_wf m \<Longrightarrow> hm_wf (hm_remove k m)"
  by (rule distinct_delete)

lemma hm_dom_insert [simp]: "fst ` set (hm_insert k v m) = insert k (fst ` set m)"
  by (induction m) auto

lemma hm_dom_remove [simp]: "fst ` set (hm_remove k m) = fst ` set m - {k}"
  by (induction m) auto

lemma hm_wf_entry_or [simp]: "hm_wf m \<Longrightarrow> hm_wf (hm_entry_or d f k m)"
  by (simp add: hm_entry_or_def)

lemma hm_wf_modify [simp]: "hm_wf m \<Longrightarrow> hm_wf (hm_modify f k m)"
  by (simp add: hm_modify_def split: option.splits)

lemma hm_remove_absent [simp]: "hm_get m k = None \<Longrightarrow> hm_remove k m = m"
  by (simp add: delete_idem map_of_eq_None_iff)

lemma hm_values_remove:
  assumes "hm_wf m" and "hm_get m k = Some v"
  shows "mset (hm_values m) = add_mset v (mset (hm_values (hm_remove k m)))"
  using assms
proof (induction m)
  case (Cons p m)
  show ?case
  proof (cases "fst p = k")
    case True
    with Cons.prems have "hm_get m k = None" and "snd p = v"
      by (auto simp: map_of_eq_None_iff split: if_splits)
    with True show ?thesis by (cases p) (auto simp: delete_idem map_of_eq_None_iff)
  next
    case False
    with Cons show ?thesis by (cases p) auto
  qed
qed simp

lemma hm_values_insert_fresh:
  assumes "hm_get m k = None"
  shows "image_mset snd (mset (hm_insert k v m)) = add_mset v (image_mset snd (mset m))"
  using assms by (induction m) (auto split: if_splits)

lemma hm_mem_values: "hm_wf m \<Longrightarrow> v \<in> set (hm_values m) \<longleftrightarrow> (\<exists>k. hm_get m k = Some v)"
  by (force simp: image_iff)

lemma distinct_count_list: "distinct xs \<Longrightarrow> x \<in> set xs \<Longrightarrow> count_list xs x = 1"
  by (induction xs) (auto simp: count_list_0_iff)

lemma distinct_singleton: "distinct xs \<Longrightarrow> set xs = {x} \<Longrightarrow> xs = [x]"
  by (cases xs; cases "tl xs") auto


section \<open>Strings\<close>

abbreviation starts_with :: "string \<Rightarrow> string \<Rightarrow> bool" where
  "starts_with s p \<equiv> prefix p s"

definition strip_prefix :: "string \<Rightarrow> string \<Rightarrow> string option" where
  "strip_prefix p s = (if prefix p s then Some (drop (length p) s) else None)"

text \<open>The decimal form of an unsigned integer.\<close>

fun show_nat :: "nat \<Rightarrow> string" where
  "show_nat n =
     (if n < 10 then [char_of (48 + n)] else show_nat (n div 10) @ [char_of (48 + n mod 10)])"

declare show_nat.simps [simp del]

lemma strip_prefix_append [simp]: "strip_prefix p (p @ s) = Some s"
  by (simp add: strip_prefix_def)


section \<open>Identifiers and clock readings\<close>

text \<open>
  \<^verbatim>\<open>Uuid::new_v4()\<close> and \<^verbatim>\<open>SystemTime::now()\<close> give values from outside the program. The
  ambient record holds the identifiers and the clock readings the program will be given,
  in order, and how many of each it has taken. That two calls of \<^verbatim>\<open>new_v4\<close> give
  different identifiers is the hypothesis \<open>uuids_unique\<close>.
\<close>

record ambient =
  uuid_src :: "nat \<Rightarrow> string"
  uuid_next :: nat
  clock_src :: "nat \<Rightarrow> time"
  clock_next :: nat

definition new_uuid :: "ambient \<Rightarrow> string \<times> ambient" where
  "new_uuid a = (uuid_src a (uuid_next a), a\<lparr>uuid_next := Suc (uuid_next a)\<rparr>)"

definition read_clock :: "ambient \<Rightarrow> time \<times> ambient" where
  "read_clock a = (clock_src a (clock_next a), a\<lparr>clock_next := Suc (clock_next a)\<rparr>)"

definition uuids_unique :: "ambient \<Rightarrow> bool" where
  "uuids_unique a = inj (uuid_src a)"

definition uuid_used :: "ambient \<Rightarrow> string \<Rightarrow> bool" where
  "uuid_used a k = (\<exists>n < uuid_next a. k = uuid_src a n)"

lemma fst_new_uuid [simp]: "fst (new_uuid a) = uuid_src a (uuid_next a)"
  by (simp add: new_uuid_def)

lemma fst_read_clock [simp]: "fst (read_clock a) = clock_src a (clock_next a)"
  by (simp add: read_clock_def)

lemma ambient_step_sel [simp]:
  "uuid_src (snd (new_uuid a)) = uuid_src a" "uuid_next (snd (new_uuid a)) = Suc (uuid_next a)"
  "clock_src (snd (new_uuid a)) = clock_src a" "clock_next (snd (new_uuid a)) = clock_next a"
  "uuid_src (snd (read_clock a)) = uuid_src a" "uuid_next (snd (read_clock a)) = uuid_next a"
  "clock_src (snd (read_clock a)) = clock_src a"
  "clock_next (snd (read_clock a)) = Suc (clock_next a)"
  by (simp_all add: new_uuid_def read_clock_def)

lemma uuids_unique_step [simp]:
  "uuids_unique (snd (new_uuid a)) = uuids_unique a"
  "uuids_unique (snd (read_clock a)) = uuids_unique a"
  by (simp_all add: uuids_unique_def)

lemma uuid_used_clock [simp]: "uuid_used (snd (read_clock a)) k = uuid_used a k"
  by (simp add: uuid_used_def)

lemma uuid_used_new [simp]:
  "uuid_used (snd (new_uuid a)) k \<longleftrightarrow> uuid_used a k \<or> k = uuid_src a (uuid_next a)"
  by (auto simp: uuid_used_def less_Suc_eq)

lemma new_uuid_fresh: "uuids_unique a \<Longrightarrow> \<not> uuid_used a (uuid_src a (uuid_next a))"
  by (auto simp: uuids_unique_def uuid_used_def inj_def)

lemma unat_Suc_le:
  fixes x :: "'a :: len word"
  assumes "Suc i \<le> unat x"
  shows "unat (of_nat i + 1 :: 'a word) = Suc i"
proof -
  have "Suc i < 2 ^ LENGTH('a)" using assms unsigned_less [where w = x] by (simp add: le_less_trans)
  then have "unat (of_nat (Suc i) :: 'a word) = Suc i"
    by (simp add: unsigned_of_nat take_bit_nat_eq_self del: of_nat_Suc)
  then show ?thesis by (simp add: add.commute)
qed

lemma unat_u32: "unat (x :: 32 word) < 2 ^ 32"
proof -
  have "unat x < 2 ^ LENGTH(32)" by (rule unsigned_less)
  then show ?thesis by simp
qed

end
