(* ===== verification/Errors.thy ===== *)
theory Errors
  imports Prelude
begin

text \<open>
  The error types of \<^verbatim>\<open>event_base_core/src/error/\<close>, one datatype per enum, with the
  source's variants in the source's order. An error of a foreign library
  (\<^verbatim>\<open>serde_json\<close>, \<^verbatim>\<open>std::io\<close>) is carried as its text; a \<^verbatim>\<open>SystemTimeError\<close> as the
  duration it holds.
\<close>

datatype queue_error =
    QFull
  | QClosed
  | QTimeout
  | QSend string
  | QInvalidClaimId string
  | QReceive string

datatype wal_error =
    RecordNotFound string
  | Corrupted string
  | Backend string
  | WWrite string

datatype middleware_error =
    Execution string
  | Interrupted

datatype audit_error =
    AWrite string
  | BufferFull
  | MissingSpan

datatype shutdown_error =
    STimeout duration
  | ComponentNotFound string
  | ComponentFailed string string

datatype serialize_error =
    SerializeError string
  | DeserializeError string

datatype topic_error =
    AlreadyExists string
  | TNotFound string

datatype handler_error =
    HNotFound string
  | HError string

datatype core_error =
    EQueue queue_error
  | EWal wal_error
  | ESerdeSerialize string
  | EMiddleware middleware_error
  | EAudit audit_error
  | EShutdown shutdown_error
  | ESerialize serialize_error
  | ETopic topic_error
  | EHandler handler_error
  | EIoError string
  | EQueueSendError string
  | EInvalidParameter string
  | EInvalidData string
  | ETaskJoinError string
  | EAlreadyInitialized
  | EProcessTimeError duration
  | EErrorTime
  | ETimeout duration
  | EWorkerNotFound string
  | EUnsupported string
  | EShuttingDown
  | EOther string

type_synonym 'a result = "core_error + 'a"

end
