(* ===== verification/Message.thy ===== *)
theory Message
  imports Errors
begin

text \<open>
  \<^verbatim>\<open>event_base_core/src/message.rs\<close>, \<^verbatim>\<open>dead_letter.rs\<close> and the topic names of
  \<^verbatim>\<open>constant.rs\<close>: the message envelope, its delivery modes, its constructor and the wire
  version check. The identifier and the creation time of a new message come from outside
  (\<^verbatim>\<open>Uuid::new_v4\<close>, \<^verbatim>\<open>SystemTime::now\<close>), so the constructor takes them as arguments.
\<close>

section \<open>Topic names\<close>

definition SYSTEM_TOPIC_AUDIT :: string where "SYSTEM_TOPIC_AUDIT = ''_system.audit''"
definition SYSTEM_TOPIC_TRACE :: string where "SYSTEM_TOPIC_TRACE = ''_system.trace''"
definition SYSTEM_TOPIC_SHUTDOWN :: string where "SYSTEM_TOPIC_SHUTDOWN = ''_system.shutdown''"
definition SYSTEM_TOPIC_SHUTDOWN_ACK :: string where
  "SYSTEM_TOPIC_SHUTDOWN_ACK = ''_system.shutdown_ack''"
definition SYSTEM_TOPIC_WAL_SYNC :: string where "SYSTEM_TOPIC_WAL_SYNC = ''_system.wal_sync''"
definition SYSTEM_TOPIC_WORKER_DISCOVERY :: string where
  "SYSTEM_TOPIC_WORKER_DISCOVERY = ''_system.worker_discovery''"
definition SYSTEM_TOPIC_WORKER_HEARTBEAT :: string where
  "SYSTEM_TOPIC_WORKER_HEARTBEAT = ''_system.worker_heartbeat''"
definition SYSTEM_TOPIC_METRICS :: string where "SYSTEM_TOPIC_METRICS = ''_system.metrics''"
definition SYSTEM_TOPIC_TOPIC_DISCOVERY :: string where
  "SYSTEM_TOPIC_TOPIC_DISCOVERY = ''_system.topic_discovery''"
definition SYSTEM_TOPIC_TOPIC_SYNC :: string where
  "SYSTEM_TOPIC_TOPIC_SYNC = ''_system.topic_sync''"

lemmas system_topic_defs =
  SYSTEM_TOPIC_AUDIT_def SYSTEM_TOPIC_TRACE_def SYSTEM_TOPIC_SHUTDOWN_def
  SYSTEM_TOPIC_SHUTDOWN_ACK_def SYSTEM_TOPIC_WAL_SYNC_def SYSTEM_TOPIC_WORKER_DISCOVERY_def
  SYSTEM_TOPIC_WORKER_HEARTBEAT_def SYSTEM_TOPIC_METRICS_def SYSTEM_TOPIC_TOPIC_DISCOVERY_def
  SYSTEM_TOPIC_TOPIC_SYNC_def

definition is_system_topic :: "string \<Rightarrow> bool" where
  "is_system_topic t = starts_with t ''_system.''"


section \<open>The envelope\<close>

datatype delivery_mode =
    Standard
  | Repeated u32
  | Broadcast

record message_metadata =
  created_at :: time
  trace_id :: "string option"
  correlation_id :: "string option"
  causation_id :: "string option"
  msg_source :: "string option"

record emessage =
  msg_id :: string
  msg_topic :: string
  payload :: "u8 list"
  metadata :: message_metadata
  attempts :: u32
  delivery_mode :: delivery_mode
  consumed_count :: u32
  deliver_at :: "time option"
  to_worker :: "string option"
  version :: u32

definition CURRENT_SCHEMA_VERSION :: u32 where
  "CURRENT_SCHEMA_VERSION = 0"

definition emessage_new ::
  "string \<Rightarrow> time \<Rightarrow> string \<Rightarrow> u8 list \<Rightarrow> delivery_mode \<Rightarrow> string option \<Rightarrow> emessage" where
  "emessage_new uuid now topic pl mode target =
     \<lparr> msg_id = uuid, msg_topic = topic, payload = pl,
       metadata = \<lparr> created_at = now, trace_id = None, correlation_id = None,
                    causation_id = None, msg_source = None \<rparr>,
       attempts = 0, delivery_mode = mode, consumed_count = 0, deliver_at = None,
       to_worker = target, version = CURRENT_SCHEMA_VERSION \<rparr>"

definition emessage_default :: "time \<Rightarrow> emessage" where
  "emessage_default now =
     \<lparr> msg_id = [], msg_topic = [], payload = [],
       metadata = \<lparr> created_at = now, trace_id = None, correlation_id = None,
                    causation_id = None, msg_source = None \<rparr>,
       attempts = 0, delivery_mode = Standard, consumed_count = 0, deliver_at = None,
       to_worker = None, version = 0 \<rparr>"

definition check_wire_version :: "emessage \<Rightarrow> unit result" where
  "check_wire_version m =
     (if CURRENT_SCHEMA_VERSION < version m
      then Inl (EUnsupported (''message '' @ msg_id m @ '' uses wire version ''
             @ show_nat (unat (version m)) @ '', this node speaks ''
             @ show_nat (unat CURRENT_SCHEMA_VERSION)))
      else Inr ())"


section \<open>Dead letters\<close>

datatype dead_reason =
    MaxRetriesExceeded
  | Explicit
  | HandlerTimeout
  | NoHandler
  | OtherReason string

record dead_letter_message =
  original_message :: emessage
  dl_reason :: dead_reason
  died_at :: time
  dl_attempts :: u32

fun dead_reason_to_string :: "dead_reason \<Rightarrow> string" where
  "dead_reason_to_string MaxRetriesExceeded = ''Max Retries exceeded''"
| "dead_reason_to_string Explicit = ''Handler Explicit''"
| "dead_reason_to_string HandlerTimeout = ''Handler Timeout''"
| "dead_reason_to_string NoHandler = ''NoHandler''"
| "dead_reason_to_string (OtherReason e) = ''Handler Other Error: '' @ e"


section \<open>Acknowledgements\<close>

text \<open>\<^verbatim>\<open>handler.rs\<close>: what a handler answers.\<close>

datatype ack =
    Ack
  | NoAck "duration option" u32
  | Dead dead_reason


section \<open>Lemmas\<close>

lemma system_topics_are_system [simp]:
  "is_system_topic SYSTEM_TOPIC_AUDIT" "is_system_topic SYSTEM_TOPIC_WAL_SYNC"
  "is_system_topic SYSTEM_TOPIC_SHUTDOWN_ACK" "is_system_topic SYSTEM_TOPIC_WORKER_DISCOVERY"
  "is_system_topic SYSTEM_TOPIC_WORKER_HEARTBEAT"
  by (simp_all add: is_system_topic_def system_topic_defs)

lemma emessage_new_sel [simp]:
  "msg_id (emessage_new u n t p d w) = u"
  "msg_topic (emessage_new u n t p d w) = t"
  "payload (emessage_new u n t p d w) = p"
  "attempts (emessage_new u n t p d w) = 0"
  "consumed_count (emessage_new u n t p d w) = 0"
  "delivery_mode (emessage_new u n t p d w) = d"
  "deliver_at (emessage_new u n t p d w) = None"
  "to_worker (emessage_new u n t p d w) = w"
  "version (emessage_new u n t p d w) = CURRENT_SCHEMA_VERSION"
  by (simp_all add: emessage_new_def)

text \<open>Every reason is told apart by its text, so the audit trail identifies it.\<close>

lemma dead_reason_to_string_inj: "inj dead_reason_to_string"
proof (rule injI)
  fix r r' assume "dead_reason_to_string r = dead_reason_to_string r'"
  then show "r = r'" by (cases r; cases r') auto
qed

end
