(* ===== verification/Middleware.thy ===== *)
theory Middleware
  imports Message
begin

text \<open>
  Handlers and the middleware pipeline (\<^verbatim>\<open>event_base_core/src/handler.rs\<close>,
  \<^verbatim>\<open>event_base_core/src/middleware.rs\<close>, \<^verbatim>\<open>event_base_middleware/src/logger.rs\<close>).

  A handler reads the message through a shared reference and runs against the program's
  state \<open>'s\<close>. A middleware holds \<^verbatim>\<open>&mut EMessage\<close>, so it runs on the pair of the
  message and the state; it receives the rest of the chain as a step it may run any number
  of times. \<open>next_run\<close> is the index-based walk of \<^verbatim>\<open>Next::run\<close>; it is shown equal to the
  nesting of the middlewares around the handler, in the order they were added.
\<close>

section \<open>Definitions\<close>

type_synonym 's ehandler = "emessage \<Rightarrow> ('s, ack) act"
type_synonym 's chain = "(emessage \<times> 's, ack) act"
type_synonym 's middleware = "'s chain \<Rightarrow> 's chain"

text \<open>\<^verbatim>\<open>handler.handler(msg)\<close> called from the chain: the message is not written.\<close>

definition call_handler :: "'s ehandler \<Rightarrow> 's chain" where
  "call_handler h = (\<lambda>(m, s). case h m s of (r, s') \<Rightarrow> (r, (m, s')))"

function next_run :: "'s middleware list \<Rightarrow> 's ehandler \<Rightarrow> nat \<Rightarrow> 's chain" where
  "next_run mws h i =
     (if i < length mws then (mws ! i) (next_run mws h (i + 1)) else call_handler h)"
  by pat_completeness auto

termination
  by (relation "measure (\<lambda>(mws, h, i). length mws - i)") auto

declare next_run.simps [simp del]

record 's pipeline =
  middlewares :: "'s middleware list"
  pl_handler :: "'s ehandler"

definition pipeline_new :: "'s ehandler \<Rightarrow> 's pipeline" where
  "pipeline_new h = \<lparr>middlewares = [], pl_handler = h\<rparr>"

definition pipeline_from_arc :: "'s ehandler \<Rightarrow> 's pipeline" where
  "pipeline_from_arc h = \<lparr>middlewares = [], pl_handler = h\<rparr>"

definition pipeline_with :: "'s middleware \<Rightarrow> 's pipeline \<Rightarrow> 's pipeline" where
  "pipeline_with mw p = p\<lparr>middlewares := middlewares p @ [mw]\<rparr>"

definition pipeline_run :: "'s pipeline \<Rightarrow> 's chain" where
  "pipeline_run p = next_run (middlewares p) (pl_handler p) 0"

text \<open>
  \<^verbatim>\<open>LoggerMiddleware\<close> logs before and after the rest of the chain; the log is not part of
  the state.
\<close>

definition logger_middleware :: "'s middleware" where
  "logger_middleware next = bindA next (\<lambda>a. ret a)"


section \<open>The walk by index is the nesting of the middlewares\<close>

lemma next_run_at_end: "length mws \<le> i \<Longrightarrow> next_run mws h i = call_handler h"
  by (subst next_run.simps) simp

lemma next_run_nested:
  "i \<le> length mws \<Longrightarrow> next_run mws h i = foldr (\<lambda>mw k. mw k) (drop i mws) (call_handler h)"
proof (induction mws h i rule: next_run.induct)
  case (1 mws h i)
  show ?case
  proof (cases "i < length mws")
    case True
    with 1 show ?thesis
      by (subst next_run.simps) (simp add: Cons_nth_drop_Suc [symmetric, of i mws])
  next
    case False
    with 1(2) show ?thesis by (simp add: next_run_at_end)
  qed
qed

lemma keeps_call_handler:
  "(\<And>m. keeps (\<lambda>s. I (m, s)) (h m)) \<Longrightarrow> keeps I (call_handler h)"
  by (simp add: keeps_def call_handler_def split_def)

lemma keeps_foldr_middlewares:
  assumes "\<And>mw k. mw \<in> set mws \<Longrightarrow> keeps I k \<Longrightarrow> keeps I (mw k)" and "keeps I k"
  shows "keeps I (foldr (\<lambda>mw k. mw k) mws k)"
  using assms by (induction mws) auto

lemma logger_transparent [simp]: "logger_middleware next = next"
  by (rule ext) (simp add: logger_middleware_def bindA_def ret_def split: prod.splits outcome.splits)

text \<open>C24: running a pipeline is running the middlewares nested around the handler, the
  first one added outermost and the handler innermost; every middleware is entered at most
  through the one before it, and the walk ends for every chain.\<close>

theorem pipeline_run_nested:
  "pipeline_run p = foldr (\<lambda>mw k. mw k) (middlewares p) (call_handler (pl_handler p))"
  by (simp add: pipeline_run_def next_run_nested)

text \<open>A property of the message and the state that the handler keeps, and that every
  middleware keeps whenever the rest of the chain does, is kept by the whole pipeline,
  whatever the outcome of the run. In particular a chain of middlewares that do not write
  the message hands the caller the message it was given.\<close>

theorem pipeline_run_keeps:
  assumes "\<And>mw k. mw \<in> set (middlewares p) \<Longrightarrow> keeps I k \<Longrightarrow> keeps I (mw k)"
    and "\<And>m. keeps (\<lambda>s. I (m, s)) (pl_handler p m)"
  shows "keeps I (pipeline_run p)"
  unfolding pipeline_run_def
  by (simp add: next_run_nested keeps_foldr_middlewares keeps_call_handler assms)

text \<open>
  The logging middleware in front of a handler that counts its calls: the message is the one
  given.
\<close>

theorem pipeline_run_keeps_witness:
  "keeps (\<lambda>(m, n :: nat). m = emessage_default 0)
     (pipeline_run (pipeline_with logger_middleware (pipeline_new (\<lambda>m n. (Ret Ack, Suc n)))))"
  by (rule pipeline_run_keeps) (auto simp: pipeline_with_def pipeline_new_def keeps_def)

end
