(* ===== verification/Queue.thy ===== *)
theory Queue
  imports Message
begin

text \<open>
  The queue abstraction (\<^verbatim>\<open>event_base_core/src/queues/mod.rs\<close>) and what the in-memory
  backends share.

  The channel libraries (flume, crossfire, tokio-mpmc) are third-party code: a channel is a
  parameter, the record \<open>chan\<close> of its operations on an opaque state \<open>'q\<close>, and
  \<open>chan_fifo\<close> names what their documentation promises. The traits \<^verbatim>\<open>EProducer\<close> and
  \<^verbatim>\<open>EConsumer\<close> are records of operations, so that a trait object is a value.

  The locales \<open>claim_base\<close> and \<open>claim_requeue\<close> are the contract of a consumer: what a claim, an
  ack and a nack do to the queued and the claimed messages. The trace lemma
  \<open>run_conserves\<close> is proved once for every consumer that satisfies it. \<open>claim_source\<close> and
  \<open>claim_queue\<close> add that an acknowledgement always succeeds.
\<close>

section \<open>Channels\<close>

text \<open>
  \<open>ch_items\<close> is the specification's view of a channel's content, oldest first; no code
  calls it. \<open>ch_recv\<close> is the asynchronous receive: \<open>Inr (Some m)\<close> a message,
  \<open>Inr None\<close> and \<open>Inl\<close> the two ways the libraries report a closed channel.
\<close>

record 'q chan =
  ch_send :: "emessage \<Rightarrow> ('q, string + unit) act"
  ch_try_send :: "emessage \<Rightarrow> 'q \<Rightarrow> (string + unit) \<times> 'q"
  ch_recv :: "('q, string + emessage option) act"
  ch_try_recv :: "'q \<Rightarrow> (string + emessage) \<times> 'q"
  ch_is_full :: "'q \<Rightarrow> bool"
  ch_len :: "'q \<Rightarrow> nat"
  ch_items :: "'q \<Rightarrow> emessage list"

text \<open>
  A first-in first-out channel: a send that returns success appends, any other outcome of a
  send leaves the content alone; a receive on a channel with a message returns the oldest
  one at once, and one on an empty channel delivers nothing.
\<close>

definition chan_fifo :: "'q chan \<Rightarrow> bool" where
  "chan_fifo c \<longleftrightarrow>
     (\<forall>q m q'. ch_send c m q = (Ret (Inr ()), q') \<longrightarrow> ch_items c q' = ch_items c q @ [m]) \<and>
     (\<forall>q m r q'. ch_send c m q = (r, q') \<and> r \<noteq> Ret (Inr ()) \<longrightarrow> ch_items c q' = ch_items c q) \<and>
     (\<forall>q m q'. ch_try_send c m q = (Inr (), q') \<longrightarrow> ch_items c q' = ch_items c q @ [m]) \<and>
     (\<forall>q m e q'. ch_try_send c m q = (Inl e, q') \<longrightarrow> ch_items c q' = ch_items c q) \<and>
     (\<forall>q m ms. ch_items c q = m # ms \<longrightarrow>
        (\<exists>q'. ch_recv c q = (Ret (Inr (Some m)), q') \<and> ch_items c q' = ms) \<and>
        (\<exists>q'. ch_try_recv c q = (Inr m, q') \<and> ch_items c q' = ms)) \<and>
     (\<forall>q. ch_items c q = [] \<longrightarrow>
        (\<forall>m. fst (ch_recv c q) \<noteq> Ret (Inr (Some m))) \<and> ch_items c (snd (ch_recv c q)) = [] \<and>
        (\<exists>e q'. ch_try_recv c q = (Inl e, q') \<and> ch_items c q' = [])) \<and>
     (\<forall>q. ch_len c q = length (ch_items c q))"

text \<open>
  What a send does when there is no room: the blocking send of flume holds the thread
  (\<open>chan_blocking\<close>); the asynchronous sends of crossfire and tokio-mpmc wait
  (\<open>chan_waiting\<close>) and never hold the thread.
\<close>

definition chan_blocking :: "'q chan \<Rightarrow> bool" where
  "chan_blocking c \<longleftrightarrow>
     (\<forall>q m. ch_is_full c q \<longrightarrow> ch_send c m q = (Blocked, q)) \<and>
     (\<forall>q m. fst (ch_send c m q) \<noteq> Pending) \<and>
     (\<forall>q m. ch_is_full c q \<longrightarrow> (\<exists>e. ch_try_send c m q = (Inl e, q)))"

definition chan_waiting :: "'q chan \<Rightarrow> bool" where
  "chan_waiting c \<longleftrightarrow>
     (\<forall>q m. ch_is_full c q \<longrightarrow> ch_send c m q = (Pending, q)) \<and>
     (\<forall>q m. fst (ch_send c m q) \<noteq> Blocked)"

lemma chan_send_ok:
  "chan_fifo c \<Longrightarrow> ch_send c m q = (Ret (Inr ()), q') \<Longrightarrow> ch_items c q' = ch_items c q @ [m]"
  by (simp add: chan_fifo_def)

lemma chan_send_other:
  "chan_fifo c \<Longrightarrow> ch_send c m q = (r, q') \<Longrightarrow> r \<noteq> Ret (Inr ()) \<Longrightarrow> ch_items c q' = ch_items c q"
  by (simp add: chan_fifo_def)

lemma chan_try_send_ok:
  "chan_fifo c \<Longrightarrow> ch_try_send c m q = (Inr (), q') \<Longrightarrow> ch_items c q' = ch_items c q @ [m]"
  by (simp add: chan_fifo_def)

lemma chan_try_send_err:
  "chan_fifo c \<Longrightarrow> ch_try_send c m q = (Inl e, q') \<Longrightarrow> ch_items c q' = ch_items c q"
  by (simp add: chan_fifo_def)

lemma chan_len [simp]: "chan_fifo c \<Longrightarrow> ch_len c q = length (ch_items c q)"
  by (simp add: chan_fifo_def)

lemma chan_recv_Cons:
  assumes "chan_fifo c" and "ch_items c q = m # ms"
  obtains q' where "ch_recv c q = (Ret (Inr (Some m)), q')" and "ch_items c q' = ms"
proof -
  from assms(1) have "\<forall>q m ms. ch_items c q = m # ms \<longrightarrow>
      (\<exists>q'. ch_recv c q = (Ret (Inr (Some m)), q') \<and> ch_items c q' = ms)"
    unfolding chan_fifo_def by blast
  with assms(2) that show thesis by blast
qed

lemma chan_try_recv_Cons:
  assumes "chan_fifo c" and "ch_items c q = m # ms"
  obtains q' where "ch_try_recv c q = (Inr m, q')" and "ch_items c q' = ms"
proof -
  from assms(1) have "\<forall>q m ms. ch_items c q = m # ms \<longrightarrow>
      (\<exists>q'. ch_try_recv c q = (Inr m, q') \<and> ch_items c q' = ms)"
    unfolding chan_fifo_def by blast
  with assms(2) that show thesis by blast
qed

lemma chan_recv_Nil:
  assumes "chan_fifo c" and "ch_items c q = []"
  shows "fst (ch_recv c q) \<noteq> Ret (Inr (Some m))" and "ch_items c (snd (ch_recv c q)) = []"
proof -
  from assms(1) have "\<forall>q. ch_items c q = [] \<longrightarrow>
      (\<forall>m. fst (ch_recv c q) \<noteq> Ret (Inr (Some m))) \<and> ch_items c (snd (ch_recv c q)) = []"
    unfolding chan_fifo_def by blast
  with assms(2) show "fst (ch_recv c q) \<noteq> Ret (Inr (Some m))"
    and "ch_items c (snd (ch_recv c q)) = []" by blast+
qed

lemma chan_try_recv_Nil:
  assumes "chan_fifo c" and "ch_items c q = []"
  obtains e q' where "ch_try_recv c q = (Inl e, q')" and "ch_items c q' = []"
proof -
  from assms(1) have "\<forall>q. ch_items c q = [] \<longrightarrow>
      (\<exists>e q'. ch_try_recv c q = (Inl e, q') \<and> ch_items c q' = [])"
    unfolding chan_fifo_def by blast
  with assms(2) that show thesis by blast
qed

lemma chan_recv_Some:
  assumes "chan_fifo c" and "ch_recv c q = (Ret (Inr (Some m)), q')"
  shows "ch_items c q = m # ch_items c q'"
proof (cases "ch_items c q")
  case Nil
  with assms chan_recv_Nil(1) [OF assms(1) Nil, of m] show ?thesis by simp
next
  case (Cons m' ms)
  then obtain q1 where "ch_recv c q = (Ret (Inr (Some m')), q1)" and "ch_items c q1 = ms"
    by (rule chan_recv_Cons [OF assms(1)])
  with assms Cons show ?thesis by simp
qed

lemma chan_recv_other:
  assumes "chan_fifo c" and "ch_recv c q = (r, q')" and "\<And>m. r \<noteq> Ret (Inr (Some m))"
  shows "ch_items c q' = ch_items c q"
proof (cases "ch_items c q")
  case Nil
  with assms chan_recv_Nil(2) [OF assms(1) Nil] show ?thesis by simp
next
  case (Cons m' ms)
  then obtain q1 where "ch_recv c q = (Ret (Inr (Some m')), q1)" and "ch_items c q1 = ms"
    by (rule chan_recv_Cons [OF assms(1)])
  with assms Cons show ?thesis by auto
qed


section \<open>The traits\<close>

record claimed_message =
  cm_message :: emessage
  cm_claim_id :: string
  cm_claimed_at :: time

record 'f eproducer =
  ep_send :: "emessage \<Rightarrow> ('f, unit result) act"
  ep_try_send :: "emessage \<Rightarrow> ('f, unit result) act"
  ep_send_timeout :: "emessage \<Rightarrow> duration \<Rightarrow> ('f, unit result) act"

record 'c econsumer =
  ec_receive :: "('c, emessage option) act"
  ec_claim :: "('c, claimed_message option result) act"
  ec_claim_batch :: "nat \<Rightarrow> ('c, claimed_message list result) act"
  ec_ack :: "string \<Rightarrow> ('c, unit result) act"
  ec_nack :: "string \<Rightarrow> ('c, unit result) act"
  ec_claim_stale :: "duration \<Rightarrow> ('c, claimed_message list result) act"

text \<open>The default methods of \<^verbatim>\<open>EConsumer\<close>; \<open>claim_loop\<close> is the \<^verbatim>\<open>for\<close> loop with its batch.\<close>

fun claim_loop :: "('c, claimed_message option result) act \<Rightarrow> nat \<Rightarrow> claimed_message list
    \<Rightarrow> ('c, claimed_message list result) act" where
  "claim_loop claim 0 batch = ret (Inr batch)"
| "claim_loop claim (Suc n) batch =
     bindQ claim (\<lambda>r. case r of
         Some cm \<Rightarrow> claim_loop claim n (batch @ [cm])
       | None \<Rightarrow> ret (Inr batch))"

definition default_claim_batch :: "('c, claimed_message option result) act \<Rightarrow> nat
    \<Rightarrow> ('c, claimed_message list result) act" where
  "default_claim_batch claim n = claim_loop claim n []"

definition default_claim_stale :: "duration \<Rightarrow> ('c, claimed_message list result) act" where
  "default_claim_stale min_idle = ret (Inr [])"


section \<open>The contract of a producer\<close>

text \<open>
  A producer of one queue: a send that reports success has appended the message, and no
  other outcome changes the queue.
\<close>

locale queue_producer =
  fixes prod :: "'f eproducer"
    and pinv :: "'f \<Rightarrow> bool"
    and items :: "'f \<Rightarrow> emessage list"
  assumes send_pinv: "keeps pinv (ep_send prod m)"
    and try_send_pinv: "keeps pinv (ep_try_send prod m)"
    and send_timeout_pinv: "keeps pinv (ep_send_timeout prod m d)"
    and send_ok: "pinv f \<Longrightarrow> ep_send prod m f = (Ret (Inr ()), f') \<Longrightarrow> items f' = items f @ [m]"
    and send_other: "pinv f \<Longrightarrow> ep_send prod m f = (r, f') \<Longrightarrow> r \<noteq> Ret (Inr ()) \<Longrightarrow>
          items f' = items f"
    and try_send_ok: "pinv f \<Longrightarrow> ep_try_send prod m f = (Ret (Inr ()), f') \<Longrightarrow>
          items f' = items f @ [m]"
    and try_send_other: "pinv f \<Longrightarrow> ep_try_send prod m f = (r, f') \<Longrightarrow> r \<noteq> Ret (Inr ()) \<Longrightarrow>
          items f' = items f"
    and send_timeout_ok: "pinv f \<Longrightarrow> ep_send_timeout prod m d f = (Ret (Inr ()), f') \<Longrightarrow>
          items f' = items f @ [m]"
    and send_timeout_other: "pinv f \<Longrightarrow> ep_send_timeout prod m d f = (r, f') \<Longrightarrow>
          r \<noteq> Ret (Inr ()) \<Longrightarrow> items f' = items f"
begin

text \<open>
  Sending a list of messages in order: what has been appended is a prefix of the list, the
  whole of it if the loop succeeds.
\<close>

lemma send_all:
  assumes "pinv f" and "forQ (ep_send prod) ms f = (r, f')"
  shows "\<exists>sent rest. ms = sent @ rest \<and> items f' = items f @ sent \<and>
     (r = Ret (Inr ()) \<longleftrightarrow> rest = [])"
  using assms
proof (induction ms arbitrary: f)
  case Nil
  then show ?case by (simp add: ret_def)
next
  case (Cons m ms)
  obtain v f1 where v: "ep_send prod m f = (v, f1)" by fastforce
  show ?case
  proof (cases "v = Ret (Inr ())")
    case True
    have "pinv f1" using keepsD [OF send_pinv Cons.prems(1), of m] v by simp
    moreover have "forQ (ep_send prod) ms f1 = (r, f')"
      using Cons.prems(2) v True by (simp add: bindQ_Inr)
    ultimately obtain sent rest where "ms = sent @ rest" "items f' = items f1 @ sent"
        "r = Ret (Inr ()) \<longleftrightarrow> rest = []"
      using Cons.IH by blast
    moreover have "items f1 = items f @ [m]" using send_ok Cons.prems(1) v True by simp
    ultimately show ?thesis by (intro exI [of _ "m # sent"] exI [of _ rest]) simp
  next
    case False
    then have "r \<noteq> Ret (Inr ())" and "f' = f1"
      using Cons.prems(2) v
      by (auto simp: bindQ_def bindA_def ret_def split: outcome.splits sum.splits)
    moreover have "items f1 = items f" using send_other Cons.prems(1) v False by blast
    ultimately show ?thesis by (intro exI [of _ "[]"] exI [of _ "m # ms"]) simp
  qed
qed

end


text \<open>A producer whose queue has room and a reader: every send succeeds.\<close>

locale open_producer = queue_producer +
  assumes send_accepts: "pinv f \<Longrightarrow> \<exists>f'. ep_send prod m f = (Ret (Inr ()), f')"
    and try_send_accepts: "pinv f \<Longrightarrow> \<exists>f'. ep_try_send prod m f = (Ret (Inr ()), f')"
    and send_timeout_accepts: "pinv f \<Longrightarrow> \<exists>f'. ep_send_timeout prod m d f = (Ret (Inr ()), f')"


section \<open>The contract of a consumer\<close>

text \<open>
  The operations a client performs on a consumer, and a run of a sequence of them. The run
  also collects the messages that were acknowledged and the messages that were received
  without a claim: those have left the queue for good.
\<close>

datatype consumer_op = OpReceive | OpClaim | OpAck string | OpNack string

fun consumer_step :: "'c econsumer \<Rightarrow> ('c \<Rightarrow> (string, emessage) hashmap) \<Rightarrow> consumer_op
    \<Rightarrow> 'c \<times> emessage multiset \<Rightarrow> 'c \<times> emessage multiset" where
  "consumer_step ops inflight OpReceive (c, d) =
     (case ec_receive ops c of
        (Ret (Some m), c') \<Rightarrow> (c', add_mset m d)
      | (_, c') \<Rightarrow> (c', d))"
| "consumer_step ops inflight OpClaim (c, d) = (snd (ec_claim ops c), d)"
| "consumer_step ops inflight (OpAck k) (c, d) =
     (snd (ec_ack ops k c),
      case hm_get (inflight c) k of None \<Rightarrow> d | Some m \<Rightarrow> add_mset m d)"
| "consumer_step ops inflight (OpNack k) (c, d) = (snd (ec_nack ops k c), d)"

definition consumer_run :: "'c econsumer \<Rightarrow> ('c \<Rightarrow> (string, emessage) hashmap) \<Rightarrow> consumer_op list
    \<Rightarrow> 'c \<Rightarrow> 'c \<times> emessage multiset" where
  "consumer_run ops inflight os c = fold (consumer_step ops inflight) os (c, {#})"

text \<open>
  What an acknowledgement answers is left open in the base contract: the store in Redis
  refuses an unknown claim, the in-memory backends do not.
\<close>

locale claim_base =
  fixes ops :: "'c econsumer"
    and inv :: "'c \<Rightarrow> bool"
    and queued :: "'c \<Rightarrow> emessage list"
    and inflight :: "'c \<Rightarrow> (string, emessage) hashmap"
  assumes inflight_wf: "inv c \<Longrightarrow> hm_wf (inflight c)"
    and receive_inv: "keeps inv (ec_receive ops)"
    and claim_inv: "keeps inv (ec_claim ops)"
    and ack_inv: "keeps inv (ec_ack ops k)"
    and nack_inv: "keeps inv (ec_nack ops k)"
    and receive_Some: "inv c \<Longrightarrow> ec_receive ops c = (Ret (Some m), c') \<Longrightarrow>
          queued c = m # queued c' \<and> inflight c' = inflight c"
    and receive_other: "inv c \<Longrightarrow> ec_receive ops c = (v, c') \<Longrightarrow> (\<And>m. v \<noteq> Ret (Some m)) \<Longrightarrow>
          queued c' = queued c \<and> inflight c' = inflight c"
    and claim_Some: "inv c \<Longrightarrow> ec_claim ops c = (Ret (Inr (Some cm)), c') \<Longrightarrow>
          queued c = cm_message cm # queued c' \<and> hm_get (inflight c) (cm_claim_id cm) = None \<and>
          inflight c' = hm_insert (cm_claim_id cm) (cm_message cm) (inflight c)"
    and claim_other: "inv c \<Longrightarrow> ec_claim ops c = (r, c') \<Longrightarrow> (\<And>cm. r \<noteq> Ret (Inr (Some cm))) \<Longrightarrow>
          queued c' = queued c \<and> inflight c' = inflight c"
    and ack_state: "inv c \<Longrightarrow> queued (snd (ec_ack ops k c)) = queued c \<and>
          inflight (snd (ec_ack ops k c)) = hm_remove k (inflight c)"
begin

definition held :: "'c \<Rightarrow> emessage multiset" where
  "held c = mset (queued c) + mset (hm_values (inflight c))"

lemma receive_held:
  assumes "inv c" and "ec_receive ops c = (r, c')"
  shows "held c = held c' + (case r of Ret (Some m) \<Rightarrow> {#m#} | _ \<Rightarrow> {#})"
proof (cases "\<exists>m. r = Ret (Some m)")
  case True
  with receive_Some [OF assms(1)] assms(2) show ?thesis by (auto simp: held_def)
next
  case False
  with receive_other [OF assms] show ?thesis
    by (auto simp: held_def split: outcome.splits option.splits)
qed

lemma claim_held:
  assumes "inv c"
  shows "held (snd (ec_claim ops c)) = held c"
proof (cases "ec_claim ops c")
  case (Pair r c')
  show ?thesis
  proof (cases "\<exists>cm. r = Ret (Inr (Some cm))")
    case True
    with claim_Some [OF assms] Pair show ?thesis
      by (auto simp: held_def hm_values_insert_fresh)
  next
    case False
    with claim_other [OF assms Pair] Pair show ?thesis by (auto simp: held_def)
  qed
qed

lemma ack_held:
  assumes "inv c"
  shows "held c = held (snd (ec_ack ops k c)) +
           (case hm_get (inflight c) k of None \<Rightarrow> {#} | Some m \<Rightarrow> {#m#})"
proof -
  define c' where "c' = snd (ec_ack ops k c)"
  then have c': "snd (ec_ack ops k c) = c'" "queued c' = queued c" "inflight c' = hm_remove k (inflight c)"
    using ack_state [OF assms, of k] by simp_all
  show ?thesis
  proof (cases "hm_get (inflight c) k")
    case None
    with c' show ?thesis by (simp add: held_def)
  next
    case (Some m)
    with c' hm_values_remove [OF inflight_wf [OF assms] Some] show ?thesis by (simp add: held_def)
  qed
qed

end

locale claim_requeue = claim_base +
  assumes nack_ok: "inv c \<Longrightarrow> ec_nack ops k c = (Ret (Inr ()), c') \<Longrightarrow>
      \<exists>m. hm_get (inflight c) k = Some m \<and> queued c' = queued c @ [m] \<and>
          inflight c' = hm_remove k (inflight c)"
    and nack_other: "inv c \<Longrightarrow> ec_nack ops k c = (r, c') \<Longrightarrow> r \<noteq> Ret (Inr ()) \<Longrightarrow>
      queued c' = queued c \<and> inflight c' = inflight c"
begin

lemma nack_held:
  assumes "inv c"
  shows "held (snd (ec_nack ops k c)) = held c"
proof (cases "ec_nack ops k c")
  case (Pair r c')
  show ?thesis
  proof (cases "r = Ret (Inr ())")
    case True
    with nack_ok [OF assms, of k c'] Pair obtain m where
      m: "hm_get (inflight c) k = Some m" "queued c' = queued c @ [m]"
        "inflight c' = hm_remove k (inflight c)" by auto
    with hm_values_remove [OF inflight_wf [OF assms] m(1)] Pair show ?thesis
      by (simp add: held_def)
  next
    case False
    with nack_other [OF assms Pair] Pair show ?thesis by (simp add: held_def)
  qed
qed

lemma step_conserves:
  assumes "inv c"
  shows "inv (fst (consumer_step ops inflight x (c, d))) \<and>
         held (fst (consumer_step ops inflight x (c, d))) +
           snd (consumer_step ops inflight x (c, d)) = held c + d"
proof (cases x)
  case OpReceive
  obtain r c' where r: "ec_receive ops c = (r, c')" by fastforce
  with keepsD [OF receive_inv assms] receive_held [OF assms r] OpReceive show ?thesis
    by (auto split: outcome.splits option.splits)
next
  case OpClaim
  with keepsD [OF claim_inv assms] claim_held [OF assms] show ?thesis by simp
next
  case (OpAck k)
  with keepsD [OF ack_inv assms] ack_held [OF assms, of k] show ?thesis
    by (auto split: option.splits)
next
  case (OpNack k)
  with keepsD [OF nack_inv assms] nack_held [OF assms] show ?thesis by simp
qed

lemma run_conserves_from:
  "inv c \<Longrightarrow> (case fold (consumer_step ops inflight) os (c, d) of
     (c', d') \<Rightarrow> inv c' \<and> held c' + d' = held c + d)"
proof (induction os arbitrary: c d)
  case (Cons x os)
  obtain c1 d1 where x: "consumer_step ops inflight x (c, d) = (c1, d1)" by fastforce
  with step_conserves [OF Cons.prems, of x d] have "inv c1" and "held c1 + d1 = held c + d"
    by simp_all
  with Cons.IH [of c1 d1] x show ?case by auto
qed simp

text \<open>Over any sequence of operations every message is queued, claimed, or left for good.\<close>

lemma run_conserves:
  assumes "inv c"
  shows "mset (queued c) + mset (hm_values (inflight c)) =
     mset (queued (fst (consumer_run ops inflight os c))) +
     mset (hm_values (inflight (fst (consumer_run ops inflight os c)))) +
     snd (consumer_run ops inflight os c)"
  using run_conserves_from [OF assms, of "{#}" os]
  by (auto simp: consumer_run_def held_def split: prod.splits)

end

text \<open>The in-memory backends accept every acknowledgement.\<close>

locale claim_source = claim_base +
  assumes ack_ok: "inv c \<Longrightarrow> \<exists>c'. ec_ack ops k c = (Ret (Inr ()), c')"
begin

lemma ack_spec:
  assumes "inv c"
  shows "\<exists>c'. ec_ack ops k c = (Ret (Inr ()), c') \<and>
     queued c' = queued c \<and> inflight c' = hm_remove k (inflight c)"
  using ack_ok [OF assms, of k] ack_state [OF assms, of k] by auto

end

locale claim_queue = claim_source + claim_requeue

end
