(* ===== verification/Queue_Memory.thy ===== *)
theory Queue_Memory
  imports Queue
begin

text \<open>
  What the three in-memory backends share: a channel handle (\<open>link\<close>), the state of a consumer
  with its map of claimed messages, the registration of a claim, and the invariant of that
  state. A producer and a consumer of the same queue hold the same channel, so a consumer's
  state extends the link. The channel \<open>list_chan\<close> is an instance of the channel parameter,
  on which the hypotheses about channels are shown to hold together.
\<close>

section \<open>State\<close>

record 'q link =
  ln_chan :: "'q chan"
  ln_q :: 'q

record 'q mem_consumer = "'q link" +
  mc_pending :: "(string, emessage) hashmap"
  mc_amb :: ambient

definition on_q :: "('q chan \<Rightarrow> ('q, 'a) act) \<Rightarrow> (('q, 'z) link_scheme, 'a) act" where
  "on_q f l = (case f (ln_chan l) (ln_q l) of (r, q') \<Rightarrow> (r, l\<lparr>ln_q := q'\<rparr>))"

text \<open>
  The insertion of a claim: a new identifier, the entry in \<^verbatim>\<open>pending\<close>, and the claimed
  message stamped with the current time.
\<close>

definition register_claim :: "emessage \<Rightarrow> ('q mem_consumer, claimed_message) act" where
  "register_claim m c =
     (let (k, a) = new_uuid (mc_amb c);
          (t, a') = read_clock a
      in (Ret \<lparr>cm_message = m, cm_claim_id = k, cm_claimed_at = t\<rparr>,
          c\<lparr>mc_pending := hm_insert k m (mc_pending c), mc_amb := a'\<rparr>))"

definition try_recv_step :: "(('q, 'z) link_scheme, string + emessage) act" where
  "try_recv_step = on_q (\<lambda>ch q. case ch_try_recv ch q of (r, q') \<Rightarrow> (Ret r, q'))"

definition link_inv :: "('q, 'z) link_scheme \<Rightarrow> bool" where
  "link_inv l = chan_fifo (ln_chan l)"

definition mem_inv :: "'q mem_consumer \<Rightarrow> bool" where
  "mem_inv c \<longleftrightarrow>
     link_inv c \<and> hm_wf (mc_pending c) \<and> uuids_unique (mc_amb c) \<and>
     (\<forall>k \<in> set (hm_keys (mc_pending c)). uuid_used (mc_amb c) k)"

text \<open>An unbounded channel with a live receiver takes every message.\<close>

definition chan_accepting :: "'q chan \<Rightarrow> bool" where
  "chan_accepting c \<longleftrightarrow> (\<forall>m q. (\<exists>q'. ch_send c m q = (Ret (Inr ()), q')) \<and>
     (\<exists>q'. ch_try_send c m q = (Inr (), q')))"

definition open_link :: "('q, 'z) link_scheme \<Rightarrow> bool" where
  "open_link l \<longleftrightarrow> link_inv l \<and> chan_accepting (ln_chan l)"

definition link_items :: "('q, 'z) link_scheme \<Rightarrow> emessage list" where
  "link_items l = ch_items (ln_chan l) (ln_q l)"

definition mem_consumer_new :: "('q, 'z) link_scheme \<Rightarrow> ambient \<Rightarrow> 'q mem_consumer" where
  "mem_consumer_new l a = \<lparr>ln_chan = ln_chan l, ln_q = ln_q l, mc_pending = [], mc_amb = a\<rparr>"


section \<open>Shared lemmas\<close>

lemma link_inv_upd [simp]:
  "link_inv (l\<lparr>ln_q := q\<rparr>) = link_inv l"
  "link_inv (c\<lparr>mc_pending := p\<rparr>) = link_inv c"
  "link_inv (c\<lparr>mc_amb := a\<rparr>) = link_inv c"
  by (simp_all add: link_inv_def)

lemma link_items_upd [simp]:
  "link_items (l\<lparr>ln_q := q\<rparr>) = ch_items (ln_chan l) q"
  "link_items (c\<lparr>mc_pending := p\<rparr>) = link_items c"
  "link_items (c\<lparr>mc_amb := a\<rparr>) = link_items c"
  by (simp_all add: link_items_def)

lemma mem_inv_q [simp]: "mem_inv (c\<lparr>ln_q := q\<rparr>) = mem_inv c"
  by (simp add: mem_inv_def)

lemma on_q_eq: "f (ln_chan l) (ln_q l) = (r, q') \<Longrightarrow> on_q f l = (r, l\<lparr>ln_q := q'\<rparr>)"
  by (simp add: on_q_def)

lemma keeps_on_q [keeps_intros]: "(\<And>s q. I (s\<lparr>ln_q := q\<rparr>) = I s) \<Longrightarrow> keeps I (on_q f)"
  by (simp add: keeps_def on_q_def split: prod.splits)

lemma snd_on_q: "snd (on_q f l) = l\<lparr>ln_q := snd (f (ln_chan l) (ln_q l))\<rparr>"
  by (simp add: on_q_def split: prod.splits)

lemma fst_on_q: "fst (on_q f l) = fst (f (ln_chan l) (ln_q l))"
  by (simp add: on_q_def split: prod.splits)

lemma register_claim_app:
  "register_claim m c =
     (Ret \<lparr>cm_message = m, cm_claim_id = uuid_src (mc_amb c) (uuid_next (mc_amb c)),
           cm_claimed_at = clock_src (mc_amb c) (clock_next (mc_amb c))\<rparr>,
      c\<lparr>mc_pending := hm_insert (uuid_src (mc_amb c) (uuid_next (mc_amb c))) m (mc_pending c),
        mc_amb := snd (read_clock (snd (new_uuid (mc_amb c))))\<rparr>)"
  by (simp add: register_claim_def split_def)

lemma mem_inv_fresh:
  assumes "mem_inv c"
  shows "hm_get (mc_pending c) (uuid_src (mc_amb c) (uuid_next (mc_amb c))) = None"
  using assms new_uuid_fresh [of "mc_amb c"] by (auto simp: mem_inv_def map_of_eq_None_iff)

lemma mem_inv_register:
  assumes "mem_inv c"
  shows "mem_inv (c\<lparr>mc_pending := hm_insert (uuid_src (mc_amb c) (uuid_next (mc_amb c))) m
      (mc_pending c), mc_amb := snd (read_clock (snd (new_uuid (mc_amb c))))\<rparr>)"
  using assms by (auto simp: mem_inv_def)

lemma keeps_register_claim [keeps_intros]: "keeps mem_inv (register_claim m)"
  by (rule keepsI) (simp add: register_claim_app mem_inv_register)

lemma mem_inv_remove: "mem_inv c \<Longrightarrow> mem_inv (c\<lparr>mc_pending := hm_remove k (mc_pending c)\<rparr>)"
  by (auto simp: mem_inv_def)

lemma mem_inv_new: "link_inv l \<Longrightarrow> uuids_unique a \<Longrightarrow> mem_inv (mem_consumer_new l a)"
  by (simp add: mem_inv_def mem_consumer_new_def link_inv_def)


section \<open>Batches of claims\<close>

text \<open>
  The specification of a batch: the claimed messages are the oldest ones, in order, each is
  in \<^verbatim>\<open>pending\<close> under its own claim identifier, none of which was in use.
\<close>

definition batch_claimed :: "'q mem_consumer \<Rightarrow> claimed_message list \<Rightarrow> 'q mem_consumer \<Rightarrow> bool" where
  "batch_claimed c cms c' \<longleftrightarrow>
     mem_inv c' \<and> link_items c = map cm_message cms @ link_items c' \<and>
     mc_pending c' = fold (\<lambda>cm. hm_insert (cm_claim_id cm) (cm_message cm)) cms (mc_pending c) \<and>
     distinct (map cm_claim_id cms) \<and>
     (\<forall>cm \<in> set cms. hm_get (mc_pending c) (cm_claim_id cm) = None)"

lemma batch_claimed_Nil:
  "mem_inv c \<Longrightarrow> link_items c = ch_items (ln_chan c) q \<Longrightarrow> batch_claimed c [] (c\<lparr>ln_q := q\<rparr>)"
  by (simp add: batch_claimed_def)

lemma batch_claimed_same: "mem_inv c \<Longrightarrow> batch_claimed c [] c"
  by (simp add: batch_claimed_def)

lemma batch_claimed_Cons:
  assumes "mem_inv c" and "link_items c = m # ch_items (ln_chan c) q"
    and reg: "register_claim m (c\<lparr>ln_q := q\<rparr>) = (Ret cm, c1)"
    and batch: "batch_claimed c1 cms c'"
  shows "batch_claimed c (cm # cms) c'"
proof -
  from reg have cm: "cm_message cm = m" and fresh: "hm_get (mc_pending c) (cm_claim_id cm) = None"
    and c1: "mc_pending c1 = hm_insert (cm_claim_id cm) m (mc_pending c)"
      "link_items c1 = ch_items (ln_chan c) q"
    using mem_inv_fresh [OF assms(1)] by (auto simp: register_claim_app)
  from batch c1 have new: "\<forall>x \<in> set cms. cm_claim_id x \<noteq> cm_claim_id cm \<and>
      hm_get (mc_pending c) (cm_claim_id x) = None"
    by (auto simp: batch_claimed_def split: if_splits)
  with assms(2) batch cm fresh c1 show ?thesis
    by (auto simp: batch_claimed_def)
qed

lemma batch_claimed_take:
  assumes "batch_claimed c cms c'" and "length cms = min n (length (link_items c))"
  shows "map cm_message cms = take n (link_items c)" and "link_items c' = drop n (link_items c)"
  using assms by (auto simp: batch_claimed_def min_def split: if_splits)

lemma fold_claims_get:
  "distinct (map cm_claim_id cms) \<Longrightarrow> cm \<in> set cms \<Longrightarrow>
   hm_get (fold (\<lambda>cm. hm_insert (cm_claim_id cm) (cm_message cm)) cms p) (cm_claim_id cm) =
     Some (cm_message cm)"
proof (induction cms arbitrary: p)
  case (Cons x cms)
  have other: "hm_get (fold (\<lambda>cm. hm_insert (cm_claim_id cm) (cm_message cm)) cms p) k = hm_get p k"
    if "k \<notin> cm_claim_id ` set cms" for k p
    using that by (induction cms arbitrary: p) auto
  show ?case
    using Cons other [of "cm_claim_id x"] by (cases "cm = x") auto
qed simp

lemma batch_claimed_pending:
  "batch_claimed c cms c' \<Longrightarrow> cm \<in> set cms \<Longrightarrow>
     hm_get (mc_pending c') (cm_claim_id cm) = Some (cm_message cm)"
  by (simp add: batch_claimed_def fold_claims_get)

lemma register_claim_inv: "mem_inv c \<Longrightarrow> register_claim m c = (r, c1) \<Longrightarrow> mem_inv c1"
  using keepsD [OF keeps_register_claim, of c m] by simp

lemma register_claim_Ret: "\<exists>cm c1. register_claim m c = (Ret cm, c1)"
  by (simp add: register_claim_app)


section \<open>An instance of the channel parameter\<close>

text \<open>
  A list with an optional capacity. With \<open>hold\<close> a send to a full channel holds the thread,
  without it the send waits; \<open>shut\<close> marks a channel whose other side is gone.
\<close>

record list_q =
  lq_items :: "emessage list"
  lq_cap :: "nat option"
  lq_shut :: bool

definition lq_full :: "list_q \<Rightarrow> bool" where
  "lq_full q = (case lq_cap q of None \<Rightarrow> False | Some n \<Rightarrow> n \<le> length (lq_items q))"

definition list_chan :: "bool \<Rightarrow> list_q chan" where
  "list_chan hold =
     \<lparr>ch_send = (\<lambda>m q.
        if lq_full q then (if hold then Blocked else Pending, q)
        else if lq_shut q then (Ret (Inl ''closed''), q)
        else (Ret (Inr ()), q\<lparr>lq_items := lq_items q @ [m]\<rparr>)),
      ch_try_send = (\<lambda>m q.
        if lq_full q then (Inl ''full'', q)
        else if lq_shut q then (Inl ''closed'', q)
        else (Inr (), q\<lparr>lq_items := lq_items q @ [m]\<rparr>)),
      ch_recv = (\<lambda>q. case lq_items q of
          [] \<Rightarrow> (if lq_shut q then Ret (Inl ''closed'') else Pending, q)
        | m # ms \<Rightarrow> (Ret (Inr (Some m)), q\<lparr>lq_items := ms\<rparr>)),
      ch_try_recv = (\<lambda>q. case lq_items q of
          [] \<Rightarrow> (Inl ''empty'', q)
        | m # ms \<Rightarrow> (Inr m, q\<lparr>lq_items := ms\<rparr>)),
      ch_is_full = lq_full,
      ch_len = (\<lambda>q. length (lq_items q)),
      ch_items = lq_items\<rparr>"

definition list_link :: "bool \<Rightarrow> nat option \<Rightarrow> emessage list \<Rightarrow> list_q link" where
  "list_link hold cap ms =
     \<lparr>ln_chan = list_chan hold, ln_q = \<lparr>lq_items = ms, lq_cap = cap, lq_shut = False\<rparr>\<rparr>"

text \<open>An ambient whose identifiers are the numerals \<open>a\<close>, \<open>aa\<close>, \<open>aaa\<close>, \<dots>\<close>

definition unary_ambient :: ambient where
  "unary_ambient = \<lparr>uuid_src = (\<lambda>n. replicate (Suc n) CHR ''a''), uuid_next = 0,
     clock_src = int, clock_next = 0\<rparr>"

lemma list_chan_fifo [simp]: "chan_fifo (list_chan hold)"
  by (auto simp: chan_fifo_def list_chan_def split: list.splits if_splits)

lemma list_chan_items [simp]: "ch_items (list_chan hold) = lq_items"
  by (simp add: list_chan_def)

lemma list_chan_blocking [simp]: "chan_blocking (list_chan True)"
  by (auto simp: chan_blocking_def list_chan_def)

lemma list_chan_waiting [simp]: "chan_waiting (list_chan False)"
  by (auto simp: chan_waiting_def list_chan_def)

lemma list_link_inv [simp]: "link_inv (list_link hold cap ms)"
  by (simp add: link_inv_def list_link_def)

lemma list_link_items [simp]: "link_items (list_link hold cap ms) = ms"
  by (simp add: link_items_def list_link_def list_chan_def)

lemma unary_ambient_unique [simp]: "uuids_unique unary_ambient"
  by (auto simp: uuids_unique_def unary_ambient_def inj_def)

definition list_consumer :: "bool \<Rightarrow> nat option \<Rightarrow> emessage list \<Rightarrow> list_q mem_consumer" where
  "list_consumer hold cap ms = mem_consumer_new (list_link hold cap ms) unary_ambient"

lemma list_consumer_simps [simp]:
  "mem_inv (list_consumer hold cap ms)"
  "link_items (list_consumer hold cap ms) = ms"
  "mc_pending (list_consumer hold cap ms) = []"
  "ln_chan (list_consumer hold cap ms) = list_chan hold"
  "ch_is_full (list_chan hold) (ln_q (list_consumer hold (Some n) ms)) = (n \<le> length ms)"
  by (simp_all add: list_consumer_def mem_inv_new)
    (simp_all add: mem_consumer_new_def link_items_def list_link_def list_chan_def lq_full_def)

text \<open>An unbounded list channel whose receiver stays.\<close>

definition open_chan :: "emessage list chan" where
  "open_chan =
     \<lparr>ch_send = (\<lambda>m q. (Ret (Inr ()), q @ [m])), ch_try_send = (\<lambda>m q. (Inr (), q @ [m])),
      ch_recv = (\<lambda>q. case q of [] \<Rightarrow> (Pending, q) | m # ms \<Rightarrow> (Ret (Inr (Some m)), ms)),
      ch_try_recv = (\<lambda>q. case q of [] \<Rightarrow> (Inl ''empty'', q) | m # ms \<Rightarrow> (Inr m, ms)),
      ch_is_full = (\<lambda>q. False), ch_len = length, ch_items = (\<lambda>q. q)\<rparr>"

definition open_list_link :: "emessage list \<Rightarrow> emessage list link" where
  "open_list_link ms = \<lparr>ln_chan = open_chan, ln_q = ms\<rparr>"

lemma open_list_link_simps [simp]:
  "open_link (open_list_link ms)" "link_items (open_list_link ms) = ms"
  "link_inv (open_list_link ms)"
  by (auto simp: open_link_def link_inv_def link_items_def open_list_link_def chan_fifo_def
      chan_accepting_def open_chan_def split: list.splits)

end
