(* ===== verification/Queue_Flume.thy ===== *)
theory Queue_Flume
  imports Queue_Memory
begin

text \<open>
  The flume backend (\<^verbatim>\<open>event_base_queue/src/flume.rs\<close>): producer, consumer and factories.
  The producer's \<^verbatim>\<open>send\<close> calls flume's blocking \<^verbatim>\<open>Sender::send\<close> inside an \<^verbatim>\<open>async fn\<close>.
\<close>

section \<open>Producer\<close>

definition flume_send :: "emessage \<Rightarrow> (('q, 'z) link_scheme, unit result) act" where
  "flume_send e =
     bindA (on_q (\<lambda>ch. ch_send ch e)) (\<lambda>r. case r of
         Inl err \<Rightarrow> ret (Inl (EQueue (QSend err)))
       | Inr _ \<Rightarrow> ret (Inr ()))"

definition flume_try_send :: "emessage \<Rightarrow> (('q, 'z) link_scheme, unit result) act" where
  "flume_try_send m =
     bindA (on_q (\<lambda>ch q. case ch_try_send ch m q of (r, q') \<Rightarrow> (Ret r, q'))) (\<lambda>r. case r of
         Inl _ \<Rightarrow> ret (Inl (EQueue QFull))
       | Inr _ \<Rightarrow> ret (Inr ()))"

definition flume_send_timeout ::
    "emessage \<Rightarrow> duration \<Rightarrow> (('q, 'z) link_scheme, unit result) act" where
  "flume_send_timeout m timeout =
     bindA (timeoutA (flume_send m)) (\<lambda>r. case r of
         Inl elapsed \<Rightarrow> ret (Inl (EQueue QTimeout))
       | Inr inner \<Rightarrow> ret inner)"

definition flume_producer :: "('q, 'z) link_scheme eproducer" where
  "flume_producer =
     \<lparr>ep_send = flume_send, ep_try_send = flume_try_send, ep_send_timeout = flume_send_timeout\<rparr>"


section \<open>Consumer\<close>

definition flume_receive :: "('q mem_consumer, emessage option) act" where
  "flume_receive =
     bindA (on_q ch_recv) (\<lambda>msg. case msg of
         Inr (Some m) \<Rightarrow> ret (Some m)
       | _ \<Rightarrow> ret None)"

definition flume_claim :: "('q mem_consumer, claimed_message option result) act" where
  "flume_claim =
     bindA (on_q ch_recv) (\<lambda>msg. case msg of
         Inr (Some m) \<Rightarrow> bindA (register_claim m) (\<lambda>cm. ret (Inr (Some cm)))
       | _ \<Rightarrow> ret (Inr None))"

fun flume_batch_loop :: "nat \<Rightarrow> claimed_message list
    \<Rightarrow> ('q mem_consumer, claimed_message list result) act" where
  "flume_batch_loop 0 batch = ret (Inr batch)"
| "flume_batch_loop (Suc n) batch =
     bindA try_recv_step (\<lambda>r. case r of
         Inr m \<Rightarrow> bindA (register_claim m) (\<lambda>cm. flume_batch_loop n (batch @ [cm]))
       | Inl _ \<Rightarrow> ret (Inr batch))"

definition flume_claim_batch :: "nat \<Rightarrow> ('q mem_consumer, claimed_message list result) act" where
  "flume_claim_batch n = (if n = 0 then ret (Inr []) else flume_batch_loop n [])"

definition flume_ack :: "string \<Rightarrow> ('q mem_consumer, unit result) act" where
  "flume_ack claim_id =
     bindA (putA (\<lambda>c. c\<lparr>mc_pending := hm_remove claim_id (mc_pending c)\<rparr>)) (\<lambda>_. ret (Inr ()))"

definition flume_nack :: "string \<Rightarrow> ('q mem_consumer, unit result) act" where
  "flume_nack claim_id =
     bindA (getA (\<lambda>c. hm_get (mc_pending c) claim_id)) (\<lambda>p. case p of
         Some msg \<Rightarrow>
           bindA (on_q (\<lambda>ch. ch_send ch msg)) (\<lambda>r. case r of
               Inl e \<Rightarrow> ret (Inl (EQueue (QSend e)))
             | Inr _ \<Rightarrow>
                 bindA (putA (\<lambda>c. c\<lparr>mc_pending := hm_remove claim_id (mc_pending c)\<rparr>))
                   (\<lambda>_. ret (Inr ())))
       | None \<Rightarrow> ret (Inl (EQueue (QInvalidClaimId claim_id))))"

definition flume_consumer :: "'q mem_consumer econsumer" where
  "flume_consumer =
     \<lparr>ec_receive = flume_receive, ec_claim = flume_claim, ec_claim_batch = flume_claim_batch,
      ec_ack = flume_ack, ec_nack = flume_nack, ec_claim_stale = default_claim_stale\<rparr>"


section \<open>Factories\<close>

text \<open>
  The factory opens one channel (\<^verbatim>\<open>flume::bounded\<close> or \<^verbatim>\<open>flume::unbounded\<close>, parameters) and
  gives handles of that channel to every topic.
\<close>

definition flume_queue_factory_new :: "(nat \<Rightarrow> 'q link) \<Rightarrow> 'q link \<Rightarrow> nat \<Rightarrow> 'q link" where
  "flume_queue_factory_new bounded unbounded capacity =
     (if 0 < capacity then bounded capacity else unbounded)"

definition flume_memory_queue :: "(nat \<Rightarrow> 'q link) \<Rightarrow> 'q link \<Rightarrow> nat \<Rightarrow> ambient
    \<Rightarrow> 'q link eproducer \<times> 'q mem_consumer" where
  "flume_memory_queue bounded unbounded capacity a =
     (flume_producer,
      mem_consumer_new (if 0 < capacity then bounded capacity else unbounded) a)"

definition flume_create_consumer :: "'q link \<Rightarrow> ambient \<Rightarrow> 'q mem_consumer" where
  "flume_create_consumer fac a = mem_consumer_new fac a"

definition flume_clone_factory :: "'q link \<Rightarrow> 'q link" where
  "flume_clone_factory fac = fac"

definition flume_create_queue :: "'q link \<Rightarrow> string \<Rightarrow> ('q link eproducer \<times> 'q link) result" where
  "flume_create_queue fac topic = Inr (flume_producer, fac)"

definition flume_create_global_producer :: "'q link \<Rightarrow> 'q link eproducer result" where
  "flume_create_global_producer fac = Inr flume_producer"

definition flume_create_main_consumer :: "'q link \<Rightarrow> ambient \<Rightarrow> 'q mem_consumer result" where
  "flume_create_main_consumer fac a = Inr (mem_consumer_new fac a)"


section \<open>The contracts\<close>

lemma flume_send_cases:
  "flume_send m l = (case ch_send (ln_chan l) m (ln_q l) of (r, q') \<Rightarrow>
     (case r of Ret (Inl e) \<Rightarrow> Ret (Inl (EQueue (QSend e))) | Ret (Inr u) \<Rightarrow> Ret (Inr ())
        | Pending \<Rightarrow> Pending | Blocked \<Rightarrow> Blocked | Panic e \<Rightarrow> Panic e, l\<lparr>ln_q := q'\<rparr>))"
  by (simp add: flume_send_def bindA_def on_q_def ret_def split: prod.splits outcome.splits sum.splits)

lemma flume_send_ok:
  assumes "link_inv l" and "flume_send m l = (Ret (Inr ()), l')"
  shows "link_items l' = link_items l @ [m]"
proof -
  obtain q' where "ch_send (ln_chan l) m (ln_q l) = (Ret (Inr ()), q')" and "l' = l\<lparr>ln_q := q'\<rparr>"
    using assms(2) by (auto simp: flume_send_cases split: prod.splits outcome.splits sum.splits)
  with assms(1) show ?thesis
    by (simp add: link_inv_def link_items_def chan_send_ok)
qed

lemma flume_send_other:
  assumes "link_inv l" and "flume_send m l = (v, l')" and "v \<noteq> Ret (Inr ())"
  shows "link_items l' = link_items l"
proof -
  obtain r q' where r: "ch_send (ln_chan l) m (ln_q l) = (r, q')" by fastforce
  with assms(2,3) have "r \<noteq> Ret (Inr ())" and "l' = l\<lparr>ln_q := q'\<rparr>"
    by (auto simp: flume_send_cases split: outcome.splits sum.splits)
  with assms(1) r show ?thesis
    by (simp add: link_inv_def link_items_def chan_send_other)
qed

lemma flume_send_timeout_cases:
  "flume_send_timeout m d l = (case flume_send m l of
     (Pending, l') \<Rightarrow> (Ret (Inl (EQueue QTimeout)), l') | (r, l') \<Rightarrow> (r, l'))"
  by (simp add: flume_send_timeout_def bindA_def timeoutA_def ret_def
      split: prod.splits outcome.splits)

lemma flume_try_send_cases:
  "flume_try_send m l = (case ch_try_send (ln_chan l) m (ln_q l) of (r, q') \<Rightarrow>
     (case r of Inl e \<Rightarrow> Ret (Inl (EQueue QFull)) | Inr u \<Rightarrow> Ret (Inr ()), l\<lparr>ln_q := q'\<rparr>))"
  by (simp add: flume_try_send_def bindA_def on_q_def ret_def split: prod.splits sum.splits)

lemma keeps_flume_send: "keeps link_inv (flume_send m)"
  unfolding flume_send_def by (intro keeps_intros) simp

lemma keeps_flume_sends:
  "keeps link_inv (ep_send flume_producer m)" "keeps link_inv (ep_try_send flume_producer m)"
  "keeps link_inv (ep_send_timeout flume_producer m d)"
  unfolding flume_producer_def flume_try_send_def flume_send_timeout_def eproducer.simps
  by (intro keeps_intros keeps_flume_send; simp)+

interpretation flume_prod: queue_producer flume_producer link_inv link_items
proof unfold_locales
  fix m d show "keeps link_inv (ep_send flume_producer m)"
    "keeps link_inv (ep_try_send flume_producer m)"
    "keeps link_inv (ep_send_timeout flume_producer m d)"
    by (rule keeps_flume_sends)+
next
  fix f f' :: "('q, 'z) link_scheme" and m d r
  assume inv: "link_inv f"
  show "link_items f' = link_items f @ [m]" if "ep_send flume_producer m f = (Ret (Inr ()), f')"
    using that inv by (simp add: flume_producer_def flume_send_ok)
  show "link_items f' = link_items f" if "ep_send flume_producer m f = (r, f')" "r \<noteq> Ret (Inr ())"
    using that inv by (simp add: flume_producer_def flume_send_other)
  show "link_items f' = link_items f @ [m]"
    if "ep_try_send flume_producer m f = (Ret (Inr ()), f')"
    using that inv
    by (auto simp: flume_producer_def flume_try_send_cases link_inv_def link_items_def
        chan_try_send_ok split: prod.splits sum.splits)
  show "link_items f' = link_items f"
    if "ep_try_send flume_producer m f = (r, f')" "r \<noteq> Ret (Inr ())"
    using that inv
    by (auto simp: flume_producer_def flume_try_send_cases link_inv_def link_items_def
        chan_try_send_err split: prod.splits sum.splits)
  show "link_items f' = link_items f @ [m]"
    if "ep_send_timeout flume_producer m d f = (Ret (Inr ()), f')"
    using that inv
    by (auto simp: flume_producer_def flume_send_timeout_cases flume_send_ok
        split: prod.splits outcome.splits)
  show "link_items f' = link_items f"
    if "ep_send_timeout flume_producer m d f = (r, f')" "r \<noteq> Ret (Inr ())"
    using that inv flume_send_other [OF inv, of m]
    by (auto simp: flume_producer_def flume_send_timeout_cases split: prod.splits outcome.splits)
qed

text \<open>The same contract for an unbounded channel with a live receiver.\<close>

interpretation flume_open: open_producer flume_producer open_link link_items
proof unfold_locales
  fix m d
  have upd: "open_link (s\<lparr>ln_q := q\<rparr>) = open_link s" for s :: "('q, 'z) link_scheme" and q
    by (simp add: open_link_def)
  show "keeps open_link (ep_send flume_producer m)" "keeps open_link (ep_try_send flume_producer m)"
    "keeps open_link (ep_send_timeout flume_producer m d)"
    unfolding flume_producer_def flume_send_def flume_try_send_def flume_send_timeout_def
      eproducer.simps
    by (intro keeps_intros; rule upd)+
next
  fix f f' :: "('q, 'z) link_scheme" and m d r
  assume inv: "open_link f"
  then have link: "link_inv f" and acc: "chan_accepting (ln_chan f)" by (simp_all add: open_link_def)
  note acc = acc [unfolded chan_accepting_def, rule_format, of m "ln_q f"]
  show "link_items f' = link_items f @ [m]" if "ep_send flume_producer m f = (Ret (Inr ()), f')"
    using that link by (rule flume_prod.send_ok [rotated])
  show "link_items f' = link_items f" if "ep_send flume_producer m f = (r, f')" "r \<noteq> Ret (Inr ())"
    using link that by (rule flume_prod.send_other)
  show "link_items f' = link_items f @ [m]" if "ep_try_send flume_producer m f = (Ret (Inr ()), f')"
    using link that by (rule flume_prod.try_send_ok)
  show "link_items f' = link_items f"
    if "ep_try_send flume_producer m f = (r, f')" "r \<noteq> Ret (Inr ())"
    using link that by (rule flume_prod.try_send_other)
  show "link_items f' = link_items f @ [m]"
    if "ep_send_timeout flume_producer m d f = (Ret (Inr ()), f')"
    using link that by (rule flume_prod.send_timeout_ok)
  show "link_items f' = link_items f"
    if "ep_send_timeout flume_producer m d f = (r, f')" "r \<noteq> Ret (Inr ())"
    using link that by (rule flume_prod.send_timeout_other)
  show "\<exists>f'. ep_send flume_producer m f = (Ret (Inr ()), f')"
    "\<exists>f'. ep_try_send flume_producer m f = (Ret (Inr ()), f')"
    "\<exists>f'. ep_send_timeout flume_producer m d f = (Ret (Inr ()), f')"
    using acc by (auto simp: flume_producer_def flume_send_timeout_cases flume_send_cases
        flume_try_send_cases)
qed

lemma flume_claim_cases:
  "flume_claim c = (case ch_recv (ln_chan c) (ln_q c) of
     (Ret (Inr (Some m)), q') \<Rightarrow>
        (Ret (Inr (Some \<lparr>cm_message = m, cm_claim_id = uuid_src (mc_amb c) (uuid_next (mc_amb c)),
            cm_claimed_at = clock_src (mc_amb c) (clock_next (mc_amb c))\<rparr>)),
         snd (register_claim m (c\<lparr>ln_q := q'\<rparr>)))
   | (Ret _, q') \<Rightarrow> (Ret (Inr None), c\<lparr>ln_q := q'\<rparr>)
   | (Pending, q') \<Rightarrow> (Pending, c\<lparr>ln_q := q'\<rparr>)
   | (Blocked, q') \<Rightarrow> (Blocked, c\<lparr>ln_q := q'\<rparr>)
   | (Panic e, q') \<Rightarrow> (Panic e, c\<lparr>ln_q := q'\<rparr>))"
  by (simp add: flume_claim_def bindA_def on_q_def ret_def register_claim_app
      split: prod.splits outcome.splits sum.splits option.splits)

lemma flume_receive_cases:
  "flume_receive c = (case ch_recv (ln_chan c) (ln_q c) of (r, q') \<Rightarrow>
     (case r of Ret (Inr (Some m)) \<Rightarrow> Ret (Some m) | Ret _ \<Rightarrow> Ret None
        | Pending \<Rightarrow> Pending | Blocked \<Rightarrow> Blocked | Panic e \<Rightarrow> Panic e, c\<lparr>ln_q := q'\<rparr>))"
  by (simp add: flume_receive_def bindA_def on_q_def ret_def
      split: prod.splits outcome.splits sum.splits option.splits)

lemma flume_nack_cases:
  "flume_nack k c = (case hm_get (mc_pending c) k of
     None \<Rightarrow> (Ret (Inl (EQueue (QInvalidClaimId k))), c)
   | Some m \<Rightarrow> (case flume_send m c of
        (Ret (Inr u), c') \<Rightarrow> (Ret (Inr ()), c'\<lparr>mc_pending := hm_remove k (mc_pending c')\<rparr>)
      | (r, c') \<Rightarrow> (r, c')))"
  by (simp add: flume_nack_def flume_send_def bindA_def on_q_def ret_def getA_def putA_def
      split: prod.splits outcome.splits sum.splits option.splits)

lemma keeps_flume_nack: "keeps mem_inv (flume_nack k)"
  unfolding flume_nack_def by (intro keeps_intros) (simp_all add: mem_inv_remove)

lemma keeps_flume_claim: "keeps mem_inv flume_claim"
  unfolding flume_claim_def by (intro keeps_intros) simp

interpretation flume_cons: claim_queue flume_consumer mem_inv link_items mc_pending
proof unfold_locales
  show "keeps mem_inv (ec_receive flume_consumer)"
    unfolding flume_consumer_def flume_receive_def econsumer.simps by (intro keeps_intros) simp
  show "keeps mem_inv (ec_claim flume_consumer)"
    by (simp add: flume_consumer_def keeps_flume_claim)
next
  fix k show "keeps mem_inv (ec_ack flume_consumer k)"
    unfolding flume_consumer_def flume_ack_def econsumer.simps
    by (intro keeps_intros) (simp add: mem_inv_remove)
  show "keeps mem_inv (ec_nack flume_consumer k)"
    by (simp add: flume_consumer_def keeps_flume_nack)
next
  fix c :: "'q mem_consumer" and m v c' cm r k
  assume inv: "mem_inv c"
  then have fifo: "chan_fifo (ln_chan c)" by (simp add: mem_inv_def link_inv_def)
  show "hm_wf (mc_pending c)" using inv by (simp add: mem_inv_def)
  show "link_items c = m # link_items c' \<and> mc_pending c' = mc_pending c"
    if "ec_receive flume_consumer c = (Ret (Some m), c')"
    using that fifo by (auto simp: flume_consumer_def flume_receive_cases link_items_def
        dest: chan_recv_Some split: prod.splits outcome.splits sum.splits option.splits)
  show "link_items c' = link_items c \<and> mc_pending c' = mc_pending c"
    if "ec_receive flume_consumer c = (v, c')" and "\<And>m. v \<noteq> Ret (Some m)"
    using that chan_recv_other [OF fifo]
    by (auto simp: flume_consumer_def flume_receive_cases link_items_def
        split: prod.splits outcome.splits sum.splits option.splits)
  show "link_items c = cm_message cm # link_items c' \<and>
      hm_get (mc_pending c) (cm_claim_id cm) = None \<and>
      mc_pending c' = hm_insert (cm_claim_id cm) (cm_message cm) (mc_pending c)"
    if "ec_claim flume_consumer c = (Ret (Inr (Some cm)), c')"
    using that fifo mem_inv_fresh [OF inv]
    by (auto simp: flume_consumer_def flume_claim_cases link_items_def register_claim_app
        dest: chan_recv_Some split: prod.splits outcome.splits sum.splits option.splits)
  show "link_items c' = link_items c \<and> mc_pending c' = mc_pending c"
    if "ec_claim flume_consumer c = (r, c')" and "\<And>cm. r \<noteq> Ret (Inr (Some cm))"
    using that chan_recv_other [OF fifo]
    by (auto simp: flume_consumer_def flume_claim_cases link_items_def
        split: prod.splits outcome.splits sum.splits option.splits)
next
  fix c :: "'q mem_consumer" and k
  show "\<exists>c'. ec_ack flume_consumer k c = (Ret (Inr ()), c')"
    "link_items (snd (ec_ack flume_consumer k c)) = link_items c \<and>
      mc_pending (snd (ec_ack flume_consumer k c)) = hm_remove k (mc_pending c)"
    by (simp_all add: flume_consumer_def flume_ack_def outcome_simps bindA_def)
next
  fix c :: "'q mem_consumer" and k c' r
  assume "mem_inv c"
  then have fifo: "chan_fifo (ln_chan c)" by (simp add: mem_inv_def link_inv_def)
  show "\<exists>m. hm_get (mc_pending c) k = Some m \<and> link_items c' = link_items c @ [m] \<and>
      mc_pending c' = hm_remove k (mc_pending c)"
    if "ec_nack flume_consumer k c = (Ret (Inr ()), c')"
    using that chan_send_ok [OF fifo]
    by (auto simp: flume_consumer_def flume_nack_cases flume_send_cases link_items_def
        split: prod.splits outcome.splits sum.splits option.splits)
  show "link_items c' = link_items c \<and> mc_pending c' = mc_pending c"
    if "ec_nack flume_consumer k c = (r, c')" and "r \<noteq> Ret (Inr ())"
    using that chan_send_other [OF fifo]
    by (auto simp: flume_consumer_def flume_nack_cases flume_send_cases link_items_def
        split: prod.splits outcome.splits sum.splits option.splits)
qed


section \<open>Batches\<close>

lemma flume_batch_loop_spec:
  assumes "mem_inv c"
  shows "\<exists>cms c'. flume_batch_loop n b c = (Ret (Inr (b @ cms)), c') \<and> batch_claimed c cms c' \<and>
     length cms = min n (length (link_items c))"
  using assms
proof (induction n arbitrary: b c)
  case 0
  then show ?case by (simp add: ret_def batch_claimed_same)
next
  case (Suc n)
  then have fifo: "chan_fifo (ln_chan c)" by (simp add: mem_inv_def link_inv_def)
  show ?case
  proof (cases "link_items c")
    case Nil
    with fifo obtain e q where q: "ch_try_recv (ln_chan c) (ln_q c) = (Inl e, q)"
        "ch_items (ln_chan c) q = []"
      unfolding link_items_def by (rule chan_try_recv_Nil)
    then have "flume_batch_loop (Suc n) b c = (Ret (Inr b), c\<lparr>ln_q := q\<rparr>)"
      by (simp add: try_recv_step_def on_q_def bindA_def ret_def)
    with Suc.prems Nil q show ?thesis by (simp add: batch_claimed_Nil)
  next
    case (Cons m ms)
    with fifo obtain q where q: "ch_try_recv (ln_chan c) (ln_q c) = (Inr m, q)"
        "ch_items (ln_chan c) q = ms"
      unfolding link_items_def by (rule chan_try_recv_Cons)
    obtain cm c1 where reg: "register_claim m (c\<lparr>ln_q := q\<rparr>) = (Ret cm, c1)"
      using register_claim_Ret by blast
    then have c1: "mem_inv c1" "link_items c1 = ms"
      using register_claim_inv [OF _ reg] Suc.prems q by (auto simp: register_claim_app)
    with Suc.IH obtain cms c' where
      IH: "flume_batch_loop n (b @ [cm]) c1 = (Ret (Inr ((b @ [cm]) @ cms)), c')"
        "batch_claimed c1 cms c'" "length cms = min n (length (link_items c1))" by blast
    have "flume_batch_loop (Suc n) b c = flume_batch_loop n (b @ [cm]) c1"
      using q reg by (simp add: try_recv_step_def on_q_def bindA_def)
    moreover have "batch_claimed c (cm # cms) c'"
      using batch_claimed_Cons [OF Suc.prems _ reg IH(2)] Cons q by simp
    ultimately show ?thesis
      using IH c1 Cons by (intro exI [of _ "cm # cms"] exI [of _ c']) simp
  qed
qed

lemma flume_claim_Cons:
  assumes "mem_inv c" and "link_items c = m # ms"
  obtains q cm c1 where "register_claim m (c\<lparr>ln_q := q\<rparr>) = (Ret cm, c1)"
    and "ch_items (ln_chan c) q = ms" and "flume_claim c = (Ret (Inr (Some cm)), c1)"
    and "mem_inv c1" and "link_items c1 = ms"
proof -
  have fifo: "chan_fifo (ln_chan c)" using assms(1) by (simp add: mem_inv_def link_inv_def)
  from this assms(2) obtain q where q: "ch_recv (ln_chan c) (ln_q c) = (Ret (Inr (Some m)), q)"
      "ch_items (ln_chan c) q = ms"
    unfolding link_items_def by (rule chan_recv_Cons)
  obtain cm c1 where reg: "register_claim m (c\<lparr>ln_q := q\<rparr>) = (Ret cm, c1)"
    using register_claim_Ret by blast
  then have "mem_inv c1" "link_items c1 = ms"
    using register_claim_inv [OF _ reg] assms(1) q by (auto simp: register_claim_app)
  moreover have "flume_claim c = (Ret (Inr (Some cm)), c1)"
    using q reg by (simp add: flume_claim_def on_q_def bindA_def ret_def)
  ultimately show thesis using that reg q by blast
qed

lemma claim_loop_flume:
  assumes "mem_inv c" and "n \<le> length (link_items c)"
  shows "\<exists>cms c'. claim_loop flume_claim n b c = (Ret (Inr (b @ cms)), c') \<and>
     batch_claimed c cms c' \<and> length cms = n"
  using assms
proof (induction n arbitrary: b c)
  case 0
  then show ?case by (simp add: ret_def batch_claimed_same)
next
  case (Suc n)
  then obtain m ms where Cons: "link_items c = m # ms" by (cases "link_items c") auto
  obtain q cm c1 where reg: "register_claim m (c\<lparr>ln_q := q\<rparr>) = (Ret cm, c1)"
      and q: "ch_items (ln_chan c) q = ms" and cl: "flume_claim c = (Ret (Inr (Some cm)), c1)"
      and c1: "mem_inv c1" "link_items c1 = ms"
    using flume_claim_Cons [OF Suc.prems(1) Cons] by blast
  obtain cms c' where
    IH: "claim_loop flume_claim n (b @ [cm]) c1 = (Ret (Inr ((b @ [cm]) @ cms)), c')"
      "batch_claimed c1 cms c'" "length cms = n"
    using Suc.IH [of c1 "b @ [cm]"] c1 Suc.prems(2) Cons by auto
  have "claim_loop flume_claim (Suc n) b c = claim_loop flume_claim n (b @ [cm]) c1"
    using cl by (simp add: bindQ_Inr)
  moreover have "batch_claimed c (cm # cms) c'"
    using batch_claimed_Cons [OF Suc.prems(1) _ reg IH(2)] Cons q by simp
  ultimately show ?case
    using IH by (intro exI [of _ "cm # cms"] exI [of _ c']) simp
qed

lemma flume_claim_batch_spec:
  assumes "mem_inv c"
  obtains cms c' where "flume_claim_batch n c = (Ret (Inr cms), c')" and "batch_claimed c cms c'"
    and "length cms = min n (length (link_items c))"
  using flume_batch_loop_spec [OF assms, of n "[]"] batch_claimed_same [OF assms] that
  by (cases "n = 0") (auto simp: flume_claim_batch_def ret_def)


section \<open>Properties\<close>

text \<open>C2: the flume consumer loses and duplicates nothing. Over any sequence of receives,
  claims, acks and nacks (with any claim identifiers, and with any outcome, a send that fails
  or waits included), the messages that were queued or claimed at the start are, with
  multiplicity, the messages still queued, the messages still claimed, and the messages
  acknowledged or received without a claim.\<close>

theorem flume_conserves_messages:
  assumes "mem_inv c" and "consumer_run flume_consumer mc_pending os c = (c', gone)"
  shows "mset (link_items c) + mset (hm_values (mc_pending c)) =
         mset (link_items c') + mset (hm_values (mc_pending c')) + gone"
  using flume_cons.run_conserves [OF assms(1), of os] assms(2) by simp

theorem flume_conserves_messages_witness:
  "\<exists>c' gone. consumer_run flume_consumer mc_pending [OpClaim, OpNack ''a'', OpClaim, OpAck ''aa'']
        (list_consumer True None [emessage_default 1, emessage_default 2]) = (c', gone) \<and>
     {#emessage_default 1, emessage_default 2#} =
       mset (link_items c') + mset (hm_values (mc_pending c')) + gone"
proof -
  let ?c = "list_consumer True None [emessage_default 1, emessage_default 2]"
  obtain c' gone where "consumer_run flume_consumer mc_pending
      [OpClaim, OpNack ''a'', OpClaim, OpAck ''aa''] ?c = (c', gone)" by fastforce
  with flume_conserves_messages [of ?c _ c' gone] show ?thesis
    by auto
qed

text \<open>The flume \<^verbatim>\<open>claim_batch\<close> returns, without waiting, the oldest \<^verbatim>\<open>max\<close> messages (all of
  them if there are fewer), in queue order, each claimed under a fresh identifier of its
  own; it leaves the rest queued.\<close>

theorem flume_claim_batch_correct:
  assumes "mem_inv c"
  shows "\<exists>cms c'. flume_claim_batch n c = (Ret (Inr cms), c') \<and> mem_inv c' \<and>
     map cm_message cms = take n (link_items c) \<and> link_items c' = drop n (link_items c) \<and>
     distinct (map cm_claim_id cms) \<and>
     (\<forall>cm \<in> set cms. hm_get (mc_pending c) (cm_claim_id cm) = None \<and>
        hm_get (mc_pending c') (cm_claim_id cm) = Some (cm_message cm))"
proof -
  obtain cms c' where b: "flume_claim_batch n c = (Ret (Inr cms), c')" "batch_claimed c cms c'"
      "length cms = min n (length (link_items c))"
    using flume_claim_batch_spec [OF assms] by blast
  with batch_claimed_take [OF b(2,3)] batch_claimed_pending [OF b(2)] show ?thesis
    by (auto simp: batch_claimed_def)
qed

theorem flume_claim_batch_correct_witness:
  "\<exists>cms c'. flume_claim_batch 2
      (list_consumer True None [emessage_default 1, emessage_default 2, emessage_default 3]) =
      (Ret (Inr cms), c') \<and>
    map cm_message cms = [emessage_default 1, emessage_default 2] \<and>
    link_items c' = [emessage_default 3]"
  using flume_claim_batch_correct [of "list_consumer True None
         [emessage_default 1, emessage_default 2, emessage_default 3]" 2]
  by auto

text \<open>The batch the flume backend claims under one lock is the batch the default
  \<^verbatim>\<open>claim_batch\<close> of the trait would claim one message at a time, whenever the queue holds
  at least as many messages as asked for: both return the same messages and leave the
  same queue.\<close>

theorem flume_claim_batch_default:
  assumes "mem_inv c" and "n \<le> length (link_items c)"
  shows "\<exists>cms c1 cms' c2. flume_claim_batch n c = (Ret (Inr cms), c1) \<and>
     default_claim_batch flume_claim n c = (Ret (Inr cms'), c2) \<and>
     map cm_message cms = map cm_message cms' \<and> link_items c1 = link_items c2"
proof -
  obtain cms c1 where b: "flume_claim_batch n c = (Ret (Inr cms), c1)" "batch_claimed c cms c1"
      "length cms = min n (length (link_items c))"
    using flume_claim_batch_spec [OF assms(1)] by blast
  obtain cms' c2 where d: "claim_loop flume_claim n [] c = (Ret (Inr cms'), c2)"
      "batch_claimed c cms' c2" "length cms' = n"
    using claim_loop_flume [OF assms, of "[]"] by auto
  have "length cms' = min n (length (link_items c))" using d(3) assms(2) by simp
  note same = batch_claimed_take [OF b(2,3)] batch_claimed_take [OF d(2) this]
  from b d same show ?thesis by (simp add: default_claim_batch_def)
qed

theorem flume_claim_batch_default_witness:
  "\<exists>cms c1 cms' c2. flume_claim_batch 1
      (list_consumer True None [emessage_default 1]) =
        (Ret (Inr cms), c1) \<and>
     default_claim_batch flume_claim 1
      (list_consumer True None [emessage_default 1]) =
        (Ret (Inr cms'), c2) \<and>
     map cm_message cms = map cm_message cms' \<and> link_items c1 = link_items c2"
  by (rule flume_claim_batch_default) simp_all

text \<open>A timed send of the flume producer to a full queue does not time out: the blocking
  send inside it holds the thread, so the timer is never polled. A nack of a claimed message
  blocks the same way, with the message still claimed.\<close>

theorem flume_full_queue_blocks:
  assumes "chan_blocking (ln_chan c)" and "ch_is_full (ln_chan c) (ln_q c)"
    and "hm_get (mc_pending c) k = Some m'"
  shows "flume_send_timeout m d c = (Blocked, c) \<and> flume_nack k c = (Blocked, c)"
  using assms
  by (auto simp: chan_blocking_def flume_send_timeout_cases flume_nack_cases flume_send_cases)

theorem flume_full_queue_blocks_witness:
  "let c = (list_consumer True (Some 1) [emessage_default 1])\<lparr>mc_pending := [(''a'', emessage_default 2)]\<rparr>
   in flume_send_timeout (emessage_default 3) (from_secs 5) c = (Blocked, c) \<and>
      flume_nack ''a'' c = (Blocked, c)"
  unfolding Let_def by (rule flume_full_queue_blocks) simp_all

text \<open>Messages sent one after another to a flume queue, when every send succeeds, come
  out of \<^verbatim>\<open>claim_batch\<close> in the order they were sent, after those already queued.\<close>

theorem flume_send_claim_roundtrip:
  assumes "link_inv l" and "uuids_unique a"
    and "forQ flume_send ms l = (Ret (Inr ()), l')"
  shows "\<exists>cms c'. flume_claim_batch (length (link_items l) + length ms)
       (flume_create_consumer l' a) = (Ret (Inr cms), c') \<and>
     map cm_message cms = link_items l @ ms \<and> link_items c' = []"
proof -
  have send: "forQ (ep_send flume_producer) ms l = (Ret (Inr ()), l')"
    using assms(3) by (simp add: flume_producer_def)
  have items: "link_items l' = link_items l @ ms"
    using flume_prod.send_all [OF assms(1) send] by auto
  have "keeps link_inv (forQ flume_send ms)" by (intro keeps_intros keeps_flume_send)
  with assms(1,3) have inv: "mem_inv (flume_create_consumer l' a)"
    using mem_inv_new [OF _ assms(2)] by (metis flume_create_consumer_def keepsD snd_conv)
  have l': "link_items (flume_create_consumer l' a) = link_items l @ ms"
    using items by (simp add: flume_create_consumer_def mem_consumer_new_def link_items_def)
  obtain cms c' where b: "flume_claim_batch (length (link_items l) + length ms)
        (flume_create_consumer l' a) = (Ret (Inr cms), c')"
      "batch_claimed (flume_create_consumer l' a) cms c'"
      "length cms = min (length (link_items l) + length ms)
         (length (link_items (flume_create_consumer l' a)))"
    using flume_claim_batch_spec [OF inv] by blast
  with batch_claimed_take [OF b(2,3)] l' show ?thesis by simp
qed

theorem flume_send_claim_roundtrip_witness:
  "\<exists>l' cms c'. forQ flume_send [emessage_default 1, emessage_default 2] (list_link True (Some 2) [])
       = (Ret (Inr ()), l') \<and>
     flume_claim_batch 2 (flume_create_consumer l' unary_ambient) = (Ret (Inr cms), c') \<and>
     map cm_message cms = [emessage_default 1, emessage_default 2]"
proof -
  obtain l' where l': "forQ flume_send [emessage_default 1, emessage_default 2]
      (list_link True (Some 2) []) = (Ret (Inr ()), l')"
    by (simp add: bindQ_def bindA_def flume_send_cases list_link_def list_chan_def lq_full_def ret_def)
  with flume_send_claim_roundtrip [OF list_link_inv unary_ambient_unique l'] show ?thesis
    by (auto simp: numeral_2_eq_2)
qed

end
