(* ===== verification/Queue_Mpmc.thy ===== *)
theory Queue_Mpmc
  imports Queue_Flume
begin

text \<open>
  The tokio-mpmc backend (\<^verbatim>\<open>event_base_queue/src/mpmc.rs\<close>). Its sends wait instead of
  holding the thread, \<^verbatim>\<open>try_send\<close> asks \<^verbatim>\<open>is_full\<close> first, and \<^verbatim>\<open>claim_batch\<close> bounds its loop by
  the length of the queue. Where the code is the code of the flume backend up to the
  library it calls, the lemmas of \<open>Queue_Flume\<close> are reused through an equation.
\<close>

section \<open>Producer\<close>

definition mpmc_send :: "emessage \<Rightarrow> (('q, 'z) link_scheme, unit result) act" where
  "mpmc_send e =
     bindA (on_q (\<lambda>ch. ch_send ch e)) (\<lambda>r. case r of
         Inl err \<Rightarrow> ret (Inl (EQueue (QSend err)))
       | Inr _ \<Rightarrow> ret (Inr ()))"

definition mpmc_try_send :: "emessage \<Rightarrow> (('q, 'z) link_scheme, unit result) act" where
  "mpmc_try_send msg =
     bindA (getA (\<lambda>l. ch_is_full (ln_chan l) (ln_q l))) (\<lambda>full.
       if full then ret (Inl (EQueue QFull))
       else bindA (on_q (\<lambda>ch. ch_send ch msg)) (\<lambda>r. case r of
           Inl err \<Rightarrow> ret (Inl (EQueue (QSend err)))
         | Inr _ \<Rightarrow> ret (Inr ())))"

definition mpmc_send_timeout ::
    "emessage \<Rightarrow> duration \<Rightarrow> (('q, 'z) link_scheme, unit result) act" where
  "mpmc_send_timeout msg timeout =
     bindA (timeoutA (mpmc_send msg)) (\<lambda>r. case r of
         Inl elapsed \<Rightarrow> ret (Inl (EQueue QTimeout))
       | Inr inner \<Rightarrow> ret inner)"

definition mpmc_producer :: "('q, 'z) link_scheme eproducer" where
  "mpmc_producer =
     \<lparr>ep_send = mpmc_send, ep_try_send = mpmc_try_send, ep_send_timeout = mpmc_send_timeout\<rparr>"


section \<open>Consumer\<close>

definition mpmc_receive :: "('q mem_consumer, emessage option) act" where
  "mpmc_receive =
     bindA (on_q ch_recv) (\<lambda>msg. case msg of
         Inr m \<Rightarrow> ret m
       | Inl _ \<Rightarrow> ret None)"

definition mpmc_claim :: "('q mem_consumer, claimed_message option result) act" where
  "mpmc_claim =
     bindA (on_q ch_recv) (\<lambda>msg. case msg of
         Inr (Some m) \<Rightarrow> bindA (register_claim m) (\<lambda>cm. ret (Inr (Some cm)))
       | Inr None \<Rightarrow> ret (Inr None)
       | Inl _ \<Rightarrow> ret (Inr None))"

fun mpmc_batch_loop :: "nat \<Rightarrow> claimed_message list
    \<Rightarrow> ('q mem_consumer, claimed_message list result) act" where
  "mpmc_batch_loop 0 batch = ret (Inr batch)"
| "mpmc_batch_loop (Suc n) batch =
     bindA (on_q ch_recv) (\<lambda>r. case r of
         Inr (Some m) \<Rightarrow> bindA (register_claim m) (\<lambda>cm. mpmc_batch_loop n (batch @ [cm]))
       | _ \<Rightarrow> ret (Inr batch))"

definition mpmc_claim_batch :: "nat \<Rightarrow> ('q mem_consumer, claimed_message list result) act" where
  "mpmc_claim_batch n =
     bindA (getA (\<lambda>c. ch_len (ln_chan c) (ln_q c))) (\<lambda>len.
       if n = 0 \<or> len = 0 then ret (Inr [])
       else mpmc_batch_loop (min n len) [])"

definition mpmc_ack :: "string \<Rightarrow> ('q mem_consumer, unit result) act" where
  "mpmc_ack claim_id =
     bindA (putA (\<lambda>c. c\<lparr>mc_pending := hm_remove claim_id (mc_pending c)\<rparr>)) (\<lambda>_. ret (Inr ()))"

definition mpmc_nack :: "string \<Rightarrow> ('q mem_consumer, unit result) act" where
  "mpmc_nack claim_id =
     bindA (getA (\<lambda>c. hm_get (mc_pending c) claim_id)) (\<lambda>p. case p of
         Some msg \<Rightarrow>
           bindA (on_q (\<lambda>ch. ch_send ch msg)) (\<lambda>r. case r of
               Inl e \<Rightarrow> ret (Inl (EQueue (QSend e)))
             | Inr _ \<Rightarrow>
                 bindA (putA (\<lambda>c. c\<lparr>mc_pending := hm_remove claim_id (mc_pending c)\<rparr>))
                   (\<lambda>_. ret (Inr ())))
       | None \<Rightarrow> ret (Inl (EQueue (QInvalidClaimId claim_id))))"

definition mpmc_consumer :: "'q mem_consumer econsumer" where
  "mpmc_consumer =
     \<lparr>ec_receive = mpmc_receive, ec_claim = mpmc_claim, ec_claim_batch = mpmc_claim_batch,
      ec_ack = mpmc_ack, ec_nack = mpmc_nack, ec_claim_stale = default_claim_stale\<rparr>"


section \<open>Factories\<close>

definition mpmc_queue_factory_new :: "(nat \<Rightarrow> 'q link) \<Rightarrow> nat \<Rightarrow> 'q link" where
  "mpmc_queue_factory_new channel capacity = channel capacity"

definition mpmc_memory_queue :: "(nat \<Rightarrow> 'q link) \<Rightarrow> nat \<Rightarrow> ambient
    \<Rightarrow> 'q link eproducer \<times> 'q mem_consumer" where
  "mpmc_memory_queue channel capacity a = (mpmc_producer, mem_consumer_new (channel capacity) a)"

definition mpmc_create_consumer :: "'q link \<Rightarrow> ambient \<Rightarrow> 'q mem_consumer" where
  "mpmc_create_consumer fac a = mem_consumer_new fac a"

definition mpmc_create_queue :: "'q link \<Rightarrow> string \<Rightarrow> ('q link eproducer \<times> 'q link) result" where
  "mpmc_create_queue fac topic = Inr (mpmc_producer, fac)"

definition mpmc_create_global_producer :: "'q link \<Rightarrow> 'q link eproducer result" where
  "mpmc_create_global_producer fac = Inr mpmc_producer"

definition mpmc_create_main_consumer :: "'q link \<Rightarrow> ambient \<Rightarrow> 'q mem_consumer result" where
  "mpmc_create_main_consumer fac a = Inr (mem_consumer_new fac a)"


section \<open>The contracts\<close>

lemma mpmc_send_eq: "mpmc_send = flume_send"
  by (rule ext) (simp add: mpmc_send_def flume_send_def)

lemma mpmc_send_timeout_eq: "mpmc_send_timeout = flume_send_timeout"
  by (intro ext) (simp add: mpmc_send_timeout_def flume_send_timeout_def mpmc_send_eq)

lemma mpmc_receive_eq: "mpmc_receive = flume_receive"
  unfolding mpmc_receive_def flume_receive_def
  by (rule arg_cong [where f = "bindA (on_q ch_recv)"]) (auto split: sum.splits option.splits)

lemma mpmc_claim_eq: "mpmc_claim = flume_claim"
  unfolding mpmc_claim_def flume_claim_def
  by (rule arg_cong [where f = "bindA (on_q ch_recv)"]) (auto split: sum.splits option.splits)

lemma mpmc_ack_eq: "mpmc_ack = flume_ack"
  by (rule ext) (simp add: mpmc_ack_def flume_ack_def)

lemma mpmc_nack_eq: "mpmc_nack = flume_nack"
  by (rule ext) (simp add: mpmc_nack_def flume_nack_def)

lemmas mpmc_is_flume =
  mpmc_send_eq mpmc_send_timeout_eq mpmc_receive_eq mpmc_claim_eq mpmc_ack_eq mpmc_nack_eq

lemma mpmc_try_send_cases:
  "mpmc_try_send m l = (if ch_is_full (ln_chan l) (ln_q l) then (Ret (Inl (EQueue QFull)), l)
     else flume_send m l)"
  by (simp add: mpmc_try_send_def flume_send_def bindA_def outcome_simps)

interpretation mpmc_prod: queue_producer mpmc_producer link_inv link_items
proof unfold_locales
  fix m d
  show "keeps link_inv (ep_send mpmc_producer m)" "keeps link_inv (ep_send_timeout mpmc_producer m d)"
    using keeps_flume_sends [of m] by (simp_all add: mpmc_producer_def mpmc_is_flume flume_producer_def)
  show "keeps link_inv (ep_try_send mpmc_producer m)"
    unfolding mpmc_producer_def mpmc_try_send_def eproducer.simps by (intro keeps_intros) simp
next
  fix f f' :: "('q, 'z) link_scheme" and m d r
  assume inv: "link_inv f"
  note flume = flume_prod.send_ok [OF inv] flume_prod.send_other [OF inv]
    flume_prod.send_timeout_ok [OF inv] flume_prod.send_timeout_other [OF inv]
  note eqs = mpmc_producer_def mpmc_is_flume mpmc_try_send_cases
  show "link_items f' = link_items f @ [m]" if "ep_send mpmc_producer m f = (Ret (Inr ()), f')"
    using that flume by (simp add: eqs flume_producer_def)
  show "link_items f' = link_items f" if "ep_send mpmc_producer m f = (r, f')" "r \<noteq> Ret (Inr ())"
    using that flume by (simp add: eqs flume_producer_def)
  show "link_items f' = link_items f @ [m]"
    if "ep_try_send mpmc_producer m f = (Ret (Inr ()), f')"
    using that flume by (simp add: eqs flume_producer_def split: if_splits)
  show "link_items f' = link_items f"
    if "ep_try_send mpmc_producer m f = (r, f')" "r \<noteq> Ret (Inr ())"
    using that flume by (auto simp: eqs flume_producer_def split: if_splits)
  show "link_items f' = link_items f @ [m]"
    if "ep_send_timeout mpmc_producer m d f = (Ret (Inr ()), f')"
    using that flume by (simp add: eqs flume_producer_def)
  show "link_items f' = link_items f"
    if "ep_send_timeout mpmc_producer m d f = (r, f')" "r \<noteq> Ret (Inr ())"
    using that flume by (simp add: eqs flume_producer_def)
qed

lemma mpmc_consumer_ops [simp]:
  "ec_receive mpmc_consumer = ec_receive flume_consumer"
  "ec_claim mpmc_consumer = ec_claim flume_consumer"
  "ec_ack mpmc_consumer = ec_ack flume_consumer"
  "ec_nack mpmc_consumer = ec_nack flume_consumer"
  by (simp_all add: mpmc_consumer_def flume_consumer_def mpmc_is_flume)

interpretation mpmc_cons: claim_queue mpmc_consumer mem_inv link_items mc_pending
  using flume_cons.claim_queue_axioms
  by (simp add: claim_queue_def claim_source_def claim_requeue_def claim_base_def
      claim_source_axioms_def claim_requeue_axioms_def)

lemma mpmc_batch_loop_spec:
  assumes "mem_inv c" and "n \<le> length (link_items c)"
  shows "\<exists>cms c'. mpmc_batch_loop n b c = (Ret (Inr (b @ cms)), c') \<and> batch_claimed c cms c' \<and>
     length cms = n"
proof -
  have "mpmc_batch_loop n b c = claim_loop flume_claim n b c" if "n \<le> length (link_items c)" "mem_inv c"
    using that
  proof (induction n arbitrary: b c)
    case (Suc n)
    then obtain m ms where Cons: "link_items c = m # ms" by (cases "link_items c") auto
    obtain q cm c1 where cl: "flume_claim c = (Ret (Inr (Some cm)), c1)"
        and c1: "mem_inv c1" "link_items c1 = ms"
      using flume_claim_Cons [OF Suc.prems(2) Cons] by blast
    have "mpmc_batch_loop (Suc n) b c = mpmc_batch_loop n (b @ [cm]) c1"
      using cl by (auto simp: flume_claim_def bindA_def ret_def
          split: prod.splits outcome.splits sum.splits option.splits)
    moreover have "claim_loop flume_claim (Suc n) b c = claim_loop flume_claim n (b @ [cm]) c1"
      using cl by (simp add: bindQ_Inr)
    ultimately show ?case using Suc.IH [of c1] Suc.prems(1) c1 Cons by simp
  qed simp
  with claim_loop_flume [OF assms] assms show ?thesis by simp
qed

lemma mpmc_claim_batch_spec:
  assumes "mem_inv c"
  obtains cms c' where "mpmc_claim_batch n c = (Ret (Inr cms), c')" and "batch_claimed c cms c'"
    and "length cms = min n (length (link_items c))"
proof -
  have len: "ch_len (ln_chan c) (ln_q c) = length (link_items c)"
    using assms by (simp add: mem_inv_def link_inv_def link_items_def)
  show thesis
  proof (cases "n = 0 \<or> link_items c = []")
    case True
    with len have "mpmc_claim_batch n c = (Ret (Inr []), c)"
      by (auto simp: mpmc_claim_batch_def bindA_def getA_def ret_def)
    with True batch_claimed_same [OF assms] that show thesis by auto
  next
    case False
    with len have "mpmc_claim_batch n c = mpmc_batch_loop (min n (length (link_items c))) [] c"
      by (simp add: mpmc_claim_batch_def bindA_def getA_def)
    with mpmc_batch_loop_spec [OF assms, of "min n (length (link_items c))" "[]"] that
    show thesis by auto
  qed
qed


section \<open>Properties\<close>

text \<open>The tokio-mpmc \<^verbatim>\<open>claim_batch\<close>, whose loop awaits each receive, never waits: bounded by
  the queue's length it returns the oldest \<^verbatim>\<open>max\<close> messages (all if there are fewer), in
  queue order, each claimed under a fresh identifier of its own.\<close>

theorem mpmc_claim_batch_correct:
  assumes "mem_inv c"
  shows "\<exists>cms c'. mpmc_claim_batch n c = (Ret (Inr cms), c') \<and> mem_inv c' \<and>
     map cm_message cms = take n (link_items c) \<and> link_items c' = drop n (link_items c) \<and>
     distinct (map cm_claim_id cms) \<and>
     (\<forall>cm \<in> set cms. hm_get (mc_pending c) (cm_claim_id cm) = None \<and>
        hm_get (mc_pending c') (cm_claim_id cm) = Some (cm_message cm))"
proof -
  obtain cms c' where b: "mpmc_claim_batch n c = (Ret (Inr cms), c')" "batch_claimed c cms c'"
      "length cms = min n (length (link_items c))"
    using mpmc_claim_batch_spec [OF assms] by blast
  with batch_claimed_take [OF b(2,3)] batch_claimed_pending [OF b(2)] show ?thesis
    by (auto simp: batch_claimed_def)
qed

theorem mpmc_claim_batch_correct_witness:
  "\<exists>cms c'. mpmc_claim_batch 5
      (list_consumer False None [emessage_default 1, emessage_default 2]) =
      (Ret (Inr cms), c') \<and>
    map cm_message cms = [emessage_default 1, emessage_default 2] \<and> link_items c' = []"
  using mpmc_claim_batch_correct
    [of "list_consumer False None [emessage_default 1, emessage_default 2]" 5]
  by auto

text \<open>On a full tokio-mpmc queue the three sends of the producer differ as their
  documentation says: \<^verbatim>\<open>try_send\<close> reports the queue full at once, \<^verbatim>\<open>send_timeout\<close> reports a
  timeout, \<^verbatim>\<open>send\<close> waits; none of them changes the queue.\<close>

theorem mpmc_full_queue:
  assumes "chan_waiting (ln_chan l)" and "ch_is_full (ln_chan l) (ln_q l)"
  shows "mpmc_try_send m l = (Ret (Inl (EQueue QFull)), l) \<and>
     mpmc_send_timeout m d l = (Ret (Inl (EQueue QTimeout)), l) \<and>
     mpmc_send m l = (Pending, l)"
  using assms
  by (simp add: chan_waiting_def mpmc_is_flume mpmc_try_send_cases flume_send_timeout_cases
      flume_send_cases)

theorem mpmc_full_queue_witness:
  "let l = list_consumer False (Some 1) [emessage_default 1] in
     mpmc_try_send (emessage_default 2) l = (Ret (Inl (EQueue QFull)), l) \<and>
     mpmc_send_timeout (emessage_default 2) (from_secs 5) l = (Ret (Inl (EQueue QTimeout)), l) \<and>
     mpmc_send (emessage_default 2) l = (Pending, l)"
  unfolding Let_def by (rule mpmc_full_queue) simp_all

end
