(* ===== verification/Queue_Crossfire.thy ===== *)
theory Queue_Crossfire
  imports Queue_Mpmc
begin

text \<open>
  The crossfire backend (\<^verbatim>\<open>event_base_queue/src/crossfire.rs\<close>): the per-channel producer and
  consumer, and the factory that opens one channel per topic with the \<^verbatim>\<open>RoutingProducer\<close>
  that dispatches on the topic. Channels are cells of a store, and a handle
  (\<^verbatim>\<open>MAsyncTx\<close>, \<^verbatim>\<open>MAsyncRx\<close>) is an index into it, so handles of the same channel
  alias. The theorems show that topics are isolated from each other, and what happens to a
  message whose topic has no channel.
\<close>

section \<open>Producer and consumer of one channel\<close>

definition crossfire_send :: "emessage \<Rightarrow> (('q, 'z) link_scheme, unit result) act" where
  "crossfire_send e =
     bindA (on_q (\<lambda>ch. ch_send ch e)) (\<lambda>r. case r of
         Inl err \<Rightarrow> ret (Inl (EQueue (QSend err)))
       | Inr _ \<Rightarrow> ret (Inr ()))"

definition crossfire_try_send :: "emessage \<Rightarrow> (('q, 'z) link_scheme, unit result) act" where
  "crossfire_try_send msg =
     bindA (getA (\<lambda>l. ch_is_full (ln_chan l) (ln_q l))) (\<lambda>full.
       if full then ret (Inl (EQueue QFull))
       else bindA (on_q (\<lambda>ch. ch_send ch msg)) (\<lambda>r. case r of
           Inl err \<Rightarrow> ret (Inl (EQueue (QSend err)))
         | Inr _ \<Rightarrow> ret (Inr ())))"

definition crossfire_send_timeout ::
    "emessage \<Rightarrow> duration \<Rightarrow> (('q, 'z) link_scheme, unit result) act" where
  "crossfire_send_timeout msg timeout =
     bindA (timeoutA (crossfire_send msg)) (\<lambda>r. case r of
         Inl elapsed \<Rightarrow> ret (Inl (EQueue QTimeout))
       | Inr inner \<Rightarrow> ret inner)"

definition crossfire_producer :: "('q, 'z) link_scheme eproducer" where
  "crossfire_producer =
     \<lparr>ep_send = crossfire_send, ep_try_send = crossfire_try_send,
      ep_send_timeout = crossfire_send_timeout\<rparr>"

definition crossfire_receive :: "('q mem_consumer, emessage option) act" where
  "crossfire_receive =
     bindA (on_q ch_recv) (\<lambda>msg. case msg of
         Inr (Some m) \<Rightarrow> ret (Some m)
       | _ \<Rightarrow> ret None)"

definition crossfire_claim :: "('q mem_consumer, claimed_message option result) act" where
  "crossfire_claim =
     bindA (on_q ch_recv) (\<lambda>msg. case msg of
         Inr (Some m) \<Rightarrow> bindA (register_claim m) (\<lambda>cm. ret (Inr (Some cm)))
       | _ \<Rightarrow> ret (Inr None))"

fun crossfire_batch_loop :: "nat \<Rightarrow> claimed_message list
    \<Rightarrow> ('q mem_consumer, claimed_message list result) act" where
  "crossfire_batch_loop 0 batch = ret (Inr batch)"
| "crossfire_batch_loop (Suc n) batch =
     bindA try_recv_step (\<lambda>r. case r of
         Inr m \<Rightarrow> bindA (register_claim m) (\<lambda>cm. crossfire_batch_loop n (batch @ [cm]))
       | Inl _ \<Rightarrow> ret (Inr batch))"

definition crossfire_claim_batch ::
    "nat \<Rightarrow> ('q mem_consumer, claimed_message list result) act" where
  "crossfire_claim_batch n = (if n = 0 then ret (Inr []) else crossfire_batch_loop n [])"

definition crossfire_ack :: "string \<Rightarrow> ('q mem_consumer, unit result) act" where
  "crossfire_ack claim_id =
     bindA (putA (\<lambda>c. c\<lparr>mc_pending := hm_remove claim_id (mc_pending c)\<rparr>)) (\<lambda>_. ret (Inr ()))"

definition crossfire_nack :: "string \<Rightarrow> ('q mem_consumer, unit result) act" where
  "crossfire_nack claim_id =
     bindA (getA (\<lambda>c. hm_get (mc_pending c) claim_id)) (\<lambda>p. case p of
         Some msg \<Rightarrow>
           bindA (on_q (\<lambda>ch. ch_send ch msg)) (\<lambda>r. case r of
               Inl e \<Rightarrow> ret (Inl (EQueue (QSend e)))
             | Inr _ \<Rightarrow>
                 bindA (putA (\<lambda>c. c\<lparr>mc_pending := hm_remove claim_id (mc_pending c)\<rparr>))
                   (\<lambda>_. ret (Inr ())))
       | None \<Rightarrow> ret (Inl (EQueue (QInvalidClaimId claim_id))))"

definition crossfire_consumer :: "'q mem_consumer econsumer" where
  "crossfire_consumer =
     \<lparr>ec_receive = crossfire_receive, ec_claim = crossfire_claim,
      ec_claim_batch = crossfire_claim_batch, ec_ack = crossfire_ack, ec_nack = crossfire_nack,
      ec_claim_stale = default_claim_stale\<rparr>"

definition crossfire_memory_queue :: "(nat \<Rightarrow> 'q link) \<Rightarrow> nat \<Rightarrow> ambient
    \<Rightarrow> 'q link eproducer \<times> 'q mem_consumer" where
  "crossfire_memory_queue bounded_async capacity a =
     (crossfire_producer, mem_consumer_new (bounded_async capacity) a)"


section \<open>The factory and the routing producer\<close>

text \<open>
  \<open>cf_open\<close> is \<^verbatim>\<open>mpmc::bounded_async\<close>. The routing table is shared by the factory and
  every \<^verbatim>\<open>RoutingProducer\<close> it hands out.
\<close>

record 'q cf_factory =
  cf_chan :: "'q chan"
  cf_open :: "nat \<Rightarrow> 'q"
  cf_store :: "'q list"
  cf_default :: nat
  cf_capacity :: nat
  cf_routes :: "(string, nat) hashmap"

definition cf_factory_new :: "'q chan \<Rightarrow> (nat \<Rightarrow> 'q) \<Rightarrow> nat \<Rightarrow> 'q cf_factory" where
  "cf_factory_new ch bounded_async capacity =
     \<lparr>cf_chan = ch, cf_open = bounded_async, cf_store = [bounded_async capacity],
      cf_default = 0, cf_capacity = capacity, cf_routes = []\<rparr>"

text \<open>\<open>lock_free\<close>: whether \<^verbatim>\<open>try_write\<close> gets the lock of the routing table. The result is the
  handle that the topic's producer and consumer factory hold.\<close>

definition cf_create_queue :: "bool \<Rightarrow> string \<Rightarrow> ('q cf_factory, nat result) act" where
  "cf_create_queue lock_free topic =
     bindA (getA (\<lambda>f. length (cf_store f))) (\<lambda>h.
     bindA (putA (\<lambda>f. f\<lparr>cf_store := cf_store f @ [cf_open f (cf_capacity f)]\<rparr>)) (\<lambda>_.
     if lock_free then
       bindA (putA (\<lambda>f. f\<lparr>cf_routes := hm_insert topic h (cf_routes f)\<rparr>)) (\<lambda>_. ret (Inr h))
     else halt ''create_queue: routing table lock contention''))"

text \<open>An operation on the channel behind a handle.\<close>

definition on_handle :: "nat \<Rightarrow> ('q chan \<Rightarrow> ('q, 'a) act) \<Rightarrow> ('q cf_factory, 'a) act" where
  "on_handle h f n =
     (case f (cf_chan n) (cf_store n ! h) of (r, q') \<Rightarrow> (r, n\<lparr>cf_store := (cf_store n)[h := q']\<rparr>))"

definition not_registered :: "string \<Rightarrow> core_error" where
  "not_registered topic =
     EQueue (QSend (''topic '' @ [CHR 0x27] @ topic @ [CHR 0x27] @ '' is not registered''))"

definition routing_send :: "emessage \<Rightarrow> ('q cf_factory, unit result) act" where
  "routing_send msg =
     bindA (getA (\<lambda>n. case hm_get (cf_routes n) (msg_topic msg) of
         Some t \<Rightarrow> (True, t) | None \<Rightarrow> (False, cf_default n))) (\<lambda>(found, tx).
     if \<not> found \<and> starts_with (msg_topic msg) ''_system.'' then ret (Inr ())
     else if \<not> found then ret (Inl (not_registered (msg_topic msg)))
     else bindA (on_handle tx (\<lambda>ch. ch_send ch msg)) (\<lambda>r. case r of
         Inl e \<Rightarrow> ret (Inl (EQueue (QSend e)))
       | Inr _ \<Rightarrow> ret (Inr ())))"

definition routing_try_send :: "emessage \<Rightarrow> ('q cf_factory, unit result) act" where
  "routing_try_send msg =
     bindA (getA (\<lambda>n. hm_get (cf_routes n) (msg_topic msg))) (\<lambda>route. case route of
         Some tx \<Rightarrow>
           bindA (getA (\<lambda>n. ch_is_full (cf_chan n) (cf_store n ! tx))) (\<lambda>full.
           if full then ret (Inl (EQueue QFull))
           else bindA (on_handle tx (\<lambda>ch. ch_send ch msg)) (\<lambda>r. case r of
               Inl e \<Rightarrow> ret (Inl (EQueue (QSend e)))
             | Inr _ \<Rightarrow> ret (Inr ())))
       | None \<Rightarrow>
           if starts_with (msg_topic msg) ''_system.'' then ret (Inr ())
           else ret (Inl (not_registered (msg_topic msg))))"

definition routing_send_timeout :: "emessage \<Rightarrow> duration \<Rightarrow> ('q cf_factory, unit result) act" where
  "routing_send_timeout msg timeout =
     bindA (timeoutA (routing_send msg)) (\<lambda>r. case r of
         Inl elapsed \<Rightarrow> ret (Inl (EQueue QTimeout))
       | Inr inner \<Rightarrow> ret inner)"

definition routing_producer :: "'q cf_factory eproducer" where
  "routing_producer =
     \<lparr>ep_send = routing_send, ep_try_send = routing_try_send,
      ep_send_timeout = routing_send_timeout\<rparr>"

definition cf_create_global_producer :: "'q cf_factory \<Rightarrow> 'q cf_factory eproducer result" where
  "cf_create_global_producer f = Inr routing_producer"

definition cf_create_consumer :: "'q cf_factory \<Rightarrow> nat \<Rightarrow> ambient \<Rightarrow> 'q mem_consumer" where
  "cf_create_consumer f h a =
     \<lparr>ln_chan = cf_chan f, ln_q = cf_store f ! h, mc_pending = [], mc_amb = a\<rparr>"

definition cf_create_main_consumer :: "'q cf_factory \<Rightarrow> ambient \<Rightarrow> 'q mem_consumer result" where
  "cf_create_main_consumer f a = Inr (cf_create_consumer f (cf_default f) a)"


section \<open>The contracts of producer and consumer\<close>

lemma crossfire_send_eq: "crossfire_send = flume_send"
  by (rule ext) (simp add: crossfire_send_def flume_send_def)

lemma crossfire_try_send_eq: "crossfire_try_send = mpmc_try_send"
  by (rule ext) (simp add: crossfire_try_send_def mpmc_try_send_def)

lemma crossfire_send_timeout_eq: "crossfire_send_timeout = flume_send_timeout"
  by (intro ext) (simp add: crossfire_send_timeout_def flume_send_timeout_def crossfire_send_eq)

lemma crossfire_producer_eq: "crossfire_producer = mpmc_producer"
  by (simp add: crossfire_producer_def mpmc_producer_def mpmc_is_flume crossfire_send_eq
      crossfire_try_send_eq crossfire_send_timeout_eq)

lemma crossfire_batch_loop_eq: "crossfire_batch_loop n b = flume_batch_loop n b"
  by (induction n arbitrary: b) simp_all

lemma crossfire_consumer_eq: "crossfire_consumer = flume_consumer"
proof -
  have "crossfire_claim_batch = flume_claim_batch"
    by (rule ext) (simp add: crossfire_claim_batch_def flume_claim_batch_def crossfire_batch_loop_eq)
  moreover have "crossfire_ack = flume_ack"
    by (rule ext) (simp add: crossfire_ack_def flume_ack_def)
  moreover have "crossfire_nack = flume_nack"
    by (rule ext) (simp add: crossfire_nack_def flume_nack_def)
  ultimately show ?thesis
    by (simp add: crossfire_consumer_def flume_consumer_def crossfire_receive_def
        flume_receive_def crossfire_claim_def flume_claim_def)
qed

interpretation crossfire_prod: queue_producer crossfire_producer link_inv link_items
  using mpmc_prod.queue_producer_axioms by (simp add: crossfire_producer_eq)

interpretation crossfire_cons: claim_queue crossfire_consumer mem_inv link_items mc_pending
  using flume_cons.claim_queue_axioms by (simp add: crossfire_consumer_eq)


section \<open>Routing\<close>

definition cf_inv :: "'q cf_factory \<Rightarrow> bool" where
  "cf_inv f \<longleftrightarrow>
     chan_fifo (cf_chan f) \<and> (\<forall>n. ch_items (cf_chan f) (cf_open f n) = []) \<and>
     hm_wf (cf_routes f) \<and> distinct (hm_values (cf_routes f)) \<and>
     cf_default f < length (cf_store f) \<and>
     (\<forall>h \<in> set (hm_values (cf_routes f)). h < length (cf_store f) \<and> h \<noteq> cf_default f)"

definition cf_content :: "'q cf_factory \<Rightarrow> nat \<Rightarrow> emessage list" where
  "cf_content f h = ch_items (cf_chan f) (cf_store f ! h)"

definition cf_items :: "'q cf_factory \<Rightarrow> string \<Rightarrow> emessage list" where
  "cf_items f t = (case hm_get (cf_routes f) t of None \<Rightarrow> [] | Some h \<Rightarrow> cf_content f h)"

lemma cf_handle:
  assumes "cf_inv f" and "hm_get (cf_routes f) t = Some h"
  shows "h < length (cf_store f)" and "h \<noteq> cf_default f"
  using assms map_of_SomeD [OF assms(2)] by (force simp: cf_inv_def)+

lemma cf_handle_inj:
  assumes "cf_inv f" and "hm_get (cf_routes f) t = Some h" and "hm_get (cf_routes f) t' = Some h"
  shows "t' = t"
proof -
  have "(t, h) \<in> set (cf_routes f)" "(t', h) \<in> set (cf_routes f)"
    using assms(2,3) by (auto dest: map_of_SomeD)
  moreover have "inj_on snd (set (cf_routes f))"
    using assms(1) by (simp add: cf_inv_def distinct_map)
  ultimately show ?thesis by (metis inj_onD fst_conv snd_conv)
qed

lemma on_handle_inv: "cf_inv f \<Longrightarrow> cf_inv (snd (on_handle h g f))"
  by (auto simp: cf_inv_def on_handle_def split: prod.splits)

lemma on_handle_content:
  assumes "on_handle h g f = (r, f')" and "h < length (cf_store f)"
  shows "cf_content f' h' = (if h' = h
      then ch_items (cf_chan f) (snd (g (cf_chan f) (cf_store f ! h))) else cf_content f h')"
    and "cf_routes f' = cf_routes f" and "cf_default f' = cf_default f"
  using assms by (auto simp: on_handle_def cf_content_def split: prod.splits)

lemma routing_send_unrouted:
  "hm_get (cf_routes f) (msg_topic m) = None \<Longrightarrow> routing_send m f =
     (Ret (if starts_with (msg_topic m) ''_system.'' then Inr ()
           else Inl (not_registered (msg_topic m))), f)"
  by (simp add: routing_send_def bindA_def getA_def ret_def)

lemma routing_send_routed:
  assumes "hm_get (cf_routes f) (msg_topic m) = Some h"
  shows "routing_send m f = (case on_handle h (\<lambda>ch. ch_send ch m) f of (r, f') \<Rightarrow>
     (case r of Ret (Inl e) \<Rightarrow> Ret (Inl (EQueue (QSend e))) | Ret (Inr u) \<Rightarrow> Ret (Inr ())
        | Pending \<Rightarrow> Pending | Blocked \<Rightarrow> Blocked | Panic e \<Rightarrow> Panic e, f'))"
  using assms by (simp add: routing_send_def bindA_def getA_def ret_def
      split: prod.splits outcome.splits sum.splits)

lemma routing_send_keeps: "keeps cf_inv (routing_send m)"
proof (rule keepsI)
  fix f :: "'q cf_factory" assume inv: "cf_inv f"
  show "cf_inv (snd (routing_send m f))"
  proof (cases "hm_get (cf_routes f) (msg_topic m)")
    case None
    with inv show ?thesis by (simp add: routing_send_unrouted)
  next
    case (Some h)
    with on_handle_inv [OF inv, of h "\<lambda>ch. ch_send ch m"] show ?thesis
      by (simp add: routing_send_routed split_def)
  qed
qed

lemma routing_send_effect:
  assumes "cf_inv f" and "routing_send m f = (r, f')"
  shows "cf_routes f' = cf_routes f" and "cf_default f' = cf_default f"
    and "cf_content f' h = (if hm_get (cf_routes f) (msg_topic m) = Some h \<and> r = Ret (Inr ())
       then cf_content f h @ [m] else cf_content f h)"
proof -
  have "cf_routes f' = cf_routes f \<and> cf_default f' = cf_default f \<and>
     cf_content f' h = (if hm_get (cf_routes f) (msg_topic m) = Some h \<and> r = Ret (Inr ())
       then cf_content f h @ [m] else cf_content f h)"
  proof (cases "hm_get (cf_routes f) (msg_topic m)")
    case None
    with assms(2) show ?thesis by (auto simp: routing_send_unrouted)
  next
    case (Some h0)
    have fifo: "chan_fifo (cf_chan f)" using assms(1) by (simp add: cf_inv_def)
    obtain v f1 where v: "on_handle h0 (\<lambda>ch. ch_send ch m) f = (v, f1)" by fastforce
    with assms(2) Some have r: "f' = f1" "r = Ret (Inr ()) \<longleftrightarrow> v = Ret (Inr ())"
      by (auto simp: routing_send_routed split: outcome.splits sum.splits)
    have vq: "ch_send (cf_chan f) m (cf_store f ! h0) =
        (v, snd (ch_send (cf_chan f) m (cf_store f ! h0)))"
      using v by (auto simp: on_handle_def split: prod.splits)
    have "ch_items (cf_chan f) (snd (ch_send (cf_chan f) m (cf_store f ! h0))) =
        (if v = Ret (Inr ()) then cf_content f h0 @ [m] else cf_content f h0)"
      using chan_send_ok [OF fifo] chan_send_other [OF fifo vq] vq by (auto simp: cf_content_def)
    with on_handle_content [OF v cf_handle(1) [OF assms(1) Some]] r Some show ?thesis by auto
  qed
  then show "cf_routes f' = cf_routes f" "cf_default f' = cf_default f"
    "cf_content f' h = (if hm_get (cf_routes f) (msg_topic m) = Some h \<and> r = Ret (Inr ())
       then cf_content f h @ [m] else cf_content f h)" by auto
qed

lemma routing_send_timeout_cases:
  "routing_send_timeout m d f = (case routing_send m f of
     (Pending, f') \<Rightarrow> (Ret (Inl (EQueue QTimeout)), f') | (r, f') \<Rightarrow> (r, f'))"
  by (simp add: routing_send_timeout_def bindA_def timeoutA_def ret_def
      split: prod.splits outcome.splits)

lemma routing_try_send_unrouted:
  "hm_get (cf_routes f) (msg_topic m) = None \<Longrightarrow> routing_try_send m f = routing_send m f"
  by (simp add: routing_try_send_def routing_send_unrouted bindA_def getA_def ret_def)

lemma routing_try_send_routed:
  "hm_get (cf_routes f) (msg_topic m) = Some h \<Longrightarrow> routing_try_send m f =
     (if ch_is_full (cf_chan f) (cf_store f ! h) then (Ret (Inl (EQueue QFull)), f)
      else routing_send m f)"
  by (simp add: routing_try_send_def routing_send_def bindA_def outcome_simps)

lemma cf_factory_new_inv:
  "chan_fifo ch \<Longrightarrow> (\<And>n. ch_items ch (bounded_async n) = []) \<Longrightarrow>
   cf_inv (cf_factory_new ch bounded_async cap)"
  by (simp add: cf_inv_def cf_factory_new_def)

lemma hm_values_insert_subset:
  "set (hm_values (hm_insert k v m)) \<subseteq> insert v (set (hm_values m))"
  by (induction m) auto

lemma hm_values_insert_distinct:
  "distinct (hm_values m) \<Longrightarrow> v \<notin> set (hm_values m) \<Longrightarrow> distinct (hm_values (hm_insert k v m))"
proof (induction m)
  case (Cons p m)
  then show ?case using hm_values_insert_subset [of k v m] by (cases p) auto
qed simp

lemma cf_create_queue_app:
  "cf_create_queue True t f = (Ret (Inr (length (cf_store f))),
     f\<lparr>cf_store := cf_store f @ [cf_open f (cf_capacity f)],
       cf_routes := hm_insert t (length (cf_store f)) (cf_routes f)\<rparr>)"
  by (simp add: cf_create_queue_def bindA_def outcome_simps)

lemma cf_create_queue_inv:
  assumes "cf_inv f"
  shows "cf_inv (snd (cf_create_queue True t f))"
proof -
  have new: "length (cf_store f) \<notin> set (hm_values (cf_routes f))"
    using assms by (force simp: cf_inv_def)
  have "h < Suc (length (cf_store f)) \<and> h \<noteq> cf_default f"
    if "h \<in> set (hm_values (hm_insert t (length (cf_store f)) (cf_routes f)))" for h
    using that assms set_mp [OF hm_values_insert_subset that]
    by (auto simp: cf_inv_def less_Suc_eq)
  with assms new show ?thesis
    by (auto simp: cf_create_queue_app cf_inv_def hm_values_insert_distinct)
qed

lemma cf_create_queue_items:
  assumes "cf_inv f"
  shows "cf_items (snd (cf_create_queue True t f)) t' = (if t' = t then [] else cf_items f t')"
  using assms cf_handle(1) [OF assms, of t']
  by (auto simp: cf_create_queue_app cf_items_def cf_content_def nth_append cf_inv_def
      split: option.splits)


section \<open>Properties\<close>

text \<open>Sends through the routing producer keep topics apart. A send of a message, whatever
  its outcome, keeps the routing table and changes no queue but that of the message's own
  topic, to which it appends the message exactly when the topic has a channel and the send
  reports success; the factory's own channel is never written.\<close>

theorem routing_send_isolated:
  assumes "cf_inv f" and "routing_send m f = (r, f')"
  shows "cf_inv f' \<and> cf_routes f' = cf_routes f \<and>
     cf_content f' (cf_default f') = cf_content f (cf_default f) \<and>
     cf_items f' t = (if t = msg_topic m \<and> r = Ret (Inr ()) \<and> hm_contains (cf_routes f) t
       then cf_items f t @ [m] else cf_items f t)"
proof -
  have "cf_inv f'" using keepsD [OF routing_send_keeps assms(1), of m] assms(2) by simp
  moreover have "cf_content f' (cf_default f') = cf_content f (cf_default f)"
    using routing_send_effect [OF assms] cf_handle(2) [OF assms(1), of "msg_topic m"] by auto
  moreover have "cf_items f' t = (if t = msg_topic m \<and> r = Ret (Inr ()) \<and>
      hm_contains (cf_routes f) t then cf_items f t @ [m] else cf_items f t)"
    using routing_send_effect [OF assms] cf_handle_inj [OF assms(1), of "msg_topic m"]
    by (auto simp: cf_items_def split: option.splits)
  ultimately show ?thesis using routing_send_effect(1) [OF assms] by simp
qed

definition cf_example :: "list_q cf_factory" where
  "cf_example = snd (cf_create_queue True ''orders'' (snd (cf_create_queue True ''mail''
     (cf_factory_new (list_chan False) (\<lambda>n. \<lparr>lq_items = [], lq_cap = Some n, lq_shut = False\<rparr>) 4))))"

lemma cf_example_inv [simp]: "cf_inv cf_example"
  unfolding cf_example_def
  by (intro cf_create_queue_inv cf_factory_new_inv) simp_all

theorem routing_send_isolated_witness:
  "\<exists>f'. routing_send ((emessage_default 1)\<lparr>msg_topic := ''mail''\<rparr>) cf_example = (Ret (Inr ()), f') \<and>
     cf_items f' ''orders'' = cf_items cf_example ''orders''"
proof -
  obtain f' where f': "routing_send ((emessage_default 1)\<lparr>msg_topic := ''mail''\<rparr>) cf_example =
      (Ret (Inr ()), f')"
    by (simp add: cf_example_def cf_create_queue_app cf_factory_new_def routing_send_routed
        on_handle_def list_chan_def lq_full_def)
  from routing_send_isolated [OF cf_example_inv f', of "''orders''"] f' show ?thesis by simp
qed

text \<open>A message whose topic has no channel never reaches a queue: each of the three
  sends reports success for a topic in the system namespace (the message is dropped) and an
  error naming the topic otherwise, and changes nothing.\<close>

theorem routing_unrouted:
  assumes "hm_get (cf_routes f) (msg_topic m) = None"
    and "res = (if starts_with (msg_topic m) ''_system.'' then Inr ()
                else Inl (not_registered (msg_topic m)))"
  shows "routing_send m f = (Ret res, f) \<and> routing_try_send m f = (Ret res, f) \<and>
     routing_send_timeout m d f = (Ret res, f)"
  using assms
  by (simp add: routing_send_unrouted routing_try_send_unrouted routing_send_timeout_cases)

theorem routing_unrouted_witness:
  "routing_send ((emessage_default 1)\<lparr>msg_topic := ''_system.audit''\<rparr>) cf_example =
     (Ret (Inr ()), cf_example)"
proof -
  have "hm_get (cf_routes cf_example) (msg_topic ((emessage_default 1)\<lparr>msg_topic := ''_system.audit''\<rparr>))
      = None"
    by (simp add: cf_example_def cf_create_queue_app cf_factory_new_def)
  from routing_unrouted [OF this refl] show ?thesis by simp
qed

text \<open>Registering a topic opens an empty queue for it and leaves the queue of every other
  topic as it is; a registration that finds the routing table locked panics and leaves
  every queue as it is.\<close>

theorem cf_create_queue_correct:
  assumes "cf_inv f"
  shows "\<exists>h f'. cf_create_queue True t f = (Ret (Inr h), f') \<and> cf_inv f' \<and>
     hm_get (cf_routes f') t = Some h \<and>
     (\<forall>t'. cf_items f' t' = (if t' = t then [] else cf_items f t')) \<and>
     (\<exists>e f''. cf_create_queue False t f = (Panic e, f'') \<and> (\<forall>t'. cf_items f'' t' = cf_items f t'))"
proof -
  have "cf_items (f\<lparr>cf_store := cf_store f @ qs\<rparr>) t' = cf_items f t'" for qs t'
    using cf_handle(1) [OF assms, of t']
    by (auto simp: cf_items_def cf_content_def nth_append split: option.splits)
  then have "\<exists>e f''. cf_create_queue False t f = (Panic e, f'') \<and> (\<forall>t'. cf_items f'' t' = cf_items f t')"
    by (simp add: cf_create_queue_def bindA_def outcome_simps)
  with cf_create_queue_inv [OF assms, of t] cf_create_queue_items [OF assms, of t] show ?thesis
    by (simp add: cf_create_queue_app)
qed

theorem cf_create_queue_correct_witness:
  "\<exists>h f'. cf_create_queue True ''mail'' cf_example = (Ret (Inr h), f') \<and>
     cf_items f' ''mail'' = [] \<and> cf_items f' ''orders'' = cf_items cf_example ''orders''"
  using cf_create_queue_correct [OF cf_example_inv, of "''mail''"] by auto

end
