(* ===== verification/Wal.thy ===== *)
theory Wal
  imports Message
begin

text \<open>
  The write-ahead log abstraction (\<^verbatim>\<open>event_base_core/src/wal/wal.rs\<close>,
  \<^verbatim>\<open>event_base_core/src/wal/codec.rs\<close>) and the worker information it stores
  (\<^verbatim>\<open>event_base_core/src/worker_registry.rs\<close>).

  The trait \<^verbatim>\<open>Wal\<close> is a record of operations. The clock reading that \<^verbatim>\<open>fetch_ready\<close> takes
  and the identifier and time of a message that \<^verbatim>\<open>update_state\<close> may create are arguments.
  The byte codec (bincode) is a parameter; \<open>codec_ok\<close> is its round-trip guarantee.

  The locale \<open>delay_polls\<close> is what a store of delayed records owes its poller: in it every
  scheduled message is shown to be handed out exactly once, by the first poll that finds it
  due. The locale \<open>wal_backend\<close> is the whole log the rest of the system relies on.
\<close>

section \<open>Records\<close>

record worker_info =
  wi_name :: string
  wi_topic :: string
  last_heartbeat :: time

datatype wal_record_state = WPending | WProcessing | WComplete | WFailed

record wal_record =
  record_id :: u64
  wr_message :: emessage
  wr_status :: wal_record_state
  last_attempt_at :: "time option"
  is_dead_letter :: bool
  wr_dead_reason :: "dead_reason option"

definition wal_record_from_msg :: "emessage \<Rightarrow> wal_record" where
  "wal_record_from_msg msg =
     \<lparr>record_id = 0, wr_message = msg, wr_status = WPending, last_attempt_at = None,
      is_dead_letter = False, wr_dead_reason = None\<rparr>"


section \<open>The byte codec\<close>

record 'a codec =
  cd_enc :: "'a \<Rightarrow> string + u8 list"
  cd_dec :: "u8 list \<Rightarrow> string + 'a"

definition codec_ok :: "'a codec \<Rightarrow> bool" where
  "codec_ok c \<longleftrightarrow> (\<forall>x b. cd_enc c x = Inr b \<longrightarrow> cd_dec c b = Inr x)"

definition bincode_encode :: "wal_record codec \<Rightarrow> wal_record \<Rightarrow> serialize_error + u8 list" where
  "bincode_encode c r = (case cd_enc c r of Inl e \<Rightarrow> Inl (SerializeError e) | Inr b \<Rightarrow> Inr b)"

definition bincode_decode :: "wal_record codec \<Rightarrow> u8 list \<Rightarrow> serialize_error + wal_record" where
  "bincode_decode c b = (case cd_dec c b of Inl e \<Rightarrow> Inl (DeserializeError e) | Inr r \<Rightarrow> Inr r)"


section \<open>The trait\<close>

record 'w wal_ops =
  wal_append :: "wal_record \<Rightarrow> ('w, unit result) act"
  wal_update_state :: "string \<Rightarrow> time \<Rightarrow> string \<Rightarrow> wal_record_state \<Rightarrow> ('w, unit result) act"
  wal_replay_pending :: "('w, wal_record list result) act"
  wal_flush :: "('w, unit result) act"
  wal_schedule :: "wal_record \<Rightarrow> ('w, unit result) act"
  wal_fetch_ready :: "time \<Rightarrow> ('w, wal_record list result) act"
  wal_remove_scheduled :: "string \<Rightarrow> ('w, unit result) act"
  wal_save_worker_registry :: "(string, worker_info) hashmap \<Rightarrow> ('w, unit result) act"
  wal_load_worker_registry :: "('w, (string, worker_info) hashmap result) act"

definition is_due :: "time \<Rightarrow> wal_record \<Rightarrow> bool" where
  "is_due now r = (case deliver_at (wr_message r) of None \<Rightarrow> False | Some t \<Rightarrow> t \<le> now)"

text \<open>Polling the log at a sequence of clock readings: everything handed out, in order.\<close>

fun fetch_run :: "'w wal_ops \<Rightarrow> time list \<Rightarrow> 'w \<Rightarrow> wal_record list \<times> 'w" where
  "fetch_run ops [] w = ([], w)"
| "fetch_run ops (t # ts) w =
     (case wal_fetch_ready ops t w of
        (Ret (Inr rs), w') \<Rightarrow> (case fetch_run ops ts w' of (rs', w'') \<Rightarrow> (rs @ rs', w''))
      | (_, w') \<Rightarrow> fetch_run ops ts w')"

text \<open>
  A delay store that is polled: a poll hands out exactly the records that are due and forgets
  them. When a record counts as due is the store's own choice, since the store in Redis
  compares whole milliseconds.
\<close>

locale delay_polls =
  fixes ops :: "'w wal_ops"
    and winv :: "'w \<Rightarrow> bool"
    and dels :: "'w \<Rightarrow> string \<Rightarrow> wal_record option"
    and due :: "time \<Rightarrow> wal_record \<Rightarrow> bool"
  assumes poll_law: "winv w \<Longrightarrow> \<exists>rs w'. wal_fetch_ready ops t w = (Ret (Inr rs), w') \<and> winv w' \<and>
        distinct rs \<and> set rs = {r. \<exists>k. dels w k = Some r \<and> due t r} \<and>
        dels w' = (\<lambda>k. case dels w k of None \<Rightarrow> None | Some r \<Rightarrow> if due t r then None else Some r)"
begin

lemma fetch_gone:
  "winv w \<Longrightarrow> r \<notin> ran (dels w) \<Longrightarrow> r \<notin> set (fst (fetch_run ops ts w))"
proof (induction ts arbitrary: w)
  case (Cons t ts)
  obtain rs w' where f: "wal_fetch_ready ops t w = (Ret (Inr rs), w')" "winv w'"
      "set rs = {r. \<exists>k. dels w k = Some r \<and> due t r}"
      "dels w' = (\<lambda>k. case dels w k of None \<Rightarrow> None | Some r \<Rightarrow> if due t r then None else Some r)"
    using poll_law [OF Cons.prems(1), of t] by blast
  have "r \<notin> set rs" using f(3) Cons.prems(2) by (auto simp: ran_def)
  moreover have "r \<notin> ran (dels w')"
    using f(4) Cons.prems(2) by (auto simp: ran_def split: option.splits if_splits)
  ultimately show ?case using Cons.IH [OF f(2)] f(1) by (auto split: prod.splits)
qed simp

text \<open>
  A scheduled record is handed out exactly once over any sequence of polls, if one of them
  is at or after its delivery time, and never otherwise.
\<close>

lemma fetch_exactly_once:
  assumes "winv w" and "dels w k = Some r"
  shows "count_list (fst (fetch_run ops ts w)) r = (if \<exists>t \<in> set ts. due t r then 1 else 0)"
  using assms
proof (induction ts arbitrary: w)
  case (Cons t ts)
  obtain rs w' where f: "wal_fetch_ready ops t w = (Ret (Inr rs), w')" "winv w'" "distinct rs"
      "set rs = {r. \<exists>k. dels w k = Some r \<and> due t r}"
      "dels w' = (\<lambda>k. case dels w k of None \<Rightarrow> None | Some r \<Rightarrow> if due t r then None else Some r)"
    using poll_law [OF Cons.prems(1), of t] by blast
  have sum: "count_list (fst (fetch_run ops (t # ts) w)) r =
      count_list rs r + count_list (fst (fetch_run ops ts w')) r"
    using f(1) by (simp split: prod.splits)
  show ?case
  proof (cases "due t r")
    case True
    have "r \<in> set rs" using f(4) Cons.prems(2) True by auto
    with f(3) have "count_list rs r = 1" by (rule distinct_count_list)
    moreover have "r \<notin> ran (dels w')"
      using f(5) True by (auto simp: ran_def split: option.splits if_splits)
    then have "count_list (fst (fetch_run ops ts w')) r = 0"
      using fetch_gone [OF f(2)] by (simp add: count_list_0_iff)
    ultimately show ?thesis using sum True by auto
  next
    case False
    then have "count_list rs r = 0" using f(4) by (auto simp: count_list_0_iff)
    moreover have "dels w' k = Some r" using f(5) Cons.prems(2) False by simp
    ultimately show ?thesis using sum Cons.IH [OF f(2)] False by auto
  qed
qed simp

end

text \<open>The whole log.\<close>

locale wal_backend =
  fixes ops :: "'w wal_ops"
    and winv :: "'w \<Rightarrow> bool"
    and recs :: "'w \<Rightarrow> string \<Rightarrow> wal_record option"
    and dels :: "'w \<Rightarrow> string \<Rightarrow> wal_record option"
    and reg :: "'w \<Rightarrow> (string, worker_info) hashmap"
  assumes append_law: "winv w \<Longrightarrow> \<exists>n w'. wal_append ops r w = (Ret (Inr ()), w') \<and> winv w' \<and>
        recs w' = (recs w)(msg_id (wr_message r) \<mapsto> r\<lparr>record_id := n\<rparr>) \<and> dels w' = dels w \<and>
        reg w' = reg w"
    and update_law: "winv w \<Longrightarrow> recs w k = Some r \<Longrightarrow>
        \<exists>w'. wal_update_state ops u t k s w = (Ret (Inr ()), w') \<and> winv w' \<and>
          recs w' = (recs w)(k \<mapsto> r\<lparr>wr_status := s\<rparr>) \<and> dels w' = dels w \<and> reg w' = reg w"
    and update_other: "winv w \<Longrightarrow> wal_update_state ops u t k s w = (v, w') \<Longrightarrow>
        winv w' \<and> (\<forall>k'. k' \<noteq> k \<longrightarrow> recs w' k' = recs w k') \<and> dels w' = dels w \<and> reg w' = reg w"
    and replay_law: "winv w \<Longrightarrow> \<exists>rs. wal_replay_pending ops w = (Ret (Inr rs), w) \<and>
        set rs = {r. \<exists>k. recs w k = Some r \<and> wr_status r = WPending}"
    and schedule_law: "winv w \<Longrightarrow> \<exists>n w'. wal_schedule ops r w = (Ret (Inr ()), w') \<and> winv w' \<and>
        dels w' = (dels w)(msg_id (wr_message r) \<mapsto> r\<lparr>record_id := n\<rparr>) \<and> recs w' = recs w \<and>
        reg w' = reg w"
    and fetch_law: "winv w \<Longrightarrow> \<exists>rs w'. wal_fetch_ready ops t w = (Ret (Inr rs), w') \<and> winv w' \<and>
        distinct rs \<and> set rs = {r. \<exists>k. dels w k = Some r \<and> is_due t r} \<and>
        dels w' = (\<lambda>k. case dels w k of None \<Rightarrow> None | Some r \<Rightarrow> if is_due t r then None else Some r) \<and>
        recs w' = recs w \<and> reg w' = reg w"
    and remove_law: "winv w \<Longrightarrow> \<exists>w'. wal_remove_scheduled ops k w = (Ret (Inr ()), w') \<and> winv w' \<and>
        dels w' = (dels w)(k := None) \<and> recs w' = recs w \<and> reg w' = reg w"
    and save_law: "winv w \<Longrightarrow> \<exists>w'. wal_save_worker_registry ops g w = (Ret (Inr ()), w') \<and>
        winv w' \<and> reg w' = g \<and> recs w' = recs w \<and> dels w' = dels w"
    and load_law: "winv w \<Longrightarrow> wal_load_worker_registry ops w = (Ret (Inr (reg w)), w)"
    and dels_key: "winv w \<Longrightarrow> dels w k = Some r \<Longrightarrow> msg_id (wr_message r) = k"

sublocale wal_backend \<subseteq> polls: delay_polls ops winv dels is_due
proof
  show "\<exists>rs w'. wal_fetch_ready ops t w = (Ret (Inr rs), w') \<and> winv w' \<and>
      distinct rs \<and> set rs = {r. \<exists>k. dels w k = Some r \<and> is_due t r} \<and>
      dels w' = (\<lambda>k. case dels w k of None \<Rightarrow> None | Some r \<Rightarrow> if is_due t r then None else Some r)"
    if "winv w" for w t
    using fetch_law [OF that, of t] by blast
qed

context wal_backend
begin

lemma schedule_then_fetch:
  assumes "winv w"
  shows "\<exists>n w'. wal_schedule ops r w = (Ret (Inr ()), w') \<and>
     count_list (fst (fetch_run ops ts w')) (r\<lparr>record_id := n\<rparr>) =
       (if \<exists>t \<in> set ts. is_due t r then 1 else 0)"
proof -
  obtain n w' where s: "wal_schedule ops r w = (Ret (Inr ()), w')" "winv w'"
      "dels w' = (dels w)(msg_id (wr_message r) \<mapsto> r\<lparr>record_id := n\<rparr>)"
    using schedule_law [OF assms, of r] by blast
  have "is_due t (r\<lparr>record_id := n\<rparr>) = is_due t r" for t by (simp add: is_due_def)
  with polls.fetch_exactly_once [OF s(2), of "msg_id (wr_message r)" "r\<lparr>record_id := n\<rparr>" ts] s(3)
  have "count_list (fst (fetch_run ops ts w')) (r\<lparr>record_id := n\<rparr>) =
      (if \<exists>t \<in> set ts. is_due t r then 1 else 0)" by simp
  with s(1) show ?thesis by blast
qed

lemma registry_roundtrip:
  assumes "winv w" and "wal_save_worker_registry ops g w = (v, w')"
  shows "wal_load_worker_registry ops w' = (Ret (Inr g), w')"
  using save_law [OF assms(1), of g] assms(2) load_law [of w'] by auto

text \<open>What is appended is replayed until its state is changed.\<close>

lemma append_then_replay:
  assumes "winv w" and "wr_status r = WPending"
  shows "\<exists>n w' rs. wal_append ops r w = (Ret (Inr ()), w') \<and>
     wal_replay_pending ops w' = (Ret (Inr rs), w') \<and> r\<lparr>record_id := n\<rparr> \<in> set rs"
proof -
  obtain n w' where a: "wal_append ops r w = (Ret (Inr ()), w')" "winv w'"
      "recs w' = (recs w)(msg_id (wr_message r) \<mapsto> r\<lparr>record_id := n\<rparr>)"
    using append_law [OF assms(1), of r] by blast
  obtain rs where "wal_replay_pending ops w' = (Ret (Inr rs), w')"
      "set rs = {r. \<exists>k. recs w' k = Some r \<and> wr_status r = WPending}"
    using replay_law [OF a(2)] by blast
  with a assms(2) show ?thesis by (intro exI [of _ n] exI [of _ w'] exI [of _ rs]) auto
qed

lemma update_then_replay:
  assumes "winv w" and "recs w k = Some r" and "s \<noteq> WPending"
    and uniq: "\<And>k'. recs w k' = Some r' \<Longrightarrow> k' = k"
  shows "\<exists>w' rs. wal_update_state ops u t k s w = (Ret (Inr ()), w') \<and>
     wal_replay_pending ops w' = (Ret (Inr rs), w') \<and> r' \<notin> set rs"
proof -
  obtain w' where a: "wal_update_state ops u t k s w = (Ret (Inr ()), w')" "winv w'"
      "recs w' = (recs w)(k \<mapsto> r\<lparr>wr_status := s\<rparr>)"
    using update_law [OF assms(1,2), of u t s] by blast
  obtain rs where rs: "wal_replay_pending ops w' = (Ret (Inr rs), w')"
      "set rs = {r. \<exists>k. recs w' k = Some r \<and> wr_status r = WPending}"
    using replay_law [OF a(2)] by blast
  have "r' \<notin> set rs" using rs(2) a(3) assms(3) uniq by (auto split: if_splits)
  with a rs show ?thesis by blast
qed

end

text \<open>The record codec of the log loses nothing: a record that encodes decodes to
  itself, for every bincode configuration that round-trips; a failure to encode or to decode
  surfaces as the serialisation error of its direction.\<close>

theorem bincode_roundtrip:
  assumes "codec_ok c" and "bincode_encode c r = Inr b"
  shows "bincode_decode c b = Inr r"
  using assms by (auto simp: codec_ok_def bincode_encode_def bincode_decode_def split: sum.splits)

text \<open>A codec of two records, as an instance of the parameter.\<close>

theorem bincode_roundtrip_witness:
  "\<exists>c b. bincode_encode c (wal_record_from_msg (emessage_default 3)) = Inr b \<and>
     bincode_decode c b = Inr (wal_record_from_msg (emessage_default 3))"
proof -
  let ?r = "wal_record_from_msg (emessage_default 3)"
  let ?c = "\<lparr>cd_enc = (\<lambda>r. if r = ?r then Inr [7] else Inl ''unsupported''),
      cd_dec = (\<lambda>b. if b = [7 :: u8] then Inr ?r else Inl ''eof'')\<rparr>"
  have "codec_ok ?c" by (auto simp: codec_ok_def split: if_splits)
  moreover have "bincode_encode ?c ?r = Inr [7]" by (simp add: bincode_encode_def)
  ultimately show ?thesis using bincode_roundtrip [of ?c ?r "[7]"] by blast
qed

end
