(* ===== verification/Wal_Memory.thy ===== *)
theory Wal_Memory
  imports Wal
begin

text \<open>
  The in-memory write-ahead log (\<^verbatim>\<open>event_base_wal/src/memory.rs\<close>). Its two record maps and
  the operations on them are the ones the file-backed log keeps in memory, so the lemmas on
  \<open>assign_id\<close> and \<open>take_due\<close> are shared with \<open>Wal_Persistent\<close>.
\<close>

section \<open>Definitions\<close>

record mem_wal =
  mw_records :: "(string, wal_record) hashmap"
  mw_delays :: "(string, wal_record) hashmap"
  mw_registry :: "(string, worker_info) hashmap"
  mw_counter :: u64

definition mem_wal_new :: mem_wal where
  "mem_wal_new = \<lparr>mw_records = [], mw_delays = [], mw_registry = [], mw_counter = 0\<rparr>"

text \<open>The shared step \<^verbatim>\<open>*counter += 1\<close> (it wraps at \<open>2 ^ 64\<close>).\<close>

definition bump_counter :: "('z mem_wal_scheme, u64) act" where
  "bump_counter w = (Ret (mw_counter w + 1), w\<lparr>mw_counter := mw_counter w + 1\<rparr>)"

definition mem_append :: "wal_record \<Rightarrow> ('z mem_wal_scheme, unit result) act" where
  "mem_append r =
     bindA bump_counter (\<lambda>n.
     bindA (putA (\<lambda>w. w\<lparr>mw_records :=
       hm_insert (msg_id (wr_message r)) (r\<lparr>record_id := n\<rparr>) (mw_records w)\<rparr>)) (\<lambda>_. ret (Inr ())))"

definition mem_update_state ::
    "string \<Rightarrow> time \<Rightarrow> string \<Rightarrow> wal_record_state \<Rightarrow> (mem_wal, unit result) act" where
  "mem_update_state uuid now message_id status =
     bindA (getA (\<lambda>w. hm_contains (mw_records w) message_id)) (\<lambda>known.
     if known then
       bindA (putA (\<lambda>w. w\<lparr>mw_records :=
         hm_modify (\<lambda>r. r\<lparr>wr_status := status\<rparr>) message_id (mw_records w)\<rparr>)) (\<lambda>_. ret (Inr ()))
     else
       bindA bump_counter (\<lambda>n.
       bindA (putA (\<lambda>w. w\<lparr>mw_records := hm_insert message_id
         \<lparr>record_id = n, wr_message = emessage_new uuid now [] [] Standard None,
          wr_status = status, last_attempt_at = None, is_dead_letter = False,
          wr_dead_reason = None\<rparr> (mw_records w)\<rparr>)) (\<lambda>_. ret (Inr ()))))"

definition mem_replay_pending :: "('z mem_wal_scheme, wal_record list result) act" where
  "mem_replay_pending =
     bindA (getA (\<lambda>w. filter (\<lambda>r. wr_status r = WPending) (hm_values (mw_records w))))
       (\<lambda>pendings. ret (Inr pendings))"

definition mem_flush :: "(mem_wal, unit result) act" where
  "mem_flush = ret (Inr ())"

definition mem_schedule :: "wal_record \<Rightarrow> ('z mem_wal_scheme, unit result) act" where
  "mem_schedule r =
     bindA bump_counter (\<lambda>n.
     bindA (putA (\<lambda>w. w\<lparr>mw_delays :=
       hm_insert (msg_id (wr_message r)) (r\<lparr>record_id := n\<rparr>) (mw_delays w)\<rparr>)) (\<lambda>_. ret (Inr ())))"

text \<open>
  The loop over the delays collects the records that are due and their keys; the second loop
  removes those keys.
\<close>

definition mem_fetch_ready :: "time \<Rightarrow> ('z mem_wal_scheme, wal_record list result) act" where
  "mem_fetch_ready now =
     bindA (getA mw_delays) (\<lambda>delays.
     let due = filter (\<lambda>(msg_id, delayed). is_due now delayed) delays;
         ready = map snd due;
         to_remove = map fst due
     in bindA (putA (\<lambda>w. w\<lparr>mw_delays := fold hm_remove to_remove (mw_delays w)\<rparr>))
          (\<lambda>_. ret (Inr ready)))"

definition mem_remove_scheduled :: "string \<Rightarrow> ('z mem_wal_scheme, unit result) act" where
  "mem_remove_scheduled mid =
     bindA (putA (\<lambda>w. w\<lparr>mw_delays := hm_remove mid (mw_delays w)\<rparr>)) (\<lambda>_. ret (Inr ()))"

definition mem_save_worker_registry ::
    "(string, worker_info) hashmap \<Rightarrow> ('z mem_wal_scheme, unit result) act" where
  "mem_save_worker_registry registry =
     bindA (putA (\<lambda>w. w\<lparr>mw_registry := registry\<rparr>)) (\<lambda>_. ret (Inr ()))"

definition mem_load_worker_registry ::
    "('z mem_wal_scheme, (string, worker_info) hashmap result) act" where
  "mem_load_worker_registry = bindA (getA mw_registry) (\<lambda>store. ret (Inr store))"

definition memory_wal :: "mem_wal wal_ops" where
  "memory_wal =
     \<lparr>wal_append = mem_append, wal_update_state = mem_update_state,
      wal_replay_pending = mem_replay_pending, wal_flush = mem_flush,
      wal_schedule = mem_schedule, wal_fetch_ready = mem_fetch_ready,
      wal_remove_scheduled = mem_remove_scheduled,
      wal_save_worker_registry = mem_save_worker_registry,
      wal_load_worker_registry = mem_load_worker_registry\<rparr>"


section \<open>Lemmas on the two maps\<close>

definition mw_inv :: "'z mem_wal_scheme \<Rightarrow> bool" where
  "mw_inv w \<longleftrightarrow> hm_wf (mw_records w) \<and> hm_wf (mw_delays w) \<and>
     (\<forall>(k, r) \<in> set (mw_delays w). msg_id (wr_message r) = k)"

abbreviation mw_recs :: "'z mem_wal_scheme \<Rightarrow> string \<Rightarrow> wal_record option" where
  "mw_recs w \<equiv> map_of (mw_records w)"

abbreviation mw_dels :: "'z mem_wal_scheme \<Rightarrow> string \<Rightarrow> wal_record option" where
  "mw_dels w \<equiv> map_of (mw_delays w)"

lemma hm_set_insert:
  "hm_wf m \<Longrightarrow> set (hm_insert k v m) = insert (k, v) {(k', v'). (k', v') \<in> set m \<and> k' \<noteq> k}"
  by (induction m) (auto split: if_splits intro: rev_image_eqI)

lemma hm_set_remove: "hm_wf m \<Longrightarrow> set (hm_remove k m) = {(k', v). (k', v) \<in> set m \<and> k' \<noteq> k}"
  by (induction m) auto

lemma hm_get_fold_remove:
  "hm_get (fold hm_remove ks m) k = (if k \<in> set ks then None else hm_get m k)"
  by (induction ks arbitrary: m) auto

lemma hm_wf_fold_remove: "hm_wf m \<Longrightarrow> hm_wf (fold hm_remove ks m)"
  by (induction ks arbitrary: m) auto

lemma hm_set_fold_remove: "hm_wf m \<Longrightarrow> set (fold hm_remove ks m) \<subseteq> set m"
proof (induction ks arbitrary: m)
  case (Cons k ks)
  then have "set (fold hm_remove ks (hm_remove k m)) \<subseteq> set (hm_remove k m)" by simp
  with Cons.prems show ?case by (auto simp: hm_set_remove)
qed simp

lemma take_due:
  assumes "hm_wf m"
  shows "hm_get (fold hm_remove (map fst (filter (\<lambda>(i, d). P d) m)) m) =
     (\<lambda>k. case hm_get m k of None \<Rightarrow> None | Some r \<Rightarrow> if P r then None else Some r)"
proof
  fix k
  have "k \<in> set (map fst (filter (\<lambda>(i, d). P d) m)) \<longleftrightarrow> (\<exists>r. hm_get m k = Some r \<and> P r)"
    using assms by (force simp: image_iff)
  then show "hm_get (fold hm_remove (map fst (filter (\<lambda>(i, d). P d) m)) m) k =
      (case hm_get m k of None \<Rightarrow> None | Some r \<Rightarrow> if P r then None else Some r)"
    by (auto simp: hm_get_fold_remove split: option.splits)
qed

lemma distinct_snd_due:
  assumes "hm_wf m" and "\<forall>(k, r) \<in> set m. f r = k"
  shows "distinct (map snd (filter (\<lambda>(i, d). P d) m))"
proof -
  have "inj_on snd (set m)"
  proof (rule inj_onI)
    fix x y assume "x \<in> set m" "y \<in> set m" "snd x = snd y"
    moreover from this assms(2) have "fst x = f (snd x)" "fst y = f (snd y)" by auto
    ultimately show "x = y" by (simp add: prod_eq_iff)
  qed
  with assms(1) have "distinct (map snd m)" by (simp add: distinct_map)
  then show ?thesis by (rule distinct_map_filter)
qed

lemma set_snd_due:
  "hm_wf m \<Longrightarrow> set (map snd (filter (\<lambda>(i, d). P d) m)) = {r. \<exists>k. hm_get m k = Some r \<and> P r}"
  by (force simp: image_iff)

lemmas mem_wal_defs = mem_append_def mem_update_state_def mem_replay_pending_def mem_schedule_def
  mem_fetch_ready_def mem_remove_scheduled_def mem_save_worker_registry_def
  mem_load_worker_registry_def bump_counter_def bindA_def Let_def outcome_simps

lemma mem_append_app:
  "mem_append r w = (Ret (Inr ()), w\<lparr>mw_counter := mw_counter w + 1, mw_records :=
     hm_insert (msg_id (wr_message r)) (r\<lparr>record_id := mw_counter w + 1\<rparr>) (mw_records w)\<rparr>)"
  by (simp add: mem_wal_defs)

lemma mem_schedule_app:
  "mem_schedule r w = (Ret (Inr ()), w\<lparr>mw_counter := mw_counter w + 1, mw_delays :=
     hm_insert (msg_id (wr_message r)) (r\<lparr>record_id := mw_counter w + 1\<rparr>) (mw_delays w)\<rparr>)"
  by (simp add: mem_wal_defs)

lemma mem_fetch_ready_app:
  "mem_fetch_ready t w = (Ret (Inr (map snd (filter (\<lambda>(i, d). is_due t d) (mw_delays w)))),
     w\<lparr>mw_delays := fold hm_remove (map fst (filter (\<lambda>(i, d). is_due t d) (mw_delays w)))
        (mw_delays w)\<rparr>)"
  by (simp add: mem_wal_defs)

lemma mw_inv_insert_delay:
  "mw_inv w \<Longrightarrow> mw_inv (w\<lparr>mw_counter := n, mw_delays :=
     hm_insert (msg_id (wr_message r)) (r\<lparr>record_id := n\<rparr>) (mw_delays w)\<rparr>)"
  by (auto simp: mw_inv_def hm_set_insert)

lemma mw_inv_fold_remove:
  "mw_inv w \<Longrightarrow> mw_inv (w\<lparr>mw_delays := fold hm_remove ks (mw_delays w)\<rparr>)"
  using hm_set_fold_remove [of "mw_delays w" ks] by (auto simp: mw_inv_def hm_wf_fold_remove)

lemma mw_inv_delete:
  "mw_inv w \<Longrightarrow> mw_inv (w\<lparr>mw_delays := hm_remove k (mw_delays w)\<rparr>)"
  using mw_inv_fold_remove [of w "[k]"] by simp

text \<open>
  The laws of the log that do not involve \<^verbatim>\<open>update_state\<close>, for every state that extends the
  in-memory one.
\<close>

lemma mem_append_law:
  assumes "mw_inv w"
  shows "\<exists>n w'. mem_append r w = (Ret (Inr ()), w') \<and> mw_inv w' \<and>
     mw_recs w' = (mw_recs w)(msg_id (wr_message r) \<mapsto> r\<lparr>record_id := n\<rparr>) \<and>
     mw_dels w' = mw_dels w \<and> mw_registry w' = mw_registry w"
  using assms
  by (intro exI [of _ "mw_counter w + 1"] exI) (auto simp: mem_append_app mw_inv_def fun_eq_iff)

lemma mem_schedule_law:
  assumes "mw_inv w"
  shows "\<exists>n w'. mem_schedule r w = (Ret (Inr ()), w') \<and> mw_inv w' \<and>
     mw_dels w' = (mw_dels w)(msg_id (wr_message r) \<mapsto> r\<lparr>record_id := n\<rparr>) \<and>
     mw_recs w' = mw_recs w \<and> mw_registry w' = mw_registry w"
  using mw_inv_insert_delay [OF assms]
  by (intro exI [of _ "mw_counter w + 1"] exI) (auto simp: mem_schedule_app fun_eq_iff)

lemma mem_replay_law:
  assumes "mw_inv w"
  shows "\<exists>rs. mem_replay_pending w = (Ret (Inr rs), w) \<and>
     set rs = {r. \<exists>k. mw_recs w k = Some r \<and> wr_status r = WPending}"
proof -
  have wf: "hm_wf (mw_records w)" using assms by (simp add: mw_inv_def)
  have "mem_replay_pending w =
      (Ret (Inr (filter (\<lambda>r. wr_status r = WPending) (hm_values (mw_records w)))), w)"
    by (simp add: mem_wal_defs)
  moreover have "set (filter (\<lambda>r. wr_status r = WPending) (hm_values (mw_records w))) =
      {r. \<exists>k. mw_recs w k = Some r \<and> wr_status r = WPending}"
    unfolding set_filter hm_mem_values [OF wf] by blast
  ultimately show ?thesis by blast
qed

lemma mem_fetch_law:
  assumes "mw_inv w"
  shows "\<exists>rs w'. mem_fetch_ready t w = (Ret (Inr rs), w') \<and> mw_inv w' \<and> distinct rs \<and>
     set rs = {r. \<exists>k. mw_dels w k = Some r \<and> is_due t r} \<and>
     mw_dels w' = (\<lambda>k. case mw_dels w k of None \<Rightarrow> None
        | Some r \<Rightarrow> if is_due t r then None else Some r) \<and>
     mw_recs w' = mw_recs w \<and> mw_registry w' = mw_registry w"
proof -
  have wf: "hm_wf (mw_delays w)" and key: "\<forall>(k, r) \<in> set (mw_delays w). msg_id (wr_message r) = k"
    using assms by (simp_all add: mw_inv_def)
  show ?thesis
    using mem_fetch_ready_app [of t w] mw_inv_fold_remove [OF assms]
      distinct_snd_due [OF wf key, of "is_due t"] set_snd_due [OF wf, of "is_due t"]
      take_due [OF wf, of "is_due t"]
    by (intro exI conjI) (assumption | simp)+
qed

lemma mem_remove_law:
  assumes "mw_inv w"
  shows "\<exists>w'. mem_remove_scheduled k w = (Ret (Inr ()), w') \<and> mw_inv w' \<and>
     mw_dels w' = (mw_dels w)(k := None) \<and> mw_recs w' = mw_recs w \<and>
     mw_registry w' = mw_registry w"
  using mw_inv_delete [OF assms] by (auto simp: mem_wal_defs fun_eq_iff)

lemma mem_save_law:
  "mw_inv w \<Longrightarrow> \<exists>w'. mem_save_worker_registry g w = (Ret (Inr ()), w') \<and> mw_inv w' \<and>
     mw_registry w' = g \<and> mw_recs w' = mw_recs w \<and> mw_dels w' = mw_dels w"
  by (simp add: mem_wal_defs mw_inv_def)

lemma mem_load_law: "mem_load_worker_registry w = (Ret (Inr (mw_registry w)), w)"
  by (simp add: mem_wal_defs)

lemma mw_dels_key: "mw_inv w \<Longrightarrow> mw_dels w k = Some r \<Longrightarrow> msg_id (wr_message r) = k"
  by (force simp: mw_inv_def dest: map_of_SomeD)

lemma mem_update_known:
  "mw_recs w k = Some r \<Longrightarrow> mem_update_state u t k s w =
     (Ret (Inr ()), w\<lparr>mw_records := hm_insert k (r\<lparr>wr_status := s\<rparr>) (mw_records w)\<rparr>)"
  by (simp add: mem_wal_defs hm_modify_def)

lemma mem_update_unknown:
  "mw_recs w k = None \<Longrightarrow> mem_update_state u t k s w = (Ret (Inr ()), w\<lparr>mw_counter := mw_counter w + 1,
     mw_records := hm_insert k \<lparr>record_id = mw_counter w + 1,
       wr_message = emessage_new u t [] [] Standard None, wr_status = s,
       last_attempt_at = None, is_dead_letter = False, wr_dead_reason = None\<rparr> (mw_records w)\<rparr>)"
  by (simp add: mem_wal_defs)

interpretation mem_wal: wal_backend memory_wal mw_inv mw_recs mw_dels mw_registry
proof unfold_locales
  fix w :: mem_wal and r k u t s v w'
  assume inv: "mw_inv w"
  show "\<exists>w'. wal_update_state memory_wal u t k s w = (Ret (Inr ()), w') \<and> mw_inv w' \<and>
      mw_recs w' = (mw_recs w)(k \<mapsto> r\<lparr>wr_status := s\<rparr>) \<and> mw_dels w' = mw_dels w \<and>
      mw_registry w' = mw_registry w" if "mw_recs w k = Some r"
    using that inv by (simp add: memory_wal_def mem_update_known mw_inv_def fun_eq_iff)
  show "mw_inv w' \<and> (\<forall>k'. k' \<noteq> k \<longrightarrow> mw_recs w' k' = mw_recs w k') \<and> mw_dels w' = mw_dels w \<and>
      mw_registry w' = mw_registry w" if "wal_update_state memory_wal u t k s w = (v, w')"
    using that inv
    by (cases "mw_recs w k")
      (auto simp: memory_wal_def mem_update_known mem_update_unknown mw_inv_def)
qed (simp_all only: memory_wal_def wal_ops.simps mem_append_law mem_schedule_law mem_replay_law mem_fetch_law
    mem_remove_law mem_save_law mem_load_law mw_dels_key)


section \<open>Record identifiers\<close>

datatype wal_op =
    WAppend wal_record
  | WUpdate string time string wal_record_state
  | WSchedule wal_record
  | WFetch time
  | WRemove string

fun wal_step :: "wal_op \<Rightarrow> mem_wal \<Rightarrow> mem_wal" where
  "wal_step (WAppend r) w = snd (mem_append r w)"
| "wal_step (WUpdate u t k s) w = snd (mem_update_state u t k s w)"
| "wal_step (WSchedule r) w = snd (mem_schedule r w)"
| "wal_step (WFetch t) w = snd (mem_fetch_ready t w)"
| "wal_step (WRemove k) w = snd (mem_remove_scheduled k w)"

fun rids :: "('k, wal_record) hashmap \<Rightarrow> u64 list" where
  "rids [] = []"
| "rids ((k, r) # m) = record_id r # rids m"

text \<open>
  Identifiers are positive, at most the counter, and no two records of the two maps share one;
  \<open>n\<close> more steps do not make the counter wrap.
\<close>

definition rid_inv :: "nat \<Rightarrow> mem_wal \<Rightarrow> bool" where
  "rid_inv n w \<longleftrightarrow> mw_inv w \<and> unat (mw_counter w) + n < 2 ^ 64 \<and>
     distinct (rids (mw_records w) @ rids (mw_delays w)) \<and>
     (\<forall>i \<in> set (rids (mw_records w) @ rids (mw_delays w)). i \<le> mw_counter w)"

lemma rids_insert_subset: "set (rids (hm_insert k r m)) \<subseteq> insert (record_id r) (set (rids m))"
  by (induction m) auto

lemma rids_insert_distinct:
  "distinct (rids m @ xs) \<Longrightarrow> record_id r \<notin> set (rids m @ xs) \<Longrightarrow>
   distinct (rids (hm_insert k r m) @ xs)"
proof (induction m)
  case (Cons p m)
  then show ?case using rids_insert_subset [of k r m] by (cases p) auto
qed auto

lemma rids_update_same:
  "hm_get m k = Some r \<Longrightarrow> record_id r' = record_id r \<Longrightarrow> rids (hm_insert k r' m) = rids m"
  by (induction m) (auto split: if_splits)

lemma rids_remove: "set (rids (hm_remove k m)) \<subseteq> set (rids m) \<and>
    (distinct (rids m) \<longrightarrow> distinct (rids (hm_remove k m)))"
  by (induction m) auto

lemma rids_fold_remove: "set (rids (fold hm_remove ks m)) \<subseteq> set (rids m) \<and>
    (distinct (rids m) \<longrightarrow> distinct (rids (fold hm_remove ks m)))"
proof (induction ks arbitrary: m)
  case (Cons k ks)
  show ?case using Cons [of "hm_remove k m"] rids_remove [of k m] by auto
qed simp

lemma counter_fresh:
  assumes "rid_inv (Suc n) w" and "i \<in> set (rids (mw_records w) @ rids (mw_delays w))"
  shows "i < mw_counter w + 1"
proof -
  have "unat (mw_counter w) + 1 < 2 ^ 64" using assms(1) by (simp add: rid_inv_def)
  then have "unat (mw_counter w + 1) = unat (mw_counter w) + 1"
    by (simp add: unat_word_ariths)
  moreover have "unat i \<le> unat (mw_counter w)"
    using assms by (simp add: rid_inv_def word_le_nat_alt)
  ultimately show ?thesis by (simp add: word_less_nat_alt)
qed

lemma counter_step:
  assumes "rid_inv (Suc n) w"
  shows "unat (mw_counter w + 1) + n < 2 ^ 64"
  using assms by (simp add: rid_inv_def unat_word_ariths)

lemma rid_inv_insert_record:
  assumes "rid_inv (Suc n) w" and "record_id r = mw_counter w + 1"
  shows "rid_inv n (w\<lparr>mw_counter := mw_counter w + 1, mw_records := hm_insert k r (mw_records w)\<rparr>)"
proof -
  note fresh = counter_fresh [OF assms(1)]
  have "record_id r \<notin> set (rids (mw_records w) @ rids (mw_delays w))"
    using fresh assms(2) by auto
  then have "distinct (rids (hm_insert k r (mw_records w)) @ rids (mw_delays w))"
    using assms(1) by (intro rids_insert_distinct) (simp_all add: rid_inv_def)
  moreover have "i \<le> mw_counter w + 1"
    if "i \<in> set (rids (hm_insert k r (mw_records w)) @ rids (mw_delays w))" for i
    using that rids_insert_subset [of k r "mw_records w"] fresh [of i] assms(2) by fastforce
  ultimately show ?thesis
    using assms(1) counter_step [OF assms(1)] by (auto simp: rid_inv_def mw_inv_def)
qed

lemma rid_inv_insert_delay:
  assumes "rid_inv (Suc n) w"
  shows "rid_inv n (snd (mem_schedule r w))"
proof -
  let ?r = "r\<lparr>record_id := mw_counter w + 1\<rparr>" and ?k = "msg_id (wr_message r)"
  note fresh = counter_fresh [OF assms(1)]
  have "record_id ?r \<notin> set (rids (mw_delays w) @ rids (mw_records w))" using fresh by auto
  then have "distinct (rids (hm_insert ?k ?r (mw_delays w)) @ rids (mw_records w))"
    using assms(1) by (intro rids_insert_distinct) (auto simp: rid_inv_def)
  moreover have "i \<le> mw_counter w + 1"
    if "i \<in> set (rids (mw_records w) @ rids (hm_insert ?k ?r (mw_delays w)))" for i
    using that rids_insert_subset [of ?k ?r "mw_delays w"] fresh [of i] by fastforce
  ultimately show ?thesis
    using assms counter_step [OF assms] mw_inv_insert_delay [of w r "mw_counter w + 1"]
    by (auto simp: mem_schedule_app rid_inv_def)
qed

lemma rid_inv_delays:
  assumes "rid_inv (Suc n) w" and "mw_inv (w\<lparr>mw_delays := d\<rparr>)"
    and "set (rids d) \<subseteq> set (rids (mw_delays w))" and "distinct (rids d)"
  shows "rid_inv n (w\<lparr>mw_delays := d\<rparr>)"
  using assms by (auto simp: rid_inv_def)

lemma rid_inv_step:
  assumes "rid_inv (Suc n) w"
  shows "rid_inv n (wal_step x w)"
proof (cases x)
  case (WAppend r)
  with rid_inv_insert_record [OF assms] show ?thesis by (simp add: mem_append_app)
next
  case (WUpdate u t k s)
  show ?thesis
  proof (cases "mw_recs w k")
    case None
    with WUpdate rid_inv_insert_record [OF assms] show ?thesis by (simp add: mem_update_unknown)
  next
    case (Some r)
    with WUpdate assms rids_update_same [OF Some, of "r\<lparr>wr_status := s\<rparr>"] show ?thesis
      by (simp add: mem_update_known rid_inv_def mw_inv_def)
  qed
next
  case (WSchedule r)
  with rid_inv_insert_delay [OF assms] show ?thesis by simp
next
  case (WFetch t)
  let ?ks = "map fst (filter (\<lambda>(i, d). is_due t d) (mw_delays w))"
  have "mw_inv w" "distinct (rids (mw_delays w))" using assms by (simp_all add: rid_inv_def)
  with WFetch rids_fold_remove [of ?ks "mw_delays w"] mw_inv_fold_remove [of w ?ks]
  show ?thesis by (simp add: mem_fetch_ready_app rid_inv_delays [OF assms])
next
  case (WRemove k)
  have "mw_inv w" "distinct (rids (mw_delays w))" using assms by (simp_all add: rid_inv_def)
  with WRemove rids_remove [of k "mw_delays w"] mw_inv_delete [of w k]
  show ?thesis by (simp add: mem_wal_defs rid_inv_delays [OF assms])
qed

lemma rid_inv_run: "rid_inv (length xs + n) w \<Longrightarrow> rid_inv n (fold wal_step xs w)"
  by (induction xs arbitrary: w) (simp_all add: rid_inv_step)


section \<open>Properties\<close>



text \<open>Over fewer than \<open>2 ^ 64\<close> operations on a new in-memory log, in any order, no two
  records of the log and of the delay store ever have the same record identifier.\<close>

theorem memory_wal_record_ids_distinct:
  assumes "length xs < 2 ^ 64"
  shows "distinct (rids (mw_records (fold wal_step xs mem_wal_new)) @
                   rids (mw_delays (fold wal_step xs mem_wal_new)))"
proof -
  have "rid_inv (length xs + 0) mem_wal_new"
    using assms by (simp add: rid_inv_def mw_inv_def mem_wal_new_def)
  then have "rid_inv 0 (fold wal_step xs mem_wal_new)" by (rule rid_inv_run)
  then show ?thesis by (simp add: rid_inv_def)
qed

theorem memory_wal_record_ids_distinct_witness:
  "distinct (rids (mw_records (fold wal_step
       [WAppend (wal_record_from_msg (emessage_default 1)), WUpdate ''u'' 0 ''x'' WPending] mem_wal_new)) @
     rids (mw_delays (fold wal_step
       [WAppend (wal_record_from_msg (emessage_default 1)), WUpdate ''u'' 0 ''x'' WPending] mem_wal_new)))"
  by (rule memory_wal_record_ids_distinct) simp

text \<open>A state update for a message the in-memory log has never seen succeeds and creates a
  placeholder: a record with the given state under the given identifier whose message has an
  empty topic, an empty payload and another identifier. If the state is pending, the next
  replay returns that placeholder.\<close>

theorem memory_wal_update_unknown:
  assumes "mw_inv w" and "hm_get (mw_records w) k = None"
    and "mem_update_state u t k WPending w = (v, w')"
  shows "v = Ret (Inr ()) \<and> (\<exists>r rs. hm_get (mw_records w') k = Some r \<and>
     msg_id (wr_message r) = u \<and> msg_topic (wr_message r) = [] \<and> payload (wr_message r) = [] \<and>
     mem_replay_pending w' = (Ret (Inr rs), w') \<and> r \<in> set rs)"
proof -
  let ?r = "\<lparr>record_id = mw_counter w + 1, wr_message = emessage_new u t [] [] Standard None,
    wr_status = WPending, last_attempt_at = None, is_dead_letter = False, wr_dead_reason = None\<rparr>"
  have v: "v = Ret (Inr ())" and w': "hm_get (mw_records w') k = Some ?r" and inv: "mw_inv w'"
    using assms by (auto simp: mem_update_unknown mw_inv_def)
  obtain rs where rs: "mem_replay_pending w' = (Ret (Inr rs), w')"
      "set rs = {r. \<exists>k. mw_recs w' k = Some r \<and> wr_status r = WPending}"
    using mem_replay_law [OF inv] by blast
  have "?r \<in> set rs" using rs(2) w' by auto
  with v w' rs(1) show ?thesis by (intro conjI exI [of _ ?r] exI [of _ rs]) simp_all
qed

theorem memory_wal_update_unknown_witness:
  "\<exists>v w'. mem_update_state ''u'' 0 ''msg-1'' WPending mem_wal_new = (v, w') \<and> v = Ret (Inr ()) \<and>
     (\<exists>r. hm_get (mw_records w') ''msg-1'' = Some r \<and> msg_topic (wr_message r) = [])"
proof -
  obtain v w' where u: "mem_update_state ''u'' 0 ''msg-1'' WPending mem_wal_new = (v, w')"
    by fastforce
  have "mw_inv mem_wal_new" "hm_get (mw_records mem_wal_new) ''msg-1'' = None"
    by (simp_all add: mw_inv_def mem_wal_new_def)
  from memory_wal_update_unknown [OF this u] u show ?thesis by auto
qed

end
