(* ===== verification/Wal_Persistent.thy ===== *)
theory Wal_Persistent
  imports Wal_Memory
begin

text \<open>
  The file-backed write-ahead log (\<^verbatim>\<open>event_base_wal/src/persistent.rs\<close>). It works on maps in
  memory and writes all of them to a file when it is flushed. The file system and the
  bincode codec of the whole store are parameters, held in the state together with their
  operations; \<open>disk_ok\<close> and \<open>store_codec_ok\<close> name what is relied on. A decoded hash map is the
  encoded one as a map; nothing is said about its iteration order.
\<close>

section \<open>The file system and the store\<close>

text \<open>\<open>dk_file\<close> is the specification's view of the content of a file.\<close>

record 'd disk =
  dk_exists :: "string \<Rightarrow> 'd \<Rightarrow> string + bool"
  dk_read :: "string \<Rightarrow> 'd \<Rightarrow> string + u8 list"
  dk_write :: "string \<Rightarrow> u8 list \<Rightarrow> 'd \<Rightarrow> (string + unit) \<times> 'd"
  dk_rename :: "string \<Rightarrow> string \<Rightarrow> 'd \<Rightarrow> (string + unit) \<times> 'd"
  dk_file :: "string \<Rightarrow> 'd \<Rightarrow> u8 list option"

text \<open>
  A write that succeeds leaves the bytes in the file; one that fails leaves that file in any
  state. A rename that succeeds moves the content; one that fails changes nothing.
\<close>

definition disk_ok :: "'d disk \<Rightarrow> bool" where
  "disk_ok k \<longleftrightarrow>
     (\<forall>p d b. dk_exists k p d = Inr b \<longrightarrow> b = (dk_file k p d \<noteq> None)) \<and>
     (\<forall>p d b. dk_read k p d = Inr b \<longrightarrow> dk_file k p d = Some b) \<and>
     (\<forall>p b d d'. dk_write k p b d = (Inr (), d') \<longrightarrow> dk_file k p d' = Some b) \<and>
     (\<forall>p b d r d' q. dk_write k p b d = (r, d') \<and> q \<noteq> p \<longrightarrow> dk_file k q d' = dk_file k q d) \<and>
     (\<forall>p q d d'. p \<noteq> q \<and> dk_rename k p q d = (Inr (), d') \<longrightarrow>
        dk_file k q d' = dk_file k p d \<and> dk_file k p d' = None) \<and>
     (\<forall>p q d r d' x. dk_rename k p q d = (r, d') \<and> x \<noteq> p \<and> x \<noteq> q \<longrightarrow>
        dk_file k x d' = dk_file k x d) \<and>
     (\<forall>p q d e d' x. dk_rename k p q d = (Inl e, d') \<longrightarrow> dk_file k x d' = dk_file k x d)"

record wal_store =
  st_records :: "(string, wal_record) hashmap"
  st_delays :: "(string, wal_record) hashmap"
  st_registry :: "(string, worker_info) hashmap"
  st_counter :: u64

definition same_store :: "wal_store \<Rightarrow> wal_store \<Rightarrow> bool" where
  "same_store s t \<longleftrightarrow>
     map_of (st_records s) = map_of (st_records t) \<and> map_of (st_delays s) = map_of (st_delays t) \<and>
     map_of (st_registry s) = map_of (st_registry t) \<and> st_counter s = st_counter t"

definition store_codec_ok :: "wal_store codec \<Rightarrow> bool" where
  "store_codec_ok c \<longleftrightarrow> (\<forall>s b. cd_enc c s = Inr b \<longrightarrow> (\<exists>t. cd_dec c b = Inr t \<and> same_store s t))"

record 'd pers_wal = mem_wal +
  pw_path :: string
  pw_codec :: "wal_store codec"
  pw_disk :: "'d disk"
  pw_d :: 'd


section \<open>Paths\<close>

text \<open>
  \<^verbatim>\<open>PathBuf::with_extension\<close> for a path that ends in a normal file name: the text after the
  last dot of the file name, unless that dot is its first character, is replaced.
\<close>

definition file_name :: "string \<Rightarrow> string" where
  "file_name p = rev (takeWhile (\<lambda>c. c \<noteq> CHR ''/'') (rev p))"

definition file_stem :: "string \<Rightarrow> string" where
  "file_stem nm =
     (let ext = rev (takeWhile (\<lambda>c. c \<noteq> CHR ''.'') (rev nm));
          st = take (length nm - length ext - 1) nm
      in if length ext = length nm \<or> st = [] then nm else st)"

definition with_extension :: "string \<Rightarrow> string \<Rightarrow> string" where
  "with_extension p ext =
     (let nm = file_name p
      in if nm = [] \<or> nm = ''.'' \<or> nm = ''..'' then p
         else take (length p - length nm) p @ file_stem nm @ ''.'' @ ext)"


section \<open>Operations\<close>

definition pers_new :: "string \<Rightarrow> wal_store codec \<Rightarrow> 'd disk \<Rightarrow> 'd \<Rightarrow> 'd pers_wal result" where
  "pers_new path codec disk d =
     (if \<not> (case dk_exists disk path d of Inl _ \<Rightarrow> False | Inr b \<Rightarrow> b) then
        Inr \<lparr>mw_records = [], mw_delays = [], mw_registry = [], mw_counter = 0,
             pw_path = path, pw_codec = codec, pw_disk = disk, pw_d = d\<rparr>
      else case dk_read disk path d of
          Inl e \<Rightarrow> Inl (EIoError e)
        | Inr bytes \<Rightarrow> (case cd_dec codec bytes of
              Inl e \<Rightarrow> Inl (EWal (Backend (''Fail to decode the file:'' @ e)))
            | Inr st \<Rightarrow> Inr \<lparr>mw_records = st_records st, mw_delays = st_delays st,
                mw_registry = st_registry st, mw_counter = st_counter st,
                pw_path = path, pw_codec = codec, pw_disk = disk, pw_d = d\<rparr>))"

definition pers_append :: "wal_record \<Rightarrow> ('d pers_wal, unit result) act" where
  "pers_append r =
     bindA bump_counter (\<lambda>n.
     bindA (putA (\<lambda>w. w\<lparr>mw_records :=
       hm_insert (msg_id (wr_message r)) (r\<lparr>record_id := n\<rparr>) (mw_records w)\<rparr>)) (\<lambda>_. ret (Inr ())))"

definition pers_update_state ::
    "string \<Rightarrow> time \<Rightarrow> string \<Rightarrow> wal_record_state \<Rightarrow> ('d pers_wal, unit result) act" where
  "pers_update_state uuid now message_id status =
     bindA (getA (\<lambda>w. hm_contains (mw_records w) message_id)) (\<lambda>known.
     if known then
       bindA (putA (\<lambda>w. w\<lparr>mw_records :=
         hm_modify (\<lambda>r. r\<lparr>wr_status := status\<rparr>) message_id (mw_records w)\<rparr>)) (\<lambda>_. ret (Inr ()))
     else ret (Inl (EWal (RecordNotFound message_id))))"

definition pers_replay_pending :: "('d pers_wal, wal_record list result) act" where
  "pers_replay_pending =
     bindA (getA (\<lambda>w. filter (\<lambda>r. wr_status r = WPending) (hm_values (mw_records w))))
       (\<lambda>pendings. ret (Inr pendings))"

definition store_of :: "('d, 'z) pers_wal_scheme \<Rightarrow> wal_store" where
  "store_of w = \<lparr>st_records = mw_records w, st_delays = mw_delays w,
     st_registry = mw_registry w, st_counter = mw_counter w\<rparr>"

definition on_disk :: "('d disk \<Rightarrow> 'd \<Rightarrow> (string + unit) \<times> 'd) \<Rightarrow> ('d pers_wal, unit result) act" where
  "on_disk f w = (case f (pw_disk w) (pw_d w) of (r, d') \<Rightarrow>
     (Ret (case r of Inl e \<Rightarrow> Inl (EIoError e) | Inr u \<Rightarrow> Inr u), w\<lparr>pw_d := d'\<rparr>))"

definition pers_flush :: "('d pers_wal, unit result) act" where
  "pers_flush =
     bindQ (getA (\<lambda>w. case cd_enc (pw_codec w) (store_of w) of
         Inl e \<Rightarrow> Inl (ESerialize (SerializeError e)) | Inr b \<Rightarrow> Inr b)) (\<lambda>bytes.
     bindA (getA pw_path) (\<lambda>path.
     let temp_path = with_extension path ''tmp'' in
     bindQ (on_disk (\<lambda>k. dk_write k temp_path bytes)) (\<lambda>_.
     bindQ (on_disk (\<lambda>k. dk_rename k temp_path path)) (\<lambda>_.
     ret (Inr ())))))"

definition pers_schedule :: "wal_record \<Rightarrow> ('d pers_wal, unit result) act" where
  "pers_schedule r =
     bindA bump_counter (\<lambda>n.
     bindA (putA (\<lambda>w. w\<lparr>mw_delays :=
       hm_insert (msg_id (wr_message r)) (r\<lparr>record_id := n\<rparr>) (mw_delays w)\<rparr>)) (\<lambda>_. ret (Inr ())))"

definition pers_fetch_ready :: "time \<Rightarrow> ('d pers_wal, wal_record list result) act" where
  "pers_fetch_ready now =
     bindA (getA mw_delays) (\<lambda>delays.
     let due = filter (\<lambda>(msg_id, delayed). is_due now delayed) delays;
         ready = map snd due;
         to_remove = map fst due
     in bindA (putA (\<lambda>w. w\<lparr>mw_delays := fold hm_remove to_remove (mw_delays w)\<rparr>))
          (\<lambda>_. ret (Inr ready)))"

definition pers_remove_scheduled :: "string \<Rightarrow> ('d pers_wal, unit result) act" where
  "pers_remove_scheduled mid =
     bindA (putA (\<lambda>w. w\<lparr>mw_delays := hm_remove mid (mw_delays w)\<rparr>)) (\<lambda>_. ret (Inr ()))"

definition pers_save_worker_registry ::
    "(string, worker_info) hashmap \<Rightarrow> ('d pers_wal, unit result) act" where
  "pers_save_worker_registry registry =
     bindA (putA (\<lambda>w. w\<lparr>mw_registry := registry\<rparr>)) (\<lambda>_. ret (Inr ()))"

definition pers_load_worker_registry ::
    "('d pers_wal, (string, worker_info) hashmap result) act" where
  "pers_load_worker_registry = bindA (getA mw_registry) (\<lambda>store. ret (Inr store))"

definition persistent_wal :: "'d pers_wal wal_ops" where
  "persistent_wal =
     \<lparr>wal_append = pers_append, wal_update_state = pers_update_state,
      wal_replay_pending = pers_replay_pending, wal_flush = pers_flush,
      wal_schedule = pers_schedule, wal_fetch_ready = pers_fetch_ready,
      wal_remove_scheduled = pers_remove_scheduled,
      wal_save_worker_registry = pers_save_worker_registry,
      wal_load_worker_registry = pers_load_worker_registry\<rparr>"


section \<open>The contract\<close>

lemma pers_is_mem:
  "pers_append = mem_append" "pers_replay_pending = mem_replay_pending"
  "pers_schedule = mem_schedule" "pers_fetch_ready = mem_fetch_ready"
  "pers_remove_scheduled = mem_remove_scheduled"
  "pers_save_worker_registry = mem_save_worker_registry"
  "pers_load_worker_registry = mem_load_worker_registry"
  by (auto simp: fun_eq_iff pers_append_def mem_append_def pers_replay_pending_def
      mem_replay_pending_def pers_schedule_def mem_schedule_def pers_fetch_ready_def
      mem_fetch_ready_def pers_remove_scheduled_def mem_remove_scheduled_def
      pers_save_worker_registry_def mem_save_worker_registry_def pers_load_worker_registry_def
      mem_load_worker_registry_def)

lemma pers_update_known:
  "mw_recs w k = Some r \<Longrightarrow> pers_update_state u t k s w =
     (Ret (Inr ()), w\<lparr>mw_records := hm_insert k (r\<lparr>wr_status := s\<rparr>) (mw_records w)\<rparr>)"
  by (simp add: pers_update_state_def mem_wal_defs hm_modify_def)

lemma pers_update_unknown:
  "mw_recs w k = None \<Longrightarrow> pers_update_state u t k s w = (Ret (Inl (EWal (RecordNotFound k))), w)"
  by (simp add: pers_update_state_def mem_wal_defs)

interpretation pers_wal: wal_backend persistent_wal mw_inv mw_recs mw_dels mw_registry
proof unfold_locales
  fix w :: "'d pers_wal" and r k u t s v w'
  assume inv: "mw_inv w"
  show "\<exists>w'. wal_update_state persistent_wal u t k s w = (Ret (Inr ()), w') \<and> mw_inv w' \<and>
      mw_recs w' = (mw_recs w)(k \<mapsto> r\<lparr>wr_status := s\<rparr>) \<and> mw_dels w' = mw_dels w \<and>
      mw_registry w' = mw_registry w" if "mw_recs w k = Some r"
    using that inv by (simp add: persistent_wal_def pers_update_known mw_inv_def fun_eq_iff)
  show "mw_inv w' \<and> (\<forall>k'. k' \<noteq> k \<longrightarrow> mw_recs w' k' = mw_recs w k') \<and> mw_dels w' = mw_dels w \<and>
      mw_registry w' = mw_registry w" if "wal_update_state persistent_wal u t k s w = (v, w')"
    using that inv
    by (cases "mw_recs w k")
      (auto simp: persistent_wal_def pers_update_known pers_update_unknown mw_inv_def)
qed (simp_all only: persistent_wal_def wal_ops.simps pers_is_mem mem_append_law mem_schedule_law
    mem_replay_law mem_fetch_law mem_remove_law mem_save_law mem_load_law mw_dels_key)


section \<open>Flush and reload\<close>

lemma disk_exists: "disk_ok k \<Longrightarrow> dk_exists k p d = Inr b \<Longrightarrow> b = (dk_file k p d \<noteq> None)"
  unfolding disk_ok_def by (elim conjE) simp

lemma disk_read: "disk_ok k \<Longrightarrow> dk_read k p d = Inr b \<Longrightarrow> dk_file k p d = Some b"
  unfolding disk_ok_def by (elim conjE) simp

lemma disk_write: "disk_ok k \<Longrightarrow> dk_write k p b d = (Inr (), d') \<Longrightarrow> dk_file k p d' = Some b"
  unfolding disk_ok_def by (elim conjE) simp

lemma disk_write_other:
  "disk_ok k \<Longrightarrow> dk_write k p b d = (r, d') \<Longrightarrow> q \<noteq> p \<Longrightarrow> dk_file k q d' = dk_file k q d"
  unfolding disk_ok_def by (elim conjE) simp

lemma disk_rename:
  "disk_ok k \<Longrightarrow> p \<noteq> q \<Longrightarrow> dk_rename k p q d = (Inr (), d') \<Longrightarrow> dk_file k q d' = dk_file k p d"
  unfolding disk_ok_def by (elim conjE) simp

lemma disk_rename_err:
  "disk_ok k \<Longrightarrow> dk_rename k p q d = (Inl e, d') \<Longrightarrow> dk_file k x d' = dk_file k x d"
  unfolding disk_ok_def by (elim conjE) simp

lemma pers_flush_cases:
  "pers_flush w = (case cd_enc (pw_codec w) (store_of w) of
     Inl e \<Rightarrow> (Ret (Inl (ESerialize (SerializeError e))), w)
   | Inr b \<Rightarrow> (case dk_write (pw_disk w) (with_extension (pw_path w) ''tmp'') b (pw_d w) of
        (Inl e, d1) \<Rightarrow> (Ret (Inl (EIoError e)), w\<lparr>pw_d := d1\<rparr>)
      | (Inr u, d1) \<Rightarrow>
          (case dk_rename (pw_disk w) (with_extension (pw_path w) ''tmp'') (pw_path w) d1 of
             (Inl e, d2) \<Rightarrow> (Ret (Inl (EIoError e)), w\<lparr>pw_d := d2\<rparr>)
           | (Inr u, d2) \<Rightarrow> (Ret (Inr ()), w\<lparr>pw_d := d2\<rparr>))))"
  by (simp add: pers_flush_def bindQ_def bindA_def getA_def ret_def on_disk_def Let_def
      split: sum.splits prod.splits)

lemma pers_flush_file:
  assumes "disk_ok (pw_disk w)" and "with_extension (pw_path w) ''tmp'' \<noteq> pw_path w"
    and "pers_flush w = (v, w')"
  shows "w' = w\<lparr>pw_d := pw_d w'\<rparr> \<and>
     (if v = Ret (Inr ())
      then \<exists>b. cd_enc (pw_codec w) (store_of w) = Inr b \<and>
             dk_file (pw_disk w) (pw_path w) (pw_d w') = Some b
      else dk_file (pw_disk w) (pw_path w) (pw_d w') = dk_file (pw_disk w) (pw_path w) (pw_d w))"
proof -
  note laws = disk_write_other [OF assms(1) _ assms(2) [symmetric]] disk_write [OF assms(1)]
    disk_rename [OF assms(1,2)] disk_rename_err [OF assms(1)]
  show ?thesis
    using assms(3) by (auto simp: pers_flush_cases laws split: sum.splits prod.splits)
qed


section \<open>Properties\<close>

text \<open>C4: a flush of the file-backed log is atomic for the log file. If it reports success the
  file holds the encoding of the whole store; after any failure, of the encoder, of the
  write or of the rename, the file holds what it held before. In either case the maps in
  memory are unchanged.\<close>

theorem persistent_wal_flush_atomic:
  assumes "disk_ok (pw_disk w)" and "with_extension (pw_path w) ''tmp'' \<noteq> pw_path w"
    and "pers_flush w = (v, w')"
  shows "store_of w' = store_of w \<and>
     (if v = Ret (Inr ())
      then \<exists>b. cd_enc (pw_codec w) (store_of w) = Inr b \<and>
             dk_file (pw_disk w) (pw_path w) (pw_d w') = Some b
      else dk_file (pw_disk w) (pw_path w) (pw_d w') = dk_file (pw_disk w) (pw_path w) (pw_d w))"
proof -
  have "w' = w\<lparr>pw_d := pw_d w'\<rparr>" using pers_flush_file [OF assms] by blast
  then have "store_of w' = store_of (w\<lparr>pw_d := pw_d w'\<rparr>)" by (rule arg_cong)
  then have "store_of w' = store_of w" by (simp add: store_of_def)
  with pers_flush_file [OF assms] show ?thesis by blast
qed

text \<open>
  A file system that maps paths to contents and refuses to write to one path, and a codec
  that keeps one store.
\<close>

definition map_disk :: "string \<Rightarrow> (string \<Rightarrow> u8 list option) disk" where
  "map_disk bad =
     \<lparr>dk_exists = (\<lambda>p d. Inr (d p \<noteq> None)),
      dk_read = (\<lambda>p d. case d p of None \<Rightarrow> Inl ''not found'' | Some b \<Rightarrow> Inr b),
      dk_write = (\<lambda>p b d. if p = bad then (Inl ''denied'', d) else (Inr (), d(p \<mapsto> b))),
      dk_rename = (\<lambda>p q d. case d p of None \<Rightarrow> (Inl ''not found'', d)
         | Some b \<Rightarrow> (Inr (), (d(p := None))(q \<mapsto> b))),
      dk_file = (\<lambda>p d. d p)\<rparr>"

definition one_store_codec :: "wal_store \<Rightarrow> wal_store codec" where
  "one_store_codec s =
     \<lparr>cd_enc = (\<lambda>x. if x = s then Inr [1] else Inl ''unsupported''),
      cd_dec = (\<lambda>b. if b = [1] then Inr s else Inl ''eof'')\<rparr>"

definition pers_example :: "string \<Rightarrow> (string \<Rightarrow> u8 list option) pers_wal" where
  "pers_example bad =
     \<lparr>mw_records = [(''m'', wal_record_from_msg (emessage_default 1))], mw_delays = [],
      mw_registry = [], mw_counter = 1, pw_path = ''d/events.wal'',
      pw_codec = one_store_codec \<lparr>st_records = [(''m'', wal_record_from_msg (emessage_default 1))],
        st_delays = [], st_registry = [], st_counter = 1\<rparr>,
      pw_disk = map_disk bad, pw_d = (\<lambda>_. None)\<rparr>"

lemma map_disk_ok [simp]: "disk_ok (map_disk bad)"
  unfolding disk_ok_def by (auto simp: map_disk_def split: option.splits if_splits)

lemma one_store_codec_ok [simp]: "store_codec_ok (one_store_codec s)"
  by (simp add: store_codec_ok_def one_store_codec_def same_store_def)

lemma example_tmp [simp]: "with_extension ''d/events.wal'' ''tmp'' = ''d/events.tmp''"
  by (simp add: with_extension_def file_name_def file_stem_def)

theorem persistent_wal_flush_atomic_witness:
  "\<exists>v w'. pers_flush (pers_example ''d/events.tmp'') = (v, w') \<and> v \<noteq> Ret (Inr ()) \<and>
     dk_file (map_disk ''d/events.tmp'') ''d/events.wal'' (pw_d w') = None"
proof -
  obtain v w' where f: "pers_flush (pers_example ''d/events.tmp'') = (v, w')" by fastforce
  have v: "v \<noteq> Ret (Inr ())"
    using f by (auto simp: pers_flush_cases pers_example_def store_of_def one_store_codec_def
        map_disk_def)
  have "disk_ok (pw_disk (pers_example ''d/events.tmp''))"
    "with_extension (pw_path (pers_example ''d/events.tmp'')) ''tmp'' \<noteq>
       pw_path (pers_example ''d/events.tmp'')"
    by (simp_all add: pers_example_def)
  from persistent_wal_flush_atomic [OF this f] v f show ?thesis
    by (simp add: pers_example_def map_disk_def)
qed

text \<open>C10: what a flush wrote, opening the log again reads back: the record map, the delay
  map and the worker registry are the same maps and the identifier counter is the same, for
  every file system that can read the file it wrote.\<close>

theorem persistent_wal_flush_reload:
  assumes "disk_ok (pw_disk w)" and "store_codec_ok (pw_codec w)"
    and "with_extension (pw_path w) ''tmp'' \<noteq> pw_path w"
    and "pers_flush w = (Ret (Inr ()), w')"
    and "dk_exists (pw_disk w) (pw_path w) (pw_d w') = Inr x"
    and "dk_read (pw_disk w) (pw_path w) (pw_d w') = Inr y"
  shows "\<exists>w2. pers_new (pw_path w) (pw_codec w) (pw_disk w) (pw_d w') = Inr w2 \<and>
     same_store (store_of w) (store_of w2)"
proof -
  obtain b where b: "cd_enc (pw_codec w) (store_of w) = Inr b"
      "dk_file (pw_disk w) (pw_path w) (pw_d w') = Some b"
    using pers_flush_file [OF assms(1,3,4)] by auto
  obtain s where s: "cd_dec (pw_codec w) b = Inr s" "same_store (store_of w) s"
    using assms(2) b(1) unfolding store_codec_ok_def by blast
  have "x = True" using disk_exists [OF assms(1,5)] b(2) by simp
  moreover have "y = b" using disk_read [OF assms(1,6)] b(2) by simp
  ultimately show ?thesis
    using s assms(5,6) by (auto simp: pers_new_def store_of_def same_store_def)
qed

theorem persistent_wal_flush_reload_witness:
  "\<exists>w' w2. pers_flush (pers_example ''other'') = (Ret (Inr ()), w') \<and>
     pers_new ''d/events.wal'' (pw_codec (pers_example ''other'')) (map_disk ''other'') (pw_d w') = Inr w2 \<and>
     same_store (store_of (pers_example ''other'')) (store_of w2)"
proof -
  let ?w = "pers_example ''other''"
  obtain w' where f: "pers_flush ?w = (Ret (Inr ()), w')" and d: "pw_d w' ''d/events.wal'' = Some [1]"
    by (simp add: pers_flush_cases pers_example_def store_of_def one_store_codec_def map_disk_def)
  have sel: "pw_disk ?w = map_disk ''other''" "pw_path ?w = ''d/events.wal''"
    by (simp_all add: pers_example_def)
  have "disk_ok (pw_disk ?w)" "store_codec_ok (pw_codec ?w)"
    "with_extension (pw_path ?w) ''tmp'' \<noteq> pw_path ?w"
    by (simp_all add: pers_example_def)
  moreover have "dk_exists (pw_disk ?w) (pw_path ?w) (pw_d w') = Inr True"
    "dk_read (pw_disk ?w) (pw_path ?w) (pw_d w') = Inr [1]"
    using d by (simp_all add: sel map_disk_def)
  ultimately show ?thesis using persistent_wal_flush_reload [OF _ _ _ f] f by (auto simp: sel)
qed

text \<open>The file-backed log, too, hands a scheduled record out exactly once over any
  sequence of polls, if some poll is at or after its delivery time, and never otherwise.\<close>

theorem persistent_wal_scheduled_exactly_once:
  assumes "mw_inv w"
  shows "\<exists>n w'. pers_schedule r w = (Ret (Inr ()), w') \<and>
     count_list (fst (fetch_run persistent_wal ts w')) (r\<lparr>record_id := n\<rparr>) =
       (if \<exists>t \<in> set ts. is_due t r then 1 else 0)"
  using pers_wal.schedule_then_fetch [OF assms, of r ts] by (simp add: persistent_wal_def)

theorem persistent_wal_scheduled_exactly_once_witness:
  "\<exists>n w'. pers_schedule (wal_record_from_msg (emessage_default 1)) (pers_example [])
      = (Ret (Inr ()), w') \<and>
     count_list (fst (fetch_run persistent_wal [3, 6, 9] w'))
       ((wal_record_from_msg (emessage_default 1))\<lparr>record_id := n\<rparr>) = 0"
  using persistent_wal_scheduled_exactly_once
    [of "pers_example []" "wal_record_from_msg (emessage_default 1)" "[3, 6, 9]"]
  by (simp add: mw_inv_def pers_example_def is_due_def wal_record_from_msg_def emessage_default_def)

text \<open>The two logs answer a state update for an unknown message differently: the
  in-memory log accepts it, the file-backed one reports the record as not found and
  changes nothing.\<close>

theorem wal_update_unknown_diverges:
  assumes "hm_get (mw_records w) k = None" and "hm_get (mw_records m) k = None"
  shows "pers_update_state u t k s w = (Ret (Inl (EWal (RecordNotFound k))), w) \<and>
     fst (mem_update_state u t k s m) = Ret (Inr ())"
  using assms by (simp add: pers_update_unknown mem_update_unknown)

theorem wal_update_unknown_diverges_witness:
  "pers_update_state ''u'' 0 ''k'' WComplete (pers_example []) =
     (Ret (Inl (EWal (RecordNotFound ''k''))), pers_example []) \<and>
   fst (mem_update_state ''u'' 0 ''k'' WComplete mem_wal_new) = Ret (Inr ())"
  by (rule wal_update_unknown_diverges) (simp_all add: pers_example_def mem_wal_new_def)

end
