(* ===== verification/Redis_Server.thy ===== *)
theory Redis_Server
  imports Prelude
begin

text \<open>
  The Redis server as its clients see it, a parameter of the theories \<open>Wal_Redis\<close> and
  \<open>Queue_Redis\<close>. The server and the client crate are not part of the repository: the commands
  the sources send are the fields of a record, each a step on an opaque server state that
  answers a value or an error text. \<open>rd_view\<close> is the specification's view of the keys,
  \<open>rd_up\<close> says that the server stays reachable, \<open>rd_double\<close> is the rounding of an integer
  argument to the double a sorted set keeps as score.

  \<open>redis_laws\<close> is the documented behaviour. A command that answers a value has had exactly its
  documented effect. A command that answers an error may have had no effect, or its effect
  with the answer lost on the way; a script that fails may have run a part of its calls. A
  server that is up answers a value for every command whose keys hold the right type.
\<close>

section \<open>Values\<close>

text \<open>The types of a value; a string that is a decimal integer is \<open>RInt\<close>.\<close>

datatype rval =
    RHash "string \<Rightarrow> u8 list option"
  | RZset "string \<Rightarrow> int option"
  | RStr "u8 list"
  | RInt int

type_synonym rkeys = "string \<Rightarrow> rval option"

definition hash_at :: "rkeys \<Rightarrow> string \<Rightarrow> string \<Rightarrow> u8 list option" where
  "hash_at v k = (case v k of Some (RHash h) \<Rightarrow> h | _ \<Rightarrow> Map.empty)"

definition zset_at :: "rkeys \<Rightarrow> string \<Rightarrow> string \<Rightarrow> int option" where
  "zset_at v k = (case v k of Some (RZset z) \<Rightarrow> z | _ \<Rightarrow> Map.empty)"

definition str_at :: "rkeys \<Rightarrow> string \<Rightarrow> u8 list option" where
  "str_at v k = (case v k of Some (RStr b) \<Rightarrow> Some b | _ \<Rightarrow> None)"

definition int_at :: "rkeys \<Rightarrow> string \<Rightarrow> int" where
  "int_at v k = (case v k of Some (RInt n) \<Rightarrow> n | _ \<Rightarrow> 0)"

definition hash_ok :: "rkeys \<Rightarrow> string \<Rightarrow> bool" where
  "hash_ok v k \<longleftrightarrow> v k = None \<or> (\<exists>h. v k = Some (RHash h))"

definition zset_ok :: "rkeys \<Rightarrow> string \<Rightarrow> bool" where
  "zset_ok v k \<longleftrightarrow> v k = None \<or> (\<exists>z. v k = Some (RZset z))"

definition str_ok :: "rkeys \<Rightarrow> string \<Rightarrow> bool" where
  "str_ok v k \<longleftrightarrow> v k = None \<or> (\<exists>b. v k = Some (RStr b))"

definition int_ok :: "rkeys \<Rightarrow> string \<Rightarrow> bool" where
  "int_ok v k \<longleftrightarrow> v k = None \<or> (\<exists>n. v k = Some (RInt n))"

text \<open>A hash or sorted set that has become empty is removed with its key.\<close>

definition put_hash :: "string \<Rightarrow> (string \<Rightarrow> u8 list option) \<Rightarrow> rkeys \<Rightarrow> rkeys" where
  "put_hash k h v = v(k := if h = Map.empty then None else Some (RHash h))"

definition put_zset :: "string \<Rightarrow> (string \<Rightarrow> int option) \<Rightarrow> rkeys \<Rightarrow> rkeys" where
  "put_zset k z v = v(k := if z = Map.empty then None else Some (RZset z))"

lemma hash_at_put [simp]: "hash_at (put_hash k h v) k' = (if k' = k then h else hash_at v k')"
  by (simp add: hash_at_def put_hash_def)

lemma zset_at_put [simp]: "zset_at (put_zset k z v) k' = (if k' = k then z else zset_at v k')"
  by (simp add: zset_at_def put_zset_def)

lemma put_hash_other [simp]: "k' \<noteq> k \<Longrightarrow> put_hash k h v k' = v k'"
  by (simp add: put_hash_def)

lemma put_zset_other [simp]: "k' \<noteq> k \<Longrightarrow> put_zset k z v k' = v k'"
  by (simp add: put_zset_def)

lemma hash_ok_put [simp]: "hash_ok (put_hash k h v) k' \<longleftrightarrow> k' = k \<or> hash_ok v k'"
  by (simp add: hash_ok_def put_hash_def)

lemma zset_ok_put [simp]: "zset_ok (put_zset k z v) k' \<longleftrightarrow> k' = k \<or> zset_ok v k'"
  by (simp add: zset_ok_def put_zset_def)

lemmas rval_at_defs = hash_at_def zset_at_def str_at_def int_at_def hash_ok_def zset_ok_def
  str_ok_def int_ok_def

lemma put_other_at [simp]:
  assumes "k' \<noteq> k"
  shows "zset_at (put_hash k h v) k' = zset_at v k'" "zset_ok (put_hash k h v) k' = zset_ok v k'"
    "hash_at (put_zset k z v) k' = hash_at v k'" "hash_ok (put_zset k z v) k' = hash_ok v k'"
    "str_at (put_hash k h v) k' = str_at v k'" "str_at (put_zset k z v) k' = str_at v k'"
    "str_ok (put_hash k h v) k' = str_ok v k'" "str_ok (put_zset k z v) k' = str_ok v k'"
    "int_at (put_hash k h v) k' = int_at v k'" "int_at (put_zset k z v) k' = int_at v k'"
    "int_ok (put_hash k h v) k' = int_ok v k'" "int_ok (put_zset k z v) k' = int_ok v k'"
  using assms by (simp_all add: rval_at_defs put_hash_def put_zset_def)

lemma upd_other_at [simp]:
  assumes "k' \<noteq> k"
  shows "hash_at (v(k := x)) k' = hash_at v k'" "zset_at (v(k := x)) k' = zset_at v k'"
    "str_at (v(k := x)) k' = str_at v k'" "int_at (v(k := x)) k' = int_at v k'"
    "hash_ok (v(k := x)) k' = hash_ok v k'" "zset_ok (v(k := x)) k' = zset_ok v k'"
    "str_ok (v(k := x)) k' = str_ok v k'" "int_ok (v(k := x)) k' = int_ok v k'"
  using assms by (simp_all add: rval_at_defs put_hash_def put_zset_def)

lemma upd_same_at [simp]:
  "int_at (v(k \<mapsto> RInt n)) k = n" "int_ok (v(k \<mapsto> RInt n)) k"
  "str_at (v(k \<mapsto> RStr b)) k = Some b" "str_ok (v(k \<mapsto> RStr b)) k"
  by (simp_all add: int_at_def int_ok_def str_at_def str_ok_def)


section \<open>Commands\<close>

text \<open>The calls a script makes.\<close>

datatype rcall =
    CHset string string "u8 list"
  | CZadd string int string

record 'd redis =
  rd_incr :: "string \<Rightarrow> ('d, string + int) act"
  rd_hset :: "string \<Rightarrow> string \<Rightarrow> u8 list \<Rightarrow> ('d, string + int) act"
  rd_hget :: "string \<Rightarrow> string \<Rightarrow> ('d, string + u8 list option) act"
  rd_hgetall :: "string \<Rightarrow> ('d, string + (string, u8 list) hashmap) act"
  rd_hdel :: "string \<Rightarrow> string \<Rightarrow> ('d, string + int) act"
  rd_eval :: "rcall list \<Rightarrow> ('d, string + int) act"
  rd_zrangebyscore :: "string \<Rightarrow> int \<Rightarrow> ('d, string + string list) act"
  rd_zrem :: "string \<Rightarrow> string \<Rightarrow> ('d, string + int) act"
  rd_set :: "string \<Rightarrow> u8 list \<Rightarrow> ('d, string + unit) act"
  rd_get :: "string \<Rightarrow> ('d, string + u8 list option) act"
  rd_view :: "'d \<Rightarrow> rkeys"
  rd_up :: "'d \<Rightarrow> bool"
  rd_double :: "int \<Rightarrow> int"

fun run_call :: "(int \<Rightarrow> int) \<Rightarrow> rcall \<Rightarrow> rkeys \<Rightarrow> rkeys" where
  "run_call dbl (CHset k f b) v = put_hash k ((hash_at v k)(f \<mapsto> b)) v"
| "run_call dbl (CZadd k s m) v = put_zset k ((zset_at v k)(m \<mapsto> dbl s)) v"

fun call_ok :: "rkeys \<Rightarrow> rcall \<Rightarrow> bool" where
  "call_ok v (CHset k f b) = hash_ok v k"
| "call_ok v (CZadd k s m) = zset_ok v k"

fun calls_ok :: "(int \<Rightarrow> int) \<Rightarrow> rkeys \<Rightarrow> rcall list \<Rightarrow> bool" where
  "calls_ok dbl v [] = True"
| "calls_ok dbl v (c # cs) = (call_ok v c \<and> calls_ok dbl (run_call dbl c v) cs)"

text \<open>
  One command: \<open>eff y v v'\<close> is the effect that comes with the answer \<open>y\<close>, \<open>part v v'\<close> what
  may have happened when the answer is an error, \<open>fit v\<close> when the command applies.
\<close>

definition answers_ok :: "('d \<Rightarrow> 'v) \<Rightarrow> ('d \<Rightarrow> bool) \<Rightarrow> ('d, string + 'a) act \<Rightarrow> ('v \<Rightarrow> bool)
    \<Rightarrow> ('a \<Rightarrow> 'v \<Rightarrow> 'v \<Rightarrow> bool) \<Rightarrow> ('v \<Rightarrow> 'v \<Rightarrow> bool) \<Rightarrow> bool" where
  "answers_ok view up c fit eff part \<longleftrightarrow> (\<forall>d. \<exists>x d'. c d = (Ret x, d') \<and>
     (case x of Inl e \<Rightarrow> part (view d) (view d') | Inr y \<Rightarrow> eff y (view d) (view d')) \<and>
     (up d \<longrightarrow> up d' \<and> (fit (view d) \<longrightarrow> is_ok x)))"

definition or_lost :: "('a \<Rightarrow> 'v \<Rightarrow> 'v \<Rightarrow> bool) \<Rightarrow> 'v \<Rightarrow> 'v \<Rightarrow> bool" where
  "or_lost eff v v' \<longleftrightarrow> v' = v \<or> (\<exists>y. eff y v v')"

abbreviation command_ok :: "'d redis \<Rightarrow> ('d, string + 'a) act \<Rightarrow> (rkeys \<Rightarrow> bool)
    \<Rightarrow> ('a \<Rightarrow> rkeys \<Rightarrow> rkeys \<Rightarrow> bool) \<Rightarrow> (rkeys \<Rightarrow> rkeys \<Rightarrow> bool) \<Rightarrow> bool" where
  "command_ok R \<equiv> answers_ok (rd_view R) (rd_up R)"

abbreviation simple_ok :: "'d redis \<Rightarrow> ('d, string + 'a) act \<Rightarrow> (rkeys \<Rightarrow> bool)
    \<Rightarrow> ('a \<Rightarrow> rkeys \<Rightarrow> rkeys \<Rightarrow> bool) \<Rightarrow> bool" where
  "simple_ok R c fit eff \<equiv> command_ok R c fit eff (or_lost eff)"

definition due_members :: "(string \<Rightarrow> int option) \<Rightarrow> int \<Rightarrow> string list \<Rightarrow> bool" where
  "due_members z mx ms \<longleftrightarrow> distinct ms \<and> set ms = {m. \<exists>s. z m = Some s \<and> s \<le> mx} \<and>
     sorted (map (\<lambda>m. the (z m)) ms)"

definition redis_laws :: "'d redis \<Rightarrow> bool" where
  "redis_laws R \<longleftrightarrow>
     mono (rd_double R) \<and> (\<forall>n. \<bar>n\<bar> \<le> 2 ^ 53 \<longrightarrow> rd_double R n = n) \<and>
     (\<forall>k. simple_ok R (rd_incr R k) (\<lambda>v. int_ok v k \<and> int_at v k < 2 ^ 63 - 1)
        (\<lambda>n v v'. n = int_at v k + 1 \<and> v' = v(k \<mapsto> RInt n))) \<and>
     (\<forall>k f b. simple_ok R (rd_hset R k f b) (\<lambda>v. hash_ok v k)
        (\<lambda>_ v v'. v' = put_hash k ((hash_at v k)(f \<mapsto> b)) v)) \<and>
     (\<forall>k f. simple_ok R (rd_hget R k f) (\<lambda>v. hash_ok v k)
        (\<lambda>y v v'. v' = v \<and> y = hash_at v k f)) \<and>
     (\<forall>k. simple_ok R (rd_hgetall R k) (\<lambda>v. hash_ok v k)
        (\<lambda>y v v'. v' = v \<and> hm_wf y \<and> map_of y = hash_at v k)) \<and>
     (\<forall>k f. simple_ok R (rd_hdel R k f) (\<lambda>v. hash_ok v k)
        (\<lambda>_ v v'. v' = put_hash k ((hash_at v k)(f := None)) v)) \<and>
     (\<forall>cs. command_ok R (rd_eval R cs) (\<lambda>v. calls_ok (rd_double R) v cs)
        (\<lambda>_ v v'. v' = fold (run_call (rd_double R)) cs v)
        (\<lambda>v v'. \<exists>n. v' = fold (run_call (rd_double R)) (take n cs) v)) \<and>
     (\<forall>k mx. simple_ok R (rd_zrangebyscore R k mx) (\<lambda>v. zset_ok v k)
        (\<lambda>ms v v'. v' = v \<and> due_members (zset_at v k) (rd_double R mx) ms)) \<and>
     (\<forall>k m. simple_ok R (rd_zrem R k m) (\<lambda>v. zset_ok v k)
        (\<lambda>n v v'. n = (if zset_at v k m = None then 0 else 1) \<and>
           v' = put_zset k ((zset_at v k)(m := None)) v)) \<and>
     (\<forall>k b. simple_ok R (rd_set R k b) (\<lambda>v. True) (\<lambda>_ v v'. v' = v(k \<mapsto> RStr b))) \<and>
     (\<forall>k. simple_ok R (rd_get R k) (\<lambda>v. str_ok v k) (\<lambda>y v v'. v' = v \<and> y = str_at v k))"


lemma redis_lawsD:
  assumes "redis_laws R"
  shows double_mono: "mono (rd_double R)"
    and double_exact: "\<bar>n\<bar> \<le> 2 ^ 53 \<Longrightarrow> rd_double R n = n"
    and incr_law: "simple_ok R (rd_incr R k) (\<lambda>v. int_ok v k \<and> int_at v k < 2 ^ 63 - 1)
        (\<lambda>n v v'. n = int_at v k + 1 \<and> v' = v(k \<mapsto> RInt n))"
    and hset_law: "simple_ok R (rd_hset R k f b) (\<lambda>v. hash_ok v k)
        (\<lambda>_ v v'. v' = put_hash k ((hash_at v k)(f \<mapsto> b)) v)"
    and hget_law: "simple_ok R (rd_hget R k f) (\<lambda>v. hash_ok v k)
        (\<lambda>y v v'. v' = v \<and> y = hash_at v k f)"
    and hgetall_law: "simple_ok R (rd_hgetall R k) (\<lambda>v. hash_ok v k)
        (\<lambda>y v v'. v' = v \<and> hm_wf y \<and> map_of y = hash_at v k)"
    and hdel_law: "simple_ok R (rd_hdel R k f) (\<lambda>v. hash_ok v k)
        (\<lambda>_ v v'. v' = put_hash k ((hash_at v k)(f := None)) v)"
    and eval_law: "command_ok R (rd_eval R cs) (\<lambda>v. calls_ok (rd_double R) v cs)
        (\<lambda>_ v v'. v' = fold (run_call (rd_double R)) cs v)
        (\<lambda>v v'. \<exists>n. v' = fold (run_call (rd_double R)) (take n cs) v)"
    and zrangebyscore_law: "simple_ok R (rd_zrangebyscore R k mx) (\<lambda>v. zset_ok v k)
        (\<lambda>ms v v'. v' = v \<and> due_members (zset_at v k) (rd_double R mx) ms)"
    and zrem_law: "simple_ok R (rd_zrem R k m) (\<lambda>v. zset_ok v k)
        (\<lambda>n v v'. n = (if zset_at v k m = None then 0 else 1) \<and>
           v' = put_zset k ((zset_at v k)(m := None)) v)"
    and set_law: "simple_ok R (rd_set R k b) (\<lambda>v. True) (\<lambda>_ v v'. v' = v(k \<mapsto> RStr b))"
    and get_law: "simple_ok R (rd_get R k) (\<lambda>v. str_ok v k) (\<lambda>y v v'. v' = v \<and> y = str_at v k)"
  using assms unfolding redis_laws_def by blast+

lemma command_up:
  assumes "answers_ok view up c fit eff part" and "up d" and "fit (view d)"
  shows "\<exists>y d'. c d = (Ret (Inr y), d') \<and> eff y (view d) (view d') \<and> up d'"
proof -
  obtain x d' where x: "c d = (Ret x, d')" "case x of Inl e \<Rightarrow> part (view d) (view d')
      | Inr y \<Rightarrow> eff y (view d) (view d')" "up d'" "is_ok x"
    using assms unfolding answers_ok_def by blast
  then show ?thesis by (cases x) auto
qed

lemma command_any:
  assumes "answers_ok view up c fit eff part"
  obtains (Value) y d' where "c d = (Ret (Inr y), d')" and "eff y (view d) (view d')"
    | (Error) e d' where "c d = (Ret (Inl e), d')" and "part (view d) (view d')"
proof -
  obtain x d' where x: "c d = (Ret x, d')" "case x of Inl e \<Rightarrow> part (view d) (view d')
      | Inr y \<Rightarrow> eff y (view d) (view d')"
    using assms unfolding answers_ok_def by blast
  then show thesis using that by (cases x) auto
qed


section \<open>A server in memory\<close>

text \<open>The commands over an association list satisfy the laws.\<close>

datatype lval =
    LHash "(string, u8 list) hashmap"
  | LZset "(string, int) hashmap"
  | LStr "u8 list"
  | LInt int

type_synonym lserver = "(string, lval) hashmap"

fun lval_view :: "lval \<Rightarrow> rval" where
  "lval_view (LHash h) = RHash (map_of h)"
| "lval_view (LZset z) = RZset (map_of z)"
| "lval_view (LStr b) = RStr b"
| "lval_view (LInt n) = RInt n"

definition wrong_type :: "('d, string + 'a) act" where
  "wrong_type = ret (Inl ''WRONGTYPE'')"

definition l_hash :: "lserver \<Rightarrow> string \<Rightarrow> (string, u8 list) hashmap option" where
  "l_hash d k = (case hm_get d k of None \<Rightarrow> Some [] | Some (LHash h) \<Rightarrow> Some h | _ \<Rightarrow> None)"

definition l_zset :: "lserver \<Rightarrow> string \<Rightarrow> (string, int) hashmap option" where
  "l_zset d k = (case hm_get d k of None \<Rightarrow> Some [] | Some (LZset z) \<Rightarrow> Some z | _ \<Rightarrow> None)"

definition l_put_hash :: "string \<Rightarrow> (string, u8 list) hashmap \<Rightarrow> lserver \<Rightarrow> lserver" where
  "l_put_hash k h d = (if h = [] then hm_remove k d else hm_insert k (LHash h) d)"

definition l_put_zset :: "string \<Rightarrow> (string, int) hashmap \<Rightarrow> lserver \<Rightarrow> lserver" where
  "l_put_zset k z d = (if z = [] then hm_remove k d else hm_insert k (LZset z) d)"

definition in_hash :: "string \<Rightarrow> ((string, u8 list) hashmap \<Rightarrow> 'a) \<Rightarrow> (lserver, string + 'a) act" where
  "in_hash k f d = (case l_hash d k of None \<Rightarrow> wrong_type d | Some h \<Rightarrow> (Ret (Inr (f h)), d))"

definition in_zset :: "string \<Rightarrow> ((string, int) hashmap \<Rightarrow> 'a) \<Rightarrow> (lserver, string + 'a) act" where
  "in_zset k f d = (case l_zset d k of None \<Rightarrow> wrong_type d | Some z \<Rightarrow> (Ret (Inr (f z)), d))"

definition change_hash :: "string \<Rightarrow> ((string, u8 list) hashmap \<Rightarrow> (string, u8 list) hashmap)
    \<Rightarrow> (lserver, string + int) act" where
  "change_hash k f d = (case l_hash d k of None \<Rightarrow> wrong_type d
     | Some h \<Rightarrow> (Ret (Inr 1), l_put_hash k (f h) d))"

definition change_zset :: "string \<Rightarrow> ((string, int) hashmap \<Rightarrow> int)
    \<Rightarrow> ((string, int) hashmap \<Rightarrow> (string, int) hashmap) \<Rightarrow> (lserver, string + int) act" where
  "change_zset k g f d = (case l_zset d k of None \<Rightarrow> wrong_type d
     | Some z \<Rightarrow> (Ret (Inr (g z)), l_put_zset k (f z) d))"

fun l_call :: "rcall \<Rightarrow> (lserver, string + int) act" where
  "l_call (CHset k f b) = change_hash k (hm_insert f b)"
| "l_call (CZadd k s m) = change_zset k (\<lambda>_. 1) (hm_insert m s)"

fun l_eval :: "rcall list \<Rightarrow> (lserver, string + int) act" where
  "l_eval [] = ret (Inr 1)"
| "l_eval (c # cs) = bindQ (l_call c) (\<lambda>_. l_eval cs)"

definition l_incr :: "string \<Rightarrow> (lserver, string + int) act" where
  "l_incr k d = (case hm_get d k of
       None \<Rightarrow> (Ret (Inr 1), hm_insert k (LInt 1) d)
     | Some (LInt n) \<Rightarrow> (if n < 2 ^ 63 - 1 then (Ret (Inr (n + 1)), hm_insert k (LInt (n + 1)) d)
         else (Ret (Inl ''ERR increment or decrement would overflow''), d))
     | _ \<Rightarrow> wrong_type d)"

definition l_get :: "string \<Rightarrow> (lserver, string + u8 list option) act" where
  "l_get k d = (case hm_get d k of None \<Rightarrow> (Ret (Inr None), d)
     | Some (LStr b) \<Rightarrow> (Ret (Inr (Some b)), d) | _ \<Rightarrow> wrong_type d)"

definition l_zrange :: "int \<Rightarrow> (string, int) hashmap \<Rightarrow> string list" where
  "l_zrange mx z = sort_key (\<lambda>m. the (map_of z m))
     (filter (\<lambda>m. the (map_of z m) \<le> mx) (remdups (hm_keys z)))"

definition l_view :: "lserver \<Rightarrow> rkeys" where
  "l_view d k = map_option lval_view (hm_get d k)"

definition memory_redis :: "lserver redis" where
  "memory_redis =
     \<lparr>rd_incr = l_incr, rd_hset = (\<lambda>k f b. change_hash k (hm_insert f b)),
      rd_hget = (\<lambda>k f. in_hash k (\<lambda>h. hm_get h f)), rd_hgetall = (\<lambda>k. in_hash k AList.clearjunk),
      rd_hdel = (\<lambda>k f. change_hash k (hm_remove f)), rd_eval = l_eval,
      rd_zrangebyscore = (\<lambda>k mx. in_zset k (l_zrange mx)),
      rd_zrem = (\<lambda>k m. change_zset k (\<lambda>z. if hm_get z m = None then 0 else 1) (hm_remove m)),
      rd_set = (\<lambda>k b d. (Ret (Inr ()), hm_insert k (LStr b) d)), rd_get = l_get,
      rd_view = l_view, rd_up = (\<lambda>_. True), rd_double = (\<lambda>n. n)\<rparr>"

lemma l_view_insert [simp]: "l_view (hm_insert k x d) = (l_view d)(k \<mapsto> lval_view x)"
  by (rule ext) (simp add: l_view_def)

lemma l_view_put [simp]:
  "l_view (l_put_hash k h d) = put_hash k (map_of h) (l_view d)"
  "l_view (l_put_zset k z d) = put_zset k (map_of z) (l_view d)"
  by (rule ext; simp add: l_put_hash_def l_put_zset_def put_hash_def put_zset_def l_view_def)+

lemma l_hash_view [simp]:
  "l_hash d k = Some h \<Longrightarrow> hash_ok (l_view d) k" "l_hash d k = Some h \<Longrightarrow> hash_at (l_view d) k = map_of h"
  "l_hash d k = None \<Longrightarrow> \<not> hash_ok (l_view d) k"
  by (auto simp: l_hash_def l_view_def hash_ok_def hash_at_def split: option.splits lval.splits)

lemma l_zset_view [simp]:
  "l_zset d k = Some z \<Longrightarrow> zset_ok (l_view d) k" "l_zset d k = Some z \<Longrightarrow> zset_at (l_view d) k = map_of z"
  "l_zset d k = None \<Longrightarrow> \<not> zset_ok (l_view d) k"
  by (auto simp: l_zset_def l_view_def zset_ok_def zset_at_def split: option.splits lval.splits)

lemma l_zrange_due: "due_members (map_of z) mx (l_zrange mx z)"
proof -
  have "m \<in> fst ` set z \<and> the (map_of z m) \<le> mx \<longleftrightarrow> (\<exists>s. map_of z m = Some s \<and> s \<le> mx)" for m
    by (cases "map_of z m") (auto simp: map_of_eq_None_iff dest: map_of_SomeD intro: rev_image_eqI)
  then show ?thesis by (simp add: due_members_def l_zrange_def)
qed

lemma l_call_run:
  "case l_call c d of
     (Ret (Inr y), d') \<Rightarrow> call_ok (l_view d) c \<and> l_view d' = run_call (\<lambda>n. n) c (l_view d)
   | (Ret (Inl e), d') \<Rightarrow> \<not> call_ok (l_view d) c \<and> d' = d
   | _ \<Rightarrow> False"
  by (cases c) (auto simp: change_hash_def change_zset_def wrong_type_def ret_def update_conv'
      split: option.splits)

lemma l_eval_run:
  "case l_eval cs d of
     (Ret (Inr y), d') \<Rightarrow> calls_ok (\<lambda>n. n) (l_view d) cs \<and> l_view d' = fold (run_call (\<lambda>n. n)) cs (l_view d)
   | (Ret (Inl e), d') \<Rightarrow> \<not> calls_ok (\<lambda>n. n) (l_view d) cs \<and>
       (\<exists>n. l_view d' = fold (run_call (\<lambda>n. n)) (take n cs) (l_view d))
   | _ \<Rightarrow> False"
proof (induction cs arbitrary: d)
  case Nil
  then show ?case by (simp add: ret_def)
next
  case (Cons c cs)
  consider (ok) y d' where "l_call c d = (Ret (Inr y), d')" "call_ok (l_view d) c"
      "l_view d' = run_call (\<lambda>n. n) c (l_view d)"
    | (err) e where "l_call c d = (Ret (Inl e), d)" "\<not> call_ok (l_view d) c"
    using l_call_run [where c = c and d = d] by (auto split: prod.splits outcome.splits sum.splits)
  then show ?case
  proof cases
    case ok
    then have "l_eval (c # cs) d = l_eval cs d'" by (simp add: bindQ_Inr)
    moreover have "\<exists>n. v = fold (run_call (\<lambda>n. n)) (take n (c # cs)) (l_view d)"
      if "v = fold (run_call (\<lambda>n. n)) (take n cs) (l_view d')" for v n
      using that ok(3) by (intro exI [of _ "Suc n"]) simp
    ultimately show ?thesis using Cons.IH [of d'] ok(2,3)
      by (auto split: prod.splits outcome.splits sum.splits)
  next
    case err
    have "l_view d = fold (run_call (\<lambda>n. n)) (take 0 (c # cs)) (l_view d)" by simp
    then have "\<exists>n. l_view d = fold (run_call (\<lambda>n. n)) (take n (c # cs)) (l_view d)" by (rule exI)
    with err show ?thesis by (simp add: bindQ_Inl)
  qed
qed

lemma l_eval_ok: "\<exists>x d'. l_eval cs d = (Ret x, d') \<and>
   (case x of Inl e \<Rightarrow> \<exists>n. l_view d' = fold (run_call (\<lambda>n. n)) (take n cs) (l_view d)
            | Inr y \<Rightarrow> l_view d' = fold (run_call (\<lambda>n. n)) cs (l_view d)) \<and>
   (calls_ok (\<lambda>n. n) (l_view d) cs \<longrightarrow> is_ok x)"
  using l_eval_run [where cs = cs and d = d]
  by (auto split: prod.splits outcome.splits sum.splits)

lemma memory_redis_view: "rd_view memory_redis = l_view" "rd_up memory_redis = (\<lambda>_. True)"
  "rd_double memory_redis = (\<lambda>n. n)"
  by (simp_all add: memory_redis_def)

lemma memory_commandI:
  assumes "\<And>d. fit (l_view d) \<Longrightarrow> \<exists>y d'. c d = (Ret (Inr y), d') \<and> eff y (l_view d) (l_view d')"
    and "\<And>d. \<not> fit (l_view d) \<Longrightarrow> \<exists>e. c d = (Ret (Inl e), d)"
  shows "simple_ok memory_redis c fit eff"
  unfolding answers_ok_def or_lost_def memory_redis_view
proof
  fix d
  show "\<exists>x d'. c d = (Ret x, d') \<and>
      (case x of Inl e \<Rightarrow> l_view d' = l_view d \<or> (\<exists>y. eff y (l_view d) (l_view d'))
               | Inr y \<Rightarrow> eff y (l_view d) (l_view d')) \<and>
      (True \<longrightarrow> True \<and> (fit (l_view d) \<longrightarrow> is_ok x))"
    using assms(1) [of d] assms(2) [of d] by (cases "fit (l_view d)") auto
qed

lemma in_hash_ok:
  assumes "\<And>v h. hash_at v k = map_of h \<Longrightarrow> eff (g h) v v"
  shows "simple_ok memory_redis (in_hash k g) (\<lambda>v. hash_ok v k) eff"
proof (rule memory_commandI)
  fix d
  show "\<exists>y d'. in_hash k g d = (Ret (Inr y), d') \<and> eff y (l_view d) (l_view d')"
    if "hash_ok (l_view d) k"
    using that assms by (cases "l_hash d k") (simp_all add: in_hash_def)
  show "\<exists>e. in_hash k g d = (Ret (Inl e), d)" if "\<not> hash_ok (l_view d) k"
    using that by (cases "l_hash d k") (simp_all add: in_hash_def wrong_type_def ret_def)
qed

lemma in_zset_ok:
  assumes "\<And>v z. zset_at v k = map_of z \<Longrightarrow> eff (g z) v v"
  shows "simple_ok memory_redis (in_zset k g) (\<lambda>v. zset_ok v k) eff"
proof (rule memory_commandI)
  fix d
  show "\<exists>y d'. in_zset k g d = (Ret (Inr y), d') \<and> eff y (l_view d) (l_view d')"
    if "zset_ok (l_view d) k"
    using that assms by (cases "l_zset d k") (simp_all add: in_zset_def)
  show "\<exists>e. in_zset k g d = (Ret (Inl e), d)" if "\<not> zset_ok (l_view d) k"
    using that by (cases "l_zset d k") (simp_all add: in_zset_def wrong_type_def ret_def)
qed

lemma change_hash_ok:
  assumes "\<And>v h. hash_at v k = map_of h \<Longrightarrow> eff 1 v (put_hash k (map_of (f h)) v)"
  shows "simple_ok memory_redis (change_hash k f) (\<lambda>v. hash_ok v k) eff"
proof (rule memory_commandI)
  fix d
  show "\<exists>y d'. change_hash k f d = (Ret (Inr y), d') \<and> eff y (l_view d) (l_view d')"
    if "hash_ok (l_view d) k"
    using that assms by (cases "l_hash d k") (simp_all add: change_hash_def)
  show "\<exists>e. change_hash k f d = (Ret (Inl e), d)" if "\<not> hash_ok (l_view d) k"
    using that by (cases "l_hash d k") (simp_all add: change_hash_def wrong_type_def ret_def)
qed

lemma change_zset_ok:
  assumes "\<And>v z. zset_at v k = map_of z \<Longrightarrow> eff (g z) v (put_zset k (map_of (f z)) v)"
  shows "simple_ok memory_redis (change_zset k g f) (\<lambda>v. zset_ok v k) eff"
proof (rule memory_commandI)
  fix d
  show "\<exists>y d'. change_zset k g f d = (Ret (Inr y), d') \<and> eff y (l_view d) (l_view d')"
    if "zset_ok (l_view d) k"
    using that assms by (cases "l_zset d k") (simp_all add: change_zset_def)
  show "\<exists>e. change_zset k g f d = (Ret (Inl e), d)" if "\<not> zset_ok (l_view d) k"
    using that by (cases "l_zset d k") (simp_all add: change_zset_def wrong_type_def ret_def)
qed

lemma l_incr_ok:
  "simple_ok memory_redis (l_incr k) (\<lambda>v. int_ok v k \<and> int_at v k < 2 ^ 63 - 1)
     (\<lambda>n v v'. n = int_at v k + 1 \<and> v' = v(k \<mapsto> RInt n))"
proof (rule memory_commandI)
  fix d
  show "\<exists>y d'. l_incr k d = (Ret (Inr y), d') \<and>
      y = int_at (l_view d) k + 1 \<and> l_view d' = (l_view d)(k \<mapsto> RInt y)"
    if "int_ok (l_view d) k \<and> int_at (l_view d) k < 2 ^ 63 - 1"
    using that by (auto simp: l_incr_def int_at_def int_ok_def l_view_def fun_eq_iff
        split: option.splits lval.splits)
  show "\<exists>e. l_incr k d = (Ret (Inl e), d)"
    if "\<not> (int_ok (l_view d) k \<and> int_at (l_view d) k < 2 ^ 63 - 1)"
    using that by (auto simp: l_incr_def wrong_type_def ret_def int_at_def int_ok_def l_view_def
        split: option.splits lval.splits)
qed

lemma l_get_ok:
  "simple_ok memory_redis (l_get k) (\<lambda>v. str_ok v k) (\<lambda>y v v'. v' = v \<and> y = str_at v k)"
proof (rule memory_commandI)
  fix d
  show "\<exists>y d'. l_get k d = (Ret (Inr y), d') \<and> l_view d' = l_view d \<and> y = str_at (l_view d) k"
    if "str_ok (l_view d) k"
    using that by (auto simp: l_get_def str_at_def str_ok_def l_view_def split: option.splits lval.splits)
  show "\<exists>e. l_get k d = (Ret (Inl e), d)" if "\<not> str_ok (l_view d) k"
    using that by (auto simp: l_get_def wrong_type_def ret_def str_ok_def l_view_def
        split: option.splits lval.splits)
qed

lemma memory_redis_commands:
  "rd_incr memory_redis k = l_incr k"
  "rd_hset memory_redis k f b = change_hash k (hm_insert f b)"
  "rd_hget memory_redis k f = in_hash k (\<lambda>h. hm_get h f)"
  "rd_hgetall memory_redis k = in_hash k AList.clearjunk"
  "rd_hdel memory_redis k f = change_hash k (hm_remove f)"
  "rd_eval memory_redis cs = l_eval cs"
  "rd_zrangebyscore memory_redis k mx = in_zset k (l_zrange mx)"
  "rd_zrem memory_redis k m = change_zset k (\<lambda>z. if hm_get z m = None then 0 else 1) (hm_remove m)"
  "rd_set memory_redis k b = (\<lambda>d. (Ret (Inr ()), hm_insert k (LStr b) d))"
  "rd_get memory_redis k = l_get k"
  by (simp_all add: memory_redis_def)

lemma memory_redis_laws: "redis_laws memory_redis"
  unfolding redis_laws_def memory_redis_commands memory_redis_view(3)
proof (intro conjI allI impI)
  show "command_ok memory_redis (l_eval cs) (\<lambda>v. calls_ok (\<lambda>n. n) v cs)
        (\<lambda>_ v v'. v' = fold (run_call (\<lambda>n. n)) cs v)
        (\<lambda>v v'. \<exists>n. v' = fold (run_call (\<lambda>n. n)) (take n cs) v)" for cs
    unfolding answers_ok_def memory_redis_view using l_eval_ok [of cs] by blast
  show "simple_ok memory_redis (\<lambda>d. (Ret (Inr ()), hm_insert k (LStr b) d)) (\<lambda>v. True)
      (\<lambda>_ v v'. v' = v(k \<mapsto> RStr b))" for k b
    by (rule memory_commandI) simp_all
  show "simple_ok memory_redis (l_incr k) (\<lambda>v. int_ok v k \<and> int_at v k < 2 ^ 63 - 1)
      (\<lambda>n v v'. n = int_at v k + 1 \<and> v' = v(k \<mapsto> RInt n))" for k
    by (rule l_incr_ok)
qed (auto intro!: in_hash_ok in_zset_ok change_hash_ok change_zset_ok l_get_ok
    simp: mono_def update_conv' delete_conv' distinct_clearjunk map_of_clearjunk l_zrange_due)

end
