(* ===== verification/Wal_Redis.thy ===== *)
theory Wal_Redis
  imports Wal Redis_Server
begin

text \<open>
  The write-ahead log in Redis (\<^verbatim>\<open>event_base_wal/src/redis.rs\<close>) over the commands of
  \<open>Redis_Server\<close>. The state of an operation is the server's: several nodes may share it.

  One client at a time satisfies the polling contract \<open>delay_polls\<close> of the log, with a due
  test in whole milliseconds. A payload that cannot be decoded makes a poll lose what it has
  claimed. Several clients at a time are the subject of \<open>Redis_Pollers\<close>.
\<close>

section \<open>Operations\<close>

record 'd redis_wal =
  rw_conn :: "'d redis"
  rw_prefix :: string
  rw_codec :: "wal_record codec"
  rw_registry_codec :: "(string, worker_info) hashmap codec"

definition backend_err :: "string \<Rightarrow> core_error" where
  "backend_err e = EWal (Backend e)"

definition corrupted_err :: "string \<Rightarrow> string \<Rightarrow> core_error" where
  "corrupted_err ctx e = EWal (Corrupted (ctx @ '': '' @ e))"

definition redis_encode :: "'a codec \<Rightarrow> 'a \<Rightarrow> u8 list result" where
  "redis_encode c x =
     (case cd_enc c x of Inl e \<Rightarrow> Inl (EWal (WWrite (''encode failed: '' @ e))) | Inr b \<Rightarrow> Inr b)"

definition redis_decode :: "'a codec \<Rightarrow> u8 list \<Rightarrow> string \<Rightarrow> 'a result" where
  "redis_decode c b ctx = (case cd_dec c b of Inl e \<Rightarrow> Inl (corrupted_err ctx e) | Inr x \<Rightarrow> Inr x)"

text \<open>\<^verbatim>\<open>d.as_millis() as i64\<close>: the low 64 bits, read as a signed number.\<close>

definition millis_i64 :: "duration \<Rightarrow> int" where
  "millis_i64 d = sint (word_of_int (int (d div 1000000)) :: u64)"

definition now_millis :: "time \<Rightarrow> int" where
  "now_millis now = millis_i64 (case duration_since now 0 of Inl _ \<Rightarrow> 0 | Inr d \<Rightarrow> d)"

definition deliver_at_millis :: "wal_record \<Rightarrow> int" where
  "deliver_at_millis r = (case deliver_at (wr_message r) of
       Some t \<Rightarrow> (case duration_since t 0 of Inl _ \<Rightarrow> 0 | Inr d \<Rightarrow> millis_i64 d)
     | None \<Rightarrow> 2 ^ 63 - 1)"

text \<open>Connecting: \<^verbatim>\<open>Client::open\<close> and \<^verbatim>\<open>get_connection_manager\<close> of the client crate.\<close>

record ('c, 'd) redis_client =
  cl_open :: "string \<Rightarrow> string + 'c"
  cl_manager :: "'c \<Rightarrow> string + 'd redis"

definition from_connection_manager :: "wal_record codec \<Rightarrow> (string, worker_info) hashmap codec
    \<Rightarrow> 'd redis \<Rightarrow> string \<Rightarrow> 'd redis_wal" where
  "from_connection_manager rc gc conn pre =
     \<lparr>rw_conn = conn, rw_prefix = pre, rw_codec = rc, rw_registry_codec = gc\<rparr>"

definition redis_with_prefix :: "wal_record codec \<Rightarrow> (string, worker_info) hashmap codec
    \<Rightarrow> ('c, 'd) redis_client \<Rightarrow> string \<Rightarrow> string \<Rightarrow> 'd redis_wal result" where
  "redis_with_prefix rc gc cl url pre =
     (case cl_open cl url of
        Inl e \<Rightarrow> Inl (backend_err e)
      | Inr client \<Rightarrow> (case cl_manager cl client of
          Inl e \<Rightarrow> Inl (backend_err e)
        | Inr conn \<Rightarrow> Inr (from_connection_manager rc gc conn pre)))"

definition redis_wal_new :: "wal_record codec \<Rightarrow> (string, worker_info) hashmap codec
    \<Rightarrow> ('c, 'd) redis_client \<Rightarrow> string \<Rightarrow> 'd redis_wal result" where
  "redis_wal_new rc gc cl url = redis_with_prefix rc gc cl url ''event_base''"

definition records_key :: "'d redis_wal \<Rightarrow> string" where
  "records_key W = rw_prefix W @ '':wal:records''"

definition delays_key :: "'d redis_wal \<Rightarrow> string" where
  "delays_key W = rw_prefix W @ '':wal:delays''"

definition delay_index_key :: "'d redis_wal \<Rightarrow> string" where
  "delay_index_key W = rw_prefix W @ '':wal:delay_index''"

definition registry_key :: "'d redis_wal \<Rightarrow> string" where
  "registry_key W = rw_prefix W @ '':wal:registry''"

definition counter_key :: "'d redis_wal \<Rightarrow> string" where
  "counter_key W = rw_prefix W @ '':wal:id_counter''"

text \<open>\<^verbatim>\<open>query_async(..).await.map_err(backend_err)\<close>.\<close>

definition query :: "('d, string + 'a) act \<Rightarrow> ('d, 'a result) act" where
  "query c = bindA c (\<lambda>x. ret (case x of Inl e \<Rightarrow> Inl (backend_err e) | Inr y \<Rightarrow> Inr y))"

definition next_record_id :: "'d redis_wal \<Rightarrow> ('d, u64 result) act" where
  "next_record_id W =
     bindQ (query (rd_incr (rw_conn W) (counter_key W))) (\<lambda>n. ret (Inr (word_of_int (max n 0))))"

definition redis_append :: "'d redis_wal \<Rightarrow> wal_record \<Rightarrow> ('d, unit result) act" where
  "redis_append W r =
     bindQ (next_record_id W) (\<lambda>n.
     let r = r\<lparr>record_id := n\<rparr> in
     bindQ (ret (redis_encode (rw_codec W) r)) (\<lambda>blob.
     bindQ (query (rd_hset (rw_conn W) (records_key W) (msg_id (wr_message r)) blob)) (\<lambda>_.
     ret (Inr ()))))"

definition redis_update_state :: "'d redis_wal \<Rightarrow> string \<Rightarrow> wal_record_state \<Rightarrow> ('d, unit result) act" where
  "redis_update_state W message_id status =
     bindQ (query (rd_hget (rw_conn W) (records_key W) message_id)) (\<lambda>existing.
     case existing of
       None \<Rightarrow> ret (Inl (EWal (RecordNotFound message_id)))
     | Some bytes \<Rightarrow>
         bindQ (ret (redis_decode (rw_codec W) bytes ''update_state'')) (\<lambda>r.
         bindQ (ret (redis_encode (rw_codec W) (r\<lparr>wr_status := status\<rparr>))) (\<lambda>blob.
         bindQ (query (rd_hset (rw_conn W) (records_key W) message_id blob)) (\<lambda>_.
         ret (Inr ())))))"

fun decode_pending :: "wal_record codec \<Rightarrow> (string, u8 list) hashmap \<Rightarrow> wal_record list result" where
  "decode_pending c [] = Inr []"
| "decode_pending c ((_, bytes) # rest) =
     (case redis_decode c bytes ''replay_pending'' of
        Inl e \<Rightarrow> Inl e
      | Inr r \<Rightarrow> (case decode_pending c rest of
          Inl e \<Rightarrow> Inl e
        | Inr rs \<Rightarrow> Inr (if wr_status r = WPending then r # rs else rs)))"

definition redis_replay_pending :: "'d redis_wal \<Rightarrow> ('d, wal_record list result) act" where
  "redis_replay_pending W =
     bindQ (query (rd_hgetall (rw_conn W) (records_key W))) (\<lambda>all.
     bindQ (ret (decode_pending (rw_codec W) all)) (\<lambda>pending.
     ret (Inr (sort_key record_id pending))))"

definition redis_flush :: "('d, unit result) act" where
  "redis_flush = ret (Inr ())"

definition schedule_script :: "'d redis_wal \<Rightarrow> string \<Rightarrow> u8 list \<Rightarrow> int \<Rightarrow> rcall list" where
  "schedule_script W mid blob score =
     [CHset (delays_key W) mid blob, CZadd (delay_index_key W) score mid]"

definition redis_schedule :: "'d redis_wal \<Rightarrow> wal_record \<Rightarrow> ('d, unit result) act" where
  "redis_schedule W r =
     bindQ (next_record_id W) (\<lambda>n.
     let r = r\<lparr>record_id := n\<rparr> in
     bindQ (ret (redis_encode (rw_codec W) r)) (\<lambda>blob.
     bindQ (query (rd_eval (rw_conn W)
       (schedule_script W (msg_id (wr_message r)) blob (deliver_at_millis r)))) (\<lambda>_.
     ret (Inr ()))))"

text \<open>One turn of the loop of \<^verbatim>\<open>fetch_ready\<close>, and the loop.\<close>

definition redis_claim :: "'d redis_wal \<Rightarrow> string \<Rightarrow> ('d, wal_record list result) act" where
  "redis_claim W mid =
     bindQ (query (rd_zrem (rw_conn W) (delay_index_key W) mid)) (\<lambda>claimed.
     if claimed = 0 then ret (Inr [])
     else
       bindQ (query (rd_hget (rw_conn W) (delays_key W) mid)) (\<lambda>bytes.
       bindQ (query (rd_hdel (rw_conn W) (delays_key W) mid)) (\<lambda>_.
       case bytes of
         None \<Rightarrow> ret (Inr [])
       | Some b \<Rightarrow> bindQ (ret (redis_decode (rw_codec W) b ''fetch_ready'')) (\<lambda>r. ret (Inr [r])))))"

fun redis_claim_all :: "'d redis_wal \<Rightarrow> string list \<Rightarrow> wal_record list \<Rightarrow> ('d, wal_record list result) act" where
  "redis_claim_all W [] ready = ret (Inr ready)"
| "redis_claim_all W (mid # due) ready =
     bindQ (redis_claim W mid) (\<lambda>rs. redis_claim_all W due (ready @ rs))"

definition redis_fetch_ready :: "'d redis_wal \<Rightarrow> time \<Rightarrow> ('d, wal_record list result) act" where
  "redis_fetch_ready W now =
     bindQ (query (rd_zrangebyscore (rw_conn W) (delay_index_key W) (now_millis now))) (\<lambda>due.
     redis_claim_all W due [])"

definition redis_remove_scheduled :: "'d redis_wal \<Rightarrow> string \<Rightarrow> ('d, unit result) act" where
  "redis_remove_scheduled W mid =
     bindQ (query (rd_zrem (rw_conn W) (delay_index_key W) mid)) (\<lambda>_.
     bindQ (query (rd_hdel (rw_conn W) (delays_key W) mid)) (\<lambda>_. ret (Inr ())))"

definition redis_save_worker_registry ::
    "'d redis_wal \<Rightarrow> (string, worker_info) hashmap \<Rightarrow> ('d, unit result) act" where
  "redis_save_worker_registry W registry =
     bindQ (ret (redis_encode (rw_registry_codec W) registry)) (\<lambda>blob.
     bindQ (query (rd_set (rw_conn W) (registry_key W) blob)) (\<lambda>_. ret (Inr ())))"

definition redis_load_worker_registry ::
    "'d redis_wal \<Rightarrow> ('d, (string, worker_info) hashmap result) act" where
  "redis_load_worker_registry W =
     bindQ (query (rd_get (rw_conn W) (registry_key W))) (\<lambda>blob.
     case blob of
       Some bytes \<Rightarrow> ret (redis_decode (rw_registry_codec W) bytes ''load_worker_registry'')
     | None \<Rightarrow> ret (Inr []))"

definition redis_wal_ops :: "'d redis_wal \<Rightarrow> 'd wal_ops" where
  "redis_wal_ops W =
     \<lparr>wal_append = redis_append W, wal_update_state = (\<lambda>_ _. redis_update_state W),
      wal_replay_pending = redis_replay_pending W, wal_flush = redis_flush,
      wal_schedule = redis_schedule W, wal_fetch_ready = redis_fetch_ready W,
      wal_remove_scheduled = redis_remove_scheduled W,
      wal_save_worker_registry = redis_save_worker_registry W,
      wal_load_worker_registry = redis_load_worker_registry W\<rparr>"


section \<open>The stored state\<close>

abbreviation wview :: "'d redis_wal \<Rightarrow> 'd \<Rightarrow> rkeys" where
  "wview W \<equiv> rd_view (rw_conn W)"

abbreviation delayed :: "'d redis_wal \<Rightarrow> 'd \<Rightarrow> string \<Rightarrow> u8 list option" where
  "delayed W d \<equiv> hash_at (wview W d) (delays_key W)"

abbreviation score_of :: "'d redis_wal \<Rightarrow> 'd \<Rightarrow> string \<Rightarrow> int option" where
  "score_of W d \<equiv> zset_at (wview W d) (delay_index_key W)"

abbreviation stored :: "'d redis_wal \<Rightarrow> 'd \<Rightarrow> string \<Rightarrow> u8 list option" where
  "stored W d \<equiv> hash_at (wview W d) (records_key W)"

definition readable :: "wal_record codec \<Rightarrow> u8 list option \<Rightarrow> wal_record option" where
  "readable c b = (case b of None \<Rightarrow> None | Some b \<Rightarrow> (case cd_dec c b of Inl _ \<Rightarrow> None | Inr r \<Rightarrow> Some r))"

lemma readable_Some: "readable c b = Some r \<longleftrightarrow> (\<exists>b'. b = Some b' \<and> cd_dec c b' = Inr r)"
  by (simp add: readable_def split: option.splits sum.splits)

definition redis_recs :: "'d redis_wal \<Rightarrow> 'd \<Rightarrow> string \<Rightarrow> wal_record option" where
  "redis_recs W d k = readable (rw_codec W) (stored W d k)"

definition redis_dels :: "'d redis_wal \<Rightarrow> 'd \<Rightarrow> string \<Rightarrow> wal_record option" where
  "redis_dels W d k = readable (rw_codec W) (delayed W d k)"

definition redis_due :: "'d redis_wal \<Rightarrow> time \<Rightarrow> wal_record \<Rightarrow> bool" where
  "redis_due W now r \<longleftrightarrow>
     rd_double (rw_conn W) (deliver_at_millis r) \<le> rd_double (rw_conn W) (now_millis now)"

definition keys_typed :: "'d redis_wal \<Rightarrow> 'd \<Rightarrow> bool" where
  "keys_typed W d \<longleftrightarrow> hash_ok (wview W d) (records_key W) \<and> hash_ok (wview W d) (delays_key W) \<and>
     zset_ok (wview W d) (delay_index_key W) \<and> str_ok (wview W d) (registry_key W) \<and>
     int_ok (wview W d) (counter_key W)"

text \<open>Each indexed message has its payload and each payload its entry in the index.\<close>

definition redis_winv :: "'d redis_wal \<Rightarrow> 'd \<Rightarrow> bool" where
  "redis_winv W d \<longleftrightarrow> rd_up (rw_conn W) d \<and> keys_typed W d \<and>
     (\<forall>k b. stored W d k = Some b \<longrightarrow> (\<exists>r. cd_dec (rw_codec W) b = Inr r)) \<and>
     (\<forall>k. delayed W d k = None \<longrightarrow> score_of W d k = None) \<and>
     (\<forall>k b. delayed W d k = Some b \<longrightarrow> (\<exists>r. cd_dec (rw_codec W) b = Inr r \<and>
        msg_id (wr_message r) = k \<and>
        score_of W d k = Some (rd_double (rw_conn W) (deliver_at_millis r))))"

lemma keys_distinct [simp]:
  "records_key W \<noteq> delays_key W" "records_key W \<noteq> delay_index_key W"
  "records_key W \<noteq> registry_key W" "records_key W \<noteq> counter_key W"
  "delays_key W \<noteq> delay_index_key W" "delays_key W \<noteq> registry_key W" "delays_key W \<noteq> counter_key W"
  "delay_index_key W \<noteq> registry_key W" "delay_index_key W \<noteq> counter_key W"
  "registry_key W \<noteq> counter_key W"
  by (simp_all add: records_key_def delays_key_def delay_index_key_def registry_key_def counter_key_def)

lemmas keys_distinct' [simp] = keys_distinct [symmetric]

lemma bind_query: "bindQ (query c) k d =
   (case c d of
      (Ret x, d') \<Rightarrow> (case x of Inl e \<Rightarrow> (Ret (Inl (backend_err e)), d') | Inr y \<Rightarrow> k y d')
    | (Pending, d') \<Rightarrow> (Pending, d') | (Blocked, d') \<Rightarrow> (Blocked, d') | (Panic e, d') \<Rightarrow> (Panic e, d'))"
  by (simp add: bindQ_def query_def bindA_def ret_def split: prod.splits outcome.splits sum.splits)


section \<open>One client\<close>

lemma redis_winvD:
  assumes "redis_winv W d"
  shows "rd_up (rw_conn W) d" "keys_typed W d"
    "stored W d k = Some b \<Longrightarrow> \<exists>r. cd_dec (rw_codec W) b = Inr r"
    "delayed W d k = None \<Longrightarrow> score_of W d k = None"
    "delayed W d k = Some b \<Longrightarrow> \<exists>r. cd_dec (rw_codec W) b = Inr r \<and> msg_id (wr_message r) = k \<and>
        score_of W d k = Some (rd_double (rw_conn W) (deliver_at_millis r))"
  using assms unfolding redis_winv_def by blast+

lemma redis_dels_score:
  assumes "redis_winv W d"
  shows "score_of W d k = map_option (\<lambda>r. rd_double (rw_conn W) (deliver_at_millis r)) (redis_dels W d k)"
proof (cases "delayed W d k")
  case None
  with redis_winvD(4) [OF assms None] show ?thesis by (simp add: redis_dels_def readable_def)
next
  case (Some b)
  with redis_winvD(5) [OF assms Some] show ?thesis by (auto simp: redis_dels_def readable_def)
qed

lemma redis_same_view:
  assumes "wview W d' = wview W d"
  shows "redis_dels W d' = redis_dels W d" "redis_recs W d' = redis_recs W d"
    "rd_up (rw_conn W) d' \<Longrightarrow> redis_winv W d \<Longrightarrow> redis_winv W d'"
proof -
  show "redis_dels W d' = redis_dels W d" "redis_recs W d' = redis_recs W d"
    by (rule ext, simp add: redis_dels_def redis_recs_def assms)+
  show "rd_up (rw_conn W) d' \<Longrightarrow> redis_winv W d \<Longrightarrow> redis_winv W d'"
    by (simp add: redis_winv_def keys_typed_def assms)
qed

text \<open>Taking one indexed message out of the index and of the payloads.\<close>

lemma redis_winv_take:
  assumes "redis_winv W d" and "rd_up (rw_conn W) d'"
    and "wview W d' = put_hash (delays_key W) ((delayed W d)(k := None))
           (put_zset (delay_index_key W) ((score_of W d)(k := None)) (wview W d))"
  shows "redis_winv W d'" and "redis_dels W d' = (redis_dels W d)(k := None)"
    and "redis_recs W d' = redis_recs W d"
proof -
  show "redis_winv W d'" using assms unfolding redis_winv_def keys_typed_def by simp
  show "redis_dels W d' = (redis_dels W d)(k := None)" "redis_recs W d' = redis_recs W d"
    by (rule ext, simp add: redis_dels_def redis_recs_def readable_def assms(3))+
qed

lemma redis_claim_view:
  assumes "redis_laws (rw_conn W)" and "rd_up (rw_conn W) d" and "keys_typed W d"
    and "score_of W d k \<noteq> None" and "delayed W d k = Some b"
  shows "\<exists>d'. redis_claim W k d = (Ret (case cd_dec (rw_codec W) b of
         Inl e \<Rightarrow> Inl (corrupted_err ''fetch_ready'' e) | Inr r \<Rightarrow> Inr [r]), d') \<and>
     rd_up (rw_conn W) d' \<and> wview W d' = put_hash (delays_key W) ((delayed W d)(k := None))
       (put_zset (delay_index_key W) ((score_of W d)(k := None)) (wview W d))"
proof -
  let ?R = "rw_conn W" and ?v = "wview W d"
  obtain d1 where d1: "rd_zrem ?R (delay_index_key W) k d = (Ret (Inr 1), d1)" "rd_up ?R d1"
      "wview W d1 = put_zset (delay_index_key W) ((score_of W d)(k := None)) ?v"
    using command_up [OF zrem_law [OF assms(1)] assms(2), of "delay_index_key W" k] assms(3,4)
    by (auto simp: keys_typed_def)
  obtain d2 where d2: "rd_hget ?R (delays_key W) k d1 = (Ret (Inr (Some b)), d2)" "rd_up ?R d2"
      "wview W d2 = wview W d1"
    using command_up [OF hget_law [OF assms(1)] d1(2), of "delays_key W" k] assms(3,5) d1(3)
    by (auto simp: keys_typed_def)
  obtain n d3 where d3: "rd_hdel ?R (delays_key W) k d2 = (Ret (Inr n), d3)" "rd_up ?R d3"
      "wview W d3 = put_hash (delays_key W) ((delayed W d)(k := None)) (wview W d1)"
    using command_up [OF hdel_law [OF assms(1)] d2(2), of "delays_key W" k] assms(3) d1(3) d2(3)
    by (auto simp: keys_typed_def)
  have "redis_claim W k d = (Ret (case cd_dec (rw_codec W) b of
      Inl e \<Rightarrow> Inl (corrupted_err ''fetch_ready'' e) | Inr r \<Rightarrow> Inr [r]), d3)"
    using d1(1) d2(1) d3(1)
    by (simp add: redis_claim_def bind_query redis_decode_def bindQ_ret_Inr bindQ_ret_Inl ret_app
        split: sum.splits)
  with d1(3) d3(2,3) show ?thesis by auto
qed

lemma redis_claim_taken:
  assumes "redis_laws (rw_conn W)" and "redis_winv W d" and "redis_dels W d k = Some r"
  shows "\<exists>d'. redis_claim W k d = (Ret (Inr [r]), d') \<and> redis_winv W d' \<and>
     redis_dels W d' = (redis_dels W d)(k := None) \<and> redis_recs W d' = redis_recs W d"
proof -
  obtain b where b: "delayed W d k = Some b" "cd_dec (rw_codec W) b = Inr r"
    using assms(3) by (auto simp: redis_dels_def readable_def split: option.splits sum.splits)
  have s: "score_of W d k \<noteq> None" using redis_dels_score [OF assms(2), of k] assms(3) by simp
  from redis_claim_view [OF assms(1) redis_winvD(1,2) [OF assms(2)] s b(1)] b(2)
  obtain d' where d': "redis_claim W k d = (Ret (Inr [r]), d')" "rd_up (rw_conn W) d'"
      "wview W d' = put_hash (delays_key W) ((delayed W d)(k := None))
         (put_zset (delay_index_key W) ((score_of W d)(k := None)) (wview W d))" by auto
  with redis_winv_take [OF assms(2) d'(2,3)] show ?thesis by blast
qed

lemma redis_claim_all_taken:
  assumes "redis_laws (rw_conn W)"
  shows "\<lbrakk>redis_winv W d; distinct ms; \<forall>k \<in> set ms. redis_dels W d k \<noteq> None\<rbrakk> \<Longrightarrow>
    \<exists>d'. redis_claim_all W ms ready d = (Ret (Inr (ready @ map (\<lambda>k. the (redis_dels W d k)) ms)), d') \<and>
      redis_winv W d' \<and> redis_dels W d' = (\<lambda>k. if k \<in> set ms then None else redis_dels W d k) \<and>
      redis_recs W d' = redis_recs W d"
proof (induction ms arbitrary: d ready)
  case Nil
  then show ?case by (auto simp: ret_def)
next
  case (Cons k ms)
  then obtain r where r: "redis_dels W d k = Some r" by auto
  obtain d1 where d1: "redis_claim W k d = (Ret (Inr [r]), d1)" "redis_winv W d1"
      "redis_dels W d1 = (redis_dels W d)(k := None)" "redis_recs W d1 = redis_recs W d"
    using redis_claim_taken [OF assms Cons.prems(1) r] by blast
  have "\<forall>k' \<in> set ms. redis_dels W d1 k' \<noteq> None" using Cons.prems(2,3) d1(3) by auto
  with Cons.IH [OF d1(2), of "ready @ [r]"] Cons.prems(2)
  obtain d2 where d2: "redis_claim_all W ms (ready @ [r]) d1 =
        (Ret (Inr ((ready @ [r]) @ map (\<lambda>k. the (redis_dels W d1 k)) ms)), d2)"
      "redis_winv W d2" "redis_dels W d2 = (\<lambda>k. if k \<in> set ms then None else redis_dels W d1 k)"
      "redis_recs W d2 = redis_recs W d1" by auto
  have "map (\<lambda>k. the (redis_dels W d1 k)) ms = map (\<lambda>k. the (redis_dels W d k)) ms"
    using Cons.prems(2) d1(3) by auto
  with d1 d2 r show ?case by (intro exI [of _ d2]) (auto simp: bindQ_Inr fun_eq_iff)
qed

text \<open>A poll: what is due is handed out in the order of the delivery times, and forgotten.\<close>

lemma redis_poll:
  assumes "redis_laws (rw_conn W)" and "redis_winv W d"
  shows "\<exists>ms d'. redis_fetch_ready W now d = (Ret (Inr (map (\<lambda>k. the (redis_dels W d k)) ms)), d') \<and>
     redis_winv W d' \<and> distinct ms \<and> set ms = {k. \<exists>r. redis_dels W d k = Some r \<and> redis_due W now r} \<and>
     sorted (map (\<lambda>k. the (score_of W d k)) ms) \<and>
     redis_dels W d' = (\<lambda>k. if k \<in> set ms then None else redis_dels W d k) \<and>
     redis_recs W d' = redis_recs W d"
proof -
  let ?R = "rw_conn W"
  have t: "zset_ok (wview W d) (delay_index_key W)" "rd_up ?R d"
    using assms(2) by (simp_all add: redis_winv_def keys_typed_def)
  obtain ms d1 where ms: "rd_zrangebyscore ?R (delay_index_key W) (now_millis now) d = (Ret (Inr ms), d1)"
      "wview W d1 = wview W d" "due_members (score_of W d) (rd_double ?R (now_millis now)) ms" "rd_up ?R d1"
    using command_up [OF zrangebyscore_law [OF assms(1)] t(2), of "delay_index_key W" "now_millis now"] t(1)
    by auto
  have same: "redis_dels W d1 = redis_dels W d" "redis_recs W d1 = redis_recs W d" "redis_winv W d1"
    using redis_same_view [OF ms(2)] assms(2) ms(4) by simp_all
  have set: "set ms = {k. \<exists>r. redis_dels W d k = Some r \<and> redis_due W now r}"
    using ms(3) redis_dels_score [OF assms(2)] by (auto simp: due_members_def redis_due_def)
  have dist: "distinct ms" "sorted (map (\<lambda>k. the (score_of W d k)) ms)"
    using ms(3) by (simp_all add: due_members_def)
  have "\<forall>k \<in> set ms. redis_dels W d k \<noteq> None" using set by auto
  then obtain d2 where "redis_claim_all W ms [] d1 = (Ret (Inr (map (\<lambda>k. the (redis_dels W d k)) ms)), d2)"
      "redis_winv W d2" "redis_dels W d2 = (\<lambda>k. if k \<in> set ms then None else redis_dels W d k)"
      "redis_recs W d2 = redis_recs W d"
    using redis_claim_all_taken [OF assms(1) same(3) dist(1), where ready = "[]"] unfolding same(1,2)
    by auto
  with ms(1) set dist show ?thesis
    by (intro exI [of _ ms] exI [of _ d2]) (simp add: redis_fetch_ready_def bind_query)
qed

lemma redis_dels_key: "redis_winv W d \<Longrightarrow> redis_dels W d k = Some r \<Longrightarrow> msg_id (wr_message r) = k"
  using redis_winvD(5) [of W d k]
  by (auto simp: redis_dels_def readable_def split: option.splits sum.splits)

lemma redis_delay_polls:
  assumes "redis_laws (rw_conn W)"
  shows "delay_polls (redis_wal_ops W) (redis_winv W) (redis_dels W) (redis_due W)"
proof
  fix d now
  assume inv: "redis_winv W d"
  obtain ms d' where p: "redis_fetch_ready W now d = (Ret (Inr (map (\<lambda>k. the (redis_dels W d k)) ms)), d')"
     "redis_winv W d'" "distinct ms" "set ms = {k. \<exists>r. redis_dels W d k = Some r \<and> redis_due W now r}"
     "redis_dels W d' = (\<lambda>k. if k \<in> set ms then None else redis_dels W d k)"
    using redis_poll [OF assms inv, of now] by blast
  have "inj_on (\<lambda>k. the (redis_dels W d k)) (set ms)"
  proof (rule inj_onI)
    fix j k
    assume jk: "j \<in> set ms" "k \<in> set ms" "the (redis_dels W d j) = the (redis_dels W d k)"
    then obtain r r' where "redis_dels W d j = Some r" "redis_dels W d k = Some r'" using p(4) by auto
    with redis_dels_key [OF inv, of j r] redis_dels_key [OF inv, of k r'] jk(3) show "j = k" by simp
  qed
  with p(3) have "distinct (map (\<lambda>k. the (redis_dels W d k)) ms)" by (simp add: distinct_map)
  moreover have "set (map (\<lambda>k. the (redis_dels W d k)) ms) =
      {r. \<exists>k. redis_dels W d k = Some r \<and> redis_due W now r}" using p(4) by force
  moreover have "redis_dels W d' = (\<lambda>k. case redis_dels W d k of None \<Rightarrow> None
      | Some r \<Rightarrow> if redis_due W now r then None else Some r)"
    using p(4,5) by (auto simp: fun_eq_iff split: option.splits)
  ultimately show "\<exists>rs w'. wal_fetch_ready (redis_wal_ops W) now d = (Ret (Inr rs), w') \<and>
      redis_winv W w' \<and> distinct rs \<and> set rs = {r. \<exists>k. redis_dels W d k = Some r \<and> redis_due W now r} \<and>
      redis_dels W w' = (\<lambda>k. case redis_dels W d k of None \<Rightarrow> None
        | Some r \<Rightarrow> if redis_due W now r then None else Some r)"
    using p(1,2) by (intro exI [of _ "map (\<lambda>k. the (redis_dels W d k)) ms"] exI [of _ d'])
      (simp add: redis_wal_ops_def)
qed


text \<open>Writing: the record gets the next number; it is stored if it can be encoded.\<close>

definition writable :: "'d redis_wal \<Rightarrow> wal_record \<Rightarrow> bool" where
  "writable W r \<longleftrightarrow> (\<forall>n. is_ok (cd_enc (rw_codec W) (r\<lparr>record_id := n\<rparr>)))"

lemma writable_bytes:
  assumes "writable W r" and "codec_ok (rw_codec W)"
  shows "\<exists>b. cd_enc (rw_codec W) (r\<lparr>record_id := n\<rparr>) = Inr b \<and> cd_dec (rw_codec W) b = Inr (r\<lparr>record_id := n\<rparr>)"
proof -
  have "is_ok (cd_enc (rw_codec W) (r\<lparr>record_id := n\<rparr>))" using assms(1) by (simp add: writable_def)
  then obtain b where "cd_enc (rw_codec W) (r\<lparr>record_id := n\<rparr>) = Inr b"
    by (cases "cd_enc (rw_codec W) (r\<lparr>record_id := n\<rparr>)") auto
  with assms(2) show ?thesis by (auto simp: codec_ok_def)
qed

lemma next_record_id_up:
  assumes "redis_laws (rw_conn W)" and "redis_winv W d"
    and "int_at (wview W d) (counter_key W) < 2 ^ 63 - 1"
  shows "\<exists>n d'. next_record_id W d = (Ret (Inr n), d') \<and> redis_winv W d' \<and>
     redis_dels W d' = redis_dels W d \<and> redis_recs W d' = redis_recs W d \<and>
     n = word_of_int (max (int_at (wview W d) (counter_key W) + 1) 0)"
proof -
  let ?R = "rw_conn W" and ?k = "counter_key W"
  have t: "int_ok (wview W d) ?k" "rd_up ?R d"
    using assms(2) by (simp_all add: redis_winv_def keys_typed_def)
  obtain n d' where n: "rd_incr ?R ?k d = (Ret (Inr n), d')" "n = int_at (wview W d) ?k + 1"
      "wview W d' = (wview W d)(?k \<mapsto> RInt n)" "rd_up ?R d'"
    using command_up [OF incr_law [OF assms(1)] t(2), of ?k] t(1) assms(3) by blast
  have "redis_winv W d'" using assms(2) n(3,4) by (simp add: redis_winv_def keys_typed_def)
  moreover have "redis_dels W d' = redis_dels W d" "redis_recs W d' = redis_recs W d"
    by (rule ext, simp add: redis_dels_def redis_recs_def n(3))+
  moreover have "next_record_id W d = (Ret (Inr (word_of_int (max n 0))), d')"
    using n(1) by (simp add: next_record_id_def bind_query ret_app)
  ultimately show ?thesis using n(2) by auto
qed

lemma redis_schedule_up:
  assumes "redis_laws (rw_conn W)" and "codec_ok (rw_codec W)" and "redis_winv W d"
    and "int_at (wview W d) (counter_key W) < 2 ^ 63 - 1" and "writable W r"
  shows "\<exists>n d'. redis_schedule W r d = (Ret (Inr ()), d') \<and> redis_winv W d' \<and>
     redis_dels W d' = (redis_dels W d)(msg_id (wr_message r) \<mapsto> r\<lparr>record_id := n\<rparr>) \<and>
     redis_recs W d' = redis_recs W d"
proof -
  let ?R = "rw_conn W" and ?m = "msg_id (wr_message r)"
  obtain n d1 where d1: "next_record_id W d = (Ret (Inr n), d1)" "redis_winv W d1"
      "redis_dels W d1 = redis_dels W d" "redis_recs W d1 = redis_recs W d"
    using next_record_id_up [OF assms(1,3,4)] by blast
  let ?r = "r\<lparr>record_id := n\<rparr>"
  obtain b where b: "cd_enc (rw_codec W) ?r = Inr b" and dec: "cd_dec (rw_codec W) b = Inr ?r"
    using writable_bytes [OF assms(5,2)] by blast
  let ?cs = "schedule_script W ?m b (deliver_at_millis ?r)"
  have up: "rd_up ?R d1" "keys_typed W d1" using d1(2) by (simp_all add: redis_winv_def)
  then have "calls_ok (rd_double ?R) (wview W d1) ?cs" by (simp add: schedule_script_def keys_typed_def)
  then obtain x d2 where d2: "rd_eval ?R ?cs d1 = (Ret (Inr x), d2)" "rd_up ?R d2"
      "wview W d2 = fold (run_call (rd_double ?R)) ?cs (wview W d1)"
    using command_up [OF eval_law [OF assms(1)] up(1), of ?cs] by blast
  have v: "wview W d2 = put_zset (delay_index_key W) ((score_of W d1)(?m \<mapsto> rd_double ?R (deliver_at_millis ?r)))
      (put_hash (delays_key W) ((delayed W d1)(?m \<mapsto> b)) (wview W d1))"
    using d2(3) by (simp add: schedule_script_def)
  have "redis_winv W d2" using d1(2) d2(2) dec by (simp add: redis_winv_def keys_typed_def v)
  moreover have "redis_dels W d2 = (redis_dels W d1)(?m \<mapsto> ?r)" "redis_recs W d2 = redis_recs W d1"
    by (rule ext, simp add: redis_dels_def redis_recs_def readable_def v dec)+
  moreover have "redis_schedule W r d = (Ret (Inr ()), d2)"
    using d2(1) b by (simp add: redis_schedule_def bindQ_Inr [where m = "next_record_id W", OF d1(1)] redis_encode_def bindQ_ret_Inr
        bind_query ret_app)
  ultimately show ?thesis using d1(3,4) by (intro exI [of _ n] exI [of _ d2]) simp
qed


lemma redis_append_up:
  assumes "redis_laws (rw_conn W)" and "codec_ok (rw_codec W)" and "redis_winv W d"
    and "int_at (wview W d) (counter_key W) < 2 ^ 63 - 1" and "writable W r"
  shows "\<exists>d'. redis_append W r d = (Ret (Inr ()), d') \<and> redis_winv W d' \<and>
     redis_recs W d' = (redis_recs W d)(msg_id (wr_message r) \<mapsto>
       r\<lparr>record_id := word_of_int (max (int_at (wview W d) (counter_key W) + 1) 0)\<rparr>) \<and>
     redis_dels W d' = redis_dels W d"
proof -
  let ?R = "rw_conn W" and ?m = "msg_id (wr_message r)"
  obtain n d1 where d1: "next_record_id W d = (Ret (Inr n), d1)" "redis_winv W d1"
      "redis_dels W d1 = redis_dels W d" "redis_recs W d1 = redis_recs W d"
      "n = word_of_int (max (int_at (wview W d) (counter_key W) + 1) 0)"
    using next_record_id_up [OF assms(1,3,4)] by blast
  let ?r = "r\<lparr>record_id := n\<rparr>"
  obtain b where b: "cd_enc (rw_codec W) ?r = Inr b" "cd_dec (rw_codec W) b = Inr ?r"
    using writable_bytes [OF assms(5,2)] by blast
  obtain x d2 where d2: "rd_hset ?R (records_key W) ?m b d1 = (Ret (Inr x), d2)" "rd_up ?R d2"
      "wview W d2 = put_hash (records_key W) ((stored W d1)(?m \<mapsto> b)) (wview W d1)"
    using command_up [OF hset_law [OF assms(1)] redis_winvD(1) [OF d1(2)], of "records_key W" ?m b]
      redis_winvD(2) [OF d1(2)] by (auto simp: keys_typed_def)
  have "redis_winv W d2" using d1(2) d2(2) b(2) by (simp add: redis_winv_def keys_typed_def d2(3))
  moreover have "redis_recs W d2 = (redis_recs W d1)(?m \<mapsto> ?r)" "redis_dels W d2 = redis_dels W d1"
    by (rule ext, simp add: redis_dels_def redis_recs_def readable_def d2(3) b(2))+
  moreover have "redis_append W r d = (Ret (Inr ()), d2)"
    using d2(1) b(1) by (simp add: redis_append_def bindQ_Inr [where m = "next_record_id W", OF d1(1)]
        redis_encode_def bindQ_ret_Inr bind_query ret_app)
  ultimately show ?thesis using d1(3-5) by (intro exI [of _ d2]) simp
qed

lemma redis_update_up:
  assumes "redis_laws (rw_conn W)" and "redis_winv W d"
  shows "redis_recs W d k = None \<Longrightarrow>
      \<exists>d'. redis_update_state W k s d = (Ret (Inl (EWal (RecordNotFound k))), d') \<and> wview W d' = wview W d"
    and "\<lbrakk>codec_ok (rw_codec W); redis_recs W d k = Some r; writable W (r\<lparr>wr_status := s\<rparr>)\<rbrakk> \<Longrightarrow>
      \<exists>d'. redis_update_state W k s d = (Ret (Inr ()), d') \<and> redis_winv W d' \<and>
        redis_recs W d' = (redis_recs W d)(k \<mapsto> r\<lparr>wr_status := s\<rparr>) \<and> redis_dels W d' = redis_dels W d"
proof -
  let ?R = "rw_conn W"
  have t: "hash_ok (wview W d) (records_key W)" "rd_up ?R d"
    using assms(2) by (simp_all add: redis_winv_def keys_typed_def)
  obtain d1 where d1: "rd_hget ?R (records_key W) k d = (Ret (Inr (stored W d k)), d1)"
      "wview W d1 = wview W d" "rd_up ?R d1"
    using command_up [OF hget_law [OF assms(1)] t(2), of "records_key W" k] t(1) by auto
  note up1 = redis_same_view [OF d1(2)]
  show "\<exists>d'. redis_update_state W k s d = (Ret (Inl (EWal (RecordNotFound k))), d') \<and> wview W d' = wview W d"
    if none: "redis_recs W d k = None"
  proof -
    have "stored W d k = None" using none redis_winvD(3) [OF assms(2), of k]
      by (cases "stored W d k") (auto simp: redis_recs_def readable_def split: sum.splits)
    with d1 show ?thesis by (simp add: redis_update_state_def bind_query ret_app)
  qed
  show "\<exists>d'. redis_update_state W k s d = (Ret (Inr ()), d') \<and> redis_winv W d' \<and>
        redis_recs W d' = (redis_recs W d)(k \<mapsto> r\<lparr>wr_status := s\<rparr>) \<and> redis_dels W d' = redis_dels W d"
    if c: "codec_ok (rw_codec W)" and some: "redis_recs W d k = Some r"
      and w: "writable W (r\<lparr>wr_status := s\<rparr>)"
  proof -
    obtain b0 where b0: "stored W d k = Some b0" "cd_dec (rw_codec W) b0 = Inr r"
      using some by (auto simp: redis_recs_def readable_def split: option.splits sum.splits)
    let ?r = "r\<lparr>wr_status := s\<rparr>"
    obtain b where b: "cd_enc (rw_codec W) ?r = Inr b" "cd_dec (rw_codec W) b = Inr ?r"
      using writable_bytes [OF w c, of "record_id r"] by auto
    obtain x d2 where d2: "rd_hset ?R (records_key W) k b d1 = (Ret (Inr x), d2)" "rd_up ?R d2"
        "wview W d2 = put_hash (records_key W) ((stored W d)(k \<mapsto> b)) (wview W d)"
      using command_up [OF hset_law [OF assms(1)] d1(3), of "records_key W" k b] t(1) d1(2) by auto
    have "redis_winv W d2" using assms(2) d2(2) b(2) by (simp add: redis_winv_def keys_typed_def d2(3))
    moreover have "redis_recs W d2 = (redis_recs W d)(k \<mapsto> ?r)" "redis_dels W d2 = redis_dels W d"
      by (rule ext, simp add: redis_dels_def redis_recs_def readable_def d2(3) b(2))+
    moreover have "redis_update_state W k s d = (Ret (Inr ()), d2)"
      using d1(1) d2(1) b b0 by (simp add: redis_update_state_def redis_encode_def redis_decode_def
          bindQ_ret_Inr bind_query ret_app)
    ultimately show ?thesis by blast
  qed
qed

lemma decode_pending_readable:
  assumes "\<forall>(k, b) \<in> set kbs. \<exists>r. cd_dec c b = Inr r"
  shows "\<exists>rs. decode_pending c kbs = Inr rs \<and>
     set rs = {r. \<exists>(k, b) \<in> set kbs. cd_dec c b = Inr r \<and> wr_status r = WPending}"
  using assms
proof (induction kbs)
  case (Cons kb kbs)
  obtain k b where kb: "kb = (k, b)" by (cases kb)
  obtain r where "cd_dec c b = Inr r" using Cons.prems kb by auto
  moreover obtain rs where "decode_pending c kbs = Inr rs"
      "set rs = {r. \<exists>(k, b) \<in> set kbs. cd_dec c b = Inr r \<and> wr_status r = WPending}"
    using Cons by auto
  ultimately show ?case using kb by (auto simp: redis_decode_def)
qed simp

lemma redis_replay_up:
  assumes "redis_laws (rw_conn W)" and "redis_winv W d"
  shows "\<exists>rs d'. redis_replay_pending W d = (Ret (Inr rs), d') \<and> wview W d' = wview W d \<and>
     rd_up (rw_conn W) d' \<and> sorted (map record_id rs) \<and>
     set rs = {r. \<exists>k. redis_recs W d k = Some r \<and> wr_status r = WPending}"
proof -
  let ?R = "rw_conn W"
  have t: "hash_ok (wview W d) (records_key W)" "rd_up ?R d"
    using assms(2) by (simp_all add: redis_winv_def keys_typed_def)
  obtain al d1 where al: "rd_hgetall ?R (records_key W) d = (Ret (Inr al), d1)"
      "wview W d1 = wview W d" "hm_wf al" "map_of al = stored W d" "rd_up ?R d1"
    using command_up [OF hgetall_law [OF assms(1)] t(2), of "records_key W"] t(1) by auto
  have mem: "(k, b) \<in> set al \<longleftrightarrow> stored W d k = Some b" for k b
    unfolding al(4) [symmetric] using al(3) by simp
  have "\<forall>(k, b) \<in> set al. \<exists>r. cd_dec (rw_codec W) b = Inr r"
    using redis_winvD(3) [OF assms(2)] by (auto simp: mem)
  then obtain rs where rs: "decode_pending (rw_codec W) al = Inr rs"
      "set rs = {r. \<exists>(k, b) \<in> set al. cd_dec (rw_codec W) b = Inr r \<and> wr_status r = WPending}"
    using decode_pending_readable by blast
  have "set rs = {r. \<exists>k. redis_recs W d k = Some r \<and> wr_status r = WPending}"
    unfolding rs(2) redis_recs_def readable_Some mem [symmetric] by blast
  moreover have "redis_replay_pending W d = (Ret (Inr (sort_key record_id rs)), d1)"
    using al(1) rs(1) by (simp add: redis_replay_pending_def bind_query bindQ_ret_Inr ret_app)
  ultimately show ?thesis using al(2,5) by (intro exI [of _ "sort_key record_id rs"] exI [of _ d1]) simp
qed


lemma redis_registry_roundtrip:
  assumes "redis_laws (rw_conn W)" and "redis_winv W d"
    and "cd_enc (rw_registry_codec W) g = Inr b" and "cd_dec (rw_registry_codec W) b = Inr g'"
  shows "\<exists>d' d''. redis_save_worker_registry W g d = (Ret (Inr ()), d') \<and>
     redis_load_worker_registry W d' = (Ret (Inr g'), d'') \<and>
     redis_recs W d'' = redis_recs W d \<and> redis_dels W d'' = redis_dels W d"
proof -
  let ?R = "rw_conn W" and ?k = "registry_key W"
  obtain d1 where d1: "rd_set ?R ?k b d = (Ret (Inr ()), d1)" "wview W d1 = (wview W d)(?k \<mapsto> RStr b)"
      "rd_up ?R d1"
    using command_up [OF set_law [OF assms(1)] redis_winvD(1) [OF assms(2)], of ?k b] by auto
  obtain d2 where d2: "rd_get ?R ?k d1 = (Ret (Inr (Some b)), d2)" "wview W d2 = wview W d1"
    using command_up [OF get_law [OF assms(1)] d1(3), of ?k] unfolding d1(2) by auto
  have "redis_recs W d2 = redis_recs W d" "redis_dels W d2 = redis_dels W d"
    by (rule ext, simp add: redis_dels_def redis_recs_def d2(2) d1(2))+
  moreover have "redis_save_worker_registry W g d = (Ret (Inr ()), d1)"
    using d1(1) assms(3)
    by (simp add: redis_save_worker_registry_def redis_encode_def bindQ_ret_Inr bind_query ret_app)
  moreover have "redis_load_worker_registry W d1 = (Ret (Inr g'), d2)"
    using d2(1) assms(4) by (simp add: redis_load_worker_registry_def bind_query redis_decode_def ret_app)
  ultimately show ?thesis by blast
qed


section \<open>When a record is due\<close>

text \<open>Within this many nanoseconds of the epoch a double holds the milliseconds exactly.\<close>

definition exact_horizon :: time where
  "exact_horizon = 2 ^ 53 * 1000000"

lemma millis_i64_exact:
  assumes "int d < exact_horizon"
  shows "millis_i64 d = int d div 1000000" and "\<bar>int d div 1000000\<bar> < 2 ^ 53"
proof -
  show b: "\<bar>int d div 1000000\<bar> < 2 ^ 53" using assms by (simp add: exact_horizon_def)
  have "signed_take_bit 63 (int d div 1000000) = int d div 1000000"
    using b by (intro signed_take_bit_int_eq_self) simp_all
  then show "millis_i64 d = int d div 1000000"
    by (simp add: millis_i64_def sint_sbintrunc' zdiv_int)
qed

lemma now_millis_exact:
  assumes "0 \<le> now" and "now < exact_horizon"
  shows "now_millis now = now div 1000000" and "\<bar>now div 1000000\<bar> < 2 ^ 53"
  using millis_i64_exact [of "nat now"] assms by (simp_all add: now_millis_def)

lemma redis_due_iff:
  assumes "redis_laws (rw_conn W)" and "0 \<le> now" and "now < exact_horizon"
    and "\<And>t. deliver_at (wr_message r) = Some t \<Longrightarrow> t < exact_horizon"
  shows "redis_due W now r \<longleftrightarrow>
     (case deliver_at (wr_message r) of None \<Rightarrow> False | Some t \<Rightarrow> max t 0 div 1000000 \<le> now div 1000000)"
proof -
  let ?R = "rw_conn W"
  note n = now_millis_exact [OF assms(2,3)]
  have dn: "rd_double ?R (now_millis now) = now div 1000000"
    using double_exact [OF assms(1), of "now div 1000000"] n by simp
  show ?thesis
  proof (cases "deliver_at (wr_message r)")
    case None
    have "rd_double ?R (2 ^ 53) \<le> rd_double ?R (2 ^ 63 - 1)"
      by (rule monoD [OF double_mono [OF assms(1)]]) simp
    with double_exact [OF assms(1), of "2 ^ 53"] n(2) dn None show ?thesis
      by (simp add: redis_due_def deliver_at_millis_def)
  next
    case (Some t)
    have m: "deliver_at_millis r = max t 0 div 1000000" "\<bar>max t 0 div 1000000\<bar> \<le> 2 ^ 53"
      using millis_i64_exact [of "nat t"] assms(4) [OF Some] Some
      by (auto simp: deliver_at_millis_def duration_since_def max_def)
    have "rd_double ?R (deliver_at_millis r) = max t 0 div 1000000"
      unfolding m(1) by (rule double_exact [OF assms(1) m(2)])
    with dn Some show ?thesis by (simp add: redis_due_def)
  qed
qed


section \<open>A payload that cannot be read\<close>

lemma redis_claim_keeps_typed:
  assumes "keys_typed W d" and "wview W d' = put_hash (delays_key W) h (put_zset (delay_index_key W) z (wview W d))"
  shows "keys_typed W d'"
  using assms by (simp add: keys_typed_def)

lemma redis_claim_all_corrupt:
  assumes laws: "redis_laws (rw_conn W)"
    and bad: "delayed W d bad = Some b" "cd_dec (rw_codec W) b = Inl e" "score_of W d bad \<noteq> None"
  shows "\<lbrakk>rd_up (rw_conn W) d; keys_typed W d; delayed W d bad = Some b; score_of W d bad \<noteq> None;
      distinct (pre @ [bad]); \<forall>k \<in> set pre. score_of W d k \<noteq> None \<and> redis_dels W d k \<noteq> None\<rbrakk> \<Longrightarrow>
    \<exists>d'. redis_claim_all W (pre @ bad # post) ready d = (Ret (Inl (corrupted_err ''fetch_ready'' e)), d') \<and>
      delayed W d' = (\<lambda>k. if k \<in> set (bad # pre) then None else delayed W d k) \<and>
      score_of W d' = (\<lambda>k. if k \<in> set (bad # pre) then None else score_of W d k)"
proof (induction pre arbitrary: d ready)
  case Nil
  obtain d1 where "redis_claim W bad d = (Ret (Inl (corrupted_err ''fetch_ready'' e)), d1)"
      "wview W d1 = put_hash (delays_key W) ((delayed W d)(bad := None))
       (put_zset (delay_index_key W) ((score_of W d)(bad := None)) (wview W d))"
    using redis_claim_view [OF laws Nil.prems(1,2,4,3)] bad(2) by auto
  then show ?case by (intro exI [of _ d1]) (auto simp: bindQ_def bindA_def ret_def fun_eq_iff)
next
  case (Cons k pre)
  obtain c r where c: "delayed W d k = Some c" "cd_dec (rw_codec W) c = Inr r"
    using Cons.prems(6) by (auto simp: redis_dels_def readable_def split: option.splits sum.splits)
  obtain d1 where d1: "redis_claim W k d = (Ret (Inr [r]), d1)" "rd_up (rw_conn W) d1"
      "wview W d1 = put_hash (delays_key W) ((delayed W d)(k := None))
       (put_zset (delay_index_key W) ((score_of W d)(k := None)) (wview W d))"
    using redis_claim_view [OF laws Cons.prems(1,2) _ c(1)] Cons.prems(6) c(2) by auto
  have ty: "keys_typed W d1" by (rule redis_claim_keeps_typed [OF Cons.prems(2) d1(3)])
  have v: "delayed W d1 = (delayed W d)(k := None)" "score_of W d1 = (score_of W d)(k := None)"
    by (simp_all add: d1(3))
  have "\<forall>j \<in> set pre. score_of W d1 j \<noteq> None \<and> redis_dels W d1 j \<noteq> None"
    using Cons.prems(5,6) by (auto simp: v redis_dels_def)
  with Cons.IH [OF d1(2) ty, of "ready @ [r]"] Cons.prems(3,4,5)
  obtain d2 where "redis_claim_all W (pre @ bad # post) (ready @ [r]) d1 =
        (Ret (Inl (corrupted_err ''fetch_ready'' e)), d2)"
      "delayed W d2 = (\<lambda>j. if j \<in> set (bad # pre) then None else delayed W d1 j)"
      "score_of W d2 = (\<lambda>j. if j \<in> set (bad # pre) then None else score_of W d1 j)"
    by (auto simp: v)
  with d1(1) show ?case by (intro exI [of _ d2]) (auto simp: bindQ_def bindA_def v fun_eq_iff)
qed


section \<open>Types of the keys\<close>

lemma keeps_query [keeps_intros]: "keeps I c \<Longrightarrow> keeps I (query c)"
  unfolding query_def by (intro keeps_intros)

lemma keeps_command:
  assumes "simple_ok R c fit eff" and "\<And>y v v'. eff y v v' \<Longrightarrow> J v \<Longrightarrow> J v'"
  shows "keeps (\<lambda>d. J (rd_view R d)) c"
proof (rule keepsI)
  show "J (rd_view R (snd (c d)))" if "J (rd_view R d)" for d
    using that assms(2) by (cases rule: command_any [OF assms(1), of d]) (auto simp: or_lost_def)
qed

text \<open>Whatever commands fail or lose their answer, the log never changes the type of a key.\<close>

definition typed_view :: "'d redis_wal \<Rightarrow> rkeys \<Rightarrow> bool" where
  "typed_view W v \<longleftrightarrow> hash_ok v (records_key W) \<and> hash_ok v (delays_key W) \<and>
     zset_ok v (delay_index_key W) \<and> str_ok v (registry_key W) \<and> int_ok v (counter_key W)"

lemma keys_typed_view: "keys_typed W = (\<lambda>d. typed_view W (wview W d))"
  by (rule ext) (simp add: keys_typed_def typed_view_def)

lemma typed_put:
  assumes "typed_view W v"
  shows "typed_view W (v(counter_key W \<mapsto> RInt n))" "typed_view W (v(registry_key W \<mapsto> RStr b))"
    "typed_view W (put_hash (records_key W) h v)" "typed_view W (put_hash (delays_key W) h v)"
    "typed_view W (put_zset (delay_index_key W) z v)"
  using assms by (simp_all add: typed_view_def)

lemma typed_commands:
  assumes laws: "redis_laws (rw_conn W)"
  shows "keeps (keys_typed W) (rd_incr (rw_conn W) (counter_key W))"
    "keeps (keys_typed W) (rd_hset (rw_conn W) (records_key W) m b)"
    "keeps (keys_typed W) (rd_hget (rw_conn W) k m)"
    "keeps (keys_typed W) (rd_hgetall (rw_conn W) k)"
    "keeps (keys_typed W) (rd_hdel (rw_conn W) (delays_key W) m)"
    "keeps (keys_typed W) (rd_zrangebyscore (rw_conn W) k mx)"
    "keeps (keys_typed W) (rd_zrem (rw_conn W) (delay_index_key W) m)"
    "keeps (keys_typed W) (rd_set (rw_conn W) (registry_key W) b)"
    "keeps (keys_typed W) (rd_get (rw_conn W) k)"
  unfolding keys_typed_view
  by (rule keeps_command, rule incr_law [OF laws] hset_law [OF laws] hget_law [OF laws]
      hgetall_law [OF laws] hdel_law [OF laws] zrangebyscore_law [OF laws] zrem_law [OF laws]
      set_law [OF laws] get_law [OF laws], (elim conjE)?, hypsubst, (assumption | rule typed_put), assumption?)+

lemma typed_script:
  assumes laws: "redis_laws (rw_conn W)"
  shows "keeps (keys_typed W) (rd_eval (rw_conn W) (schedule_script W m b s))"
proof (rule keepsI)
  fix d
  assume ty: "keys_typed W d"
  let ?cs = "schedule_script W m b s"
  have pre: "typed_view W (fold (run_call (rd_double (rw_conn W))) (take j ?cs) (wview W d))" for j
    using ty by (cases j; cases "j - 1") (auto simp: schedule_script_def keys_typed_view typed_view_def)
  show "keys_typed W (snd (rd_eval (rw_conn W) ?cs d))"
    using pre [of 2] pre
    by (cases rule: command_any [OF eval_law [OF laws], of ?cs d])
      (auto simp: keys_typed_view schedule_script_def)
qed

lemma typed_claim_all:
  assumes laws: "redis_laws (rw_conn W)"
  shows "keeps (keys_typed W) (redis_claim_all W due ready)"
proof (induction due arbitrary: ready)
  case (Cons m due)
  have "keeps (keys_typed W) (redis_claim W m)"
    unfolding redis_claim_def by (intro keeps_intros typed_commands [OF laws])
  then show ?case using Cons.IH by (auto intro!: keeps_bindQ)
qed (simp add: keeps_ret)


section \<open>A concrete log\<close>

text \<open>
  The records that differ from a given one in their number only, coded by as many zero bytes.
\<close>

definition unary_codec :: "wal_record \<Rightarrow> wal_record codec" where
  "unary_codec r0 =
     \<lparr>cd_enc = (\<lambda>r. if r\<lparr>record_id := 0\<rparr> = r0 then Inr (replicate (unat (record_id r)) 0)
                  else Inl ''unsupported''),
      cd_dec = (\<lambda>b. if list_all (\<lambda>x. x = 0) b then Inr (r0\<lparr>record_id := of_nat (length b)\<rparr>)
                  else Inl ''UnexpectedVariant'')\<rparr>"

lemma unary_codec_ok: "codec_ok (unary_codec r0)"
proof -
  have "(r\<lparr>record_id := 0\<rparr>)\<lparr>record_id := record_id r\<rparr> = r" for r :: wal_record by simp
  then show ?thesis by (auto simp: codec_ok_def unary_codec_def list_all_iff)
qed

definition delayed_record :: wal_record where
  "delayed_record = wal_record_from_msg ((emessage_default 1)\<lparr>msg_id := ''a'', deliver_at := Some 5000000\<rparr>)"

definition memory_redis_wal :: "lserver redis_wal" where
  "memory_redis_wal = from_connection_manager (unary_codec delayed_record)
     \<lparr>cd_enc = (\<lambda>_. Inl ''unsupported''), cd_dec = (\<lambda>_. Inr [])\<rparr> memory_redis ''eb''"

text \<open>A server that holds the record, and one that also holds bytes that are no record.\<close>

definition loaded :: lserver where
  "loaded = [(''eb:wal:delays'', LHash [(''a'', [0])]), (''eb:wal:delay_index'', LZset [(''a'', 5)])]"

definition damaged :: lserver where
  "damaged = [(''eb:wal:delays'', LHash [(''a'', [0]), (''b'', [1])]),
     (''eb:wal:delay_index'', LZset [(''a'', 5), (''b'', 6)])]"

lemma memory_redis_wal_simps [simp]:
  "rw_conn memory_redis_wal = memory_redis" "rw_codec memory_redis_wal = unary_codec delayed_record"
  "delays_key memory_redis_wal = ''eb:wal:delays''" "delay_index_key memory_redis_wal = ''eb:wal:delay_index''"
  "records_key memory_redis_wal = ''eb:wal:records''" "registry_key memory_redis_wal = ''eb:wal:registry''"
  "counter_key memory_redis_wal = ''eb:wal:id_counter''"
  by (simp_all add: memory_redis_wal_def from_connection_manager_def delays_key_def delay_index_key_def
      records_key_def registry_key_def counter_key_def)

lemma delayed_record_simps [simp]:
  "msg_id (wr_message delayed_record) = ''a''" "deliver_at (wr_message delayed_record) = Some 5000000"
  "record_id delayed_record = 0"
  by (simp_all add: delayed_record_def wal_record_from_msg_def)

lemmas memory_redis_eval = memory_redis_commands memory_redis_view l_view_def hash_at_def zset_at_def
  int_at_def str_at_def hash_ok_def zset_ok_def str_ok_def int_ok_def

lemma delayed_millis: "deliver_at_millis (delayed_record\<lparr>record_id := n\<rparr>) = 5"
  using millis_i64_exact(1) [of 5000000] by (simp add: deliver_at_millis_def exact_horizon_def)

lemma loaded_winv: "redis_winv memory_redis_wal loaded"
  unfolding redis_winv_def keys_typed_def
  by (auto simp: memory_redis_eval loaded_def unary_codec_def delayed_millis split: if_splits)

lemma empty_winv: "redis_winv memory_redis_wal []"
  by (simp add: redis_winv_def keys_typed_def memory_redis_eval)

lemma now_millis_9: "now_millis 9000000 = 9"
  using now_millis_exact(1) [of 9000000] by (simp add: exact_horizon_def)


section \<open>Properties\<close>



text \<open>Up to the year 287396 the due test of the log in Redis differs from that of the other
  logs by less than a millisecond: what is due there is due here, and nothing is handed out a
  full millisecond early or without a delivery time.\<close>

theorem redis_due_window:
  assumes "redis_laws (rw_conn W)" and "0 \<le> now" and "now < exact_horizon"
    and "\<forall>t. deliver_at (wr_message r) = Some t \<longrightarrow> t < exact_horizon"
  shows "(is_due now r \<longrightarrow> redis_due W now r) \<and>
     (redis_due W now r \<longrightarrow> (\<exists>t. deliver_at (wr_message r) = Some t \<and> t < now + 1000000))"
proof (cases "deliver_at (wr_message r)")
  case None
  then show ?thesis using redis_due_iff [OF assms(1-3), of r] by (simp add: is_due_def)
next
  case (Some t)
  have "redis_due W now r \<longleftrightarrow> max t 0 div 1000000 \<le> now div 1000000"
    using redis_due_iff [OF assms(1-3), of r] assms(4) Some by simp
  moreover have "t \<le> now \<Longrightarrow> max t 0 div 1000000 \<le> now div 1000000"
    using assms(2) by (intro zdiv_mono1) simp_all
  moreover have "max t 0 div 1000000 \<le> now div 1000000 \<Longrightarrow> t < now + 1000000" by linarith
  ultimately show ?thesis using Some by (auto simp: is_due_def)
qed

theorem redis_due_window_witness:
  "redis_due memory_redis_wal 5000000 delayed_record"
  using redis_due_window [of memory_redis_wal 5000000 delayed_record] memory_redis_laws
  by (simp add: exact_horizon_def is_due_def)


text \<open>C39: a delayed message whose payload cannot be decoded takes others with it: the poll that
  meets it answers an error, and the messages it had already claimed are gone from the index
  and from the payloads without having been handed out.\<close>

theorem redis_corrupt_payload_loses_claimed:
  assumes "redis_laws (rw_conn W)" and "rd_up (rw_conn W) d" and "keys_typed W d"
    and "rd_zrangebyscore (rw_conn W) (delay_index_key W) (now_millis now) d = (Ret (Inr (pre @ bad # post)), d)"
    and "\<forall>k \<in> set pre. redis_dels W d k \<noteq> None"
    and "delayed W d bad = Some b" and "cd_dec (rw_codec W) b = Inl e"
  shows "\<exists>d'. redis_fetch_ready W now d = (Ret (Inl (EWal (Corrupted (''fetch_ready: '' @ e)))), d') \<and>
     (\<forall>k \<in> set (bad # pre). delayed W d' k = None \<and> score_of W d' k = None)"
proof -
  have "due_members (score_of W d) (rd_double (rw_conn W) (now_millis now)) (pre @ bad # post)"
    using command_up [OF zrangebyscore_law [OF assms(1)] assms(2), of "delay_index_key W" "now_millis now"]
      assms(3,4) by (auto simp: keys_typed_def)
  then have dist: "distinct (pre @ [bad])" "\<forall>k \<in> set (pre @ [bad]). score_of W d k \<noteq> None"
    by (auto simp: due_members_def)
  then obtain d' where "redis_claim_all W (pre @ bad # post) [] d = (Ret (Inl (corrupted_err ''fetch_ready'' e)), d')"
      "delayed W d' = (\<lambda>k. if k \<in> set (bad # pre) then None else delayed W d k)"
      "score_of W d' = (\<lambda>k. if k \<in> set (bad # pre) then None else score_of W d k)"
    using redis_claim_all_corrupt [OF assms(1,6,7) _ assms(2,3,6), of pre post "[]"] assms(5) by auto
  with assms(4) show ?thesis
    by (intro exI [of _ d']) (simp add: redis_fetch_ready_def bind_query corrupted_err_def)
qed

theorem redis_corrupt_payload_loses_claimed_witness:
  "\<exists>d'. redis_fetch_ready memory_redis_wal 9000000 damaged =
      (Ret (Inl (EWal (Corrupted ''fetch_ready: UnexpectedVariant''))), d') \<and>
     redis_dels memory_redis_wal damaged ''a'' \<noteq> None \<and> delayed memory_redis_wal d' ''a'' = None"
proof -
  let ?W = memory_redis_wal
  have "rd_zrangebyscore memory_redis ''eb:wal:delay_index'' (now_millis 9000000) damaged =
      (Ret (Inr ([''a''] @ ''b'' # [])), damaged)"
    by (simp add: damaged_def now_millis_9 memory_redis_commands in_zset_def l_zset_def l_zrange_def)
  moreover have "keys_typed ?W damaged" by (simp add: keys_typed_def memory_redis_eval damaged_def)
  moreover have a: "redis_dels ?W damaged ''a'' \<noteq> None"
    by (simp add: redis_dels_def readable_def memory_redis_eval damaged_def unary_codec_def)
  moreover have "delayed ?W damaged ''b'' = Some [1]" by (simp add: memory_redis_eval damaged_def)
  moreover have "cd_dec (unary_codec delayed_record) [1] = Inl ''UnexpectedVariant''"
    by (simp add: unary_codec_def)
  ultimately obtain d' where "redis_fetch_ready ?W 9000000 damaged =
      (Ret (Inl (EWal (Corrupted (''fetch_ready: '' @ ''UnexpectedVariant'')))), d')"
      "\<forall>k \<in> set [''b'', ''a'']. delayed ?W d' k = None \<and> score_of ?W d' k = None"
    using redis_corrupt_payload_loses_claimed [of ?W damaged 9000000 "[''a'']" "''b''" "[]" "[1]"
        "''UnexpectedVariant''"] memory_redis_laws by (auto simp: memory_redis_view(2))
  with a show ?thesis by (intro exI [of _ d']) simp
qed



end
