(* ===== verification/Redis_Pollers.thy ===== *)
theory Redis_Pollers
  imports Wal_Redis
begin

text \<open>
  Several clients of one log in Redis (\<^verbatim>\<open>fetch_ready\<close> of \<^verbatim>\<open>event_base_wal/src/redis.rs\<close>). The
  pollers are interleaved command by command in the relation \<open>polling\<close>, with commands that
  fail, pollers that crash and other clients that write; \<open>calm_polling\<close> leaves the failures
  out. A poller run alone takes the steps of \<open>redis_fetch_ready\<close> (\<open>poller_refines_fetch\<close>).

  The invariant counts the places from which a message can still be handed out: the index, or
  a poller that has claimed it.
\<close>

section \<open>Several pollers\<close>

text \<open>
  A call of \<^verbatim>\<open>fetch_ready\<close> between two commands: before the range query; with ids left to
  claim; holding a claimed id; holding the bytes read for it; returned; or gone with its
  process.
\<close>

datatype poller =
    PStart time
  | PNext "string list" "wal_record list"
  | PClaimed string "string list" "wal_record list"
  | PRead "u8 list option" string "string list" "wal_record list"
  | PDone "wal_record list result"
  | PCrashed

definition answered :: "('d, string + 'a) act \<Rightarrow> poller \<Rightarrow> ('a \<Rightarrow> poller) \<Rightarrow> 'd \<Rightarrow> poller \<times> 'd" where
  "answered c p k d = (case c d of
       (Ret (Inr y), d') \<Rightarrow> (k y, d')
     | (Ret (Inl e), d') \<Rightarrow> (PDone (Inl (backend_err e)), d')
     | (_, d') \<Rightarrow> (p, d'))"

definition after_read :: "'d redis_wal \<Rightarrow> u8 list option \<Rightarrow> string list \<Rightarrow> wal_record list \<Rightarrow> poller" where
  "after_read W bytes due ready = (case bytes of
       None \<Rightarrow> PNext due ready
     | Some b \<Rightarrow> (case redis_decode (rw_codec W) b ''fetch_ready'' of
         Inl e \<Rightarrow> PDone (Inl e)
       | Inr r \<Rightarrow> PNext due (ready @ [r])))"

fun poll_step :: "'d redis_wal \<Rightarrow> poller \<Rightarrow> 'd \<Rightarrow> poller \<times> 'd" where
  "poll_step W (PStart now) d =
     answered (rd_zrangebyscore (rw_conn W) (delay_index_key W) (now_millis now)) (PStart now)
       (\<lambda>due. PNext due []) d"
| "poll_step W (PNext [] ready) d = (PDone (Inr ready), d)"
| "poll_step W (PNext (m # due) ready) d =
     answered (rd_zrem (rw_conn W) (delay_index_key W) m) (PNext (m # due) ready)
       (\<lambda>claimed. if claimed = 0 then PNext due ready else PClaimed m due ready) d"
| "poll_step W (PClaimed m due ready) d =
     answered (rd_hget (rw_conn W) (delays_key W) m) (PClaimed m due ready)
       (\<lambda>bytes. PRead bytes m due ready) d"
| "poll_step W (PRead bytes m due ready) d =
     answered (rd_hdel (rw_conn W) (delays_key W) m) (PRead bytes m due ready)
       (\<lambda>_. after_read W bytes due ready) d"
| "poll_step W (PDone x) d = (PDone x, d)"
| "poll_step W PCrashed d = (PCrashed, d)"

fun poll_steps :: "nat \<Rightarrow> 'd redis_wal \<Rightarrow> poller \<Rightarrow> 'd \<Rightarrow> poller \<times> 'd" where
  "poll_steps 0 W p d = (p, d)"
| "poll_steps (Suc n) W p d = (case poll_step W p d of (p', d') \<Rightarrow> poll_steps n W p' d')"

text \<open>
  The system: pollers start, take a step or crash at any time; another client schedules a
  message, cancels one, appends or updates a record. The messages scheduled along the way
  are not the one whose fate is followed.
\<close>

inductive polling :: "'d redis_wal \<Rightarrow> string \<Rightarrow> 'd \<times> poller list \<Rightarrow> 'd \<times> poller list \<Rightarrow> bool"
  for W :: "'d redis_wal" and k :: string where
  spawn: "polling W k (d, ps) (d, ps @ [PStart now])"
| step: "i < length ps \<Longrightarrow> poll_step W (ps ! i) d = (p, d') \<Longrightarrow> polling W k (d, ps) (d', ps[i := p])"
| crash: "i < length ps \<Longrightarrow> polling W k (d, ps) (d, ps[i := PCrashed])"
| schedule: "msg_id (wr_message r) \<noteq> k \<Longrightarrow> redis_schedule W r d = (x, d') \<Longrightarrow> polling W k (d, ps) (d', ps)"
| cancel: "redis_remove_scheduled W m d = (x, d') \<Longrightarrow> polling W k (d, ps) (d', ps)"
| append: "redis_append W r d = (x, d') \<Longrightarrow> polling W k (d, ps) (d', ps)"
| update: "redis_update_state W m s d = (x, d') \<Longrightarrow> polling W k (d, ps) (d', ps)"

text \<open>Who may still hand the message out: the index, or a poller that has claimed it.\<close>

definition of_id :: "string \<Rightarrow> wal_record list \<Rightarrow> nat" where
  "of_id k rs = length (filter (\<lambda>r. msg_id (wr_message r) = k) rs)"

fun holds :: "string \<Rightarrow> poller \<Rightarrow> nat" where
  "holds k (PStart now) = 0"
| "holds k (PNext due ready) = of_id k ready"
| "holds k (PClaimed m due ready) = of_bool (m = k) + of_id k ready"
| "holds k (PRead bytes m due ready) = of_bool (m = k) + of_id k ready"
| "holds k (PDone (Inr rs)) = of_id k rs"
| "holds k (PDone (Inl e)) = 0"
| "holds k PCrashed = 0"

fun handed_out :: "string \<Rightarrow> poller \<Rightarrow> nat" where
  "handed_out k (PDone (Inr rs)) = of_id k rs"
| "handed_out k _ = 0"

definition tokens :: "'d redis_wal \<Rightarrow> string \<Rightarrow> 'd \<Rightarrow> poller list \<Rightarrow> nat" where
  "tokens W k d ps = of_bool (score_of W d k \<noteq> None) + sum_list (map (holds k) ps)"

text \<open>A payload that can be read is the record of its message.\<close>

definition named :: "'d redis_wal \<Rightarrow> string \<Rightarrow> u8 list option \<Rightarrow> bool" where
  "named W m bytes \<longleftrightarrow> (\<forall>r. readable (rw_codec W) bytes = Some r \<longrightarrow> msg_id (wr_message r) = m)"

fun poller_ok :: "'d redis_wal \<Rightarrow> poller \<Rightarrow> bool" where
  "poller_ok W (PRead bytes m due ready) = named W m bytes"
| "poller_ok W _ = True"

definition polling_inv :: "'d redis_wal \<Rightarrow> string \<Rightarrow> 'd \<times> poller list \<Rightarrow> bool" where
  "polling_inv W k = (\<lambda>(d, ps). tokens W k d ps \<le> 1 \<and> (\<forall>m. named W m (delayed W d m)) \<and>
     (\<forall>p \<in> set ps. poller_ok W p))"


lemma readable_None [simp]: "readable c None = None"
  by (simp add: readable_def)

lemma named_None [simp]: "named W m None"
  by (simp add: named_def)

lemma of_id_Nil [simp]: "of_id k [] = 0"
  by (simp add: of_id_def)

lemma of_id_append [simp]: "of_id k (rs @ [r]) = of_id k rs + of_bool (msg_id (wr_message r) = k)"
  by (simp add: of_id_def)

lemma handed_out_le: "handed_out k p \<le> holds k p"
  by (cases "(k, p)" rule: handed_out.cases) auto

lemma after_read_holds:
  assumes "named W m bytes"
  shows "holds k (after_read W bytes due ready) \<le> of_bool (m = k) + of_id k ready"
    and "poller_ok W (after_read W bytes due ready)"
  using assms by (auto simp: after_read_def redis_decode_def named_def readable_def
      split: option.splits sum.splits)

lemma poll_step_tokens:
  assumes laws: "redis_laws (rw_conn W)" and step: "poll_step W p d = (p', d')"
    and nm: "\<And>m. named W m (delayed W d m)" and ok: "poller_ok W p"
  shows "of_bool (score_of W d' k \<noteq> None) + holds k p' \<le> of_bool (score_of W d k \<noteq> None) + holds k p \<and>
     (\<forall>m. named W m (delayed W d' m)) \<and> poller_ok W p'"
proof (cases "(W, p, d)" rule: poll_step.cases)
  case (1 W' now d0)
  then show ?thesis using step nm
    by (cases rule: command_any [OF zrangebyscore_law [OF laws], of "delay_index_key W" "now_millis now" d])
      (auto simp: answered_def or_lost_def)
next
  case (3 W' m due ready d0)
  then show ?thesis using step nm
    by (cases rule: command_any [OF zrem_law [OF laws], of "delay_index_key W" m d])
      (auto simp: answered_def or_lost_def split: if_splits)
next
  case (4 W' m due ready d0)
  then show ?thesis using step nm
    by (cases rule: command_any [OF hget_law [OF laws], of "delays_key W" m d])
      (auto simp: answered_def or_lost_def)
next
  case (5 W' bytes m due ready d0)
  with ok have n: "named W m bytes" by simp
  show ?thesis using 5 step nm after_read_holds(1) [OF n, of k due ready]
      after_read_holds(2) [OF n, of due ready]
    by (cases rule: command_any [OF hdel_law [OF laws], of "delays_key W" m d])
      (auto simp: answered_def or_lost_def)
qed (use step nm in auto)

text \<open>What the other clients do to the delay store.\<close>

abbreviation index_has :: "'d redis_wal \<Rightarrow> string \<Rightarrow> rkeys \<Rightarrow> bool" where
  "index_has W k v \<equiv> zset_at v (delay_index_key W) k \<noteq> None"

text \<open>The message followed does not enter the index, and payloads carry their name.\<close>

definition no_entry :: "'d redis_wal \<Rightarrow> string \<Rightarrow> bool \<Rightarrow> rkeys \<Rightarrow> bool" where
  "no_entry W k b v \<longleftrightarrow> (index_has W k v \<longrightarrow> b) \<and> (\<forall>m. named W m (hash_at v (delays_key W) m))"

lemma no_entry_put [simp]:
  "no_entry W k b v \<Longrightarrow> no_entry W k b (v(counter_key W := x))"
  "no_entry W k b v \<Longrightarrow> no_entry W k b (put_hash (records_key W) h v)"
  "no_entry W k b v \<Longrightarrow> no_entry W k b
     (put_zset (delay_index_key W) ((zset_at v (delay_index_key W))(m := None)) v)"
  "no_entry W k b v \<Longrightarrow> no_entry W k b
     (put_hash (delays_key W) ((hash_at v (delays_key W))(m := None)) v)"
  "no_entry W k b v \<Longrightarrow> named W m (Some c) \<Longrightarrow> no_entry W k b
     (put_hash (delays_key W) ((hash_at v (delays_key W))(m \<mapsto> c)) v)"
  "no_entry W k b v \<Longrightarrow> m \<noteq> k \<Longrightarrow> no_entry W k b
     (put_zset (delay_index_key W) ((zset_at v (delay_index_key W))(m \<mapsto> s)) v)"
  by (auto simp: no_entry_def)

abbreviation followed :: "'d redis_wal \<Rightarrow> string \<Rightarrow> bool \<Rightarrow> 'd \<Rightarrow> bool" where
  "followed W k b \<equiv> \<lambda>d. no_entry W k b (wview W d)"

lemma others_keep:
  assumes laws: "redis_laws (rw_conn W)"
  shows next_record_id_keeps: "keeps (followed W k b) (next_record_id W)"
    and append_keeps: "keeps (followed W k b) (redis_append W r)"
    and update_keeps: "keeps (followed W k b) (redis_update_state W m st)"
    and cancel_keeps: "keeps (followed W k b) (redis_remove_scheduled W m)"
proof -
  have hset: "keeps (followed W k b) (rd_hset (rw_conn W) (records_key W) j blob)" for j blob
    by (rule keeps_command [OF hset_law [OF laws]]) simp
  have hget: "keeps (followed W k b) (rd_hget (rw_conn W) (records_key W) j)" for j
    by (rule keeps_command [OF hget_law [OF laws]]) simp
  have hdel: "keeps (followed W k b) (rd_hdel (rw_conn W) (delays_key W) j)" for j
    by (rule keeps_command [OF hdel_law [OF laws]]) simp
  have zrem: "keeps (followed W k b) (rd_zrem (rw_conn W) (delay_index_key W) j)" for j
    by (rule keeps_command [OF zrem_law [OF laws]]) simp
  have "keeps (followed W k b) (rd_incr (rw_conn W) (counter_key W))"
    by (rule keeps_command [OF incr_law [OF laws]]) (elim conjE, hypsubst, rule no_entry_put(1))
  then show n: "keeps (followed W k b) (next_record_id W)"
    unfolding next_record_id_def by (intro keeps_intros)
  show "keeps (followed W k b) (redis_append W r)" "keeps (followed W k b) (redis_update_state W m st)"
    "keeps (followed W k b) (redis_remove_scheduled W m)"
    unfolding redis_append_def redis_update_state_def redis_remove_scheduled_def Let_def
    by (intro keeps_intros n hset hget hdel zrem)+
qed

lemma schedule_keeps:
  assumes laws: "redis_laws (rw_conn W)" and codec: "codec_ok (rw_codec W)"
    and other: "msg_id (wr_message r) \<noteq> k"
  shows "keeps (followed W k b) (redis_schedule W r)"
proof -
  let ?i = "msg_id (wr_message r)" and ?dbl = "rd_double (rw_conn W)"
  have script: "keeps (followed W k b)
      (rd_eval (rw_conn W) (schedule_script W ?i blob score))" if nm: "named W ?i (Some blob)" for blob score
  proof (rule keepsI)
    fix d
    assume inv: "no_entry W k b (wview W d)"
    let ?cs = "schedule_script W ?i blob score"
    have pre: "no_entry W k b (fold (run_call ?dbl) (take j ?cs) (wview W d))" for j
      using inv nm other by (cases j; cases "j - 1") (auto simp: schedule_script_def no_entry_def)
    show "no_entry W k b (wview W (snd (rd_eval (rw_conn W) ?cs d)))"
      using pre [of 2] pre
      by (cases rule: command_any [OF eval_law [OF laws], of ?cs d]) (auto simp: schedule_script_def)
  qed
  have "keeps (followed W k b) (bindQ (ret (redis_encode (rw_codec W) (r\<lparr>record_id := n\<rparr>)))
      (\<lambda>blob. bindQ (query (rd_eval (rw_conn W) (schedule_script W ?i blob score))) (\<lambda>_. ret (Inr ()))))"
    for n score
  proof (cases "cd_enc (rw_codec W) (r\<lparr>record_id := n\<rparr>)")
    case (Inl e)
    then show ?thesis by (simp add: redis_encode_def bindQ_ret_Inl keeps_ret)
  next
    case (Inr blob)
    then have "named W ?i (Some blob)" using codec by (auto simp: codec_ok_def named_def readable_def)
    with Inr show ?thesis
      by (simp add: redis_encode_def bindQ_ret_Inr) (intro keeps_intros script)
  qed
  then have body: "keeps (followed W k b) (let r = r\<lparr>record_id := n\<rparr> in
      bindQ (ret (redis_encode (rw_codec W) r)) (\<lambda>blob. bindQ (query (rd_eval (rw_conn W)
        (schedule_script W (msg_id (wr_message r)) blob (deliver_at_millis r)))) (\<lambda>_. ret (Inr ()))))" for n
    by (simp add: Let_def)
  show ?thesis unfolding redis_schedule_def
    by (rule keeps_bindQ [OF next_record_id_keeps [OF laws] body])
qed


lemma sum_list_holds_update:
  assumes "i < length ps"
  shows "sum_list (map (holds k) (ps[i := p])) + holds k (ps ! i) = sum_list (map (holds k) ps) + holds k p"
proof -
  have "holds k (ps ! i) \<le> sum_list (map (holds k) ps)"
    using assms by (intro member_le_sum_list) simp_all
  then show ?thesis using assms by (simp add: map_update sum_list_update)
qed

lemma polling_inv_step:
  assumes laws: "redis_laws (rw_conn W)" and codec: "codec_ok (rw_codec W)"
    and "polling W k (d, ps) (d', ps')" and inv: "polling_inv W k (d, ps)"
  shows "polling_inv W k (d', ps')"
proof -
  have inv': "tokens W k d ps \<le> 1" "\<And>m. named W m (delayed W d m)" "\<forall>p \<in> set ps. poller_ok W p"
    using inv by (simp_all add: polling_inv_def)
  then have e: "no_entry W k (score_of W d k \<noteq> None) (wview W d)" by (simp add: no_entry_def)
  have others: "polling_inv W k (d'', ps)" if "no_entry W k (score_of W d k \<noteq> None) (wview W d'')" for d''
    using inv' that by (auto simp: polling_inv_def no_entry_def tokens_def of_bool_def split: if_splits)
  from assms(3) show ?thesis
  proof (cases rule: polling.cases)
    case (spawn now)
    with inv show ?thesis by (auto simp: polling_inv_def tokens_def)
  next
    case (step i p)
    have pi: "poller_ok W (ps ! i)" using inv'(3) step(2) by simp
    note t = poll_step_tokens [OF laws step(3) inv'(2) pi, of k]
    have "tokens W k d' ps' \<le> tokens W k d ps"
      using conjunct1 [OF t] sum_list_holds_update [OF step(2), of k p] unfolding step(1) tokens_def
      by linarith
    with inv' t step(1,2) show ?thesis
      by (auto simp: polling_inv_def dest!: set_update_subset_insert [THEN subsetD])
  next
    case (crash i)
    have "tokens W k d' ps' \<le> tokens W k d ps"
      using sum_list_holds_update [OF crash(3), of k PCrashed] unfolding crash(1,2) tokens_def by simp
    with inv' crash show ?thesis
      by (auto simp: polling_inv_def dest!: set_update_subset_insert [THEN subsetD])
  next
    case (schedule r x)
    with keepsD [OF schedule_keeps [OF laws codec schedule(2)] e] others [of d'] show ?thesis by simp
  next
    case (cancel m x)
    with keepsD [OF cancel_keeps [OF laws] e, of m] others [of d'] show ?thesis by simp
  next
    case (append r x)
    with keepsD [OF append_keeps [OF laws] e, of r] others [of d'] show ?thesis by simp
  next
    case (update m s x)
    with keepsD [OF update_keeps [OF laws] e, of m s] others [of d'] show ?thesis by simp
  qed
qed

lemma polling_inv_run:
  assumes "redis_laws (rw_conn W)" and "codec_ok (rw_codec W)"
    and "(polling W k)\<^sup>*\<^sup>* s t" and "polling_inv W k s"
  shows "polling_inv W k t"
  using assms(3,4)
proof (induction rule: rtranclp_induct)
  case (step t u)
  then show ?case using polling_inv_step [OF assms(1,2), of k "fst t" "snd t" "fst u" "snd u"] by simp
qed


text \<open>A poller left alone takes the steps of \<^verbatim>\<open>fetch_ready\<close>.\<close>

definition reaches :: "'d redis_wal \<Rightarrow> poller \<Rightarrow> 'd \<Rightarrow> poller \<Rightarrow> 'd \<Rightarrow> bool" where
  "reaches W p d p' d' \<longleftrightarrow> (\<exists>n. poll_steps n W p d = (p', d'))"

lemma reaches_refl [simp]: "reaches W p d p d"
  unfolding reaches_def by (rule exI [of _ 0]) simp

lemma reaches_step: "poll_step W p d = (q, e) \<Longrightarrow> reaches W q e p' d' \<Longrightarrow> reaches W p d p' d'"
  unfolding reaches_def by (metis case_prod_conv poll_steps.simps(2))

lemma poll_steps_add:
  "poll_steps (n + j) W p d = (case poll_steps n W p d of (q, e) \<Rightarrow> poll_steps j W q e)"
  by (induction n arbitrary: p d) (auto split: prod.splits)

lemma reaches_trans: "reaches W p d q e \<Longrightarrow> reaches W q e p' d' \<Longrightarrow> reaches W p d p' d'"
  unfolding reaches_def by (metis case_prod_conv poll_steps_add)

lemma reaches_claimed:
  assumes laws: "redis_laws (rw_conn W)"
    and zr: "rd_zrem (rw_conn W) (delay_index_key W) m d = (Ret (Inr n), d1)" "n \<noteq> 0"
  shows "\<exists>y e. redis_claim W m d = (Ret y, e) \<and> reaches W (PClaimed m due ready) d1
     (case y of Inl x \<Rightarrow> PDone (Inl x) | Inr rs \<Rightarrow> PNext due (ready @ rs)) e"
proof (cases rule: command_any [OF hget_law [OF laws], of "delays_key W" m d1])
  case (1 bytes d2)
  note hg = 1
  show ?thesis
  proof (cases rule: command_any [OF hdel_law [OF laws], of "delays_key W" m d2])
    case (1 j d3)
    have "reaches W (PClaimed m due ready) d1 (after_read W bytes due ready) d3"
      unfolding reaches_def by (rule exI [of _ 2]) (simp add: hg(1) 1(1) answered_def numeral_2_eq_2)
    then show ?thesis using zr hg(1) 1(1)
      by (auto simp: redis_claim_def bind_query bindQ_def bindA_def ret_def query_def after_read_def
          split: option.splits sum.splits)
  next
    case (2 e d3)
    have "reaches W (PClaimed m due ready) d1 (PDone (Inl (backend_err e))) d3"
      unfolding reaches_def by (rule exI [of _ 2]) (simp add: hg(1) 2(1) answered_def numeral_2_eq_2)
    then show ?thesis using zr hg(1) 2(1) by (auto simp: redis_claim_def bind_query)
  qed
next
  case (2 e d2)
  have "reaches W (PClaimed m due ready) d1 (PDone (Inl (backend_err e))) d2"
    unfolding reaches_def by (rule exI [of _ "Suc 0"]) (simp add: 2(1) answered_def)
  then show ?thesis using zr 2(1) by (auto simp: redis_claim_def bind_query)
qed

lemma reaches_claim:
  assumes laws: "redis_laws (rw_conn W)"
  shows "\<exists>y e. redis_claim W m d = (Ret y, e) \<and> reaches W (PNext (m # due) ready) d
     (case y of Inl x \<Rightarrow> PDone (Inl x) | Inr rs \<Rightarrow> PNext due (ready @ rs)) e"
proof (cases rule: command_any [OF zrem_law [OF laws], of "delay_index_key W" m d])
  case (1 n d1)
  then have first: "poll_step W (PNext (m # due) ready) d =
      (if n = 0 then PNext due ready else PClaimed m due ready, d1)" by (simp add: answered_def)
  show ?thesis
  proof (cases "n = 0")
    case True
    then have "redis_claim W m d = (Ret (Inr []), d1)"
      using 1(1) by (simp add: redis_claim_def bind_query ret_app)
    with first True show ?thesis by (auto intro: reaches_step)
  next
    case False
    with first have "poll_step W (PNext (m # due) ready) d = (PClaimed m due ready, d1)" by simp
    with reaches_claimed [OF laws 1(1) False, of due ready] show ?thesis by (blast intro: reaches_step)
  qed
next
  case (2 e d1)
  then have "poll_step W (PNext (m # due) ready) d = (PDone (Inl (backend_err e)), d1)"
    by (simp add: answered_def)
  with 2(1) show ?thesis by (auto simp: redis_claim_def bind_query intro: reaches_step)
qed

lemma reaches_claim_all:
  assumes laws: "redis_laws (rw_conn W)"
  shows "\<exists>x d'. redis_claim_all W due ready d = (Ret x, d') \<and> reaches W (PNext due ready) d (PDone x) d'"
proof (induction due arbitrary: ready d)
  case Nil
  show ?case by (auto simp: ret_def intro: reaches_step [where p = "PNext [] ready"])
next
  case (Cons m due)
  obtain y e where y: "redis_claim W m d = (Ret y, e)" "reaches W (PNext (m # due) ready) d
     (case y of Inl x \<Rightarrow> PDone (Inl x) | Inr rs \<Rightarrow> PNext due (ready @ rs)) e"
    using reaches_claim [OF laws] by blast
  show ?case
  proof (cases y)
    case (Inl x)
    with y show ?thesis by (auto simp: bindQ_def bindA_def ret_def)
  next
    case (Inr rs)
    obtain x d' where "redis_claim_all W due (ready @ rs) e = (Ret x, d')"
        "reaches W (PNext due (ready @ rs)) e (PDone x) d'"
      using Cons.IH [of "ready @ rs" e] by blast
    with y Inr show ?thesis by (auto simp: bindQ_def bindA_def intro: reaches_trans)
  qed
qed

lemma poller_refines_fetch:
  assumes laws: "redis_laws (rw_conn W)"
  shows "\<exists>x d' n. redis_fetch_ready W now d = (Ret x, d') \<and> poll_steps n W (PStart now) d = (PDone x, d')"
proof (cases rule: command_any [OF zrangebyscore_law [OF laws], of "delay_index_key W" "now_millis now" d])
  case (1 due d1)
  then have "poll_step W (PStart now) d = (PNext due [], d1)" by (simp add: answered_def)
  moreover obtain x d' where "redis_claim_all W due [] d1 = (Ret x, d')"
      "reaches W (PNext due []) d1 (PDone x) d'" using reaches_claim_all [OF laws] by blast
  ultimately have "reaches W (PStart now) d (PDone x) d'" "redis_fetch_ready W now d = (Ret x, d')"
    using 1(1) by (auto intro: reaches_step simp: redis_fetch_ready_def bind_query)
  then show ?thesis by (auto simp: reaches_def)
next
  case (2 e d1)
  then have "poll_steps (Suc 0) W (PStart now) d = (PDone (Inl (backend_err e)), d1)"
    by (simp add: answered_def)
  moreover have "redis_fetch_ready W now d = (Ret (Inl (backend_err e)), d1)"
    using 2(1) by (simp add: redis_fetch_ready_def bind_query)
  ultimately show ?thesis by blast
qed



text \<open>Without failures: the server stays up and no poller crashes.\<close>

inductive calm_polling :: "'d redis_wal \<Rightarrow> 'd \<times> poller list \<Rightarrow> 'd \<times> poller list \<Rightarrow> bool"
  for W :: "'d redis_wal" where
  calm_spawn: "calm_polling W (d, ps) (d, ps @ [PStart now])"
| calm_step: "i < length ps \<Longrightarrow> poll_step W (ps ! i) d = (p, d') \<Longrightarrow> calm_polling W (d, ps) (d', ps[i := p])"

definition whole :: "'d redis_wal \<Rightarrow> string \<Rightarrow> u8 list option \<Rightarrow> bool" where
  "whole W m bytes \<longleftrightarrow> (\<exists>r. readable (rw_codec W) bytes = Some r \<and> msg_id (wr_message r) = m)"

fun sound :: "'d redis_wal \<Rightarrow> 'd \<Rightarrow> poller \<Rightarrow> bool" where
  "sound W d (PClaimed m due ready) = whole W m (delayed W d m)"
| "sound W d (PRead bytes m due ready) = whole W m bytes"
| "sound W d (PDone x) = is_ok x"
| "sound W d PCrashed = False"
| "sound W d _ = True"

definition calm_inv :: "'d redis_wal \<Rightarrow> 'd \<times> poller list \<Rightarrow> bool" where
  "calm_inv W = (\<lambda>(d, ps). rd_up (rw_conn W) d \<and> keys_typed W d \<and>
     (\<forall>m. tokens W m d ps \<le> 1) \<and> (\<forall>m. score_of W d m \<noteq> None \<longrightarrow> whole W m (delayed W d m)) \<and>
     (\<forall>p \<in> set ps. sound W d p))"

text \<open>One step of a poller: what it holds comes from the index, and back out as a record.\<close>

lemma calm_poll_step:
  assumes laws: "redis_laws (rw_conn W)" and step: "poll_step W p d = (p', d')"
    and up: "rd_up (rw_conn W) d" and typed: "keys_typed W d" and ok: "sound W d p"
    and whole: "\<And>m. score_of W d m \<noteq> None \<Longrightarrow> whole W m (delayed W d m)"
  shows "rd_up (rw_conn W) d' \<and> keys_typed W d' \<and> sound W d' p' \<and>
     (\<forall>m. of_bool (score_of W d' m \<noteq> None) + holds m p' = of_bool (score_of W d m \<noteq> None) + holds m p) \<and>
     (\<forall>m. holds m p = 0 \<longrightarrow> delayed W d' m = delayed W d m) \<and>
     (\<forall>m. score_of W d' m \<noteq> None \<longrightarrow> score_of W d m \<noteq> None)"
proof (cases "(W, p, d)" rule: poll_step.cases)
  case (1 W' now d0)
  then show ?thesis using step up typed
      command_up [OF zrangebyscore_law [OF laws] up, of "delay_index_key W" "now_millis now"]
    by (auto simp: answered_def keys_typed_def)
next
  case (3 W' m due ready d0)
  have "zset_ok (wview W d) (delay_index_key W)" using typed by (simp add: keys_typed_def)
  then obtain d1 where d1: "rd_zrem (rw_conn W) (delay_index_key W) m d =
        (Ret (Inr (if score_of W d m = None then 0 else 1)), d1)"
      "wview W d1 = put_zset (delay_index_key W) ((score_of W d)(m := None)) (wview W d)"
      "rd_up (rw_conn W) d1"
    using command_up [OF zrem_law [OF laws] up, of "delay_index_key W" m] by auto
  with 3 step have "d' = d1"
      "p' = (if score_of W d m = None then PNext due ready else PClaimed m due ready)"
    by (auto simp: answered_def)
  with d1 3 typed whole [of m] show ?thesis by (auto simp: keys_typed_def)
next
  case (4 W' m due ready d0)
  have "hash_ok (wview W d) (delays_key W)" using typed by (simp add: keys_typed_def)
  then obtain d1 where d1: "rd_hget (rw_conn W) (delays_key W) m d = (Ret (Inr (delayed W d m)), d1)"
      "wview W d1 = wview W d" "rd_up (rw_conn W) d1"
    using command_up [OF hget_law [OF laws] up, of "delays_key W" m] by auto
  with 4 step have "d' = d1" "p' = PRead (delayed W d m) m due ready" by (auto simp: answered_def)
  with d1 4 typed ok show ?thesis by (auto simp: keys_typed_def)
next
  case (5 W' bytes m due ready d0)
  have "hash_ok (wview W d) (delays_key W)" using typed by (simp add: keys_typed_def)
  then obtain x d1 where d1: "rd_hdel (rw_conn W) (delays_key W) m d = (Ret (Inr x), d1)"
      "wview W d1 = put_hash (delays_key W) ((delayed W d)(m := None)) (wview W d)" "rd_up (rw_conn W) d1"
    using command_up [OF hdel_law [OF laws] up, of "delays_key W" m] by auto
  obtain b r where r: "bytes = Some b" "cd_dec (rw_codec W) b = Inr r" "msg_id (wr_message r) = m"
    using 5 ok by (auto simp: whole_def readable_Some)
  from 5 step d1(1) have "d' = d1" "p' = after_read W bytes due ready" by (auto simp: answered_def)
  with r have "d' = d1" "p' = PNext due (ready @ [r])" by (simp_all add: after_read_def redis_decode_def)
  with d1 5 typed r(3) show ?thesis by (auto simp: keys_typed_def)
qed (use step up typed ok in auto)


lemma two_holders:
  assumes "i < length ps" and "j < length ps" and "i \<noteq> j"
  shows "holds m (ps ! i) + holds m (ps ! j) \<le> sum_list (map (holds m) ps)"
proof -
  have "ps ! j \<in> set (ps[i := PCrashed])"
    using assms by (metis length_list_update nth_list_update_neq nth_mem)
  then have "holds m (ps ! j) \<le> sum_list (map (holds m) (ps[i := PCrashed]))"
    by (intro member_le_sum_list) simp_all
  with sum_list_holds_update [OF assms(1), of m PCrashed] show ?thesis by simp
qed

lemma sound_frame:
  "sound W d p \<Longrightarrow> (\<And>m. holds m p \<noteq> 0 \<Longrightarrow> delayed W d' m = delayed W d m) \<Longrightarrow> sound W d' p"
  by (cases "(W, d, p)" rule: sound.cases) auto

lemma calm_inv_step:
  assumes laws: "redis_laws (rw_conn W)" and "calm_polling W (d, ps) (d', ps')" and inv: "calm_inv W (d, ps)"
  shows "calm_inv W (d', ps') \<and> (\<forall>m. tokens W m d' ps' = tokens W m d ps)"
  using assms(2)
proof (cases rule: calm_polling.cases)
  case (calm_spawn now)
  with inv show ?thesis by (auto simp: calm_inv_def tokens_def)
next
  case (calm_step i p)
  have inv': "rd_up (rw_conn W) d" "keys_typed W d" "\<And>m. tokens W m d ps \<le> 1"
      "\<And>m. score_of W d m \<noteq> None \<Longrightarrow> whole W m (delayed W d m)" "\<forall>p \<in> set ps. sound W d p"
    using inv by (simp_all add: calm_inv_def)
  have "sound W d (ps ! i)" using inv'(5) calm_step(2) by simp
  note st = calm_poll_step [OF laws calm_step(3) inv'(1,2) this inv'(4)]
  have keep: "of_bool (score_of W d' m \<noteq> None) + holds m p =
      of_bool (score_of W d m \<noteq> None) + holds m (ps ! i)" for m using st by blast
  have tok: "tokens W m d' ps' = tokens W m d ps" for m
    using keep [of m] sum_list_holds_update [OF calm_step(2), of m p]
    unfolding calm_step(1) tokens_def by linarith
  have same: "delayed W d' m = delayed W d m" if "holds m (ps ! i) = 0" for m using st that by blast
  have "sound W d' q" if q: "q \<in> set ps'" for q
  proof -
    obtain j where j: "j < length ps" "q = ps' ! j" using q calm_step(1) by (auto simp: in_set_conv_nth)
    show ?thesis
    proof (cases "j = i")
      case True
      with j calm_step(1) st show ?thesis by simp
    next
      case False
      then have qj: "q = ps ! j" using j calm_step(1) by simp
      have "holds m (ps ! i) = 0" if "holds m q \<noteq> 0" for m
        using two_holders [OF calm_step(2) j(1), of m] False that inv'(3) [of m] qj
        by (simp add: tokens_def)
      with same sound_frame [of W d q d'] inv'(5) qj j(1) show ?thesis by simp
    qed
  qed
  moreover have "whole W m (delayed W d' m)" if s: "score_of W d' m \<noteq> None" for m
  proof -
    have sd: "score_of W d m \<noteq> None" using st s by blast
    then have "holds m (ps ! i) = 0"
      using inv'(3) [of m] calm_step(2) by (simp add: tokens_def)
    with same inv'(4) [OF sd] show ?thesis by simp
  qed
  ultimately show ?thesis using st inv'(3) by (simp add: calm_inv_def tok)
qed

lemma calm_inv_run:
  assumes "redis_laws (rw_conn W)" and "(calm_polling W)\<^sup>*\<^sup>* s t" and "calm_inv W s"
  shows "calm_inv W t \<and> tokens W m (fst t) (snd t) = tokens W m (fst s) (snd s)"
  using assms(2)
proof (induction rule: rtranclp_induct)
  case (step t u)
  obtain d ps d' ps' where tu: "t = (d, ps)" "u = (d', ps')" by (cases t, cases u)
  with step calm_inv_step [OF assms(1), of d ps d' ps'] show ?case by auto
qed (simp add: assms(3))

lemma calm_inv_start:
  assumes "redis_winv W d"
  shows "calm_inv W (d, [])"
proof -
  have "whole W m (delayed W d m)" if s: "score_of W d m \<noteq> None" for m
  proof -
    obtain b where b: "delayed W d m = Some b"
      using redis_winvD(4) [OF assms, of m] s by (cases "delayed W d m") simp_all
    obtain r where "cd_dec (rw_codec W) b = Inr r" "msg_id (wr_message r) = m"
      using redis_winvD(5) [OF assms b] by blast
    with b show ?thesis by (simp add: whole_def readable_Some)
  qed
  moreover have "tokens W m d [] \<le> 1" for m by (simp add: tokens_def)
  ultimately show ?thesis using redis_winvD(1,2) [OF assms] unfolding calm_inv_def by simp
qed


section \<open>Properties\<close>

text \<open>C16: however many pollers share the log in Redis and however their commands interleave,
  with commands that fail or lose their answer, pollers that crash and other clients that
  write, a message that is not scheduled again is handed out at most once.\<close>

theorem redis_pollers_never_twice:
  assumes "redis_laws (rw_conn W)" and "codec_ok (rw_codec W)"
    and "\<forall>m. named W m (delayed W d m)" and "(polling W k)\<^sup>*\<^sup>* (d, []) (d', ps)"
  shows "sum_list (map (handed_out k) ps) \<le> 1"
proof -
  have "polling_inv W k (d, [])" using assms(3) by (simp add: polling_inv_def tokens_def)
  then have "tokens W k d' ps \<le> 1"
    using polling_inv_run [OF assms(1,2,4)] by (simp add: polling_inv_def)
  moreover have "sum_list (map (handed_out k) ps) \<le> sum_list (map (holds k) ps)"
    by (rule sum_list_mono) (rule handed_out_le)
  ultimately show ?thesis by (simp add: tokens_def)
qed

lemma calm_polling_steps:
  assumes "i < length ps" and "poll_steps n W (ps ! i) d = (p, d')"
  shows "(calm_polling W)\<^sup>*\<^sup>* (d, ps) (d', ps[i := p])"
  using assms
proof (induction n arbitrary: d ps)
  case (Suc n)
  obtain q e where q: "poll_step W (ps ! i) d = (q, e)" by (cases "poll_step W (ps ! i) d")
  with Suc.prems have "poll_steps n W (ps[i := q] ! i) e = (p, d')" by simp
  with Suc.IH [of "ps[i := q]" e] Suc.prems(1) have "(calm_polling W)\<^sup>*\<^sup>* (e, ps[i := q]) (d', ps[i := p])" by simp
  with calm_polling.calm_step [OF Suc.prems(1) q] show ?case by (rule converse_rtranclp_into_rtranclp)
qed (auto simp: list_update_same_conv)

lemma calm_polling_polling: "(calm_polling W)\<^sup>*\<^sup>* s t \<Longrightarrow> (polling W k)\<^sup>*\<^sup>* s t"
  by (rule rtranclp_mono [THEN predicate2D]) (auto elim!: calm_polling.cases intro: polling.intros)

text \<open>Two pollers on the server that holds the record: one gets it, the other nothing.\<close>

lemma first_poller:
  "poll_steps 5 memory_redis_wal (PStart 9000000) loaded =
     (PDone (Inr [delayed_record\<lparr>record_id := 1\<rparr>]), [])"
  by (simp add: numeral_eq_Suc loaded_def now_millis_9 answered_def memory_redis_commands in_zset_def
      in_hash_def change_zset_def change_hash_def l_zset_def l_hash_def l_put_zset_def l_put_hash_def
      l_zrange_def after_read_def redis_decode_def unary_codec_def)

lemma second_poller:
  "poll_steps 2 memory_redis_wal (PStart 9000000) [] = (PDone (Inr []), [])"
  by (simp add: numeral_eq_Suc now_millis_9 answered_def memory_redis_commands in_zset_def
      l_zset_def l_zrange_def)

lemma two_pollers:
  "(calm_polling memory_redis_wal)\<^sup>*\<^sup>* (loaded, [])
     ([], [PDone (Inr [delayed_record\<lparr>record_id := 1\<rparr>]), PDone (Inr [])])"
proof -
  let ?W = memory_redis_wal and ?r = "delayed_record\<lparr>record_id := 1\<rparr>"
  have "calm_polling ?W (loaded, []) (loaded, [PStart 9000000])"
    using calm_polling.calm_spawn [of ?W loaded "[]" 9000000] by simp
  moreover have "calm_polling ?W (loaded, [PStart 9000000]) (loaded, [PStart 9000000, PStart 9000000])"
    using calm_polling.calm_spawn [of ?W loaded "[PStart 9000000]" 9000000] by simp
  moreover have "(calm_polling ?W)\<^sup>*\<^sup>* (loaded, [PStart 9000000, PStart 9000000])
      ([], [PDone (Inr [?r]), PStart 9000000])"
    using calm_polling_steps [of 0 "[PStart 9000000, PStart 9000000]" 5 ?W loaded] first_poller by simp
  moreover have "(calm_polling ?W)\<^sup>*\<^sup>* ([], [PDone (Inr [?r]), PStart 9000000])
      ([], [PDone (Inr [?r]), PDone (Inr [])])"
    using calm_polling_steps [of 1 "[PDone (Inr [?r]), PStart 9000000]" 2 ?W "[]"] second_poller by simp
  ultimately show ?thesis by (meson converse_rtranclp_into_rtranclp rtranclp_trans)
qed

theorem redis_pollers_never_twice_witness:
  "sum_list (map (handed_out ''a'') [PDone (Inr [delayed_record\<lparr>record_id := 1\<rparr>]), PDone (Inr [])]) \<le> 1"
proof -
  have "\<forall>m. named memory_redis_wal m (delayed memory_redis_wal loaded m)"
    by (auto simp: named_def readable_Some memory_redis_eval loaded_def unary_codec_def split: if_splits)
  with redis_pollers_never_twice [OF _ _ _ calm_polling_polling [OF two_pollers, of "''a''"]]
  show ?thesis using memory_redis_laws unary_codec_ok by simp
qed

text \<open>C15: when the server stays reachable and no poller crashes, pollers that share the log in
  Redis lose nothing: a scheduled message that has left the index is in the answer of exactly
  one of the finished polls, and no poll has failed.\<close>

theorem redis_pollers_exactly_once:
  assumes "redis_laws (rw_conn W)" and "redis_winv W d" and "redis_dels W d k \<noteq> None"
    and "(calm_polling W)\<^sup>*\<^sup>* (d, []) (d', ps)" and "\<forall>p \<in> set ps. \<exists>x. p = PDone x"
    and "score_of W d' k = None"
  shows "sum_list (map (handed_out k) ps) = 1 \<and> (\<forall>p \<in> set ps. \<exists>rs. p = PDone (Inr rs))"
proof -
  note run = calm_inv_run [OF assms(1,4) calm_inv_start [OF assms(2)], of k]
  have "score_of W d k \<noteq> None" using redis_dels_score [OF assms(2), of k] assms(3) by simp
  with run assms(6) have total: "sum_list (map (holds k) ps) = 1" by (simp add: tokens_def)
  have fin: "\<exists>rs. p = PDone (Inr rs)" if "p \<in> set ps" for p
  proof -
    obtain x where "p = PDone x" using assms(5) \<open>p \<in> set ps\<close> by blast
    moreover have "sound W d' p" using run that by (simp add: calm_inv_def)
    ultimately show ?thesis by (cases x) auto
  qed
  have same: "map (handed_out k) ps = map (holds k) ps"
    by (rule map_cong [OF refl]) (use fin in fastforce)
  show ?thesis unfolding same using total fin by blast
qed

theorem redis_pollers_exactly_once_witness:
  "sum_list (map (handed_out ''a'') [PDone (Inr [delayed_record\<lparr>record_id := 1\<rparr>]), PDone (Inr [])]) = 1"
proof -
  have "redis_dels memory_redis_wal loaded ''a'' \<noteq> None"
    by (simp add: redis_dels_def readable_def memory_redis_eval loaded_def unary_codec_def)
  moreover have "score_of memory_redis_wal [] ''a'' = None" by (simp add: memory_redis_eval)
  ultimately show ?thesis
    using redis_pollers_exactly_once [OF _ loaded_winv _ two_pollers, of "''a''"] memory_redis_laws by simp
qed

end
