(* ===== verification/Stream_Server.thy ===== *)
theory Stream_Server
  imports Redis_Server
begin

text \<open>
  The stream commands of a Redis server, a parameter of \<open>Queue_Redis\<close> as \<open>Redis_Server\<close> is of
  the log. The specification's view of a stream is its entries, each with the value of the
  message field if it has one; of a consumer group, the entries never delivered to it and the
  identifiers of its delivered and unacknowledged entries.
\<close>

section \<open>Streams and groups\<close>

type_synonym entry = "string \<times> u8 list option"

record sview =
  sv_log :: "string \<Rightarrow> entry list"
  sv_new :: "string \<Rightarrow> string \<Rightarrow> entry list option"
  sv_pel :: "string \<Rightarrow> string \<Rightarrow> string list"

definition sv_add :: "string \<Rightarrow> entry \<Rightarrow> sview \<Rightarrow> sview" where
  "sv_add k e v = v\<lparr>sv_log := (sv_log v)(k := sv_log v k @ [e]),
     sv_new := (sv_new v)(k := (\<lambda>g. map_option (\<lambda>es. es @ [e]) (sv_new v k g)))\<rparr>"

text \<open>Trimming drops the oldest entries, delivered or not.\<close>

definition sv_trim :: "string \<Rightarrow> nat \<Rightarrow> sview \<Rightarrow> sview" where
  "sv_trim k j v = (let kept = drop j (sv_log v k) in v\<lparr>sv_log := (sv_log v)(k := kept),
     sv_new := (sv_new v)(k := (\<lambda>g. map_option (filter (\<lambda>e. e \<in> set kept)) (sv_new v k g)))\<rparr>)"

definition sv_create :: "string \<Rightarrow> string \<Rightarrow> entry list \<Rightarrow> sview \<Rightarrow> sview" where
  "sv_create k g es v = v\<lparr>sv_new := (sv_new v)(k := (sv_new v k)(g \<mapsto> es)),
     sv_pel := (sv_pel v)(k := (sv_pel v k)(g := []))\<rparr>"

definition sv_deliver :: "string \<Rightarrow> string \<Rightarrow> nat \<Rightarrow> sview \<Rightarrow> sview" where
  "sv_deliver k g n v = (let es = the (sv_new v k g) in
     v\<lparr>sv_new := (sv_new v)(k := (sv_new v k)(g \<mapsto> drop n es)),
       sv_pel := (sv_pel v)(k := (sv_pel v k)(g := sv_pel v k g @ map fst (take n es)))\<rparr>)"

definition sv_unpend :: "string \<Rightarrow> string \<Rightarrow> string set \<Rightarrow> sview \<Rightarrow> sview" where
  "sv_unpend k g ids v =
     v\<lparr>sv_pel := (sv_pel v)(k := (sv_pel v k)(g := filter (\<lambda>i. i \<notin> ids) (sv_pel v k g)))\<rparr>"

definition start_entries :: "string \<Rightarrow> entry list \<Rightarrow> entry list" where
  "start_entries start log = (if start = ''0'' then log else [])"


section \<open>Commands\<close>

record 'd streams =
  xs_connect :: "('d, string + unit) act"
  xs_ping :: "('d, string + string) act"
  xs_add :: "string \<Rightarrow> nat option \<Rightarrow> u8 list \<Rightarrow> ('d, string + string) act"
  xs_ack :: "string \<Rightarrow> string \<Rightarrow> string \<Rightarrow> ('d, string + int) act"
  xs_group :: "string \<Rightarrow> string \<Rightarrow> string \<Rightarrow> ('d, string + unit) act"
  xs_read :: "string \<Rightarrow> string \<Rightarrow> string \<Rightarrow> nat \<Rightarrow> nat
    \<Rightarrow> ('d, string + (string \<times> entry list) list option) act"
  xs_autoclaim :: "string \<Rightarrow> string \<Rightarrow> string \<Rightarrow> u64 \<Rightarrow> string \<Rightarrow> nat \<Rightarrow> ('d, string + entry list) act"
  xs_view :: "'d \<Rightarrow> sview"
  xs_up :: "'d \<Rightarrow> bool"
  xs_idle :: "'d \<Rightarrow> string \<Rightarrow> string \<Rightarrow> string \<Rightarrow> nat"

abbreviation stream_ok :: "'d streams \<Rightarrow> ('d, string + 'a) act \<Rightarrow> (sview \<Rightarrow> bool)
    \<Rightarrow> ('a \<Rightarrow> sview \<Rightarrow> sview \<Rightarrow> bool) \<Rightarrow> bool" where
  "stream_ok S c fit eff \<equiv> answers_ok (xs_view S) (xs_up S) c fit eff (or_lost eff)"

definition add_effect :: "string \<Rightarrow> nat option \<Rightarrow> u8 list \<Rightarrow> string \<Rightarrow> sview \<Rightarrow> sview \<Rightarrow> bool" where
  "add_effect k mx b i v v' \<longleftrightarrow> i \<notin> fst ` set (sv_log v k) \<and> (\<forall>g. i \<notin> set (sv_pel v k g)) \<and>
     (case mx of
        None \<Rightarrow> v' = sv_add k (i, Some b) v
      | Some n \<Rightarrow> v' = sv_add k (i, Some b) v \<or>
          (\<exists>j. v' = sv_trim k j (sv_add k (i, Some b) v) \<and> n + j \<le> Suc (length (sv_log v k))))"

definition read_effect :: "string \<Rightarrow> string \<Rightarrow> nat \<Rightarrow> (string \<times> entry list) list option
    \<Rightarrow> sview \<Rightarrow> sview \<Rightarrow> bool" where
  "read_effect k g n y v v' \<longleftrightarrow> (\<exists>es. sv_new v k g = Some es \<and> v' = sv_deliver k g n v \<and>
     y = (if take n es = [] then None else Some [(k, take n es)]))"

text \<open>
  \<^verbatim>\<open>XAUTOCLAIM\<close> hands pending entries over. Entries the stream has trimmed may be reported
  without fields and may be taken off the pending list.
\<close>

definition autoclaim_effect :: "string \<Rightarrow> string \<Rightarrow> entry list \<Rightarrow> sview \<Rightarrow> sview \<Rightarrow> bool" where
  "autoclaim_effect k g y v v' \<longleftrightarrow> distinct (map fst y) \<and> fst ` set y \<subseteq> set (sv_pel v k g) \<and>
     (\<forall>(i, x) \<in> set y. x = (case map_of (sv_log v k) i of None \<Rightarrow> None | Some x \<Rightarrow> x)) \<and>
     (\<exists>gone. gone \<inter> fst ` set (sv_log v k) = {} \<and> v' = sv_unpend k g gone v)"

text \<open>Creating a group that exists is refused with an error that says so.\<close>

definition group_busy :: "'d streams \<Rightarrow> bool" where
  "group_busy S \<longleftrightarrow> (\<forall>k g st d. xs_up S d \<and> sv_new (xs_view S d) k g \<noteq> None \<longrightarrow>
     (\<exists>e d'. xs_group S k g st d = (Ret (Inl e), d') \<and> sublist ''BUSYGROUP'' e \<and>
        xs_view S d' = xs_view S d \<and> xs_up S d'))"

text \<open>A sweep whose count covers the pending list claims every entry that is idle for long enough.\<close>

definition sweep_complete :: "'d streams \<Rightarrow> bool" where
  "sweep_complete S \<longleftrightarrow> (\<forall>k g c ms n d y d'. xs_autoclaim S k g c ms ''0-0'' n d = (Ret (Inr y), d') \<and>
     length (sv_pel (xs_view S d) k g) \<le> n \<longrightarrow>
     (\<forall>i \<in> set (sv_pel (xs_view S d) k g) \<inter> fst ` set (sv_log (xs_view S d) k).
        unat ms \<le> xs_idle S d k g i \<longrightarrow> i \<in> fst ` set y))"

text \<open>
  A read that blocks for a positive time answers in the end; \<^verbatim>\<open>BLOCK 0\<close>, which waits for
  ever, is left out.
\<close>

definition stream_laws :: "'d streams \<Rightarrow> bool" where
  "stream_laws S \<longleftrightarrow>
     stream_ok S (xs_connect S) (\<lambda>_. True) (\<lambda>_ v v'. v' = v) \<and>
     stream_ok S (xs_ping S) (\<lambda>_. True) (\<lambda>y v v'. v' = v \<and> y = ''PONG'') \<and>
     (\<forall>k mx b. stream_ok S (xs_add S k mx b) (\<lambda>_. True) (add_effect k mx b)) \<and>
     (\<forall>k g i. stream_ok S (xs_ack S k g i) (\<lambda>_. True) (\<lambda>_ v v'. v' = sv_unpend k g {i} v)) \<and>
     (\<forall>k g st. stream_ok S (xs_group S k g st) (\<lambda>v. sv_new v k g = None)
        (\<lambda>_ v v'. sv_new v k g = None \<and> v' = sv_create k g (start_entries st (sv_log v k)) v)) \<and>
     group_busy S \<and>
     (\<forall>k g c bl n. 0 < bl \<longrightarrow> stream_ok S (xs_read S k g c bl n) (\<lambda>v. sv_new v k g \<noteq> None)
        (read_effect k g n)) \<and>
     (\<forall>k g c ms st n. stream_ok S (xs_autoclaim S k g c ms st n) (\<lambda>v. sv_new v k g \<noteq> None)
        (autoclaim_effect k g)) \<and>
     sweep_complete S"

lemma xs_connect_law:
  assumes "stream_laws S"
  shows "stream_ok S (xs_connect S) (\<lambda>_. True) (\<lambda>_ v v'. v' = v)"
  using assms unfolding stream_laws_def by (elim conjE) simp

lemma xs_ping_law:
  assumes "stream_laws S"
  shows "stream_ok S (xs_ping S) (\<lambda>_. True) (\<lambda>y v v'. v' = v \<and> y = ''PONG'')"
  using assms unfolding stream_laws_def by (elim conjE) simp

lemma xs_add_law:
  assumes "stream_laws S"
  shows "stream_ok S (xs_add S k mx b) (\<lambda>_. True) (add_effect k mx b)"
  using assms unfolding stream_laws_def by (elim conjE) simp

lemma xs_ack_law:
  assumes "stream_laws S"
  shows "stream_ok S (xs_ack S k g i) (\<lambda>_. True) (\<lambda>_ v v'. v' = sv_unpend k g {i} v)"
  using assms unfolding stream_laws_def by (elim conjE) simp

lemma xs_group_law:
  assumes "stream_laws S"
  shows "stream_ok S (xs_group S k g st) (\<lambda>v. sv_new v k g = None)
      (\<lambda>_ v v'. sv_new v k g = None \<and> v' = sv_create k g (start_entries st (sv_log v k)) v)"
  using assms unfolding stream_laws_def by (elim conjE) simp

lemma group_busy_law:
  assumes "stream_laws S"
  shows "group_busy S"
  using assms unfolding stream_laws_def by (elim conjE) simp

lemma xs_read_law:
  assumes "stream_laws S" and "0 < bl"
  shows "stream_ok S (xs_read S k g c bl n) (\<lambda>v. sv_new v k g \<noteq> None) (read_effect k g n)"
  using assms unfolding stream_laws_def by (elim conjE) simp

lemma xs_autoclaim_law:
  assumes "stream_laws S"
  shows "stream_ok S (xs_autoclaim S k g c ms st n) (\<lambda>v. sv_new v k g \<noteq> None) (autoclaim_effect k g)"
  using assms unfolding stream_laws_def by (elim conjE) simp

lemma sweep_law:
  assumes "stream_laws S"
  shows "sweep_complete S"
  using assms unfolding stream_laws_def by (elim conjE) simp

lemma sv_simps [simp]:
  "sv_log (sv_add k e v) k' = (if k' = k then sv_log v k @ [e] else sv_log v k')"
  "sv_new (sv_add k e v) k' g = (if k' = k then map_option (\<lambda>es. es @ [e]) (sv_new v k g) else sv_new v k' g)"
  "sv_pel (sv_add k e v) = sv_pel v"
  "sv_log (sv_create k g es v) = sv_log v" "sv_log (sv_deliver k g n v) = sv_log v"
  "sv_log (sv_unpend k g ids v) = sv_log v" "sv_new (sv_unpend k g ids v) = sv_new v"
  "sv_new (sv_create k g es v) k' g' = (if k' = k \<and> g' = g then Some es else sv_new v k' g')"
  "sv_new (sv_deliver k g n v) k' g' =
     (if k' = k \<and> g' = g then Some (drop n (the (sv_new v k g))) else sv_new v k' g')"
  "sv_pel (sv_create k g es v) k' g' = (if k' = k \<and> g' = g then [] else sv_pel v k' g')"
  "sv_pel (sv_deliver k g n v) k' g' =
     (if k' = k \<and> g' = g then sv_pel v k g @ map fst (take n (the (sv_new v k g))) else sv_pel v k' g')"
  "sv_pel (sv_unpend k g ids v) k' g' =
     (if k' = k \<and> g' = g then filter (\<lambda>i. i \<notin> ids) (sv_pel v k g) else sv_pel v k' g')"
  by (simp_all add: sv_add_def sv_create_def sv_deliver_def sv_unpend_def Let_def)


section \<open>A server in memory\<close>

text \<open>Streams and groups as association lists satisfy the laws; trimming is never needed.\<close>

record mserver =
  ms_logs :: "(string, entry list) hashmap"
  ms_groups :: "(string \<times> string, entry list \<times> string list) hashmap"

definition ms_log :: "mserver \<Rightarrow> string \<Rightarrow> entry list" where
  "ms_log d k = (case hm_get (ms_logs d) k of None \<Rightarrow> [] | Some es \<Rightarrow> es)"

definition ms_pel :: "mserver \<Rightarrow> string \<Rightarrow> string \<Rightarrow> string list" where
  "ms_pel d k g = (case hm_get (ms_groups d) (k, g) of None \<Rightarrow> [] | Some (_, ids) \<Rightarrow> ids)"

definition ms_view :: "mserver \<Rightarrow> sview" where
  "ms_view d = \<lparr>sv_log = ms_log d, sv_new = (\<lambda>k g. map_option fst (hm_get (ms_groups d) (k, g))),
     sv_pel = ms_pel d\<rparr>"

definition ms_ids :: "mserver \<Rightarrow> string \<Rightarrow> string list" where
  "ms_ids d k = map fst (ms_log d k) @ concat (map (snd \<circ> snd) (ms_groups d))"

definition ms_fresh :: "mserver \<Rightarrow> string \<Rightarrow> string" where
  "ms_fresh d k = replicate (Suc (sum_list (map length (ms_ids d k)))) (CHR ''0'')"

definition ms_add :: "string \<Rightarrow> nat option \<Rightarrow> u8 list \<Rightarrow> (mserver, string + string) act" where
  "ms_add k mx b d = (let e = (ms_fresh d k, Some b) in
     (Ret (Inr (ms_fresh d k)),
      \<lparr>ms_logs = hm_insert k (ms_log d k @ [e]) (ms_logs d),
       ms_groups = map (\<lambda>((k', g), es, ids). ((k', g), if k' = k then es @ [e] else es, ids)) (ms_groups d)\<rparr>))"

definition ms_ack :: "string \<Rightarrow> string \<Rightarrow> string \<Rightarrow> (mserver, string + int) act" where
  "ms_ack k g i d = (case hm_get (ms_groups d) (k, g) of
       None \<Rightarrow> (Ret (Inr 0), d)
     | Some (es, ids) \<Rightarrow> (Ret (Inr (if i \<in> set ids then 1 else 0)),
         d\<lparr>ms_groups := hm_insert (k, g) (es, filter (\<lambda>j. j \<noteq> i) ids) (ms_groups d)\<rparr>))"

definition ms_group :: "string \<Rightarrow> string \<Rightarrow> string \<Rightarrow> (mserver, string + unit) act" where
  "ms_group k g st d = (case hm_get (ms_groups d) (k, g) of
       None \<Rightarrow> (Ret (Inr ()),
         d\<lparr>ms_groups := hm_insert (k, g) (start_entries st (ms_log d k), []) (ms_groups d)\<rparr>)
     | Some _ \<Rightarrow> (Ret (Inl ''BUSYGROUP Consumer Group name already exists''), d))"

definition ms_read :: "string \<Rightarrow> string \<Rightarrow> string \<Rightarrow> nat \<Rightarrow> nat
    \<Rightarrow> (mserver, string + (string \<times> entry list) list option) act" where
  "ms_read k g c bl n d = (case hm_get (ms_groups d) (k, g) of
       None \<Rightarrow> (Ret (Inl ''NOGROUP''), d)
     | Some (es, ids) \<Rightarrow> (Ret (Inr (if take n es = [] then None else Some [(k, take n es)])),
         d\<lparr>ms_groups := hm_insert (k, g) (drop n es, ids @ map fst (take n es)) (ms_groups d)\<rparr>))"

definition ms_autoclaim :: "string \<Rightarrow> string \<Rightarrow> string \<Rightarrow> u64 \<Rightarrow> string \<Rightarrow> nat
    \<Rightarrow> (mserver, string + entry list) act" where
  "ms_autoclaim k g c ms st n d =
     (Ret (Inr (map (\<lambda>i. (i, the (map_of (ms_log d k) i)))
        (filter (\<lambda>i. map_of (ms_log d k) i \<noteq> None) (take n (remdups (ms_pel d k g)))))), d)"

definition memory_streams :: "mserver streams" where
  "memory_streams =
     \<lparr>xs_connect = ret (Inr ()), xs_ping = ret (Inr ''PONG''), xs_add = ms_add, xs_ack = ms_ack,
      xs_group = ms_group, xs_read = ms_read, xs_autoclaim = ms_autoclaim, xs_view = ms_view,
      xs_up = (\<lambda>_. True), xs_idle = (\<lambda>_ _ _ _. 2 ^ 64)\<rparr>"

lemma memory_streams_simps [simp]:
  "xs_connect memory_streams = ret (Inr ())" "xs_ping memory_streams = ret (Inr ''PONG'')"
  "xs_add memory_streams = ms_add" "xs_ack memory_streams = ms_ack" "xs_group memory_streams = ms_group"
  "xs_read memory_streams = ms_read" "xs_autoclaim memory_streams = ms_autoclaim"
  "xs_view memory_streams = ms_view" "xs_up memory_streams = (\<lambda>_. True)"
  "xs_idle memory_streams = (\<lambda>_ _ _ _. 2 ^ 64)"
  by (simp_all add: memory_streams_def)

lemma answers_okI:
  assumes "\<And>d. \<exists>x d'. c d = (Ret x, d') \<and>
      (case x of Inl e \<Rightarrow> view d' = view d \<and> \<not> fit (view d) | Inr y \<Rightarrow> eff y (view d) (view d'))"
  shows "answers_ok view (\<lambda>_. True) c fit eff (or_lost eff)"
  unfolding answers_ok_def
proof (intro allI)
  fix d
  obtain x d' where "c d = (Ret x, d')" "case x of Inl e \<Rightarrow> view d' = view d \<and> \<not> fit (view d)
      | Inr y \<Rightarrow> eff y (view d) (view d')"
    using assms by blast
  then show "\<exists>x d'. c d = (Ret x, d') \<and>
      (case x of Inl e \<Rightarrow> or_lost eff (view d) (view d') | Inr y \<Rightarrow> eff y (view d) (view d')) \<and>
      (True \<longrightarrow> True \<and> (fit (view d) \<longrightarrow> is_ok x))"
    by (cases x) (auto simp: or_lost_def)
qed

lemma ms_view_sel [simp]:
  "sv_log (ms_view d) = ms_log d" "sv_pel (ms_view d) = ms_pel d"
  "sv_new (ms_view d) k g = map_option fst (hm_get (ms_groups d) (k, g))"
  by (simp_all add: ms_view_def)

lemma sview_eqI:
  assumes "\<And>k. sv_log v k = sv_log v' k" and "\<And>k g. sv_new v k g = sv_new v' k g"
    and "\<And>k g. sv_pel v k g = sv_pel v' k g"
  shows "v = (v' :: sview)"
proof -
  have "sv_log v = sv_log v'" "sv_new v = sv_new v'" "sv_pel v = sv_pel v'"
    using assms by (auto intro!: ext)
  then show ?thesis by (cases v, cases v') simp
qed

lemma ms_fresh_new:
  "ms_fresh d k \<notin> fst ` set (ms_log d k)" "ms_fresh d k \<notin> set (ms_pel d k g)"
proof -
  have len: "i \<in> set (ms_ids d k) \<Longrightarrow> length i < length (ms_fresh d k)" for i
    using member_le_sum_list [of "length i" "map length (ms_ids d k)"] by (simp add: ms_fresh_def)
  show "ms_fresh d k \<notin> fst ` set (ms_log d k)"
    using len [of "ms_fresh d k"] by (auto simp: ms_ids_def)
  have "set (ms_pel d k g) \<subseteq> set (ms_ids d k)"
  proof (cases "hm_get (ms_groups d) (k, g)")
    case (Some x)
    then have "((k, g), x) \<in> set (ms_groups d)" by (rule map_of_SomeD)
    with Some show ?thesis by (cases x) (force simp: ms_ids_def ms_pel_def)
  qed (simp add: ms_pel_def)
  with len [of "ms_fresh d k"] show "ms_fresh d k \<notin> set (ms_pel d k g)" by blast
qed

lemma hm_get_map_groups:
  "hm_get (map (\<lambda>((k', g), es, ids). ((k', g), f k' es, ids)) m) (k, g) =
     map_option (\<lambda>x. (f k (fst x), snd x)) (hm_get m (k, g))"
  by (induction m) auto

lemma ms_add_law: "stream_ok memory_streams (ms_add k mx b) (\<lambda>_. True) (add_effect k mx b)"
  unfolding memory_streams_simps
proof (rule answers_okI)
  fix d
  obtain d' where d': "ms_add k mx b d = (Ret (Inr (ms_fresh d k)), d')" by (simp add: ms_add_def Let_def)
  then have "ms_view d' = sv_add k (ms_fresh d k, Some b) (ms_view d)"
    by (intro sview_eqI) (auto simp: ms_add_def Let_def ms_log_def ms_pel_def hm_get_map_groups
        option.map_comp comp_def split: option.splits)
  then show "\<exists>x d'. ms_add k mx b d = (Ret x, d') \<and>
      (case x of Inl e \<Rightarrow> ms_view d' = ms_view d \<and> \<not> True | Inr y \<Rightarrow> add_effect k mx b y (ms_view d) (ms_view d'))"
    using d' ms_fresh_new [of d k] by (auto simp: add_effect_def split: option.splits)
qed

lemma ms_ack_law: "stream_ok memory_streams (ms_ack k g i) (\<lambda>_. True) (\<lambda>_ v v'. v' = sv_unpend k g {i} v)"
  unfolding memory_streams_simps
  by (rule answers_okI) (auto simp: ms_ack_def ms_log_def ms_pel_def intro!: sview_eqI split: option.splits)

lemma ms_group_law: "stream_ok memory_streams (ms_group k g st) (\<lambda>v. sv_new v k g = None)
    (\<lambda>_ v v'. sv_new v k g = None \<and> v' = sv_create k g (start_entries st (sv_log v k)) v)"
  unfolding memory_streams_simps
  by (rule answers_okI) (auto simp: ms_group_def ms_log_def ms_pel_def intro!: sview_eqI split: option.splits)

lemma ms_group_busy: "group_busy memory_streams"
  by (auto simp: group_busy_def ms_group_def sublist_def split: option.splits)

lemma ms_read_law: "stream_ok memory_streams (ms_read k g c bl n) (\<lambda>v. sv_new v k g \<noteq> None)
    (read_effect k g n)"
  unfolding memory_streams_simps
  by (rule answers_okI) (auto simp: ms_read_def read_effect_def ms_log_def ms_pel_def intro!: sview_eqI split: option.splits)

lemma ms_autoclaim_law: "stream_ok memory_streams (ms_autoclaim k g c ms st n)
    (\<lambda>v. sv_new v k g \<noteq> None) (autoclaim_effect k g)"
  unfolding memory_streams_simps
proof (rule answers_okI)
  fix d
  define ids where "ids = filter (\<lambda>i. map_of (ms_log d k) i \<noteq> None) (take n (remdups (ms_pel d k g)))"
  have "distinct ids" "set ids \<subseteq> set (ms_pel d k g)"
    by (auto simp: ids_def dest: in_set_takeD)
  moreover have "\<forall>i \<in> set ids. map_of (ms_log d k) i \<noteq> None" by (simp add: ids_def)
  moreover have "ms_view d = sv_unpend k g {} (ms_view d)" by (intro sview_eqI) simp_all
  ultimately have "autoclaim_effect k g (map (\<lambda>i. (i, the (map_of (ms_log d k) i))) ids) (ms_view d) (ms_view d)"
    by (auto simp: autoclaim_effect_def comp_def)
  then show "\<exists>x d'. ms_autoclaim k g c ms st n d = (Ret x, d') \<and>
      (case x of Inl e \<Rightarrow> ms_view d' = ms_view d \<and> \<not> sv_new (ms_view d) k g \<noteq> None
        | Inr y \<Rightarrow> autoclaim_effect k g y (ms_view d) (ms_view d'))"
    by (simp add: ms_autoclaim_def ids_def)
qed

lemma ms_sweep: "sweep_complete memory_streams"
proof -
  have "length ids \<le> n \<Longrightarrow> take n (remdups ids) = remdups ids" for ids :: "string list" and n
    using length_remdups_leq [of ids] by (auto intro: order.trans)
  then show ?thesis by (auto simp: sweep_complete_def ms_autoclaim_def image_iff map_of_eq_None_iff)
qed

lemma memory_streams_laws: "stream_laws memory_streams"
proof -
  have "stream_ok memory_streams (xs_connect memory_streams) (\<lambda>_. True) (\<lambda>_ v v'. v' = v)"
    "stream_ok memory_streams (xs_ping memory_streams) (\<lambda>_. True) (\<lambda>y v v'. v' = v \<and> y = ''PONG'')"
    unfolding memory_streams_simps by (rule answers_okI; simp add: ret_app)+
  then show ?thesis
    unfolding stream_laws_def
    using ms_add_law ms_ack_law ms_group_law ms_group_busy ms_read_law ms_autoclaim_law ms_sweep
    by (intro conjI allI impI) (simp_all only: memory_streams_simps)
qed

end
