(* ===== verification/Queue_Redis.thy ===== *)
theory Queue_Redis
  imports Queue_Memory Wal Stream_Server
begin

text \<open>
  The Redis Streams backend (\<^verbatim>\<open>event_base_queue/src/redis_streams.rs\<close>): configuration, producers,
  consumer and factory, over the stream commands of \<open>Stream_Server\<close>. A producer and the
  consumers of all nodes share one server state; a consumer adds its own fields.

  The consumer satisfies the contract \<open>claim_requeue\<close> of a queue on a reachable server
  (interpretation \<open>redis_queue\<close>), so it neither loses nor duplicates a message. Several nodes
  and failing commands are the subject of \<open>Stream_Group\<close>.
\<close>

section \<open>Configuration\<close>

record redis_queue_config =
  qc_url :: string
  qc_prefix :: string
  qc_group :: string
  qc_block_ms :: nat
  qc_maxlen :: "nat option"
  qc_node :: "string option"

definition FANOUT_SYSTEM_TOPICS :: "string list" where
  "FANOUT_SYSTEM_TOPICS = [SYSTEM_TOPIC_SHUTDOWN, SYSTEM_TOPIC_TOPIC_SYNC, SYSTEM_TOPIC_METRICS]"

definition group_start_for :: "string \<Rightarrow> string" where
  "group_start_for topic = (if topic \<in> set FANOUT_SYSTEM_TOPICS then ''$'' else ''0'')"

definition redis_queue_config_new :: "string \<Rightarrow> redis_queue_config" where
  "redis_queue_config_new url =
     \<lparr>qc_url = url, qc_prefix = ''event_base'', qc_group = ''event_base'', qc_block_ms = 500,
      qc_maxlen = None, qc_node = None\<rparr>"

definition config_with_prefix :: "string \<Rightarrow> redis_queue_config \<Rightarrow> redis_queue_config" where
  "config_with_prefix p c = c\<lparr>qc_prefix := p\<rparr>"

definition config_with_group :: "string \<Rightarrow> redis_queue_config \<Rightarrow> redis_queue_config" where
  "config_with_group g c = c\<lparr>qc_group := g\<rparr>"

definition config_with_block_ms :: "nat \<Rightarrow> redis_queue_config \<Rightarrow> redis_queue_config" where
  "config_with_block_ms b c = c\<lparr>qc_block_ms := b\<rparr>"

definition config_with_maxlen :: "nat \<Rightarrow> redis_queue_config \<Rightarrow> redis_queue_config" where
  "config_with_maxlen n c = c\<lparr>qc_maxlen := Some n\<rparr>"

definition config_with_node :: "string \<Rightarrow> redis_queue_config \<Rightarrow> redis_queue_config" where
  "config_with_node n c = c\<lparr>qc_node := Some n\<rparr>"

text \<open>The second argument is what \<^verbatim>\<open>try_get_node_name\<close> answers.\<close>

definition node_or_global :: "redis_queue_config \<Rightarrow> string option \<Rightarrow> string option" where
  "node_or_global c global = (case qc_node c of Some n \<Rightarrow> Some n | None \<Rightarrow> global)"

definition group_for :: "redis_queue_config \<Rightarrow> string option \<Rightarrow> string \<Rightarrow> string" where
  "group_for c global topic =
     (if topic \<in> set FANOUT_SYSTEM_TOPICS then
        (case node_or_global c global of Some node \<Rightarrow> qc_group c @ ''@'' @ node | None \<Rightarrow> qc_group c)
      else qc_group c)"

definition stream_key :: "redis_queue_config \<Rightarrow> string \<Rightarrow> string" where
  "stream_key c topic = qc_prefix c @ '':'' @ topic"


section \<open>Messages on the wire\<close>

definition encode_msg :: "emessage codec \<Rightarrow> emessage \<Rightarrow> u8 list result" where
  "encode_msg c m = (case cd_enc c m of
       Inl e \<Rightarrow> Inl (EQueue (QSend (''encode failed: '' @ e)))
     | Inr b \<Rightarrow> Inr b)"

text \<open>The text of the error of \<^verbatim>\<open>check_wire_version\<close>, which is always \<^verbatim>\<open>Unsupported\<close>.\<close>

definition version_error_text :: "core_error \<Rightarrow> string" where
  "version_error_text e = (case e of EUnsupported s \<Rightarrow> ''Unsupported: '' @ s | _ \<Rightarrow> [])"

definition decode_msg :: "emessage codec \<Rightarrow> u8 list \<Rightarrow> emessage result" where
  "decode_msg c b = (case cd_dec c b of
       Inl e \<Rightarrow> Inl (EQueue (QReceive (''decode failed: '' @ e)))
     | Inr m \<Rightarrow> (case check_wire_version m of
         Inl e \<Rightarrow> Inl (EQueue (QReceive (version_error_text e)))
       | Inr _ \<Rightarrow> Inr m))"

definition send_err :: "string \<Rightarrow> core_error" where
  "send_err e = EQueue (QSend e)"

definition recv_err :: "string \<Rightarrow> core_error" where
  "recv_err e = EQueue (QReceive e)"

text \<open>The server as a client reaches it; \<open>sk_d\<close> is the server's state, which all clients share.\<close>

record 'd slink =
  sk_srv :: "'d streams"
  sk_codec :: "emessage codec"
  sk_d :: 'd

definition on_srv :: "('d streams \<Rightarrow> ('d, string + 'a) act) \<Rightarrow> (string \<Rightarrow> core_error)
    \<Rightarrow> (('d, 'z) slink_scheme, 'a result) act" where
  "on_srv f err l = (case f (sk_srv l) (sk_d l) of (r, d') \<Rightarrow>
     (case r of Ret (Inl e) \<Rightarrow> Ret (Inl (err e)) | Ret (Inr y) \<Rightarrow> Ret (Inr y)
        | Pending \<Rightarrow> Pending | Blocked \<Rightarrow> Blocked | Panic e \<Rightarrow> Panic e, l\<lparr>sk_d := d'\<rparr>))"

definition xadd :: "string \<Rightarrow> emessage \<Rightarrow> nat option \<Rightarrow> (('d, 'z) slink_scheme, unit result) act" where
  "xadd key m maxlen =
     bindA (getA sk_codec) (\<lambda>c.
     bindQ (ret (encode_msg c m)) (\<lambda>bytes.
     bindQ (on_srv (\<lambda>s. xs_add s key maxlen bytes) send_err) (\<lambda>_. ret (Inr ()))))"

definition xack :: "string \<Rightarrow> string \<Rightarrow> string \<Rightarrow> (('d, 'z) slink_scheme, unit result) act" where
  "xack key grp entry_id =
     bindQ (on_srv (\<lambda>s. xs_ack s key grp entry_id) send_err) (\<lambda>_. ret (Inr ()))"


section \<open>Producers\<close>

definition stream_send :: "string \<Rightarrow> nat option \<Rightarrow> emessage \<Rightarrow> (('d, 'z) slink_scheme, unit result) act" where
  "stream_send key maxlen m = xadd key m maxlen"

definition stream_try_send :: "string \<Rightarrow> nat option \<Rightarrow> emessage \<Rightarrow> (('d, 'z) slink_scheme, unit result) act" where
  "stream_try_send key maxlen m = stream_send key maxlen m"

definition stream_send_timeout :: "string \<Rightarrow> nat option \<Rightarrow> emessage \<Rightarrow> duration
    \<Rightarrow> (('d, 'z) slink_scheme, unit result) act" where
  "stream_send_timeout key maxlen m timeout =
     bindA (timeoutA (stream_send key maxlen m)) (\<lambda>r. case r of
         Inl elapsed \<Rightarrow> ret (Inl (EQueue QTimeout))
       | Inr inner \<Rightarrow> ret inner)"

definition stream_producer :: "string \<Rightarrow> nat option \<Rightarrow> ('d, 'z) slink_scheme eproducer" where
  "stream_producer key maxlen =
     \<lparr>ep_send = stream_send key maxlen, ep_try_send = stream_try_send key maxlen,
      ep_send_timeout = stream_send_timeout key maxlen\<rparr>"

definition route_send :: "string \<Rightarrow> nat option \<Rightarrow> emessage \<Rightarrow> (('d, 'z) slink_scheme, unit result) act" where
  "route_send pre maxlen m = xadd (pre @ '':'' @ msg_topic m) m maxlen"

definition route_try_send :: "string \<Rightarrow> nat option \<Rightarrow> emessage \<Rightarrow> (('d, 'z) slink_scheme, unit result) act" where
  "route_try_send pre maxlen m = route_send pre maxlen m"

definition route_send_timeout :: "string \<Rightarrow> nat option \<Rightarrow> emessage \<Rightarrow> duration
    \<Rightarrow> (('d, 'z) slink_scheme, unit result) act" where
  "route_send_timeout pre maxlen m timeout =
     bindA (timeoutA (route_send pre maxlen m)) (\<lambda>r. case r of
         Inl elapsed \<Rightarrow> ret (Inl (EQueue QTimeout))
       | Inr inner \<Rightarrow> ret inner)"

definition route_producer :: "string \<Rightarrow> nat option \<Rightarrow> ('d, 'z) slink_scheme eproducer" where
  "route_producer pre maxlen =
     \<lparr>ep_send = route_send pre maxlen, ep_try_send = route_try_send pre maxlen,
      ep_send_timeout = route_send_timeout pre maxlen\<rparr>"


section \<open>Consumer\<close>

text \<open>\<open>sc_conn\<close> is whether the dedicated connection has been opened.\<close>

record 'd stream_consumer = "'d slink" +
  sc_conn :: bool
  sc_key :: string
  sc_group :: string
  sc_group_start :: string
  sc_name :: string
  sc_block_ms :: nat
  sc_maxlen :: "nat option"
  sc_pending :: "(string, string \<times> emessage) hashmap"
  sc_group_ready :: bool
  sc_amb :: ambient

definition stream_consumer_new :: "'d slink \<Rightarrow> string \<Rightarrow> string \<Rightarrow> string \<Rightarrow> nat \<Rightarrow> nat option
    \<Rightarrow> ambient \<Rightarrow> 'd stream_consumer" where
  "stream_consumer_new l key grp start block_ms maxlen a =
     (let (name, a') = new_uuid a in
      \<lparr>sk_srv = sk_srv l, sk_codec = sk_codec l, sk_d = sk_d l, sc_conn = False, sc_key = key,
       sc_group = grp, sc_group_start = start, sc_name = name, sc_block_ms = block_ms,
       sc_maxlen = maxlen, sc_pending = [], sc_group_ready = False, sc_amb = a'\<rparr>)"

definition conn :: "('d stream_consumer, unit result) act" where
  "conn =
     bindA (getA sc_conn) (\<lambda>opened.
     if opened then ret (Inr ())
     else
       bindQ (on_srv xs_connect recv_err) (\<lambda>_.
       bindA (putA (\<lambda>c. c\<lparr>sc_conn := True\<rparr>)) (\<lambda>_. ret (Inr ()))))"

definition ensure_group :: "('d stream_consumer, unit result) act" where
  "ensure_group =
     bindA (getA (\<lambda>c. c)) (\<lambda>c.
     if sc_group_ready c then ret (Inr ())
     else
       bindA (on_srv (\<lambda>s. xs_group s (sc_key c) (sc_group c) (sc_group_start c)) recv_err) (\<lambda>r. case r of
           Inr _ \<Rightarrow> bindA (putA (\<lambda>c. c\<lparr>sc_group_ready := True\<rparr>)) (\<lambda>_. ret (Inr ()))
         | Inl (EQueue (QReceive e)) \<Rightarrow>
             if sublist ''BUSYGROUP'' e then
               bindA (putA (\<lambda>c. c\<lparr>sc_group_ready := True\<rparr>)) (\<lambda>_. ret (Inr ()))
             else ret (Inl (EQueue (QReceive e)))
         | Inl e \<Rightarrow> ret (Inl e)))"

definition ready_conn :: "('d stream_consumer, unit result) act" where
  "ready_conn = bindQ conn (\<lambda>_. ensure_group)"

definition ack_entry :: "string \<Rightarrow> ('d stream_consumer, unit result) act" where
  "ack_entry entry_id = bindA (getA (\<lambda>c. c)) (\<lambda>c. xack (sc_key c) (sc_group c) entry_id)"

text \<open>The loop over the entries of a reply; an entry without the message field is acknowledged.\<close>

fun decode_entries :: "entry list \<Rightarrow> (string \<times> emessage) list
    \<Rightarrow> ('d stream_consumer, (string \<times> emessage) list result) act" where
  "decode_entries [] out = ret (Inr out)"
| "decode_entries ((i, Some bytes) # es) out =
     bindA (getA sk_codec) (\<lambda>c.
     bindQ (ret (decode_msg c bytes)) (\<lambda>m. decode_entries es (out @ [(i, m)])))"
| "decode_entries ((i, None) # es) out =
     bindA (ack_entry i) (\<lambda>_. decode_entries es out)"

definition read_group :: "nat \<Rightarrow> ('d stream_consumer, (string \<times> emessage) list result) act" where
  "read_group n =
     bindQ ready_conn (\<lambda>_.
     bindA (getA (\<lambda>c. c)) (\<lambda>c.
     bindQ (on_srv (\<lambda>s. xs_read s (sc_key c) (sc_group c) (sc_name c) (sc_block_ms c) n) recv_err) (\<lambda>reply.
     decode_entries (case reply of None \<Rightarrow> [] | Some keys \<Rightarrow> concat (map snd keys)) [])))"

text \<open>
  \<^verbatim>\<open>receive\<close> loops until a message arrives. \<open>rounds\<close> is the number of reads after which the
  model calls it waiting.
\<close>

fun stream_receive :: "nat \<Rightarrow> ('d stream_consumer, emessage option) act" where
  "stream_receive 0 = (\<lambda>c. (Pending, c))"
| "stream_receive (Suc rounds) =
     bindA (read_group 1) (\<lambda>r. case r of
         Inl _ \<Rightarrow> ret None
       | Inr entries \<Rightarrow>
           if entries = [] then stream_receive rounds
           else
             bindA conn (\<lambda>k. case k of
                 Inl _ \<Rightarrow> ret None
               | Inr _ \<Rightarrow>
                   bindA (ack_entry (fst (last entries))) (\<lambda>_. ret (Some (snd (last entries))))))"

definition register_stream_claim :: "time \<Rightarrow> string \<times> emessage \<Rightarrow> ('d stream_consumer, claimed_message) act" where
  "register_stream_claim now = (\<lambda>(i, m) c.
     (let (k, a) = new_uuid (sc_amb c) in
      (Ret \<lparr>cm_message = m, cm_claim_id = k, cm_claimed_at = now\<rparr>,
       c\<lparr>sc_pending := hm_insert k (i, m) (sc_pending c), sc_amb := a\<rparr>)))"

fun register_all_claims :: "time \<Rightarrow> (string \<times> emessage) list \<Rightarrow> claimed_message list
    \<Rightarrow> ('d stream_consumer, claimed_message list) act" where
  "register_all_claims now [] batch = ret batch"
| "register_all_claims now (e # es) batch =
     bindA (register_stream_claim now e) (\<lambda>cm. register_all_claims now es (batch @ [cm]))"

definition now_of :: "('d stream_consumer, time) act" where
  "now_of c = (let (t, a) = read_clock (sc_amb c) in (Ret t, c\<lparr>sc_amb := a\<rparr>))"

definition stream_claim_batch :: "nat \<Rightarrow> ('d stream_consumer, claimed_message list result) act" where
  "stream_claim_batch mx =
     (if mx = 0 then ret (Inr [])
      else
        bindQ (read_group mx) (\<lambda>entries.
        if entries = [] then ret (Inr [])
        else
          bindA now_of (\<lambda>now.
          bindA (register_all_claims now entries []) (\<lambda>batch. ret (Inr batch)))))"

definition stream_claim :: "('d stream_consumer, claimed_message option result) act" where
  "stream_claim =
     bindQ (stream_claim_batch 1) (\<lambda>batch. ret (Inr (if batch = [] then None else Some (last batch))))"

text \<open>\<^verbatim>\<open>self.pending.lock().await.remove(claim_id)\<close>.\<close>

definition take_pending :: "string \<Rightarrow> ('d stream_consumer, (string \<times> emessage) option) act" where
  "take_pending k c = (Ret (hm_get (sc_pending c) k), c\<lparr>sc_pending := hm_remove k (sc_pending c)\<rparr>)"

definition stream_ack :: "string \<Rightarrow> ('d stream_consumer, unit result) act" where
  "stream_ack claim_id =
     bindA (take_pending claim_id) (\<lambda>e. case e of
         Some (i, m) \<Rightarrow> bindQ conn (\<lambda>_. ack_entry i)
       | None \<Rightarrow> ret (Inl (EQueue (QInvalidClaimId claim_id))))"

definition stream_nack :: "string \<Rightarrow> ('d stream_consumer, unit result) act" where
  "stream_nack claim_id =
     bindA (take_pending claim_id) (\<lambda>e. case e of
         Some (i, m) \<Rightarrow>
           bindQ conn (\<lambda>_.
           bindA (getA (\<lambda>c. c)) (\<lambda>c.
           bindQ (xadd (sc_key c) m (sc_maxlen c)) (\<lambda>_. ack_entry i)))
       | None \<Rightarrow> ret (Inl (EQueue (QInvalidClaimId claim_id))))"

text \<open>The loop of \<^verbatim>\<open>claim_stale\<close>: entries that cannot be read are acknowledged away.\<close>

fun reap_entries :: "time \<Rightarrow> entry list \<Rightarrow> claimed_message list
    \<Rightarrow> ('d stream_consumer, claimed_message list) act" where
  "reap_entries now [] out = ret out"
| "reap_entries now ((i, None) # es) out = reap_entries now es out"
| "reap_entries now ((i, Some bytes) # es) out =
     bindA (getA sk_codec) (\<lambda>c. case decode_msg c bytes of
         Inr m \<Rightarrow> bindA (register_stream_claim now (i, m)) (\<lambda>cm. reap_entries now es (out @ [cm]))
       | Inl _ \<Rightarrow> bindA (ack_entry i) (\<lambda>_. reap_entries now es out))"

definition stream_claim_stale :: "duration \<Rightarrow> ('d stream_consumer, claimed_message list result) act" where
  "stream_claim_stale min_idle =
     bindQ ready_conn (\<lambda>_.
     bindA (getA (\<lambda>c. c)) (\<lambda>c.
     bindQ (on_srv (\<lambda>s. xs_autoclaim s (sc_key c) (sc_group c) (sc_name c)
       (word_of_nat (min_idle div 1000000)) ''0-0'' 64) recv_err) (\<lambda>claimed.
     bindA now_of (\<lambda>now.
     bindA (reap_entries now claimed []) (\<lambda>out. ret (Inr out))))))"

definition redis_consumer :: "nat \<Rightarrow> 'd stream_consumer econsumer" where
  "redis_consumer rounds =
     \<lparr>ec_receive = stream_receive rounds, ec_claim = stream_claim,
      ec_claim_batch = stream_claim_batch, ec_ack = stream_ack, ec_nack = stream_nack,
      ec_claim_stale = stream_claim_stale\<rparr>"


section \<open>Factories\<close>

record 'd stream_consumer_factory =
  cf_link :: "'d slink"
  cf_key :: string
  cf_group :: string
  cf_group_start :: string
  cf_block_ms :: nat
  cf_maxlen :: "nat option"

definition stream_create_consumer :: "'d stream_consumer_factory \<Rightarrow> ambient \<Rightarrow> 'd stream_consumer" where
  "stream_create_consumer f a =
     stream_consumer_new (cf_link f) (cf_key f) (cf_group f) (cf_group_start f) (cf_block_ms f)
       (cf_maxlen f) a"

definition stream_clone_factory :: "'d stream_consumer_factory \<Rightarrow> 'd stream_consumer_factory" where
  "stream_clone_factory f =
     \<lparr>cf_link = cf_link f, cf_key = cf_key f, cf_group = cf_group f,
      cf_group_start = cf_group_start f, cf_block_ms = cf_block_ms f, cf_maxlen = cf_maxlen f\<rparr>"

record 'd stream_queue_factory =
  qf_link :: "'d slink"
  qf_config :: redis_queue_config
  qf_main :: "'d stream_consumer"

definition assemble :: "'d slink \<Rightarrow> redis_queue_config \<Rightarrow> ambient \<Rightarrow> 'd stream_queue_factory" where
  "assemble l config a =
     \<lparr>qf_link = l, qf_config = config,
      qf_main = stream_consumer_new l (stream_key config ''_default'') (qc_group config) ''0''
        (qc_block_ms config) (qc_maxlen config) a\<rparr>"

text \<open>\<open>open_client\<close> is \<^verbatim>\<open>Client::open\<close>; the connection is the server's first command.\<close>

definition stream_with_config :: "(string \<Rightarrow> string + unit) \<Rightarrow> 'd slink \<Rightarrow> redis_queue_config \<Rightarrow> ambient
    \<Rightarrow> 'd stream_queue_factory result outcome" where
  "stream_with_config open_client l config a =
     (case open_client (qc_url config) of
        Inl e \<Rightarrow> Ret (Inl (send_err e))
      | Inr _ \<Rightarrow> (case on_srv xs_connect send_err l of
            (Ret (Inl e), _) \<Rightarrow> Ret (Inl e)
          | (Ret (Inr _), l') \<Rightarrow> Ret (Inr (assemble l' config a))
          | (Pending, _) \<Rightarrow> Pending | (Blocked, _) \<Rightarrow> Blocked | (Panic p, _) \<Rightarrow> Panic p))"

definition stream_factory_new :: "(string \<Rightarrow> string + unit) \<Rightarrow> 'd slink \<Rightarrow> string \<Rightarrow> ambient
    \<Rightarrow> 'd stream_queue_factory result outcome" where
  "stream_factory_new open_client l url a = stream_with_config open_client l (redis_queue_config_new url) a"

definition stream_from_manager :: "(string \<Rightarrow> string + unit) \<Rightarrow> 'd slink \<Rightarrow> redis_queue_config \<Rightarrow> ambient
    \<Rightarrow> 'd stream_queue_factory result" where
  "stream_from_manager open_client l config a =
     (case open_client (qc_url config) of Inl e \<Rightarrow> Inl (send_err e) | Inr _ \<Rightarrow> Inr (assemble l config a))"

definition stream_create_queue :: "'d stream_queue_factory \<Rightarrow> string option \<Rightarrow> string
    \<Rightarrow> ('d slink eproducer \<times> 'd stream_consumer_factory) result" where
  "stream_create_queue f global topic =
     (let key = stream_key (qf_config f) topic in
      Inr (stream_producer key (qc_maxlen (qf_config f)),
           \<lparr>cf_link = qf_link f, cf_key = key, cf_group = group_for (qf_config f) global topic,
            cf_group_start = group_start_for topic, cf_block_ms = qc_block_ms (qf_config f),
            cf_maxlen = qc_maxlen (qf_config f)\<rparr>))"

definition stream_create_global_producer :: "'d stream_queue_factory \<Rightarrow> 'd slink eproducer result" where
  "stream_create_global_producer f =
     Inr (route_producer (qc_prefix (qf_config f)) (qc_maxlen (qf_config f)))"

definition stream_create_main_consumer :: "'d stream_queue_factory \<Rightarrow> 'd stream_consumer result" where
  "stream_create_main_consumer f = Inr (qf_main f)"

definition stream_health_check :: "(('d, 'z) slink_scheme, unit result) act" where
  "stream_health_check =
     bindQ (on_srv xs_ping recv_err) (\<lambda>pong.
     if pong = ''PONG'' then ret (Inr ())
     else ret (Inl (EQueue (QReceive (''unexpected PING reply: '' @ pong)))))"


section \<open>A consumer on a reachable server\<close>

abbreviation sview_of :: "('d, 'z) slink_scheme \<Rightarrow> sview" where
  "sview_of c \<equiv> xs_view (sk_srv c) (sk_d c)"

abbreviation srv_up :: "('d, 'z) slink_scheme \<Rightarrow> bool" where
  "srv_up c \<equiv> xs_up (sk_srv c) (sk_d c)"

text \<open>What a group is still to be given; a group that does not exist yet begins at its start.\<close>

definition to_come :: "sview \<Rightarrow> string \<Rightarrow> string \<Rightarrow> string \<Rightarrow> entry list" where
  "to_come v k g st = (case sv_new v k g of Some es \<Rightarrow> es | None \<Rightarrow> start_entries st (sv_log v k))"

abbreviation upcoming :: "'d stream_consumer \<Rightarrow> entry list" where
  "upcoming c \<equiv> to_come (sview_of c) (sc_key c) (sc_group c) (sc_group_start c)"

definition with_group :: "'d stream_consumer \<Rightarrow> sview \<Rightarrow> sview" where
  "with_group c v = (case sv_new v (sc_key c) (sc_group c) of
       Some _ \<Rightarrow> v
     | None \<Rightarrow> sv_create (sc_key c) (sc_group c) (start_entries (sc_group_start c) (sv_log v (sc_key c))) v)"

definition entry_message :: "emessage codec \<Rightarrow> entry \<Rightarrow> emessage option" where
  "entry_message c e = (case snd e of None \<Rightarrow> None
     | Some b \<Rightarrow> (case decode_msg c b of Inl _ \<Rightarrow> None | Inr m \<Rightarrow> Some m))"

definition decoded :: "emessage codec \<Rightarrow> entry \<Rightarrow> string \<times> emessage" where
  "decoded c e = (fst e, the (entry_message c e))"

text \<open>What was decoded can be encoded again.\<close>

definition reencodes :: "emessage codec \<Rightarrow> bool" where
  "reencodes c \<longleftrightarrow> codec_ok c \<and> (\<forall>b m. cd_dec c b = Inr m \<longrightarrow> is_ok (cd_enc c m))"

lemma encode_decode_msg:
  assumes "codec_ok c" and "encode_msg c m = Inr b" and "is_ok (check_wire_version m)"
  shows "decode_msg c b = Inr m"
  using assms by (auto simp: encode_msg_def decode_msg_def codec_ok_def is_ok_def split: sum.splits)

lemma reencode_msg:
  assumes "reencodes c" and "decode_msg c b = Inr m"
  obtains b' where "encode_msg c m = Inr b'" and "decode_msg c b' = Inr m"
proof -
  have m: "cd_dec c b = Inr m" "is_ok (check_wire_version m)"
    using assms(2) by (auto simp: decode_msg_def is_ok_def split: sum.splits)
  then obtain b' where "encode_msg c m = Inr b'"
    using assms(1) by (fastforce simp: reencodes_def is_ok_def encode_msg_def split: sum.splits)
  with encode_decode_msg [OF _ this m(2)] assms(1) that show thesis by (auto simp: reencodes_def)
qed

lemma on_srv_Ret:
  "f (sk_srv c) (sk_d c) = (Ret (Inr y), d') \<Longrightarrow> on_srv f err c = (Ret (Inr y), c\<lparr>sk_d := d'\<rparr>)"
  "f (sk_srv c) (sk_d c) = (Ret (Inl e), d') \<Longrightarrow> on_srv f err c = (Ret (Inl (err e)), c\<lparr>sk_d := d'\<rparr>)"
  by (simp_all add: on_srv_def)

lemma sk_d_outside [simp]:
  "sc_conn_update f (sk_d_update g c) = sk_d_update g (sc_conn_update f c)"
  "sc_group_ready_update f (sk_d_update g c) = sk_d_update g (sc_group_ready_update f c)"
  "sc_pending_update f' (sk_d_update g c) = sk_d_update g (sc_pending_update f' c)"
  "sc_amb_update f'' (sk_d_update g c) = sk_d_update g (sc_amb_update f'' c)"
  by (cases c; simp)+

lemma conn_up:
  assumes "stream_laws (sk_srv c)" and "srv_up c"
  shows "\<exists>d'. conn c = (Ret (Inr ()), c\<lparr>sk_d := d', sc_conn := True\<rparr>) \<and>
     xs_view (sk_srv c) d' = sview_of c \<and> xs_up (sk_srv c) d'"
proof (cases "sc_conn c")
  case True
  then have "c = c\<lparr>sk_d := sk_d c, sc_conn := True\<rparr>" by simp
  with True assms show ?thesis by (intro exI [of _ "sk_d c"]) (simp add: conn_def outcome_simps bindA_def)
next
  case False
  from command_up [OF xs_connect_law [OF assms(1)] assms(2)]
  obtain d' where "xs_connect (sk_srv c) (sk_d c) = (Ret (Inr ()), d')"
      "xs_view (sk_srv c) d' = sview_of c" "xs_up (sk_srv c) d'" by auto
  with False show ?thesis
    by (intro exI [of _ d']) (simp add: conn_def bindA_def getA_def putA_def bindQ_Inr on_srv_Ret ret_def)
qed

lemma ensure_group_up:
  assumes "stream_laws (sk_srv c)" and "srv_up c"
    and "sc_group_ready c \<Longrightarrow> sv_new (sview_of c) (sc_key c) (sc_group c) \<noteq> None"
  shows "\<exists>d'. ensure_group c = (Ret (Inr ()), c\<lparr>sk_d := d', sc_group_ready := True\<rparr>) \<and>
     xs_view (sk_srv c) d' = with_group c (sview_of c) \<and> xs_up (sk_srv c) d'"
proof (cases "sc_group_ready c")
  case True
  then have "c = c\<lparr>sk_d := sk_d c, sc_group_ready := True\<rparr>" by simp
  with True assms show ?thesis
    by (intro exI [of _ "sk_d c"]) (auto simp: ensure_group_def outcome_simps bindA_def with_group_def)
next
  case False
  show ?thesis
  proof (cases "sv_new (sview_of c) (sc_key c) (sc_group c)")
    case None
    from command_up [OF xs_group_law [OF assms(1)] assms(2), OF None, of "sc_group_start c"] None
    obtain d' where "xs_group (sk_srv c) (sc_key c) (sc_group c) (sc_group_start c) (sk_d c) = (Ret (Inr ()), d')"
        "xs_view (sk_srv c) d' = with_group c (sview_of c)" "xs_up (sk_srv c) d'"
      by (auto simp: with_group_def)
    with False show ?thesis
      by (intro exI [of _ d']) (simp add: ensure_group_def bindA_def getA_def putA_def on_srv_def ret_def)
  next
    case (Some es)
    with group_busy_law [OF assms(1)] assms(2)
    obtain e d' where "xs_group (sk_srv c) (sc_key c) (sc_group c) (sc_group_start c) (sk_d c) = (Ret (Inl e), d')"
        "sublist ''BUSYGROUP'' e" "xs_view (sk_srv c) d' = sview_of c" "xs_up (sk_srv c) d'"
      unfolding group_busy_def by (metis option.distinct(1))
    with False Some show ?thesis
      by (intro exI [of _ d'])
        (simp add: ensure_group_def bindA_def getA_def putA_def on_srv_def ret_def recv_err_def with_group_def)
  qed
qed

lemma ready_conn_up:
  assumes "stream_laws (sk_srv c)" and "srv_up c"
    and "sc_group_ready c \<Longrightarrow> sv_new (sview_of c) (sc_key c) (sc_group c) \<noteq> None"
  shows "\<exists>d'. ready_conn c = (Ret (Inr ()), c\<lparr>sk_d := d', sc_conn := True, sc_group_ready := True\<rparr>) \<and>
     xs_view (sk_srv c) d' = with_group c (sview_of c) \<and> xs_up (sk_srv c) d'"
proof -
  from conn_up [OF assms(1,2)] obtain d1 where
    d1: "conn c = (Ret (Inr ()), c\<lparr>sk_d := d1, sc_conn := True\<rparr>)"
      "xs_view (sk_srv c) d1 = sview_of c" "xs_up (sk_srv c) d1" by blast
  let ?c = "c\<lparr>sk_d := d1, sc_conn := True\<rparr>"
  from ensure_group_up [of ?c] assms d1(2,3) obtain d2 where
    "ensure_group ?c = (Ret (Inr ()), ?c\<lparr>sk_d := d2, sc_group_ready := True\<rparr>)"
      "xs_view (sk_srv c) d2 = with_group c (sview_of c)" "xs_up (sk_srv c) d2"
    by (auto simp: with_group_def cong: option.case_cong)
  with d1(1) show ?thesis by (intro exI [of _ d2]) (simp add: ready_conn_def bindQ_Inr)
qed

lemma with_group_to_come:
  "sv_new (with_group c v) (sc_key c) (sc_group c) =
     Some (to_come v (sc_key c) (sc_group c) (sc_group_start c))"
  "sv_log (with_group c v) = sv_log v"
  by (simp_all add: with_group_def to_come_def split: option.splits)

lemma decode_entries_all:
  assumes "\<forall>e \<in> set es. entry_message (sk_codec c) e \<noteq> None"
  shows "decode_entries es out c = (Ret (Inr (out @ map (decoded (sk_codec c)) es)), c)"
  using assms
proof (induction es arbitrary: out)
  case Nil
  then show ?case by (simp add: ret_def)
next
  case (Cons e es)
  obtain i b m where e: "e = (i, Some b)" "decode_msg (sk_codec c) b = Inr m"
    using Cons.prems by (cases e) (auto simp: entry_message_def split: option.splits sum.splits)
  with Cons show ?case
    by (simp add: bindA_def getA_def bindQ_ret_Inr decoded_def entry_message_def)
qed

lemma read_group_up:
  assumes "stream_laws (sk_srv c)" and "srv_up c" and "0 < sc_block_ms c"
    and "sc_group_ready c \<Longrightarrow> sv_new (sview_of c) (sc_key c) (sc_group c) \<noteq> None"
    and "\<forall>e \<in> set (take n (upcoming c)). entry_message (sk_codec c) e \<noteq> None"
  shows "\<exists>d'. read_group n c = (Ret (Inr (map (decoded (sk_codec c)) (take n (upcoming c)))),
       c\<lparr>sk_d := d', sc_conn := True, sc_group_ready := True\<rparr>) \<and>
     xs_view (sk_srv c) d' = sv_deliver (sc_key c) (sc_group c) n (with_group c (sview_of c)) \<and>
     xs_up (sk_srv c) d'"
proof -
  from ready_conn_up [OF assms(1,2,4)] obtain d1 where
    d1: "ready_conn c = (Ret (Inr ()), c\<lparr>sk_d := d1, sc_conn := True, sc_group_ready := True\<rparr>)"
      "xs_view (sk_srv c) d1 = with_group c (sview_of c)" "xs_up (sk_srv c) d1" by blast
  from command_up [OF xs_read_law [OF assms(1,3)] d1(3)]
  obtain y d2 where d2: "xs_read (sk_srv c) (sc_key c) (sc_group c) (sc_name c) (sc_block_ms c) n d1 = (Ret (Inr y), d2)"
      "read_effect (sc_key c) (sc_group c) n y (with_group c (sview_of c)) (xs_view (sk_srv c) d2)" "xs_up (sk_srv c) d2"
    by (metis d1(2) option.distinct(1) with_group_to_come(1))
  then have y: "y = (if take n (upcoming c) = [] then None else Some [(sc_key c, take n (upcoming c))])"
      "xs_view (sk_srv c) d2 = sv_deliver (sc_key c) (sc_group c) n (with_group c (sview_of c))"
    by (auto simp: read_effect_def with_group_to_come)
  from y(1) have "(case y of None \<Rightarrow> [] | Some keys \<Rightarrow> concat (map snd keys)) = take n (upcoming c)"
    by simp
  with d1(1) d2(1,3) y(2) decode_entries_all [of "take n (upcoming c)" "c\<lparr>sk_d := d2, sc_conn := True, sc_group_ready := True\<rparr>" "[]"] assms(5)
  show ?thesis
    by (intro exI [of _ d2]) (simp add: read_group_def bindQ_Inr bindA_def getA_def on_srv_Ret)
qed


section \<open>The contract of a consumer\<close>

definition stream_inv :: "'d stream_consumer \<Rightarrow> bool" where
  "stream_inv c \<longleftrightarrow> stream_laws (sk_srv c) \<and> reencodes (sk_codec c) \<and> srv_up c \<and>
     0 < sc_block_ms c \<and> sc_maxlen c = None \<and>
     (sc_group_ready c \<or> sc_pending c \<noteq> [] \<longrightarrow> sv_new (sview_of c) (sc_key c) (sc_group c) \<noteq> None) \<and>
     (\<forall>e \<in> set (upcoming c). entry_message (sk_codec c) e \<noteq> None) \<and>
     hm_wf (sc_pending c) \<and> uuids_unique (sc_amb c) \<and>
     (\<forall>(k, i, m) \<in> set (sc_pending c). uuid_used (sc_amb c) k \<and> (\<exists>b. decode_msg (sk_codec c) b = Inr m))"

definition stream_queued :: "'d stream_consumer \<Rightarrow> emessage list" where
  "stream_queued c = map (snd \<circ> decoded (sk_codec c)) (upcoming c)"

definition stream_inflight :: "'d stream_consumer \<Rightarrow> (string, emessage) hashmap" where
  "stream_inflight c = map (\<lambda>(k, i, m). (k, m)) (sc_pending c)"

lemma stream_invD:
  assumes "stream_inv c"
  shows "stream_laws (sk_srv c)" "reencodes (sk_codec c)" "srv_up c" "0 < sc_block_ms c" "sc_maxlen c = None"
    "sc_group_ready c \<Longrightarrow> sv_new (sview_of c) (sc_key c) (sc_group c) \<noteq> None"
    "sc_pending c \<noteq> [] \<Longrightarrow> sv_new (sview_of c) (sc_key c) (sc_group c) \<noteq> None"
    "\<forall>e \<in> set (upcoming c). entry_message (sk_codec c) e \<noteq> None"
    "hm_wf (sc_pending c)" "uuids_unique (sc_amb c)"
    "(k, i, m) \<in> set (sc_pending c) \<Longrightarrow> uuid_used (sc_amb c) k"
    "(k, i, m) \<in> set (sc_pending c) \<Longrightarrow> \<exists>b. decode_msg (sk_codec c) b = Inr m"
  using assms unfolding stream_inv_def by blast+

lemma inflight_map_get [simp]: "hm_get (map (\<lambda>(k, i, m). (k, m)) p) k = map_option snd (hm_get p k)"
  by (induction p) auto

lemma inflight_get [simp]: "hm_get (stream_inflight c) k = map_option snd (hm_get (sc_pending c) k)"
  by (simp add: stream_inflight_def)

lemma inflight_keys [simp]: "hm_keys (stream_inflight c) = hm_keys (sc_pending c)"
  by (simp add: stream_inflight_def comp_def case_prod_beta')

lemma inflight_update:
  "map (\<lambda>(k, i, m). (k, m)) (hm_insert q (i, m) p) = hm_insert q m (map (\<lambda>(k, i, m). (k, m)) p)"
  "map (\<lambda>(k, i, m). (k, m)) (hm_remove q p) = hm_remove q (map (\<lambda>(k, i, m). (k, m)) p)"
  by (induction p) (auto simp: AList.delete_eq)

text \<open>After a read of \<open>n\<close> entries.\<close>

definition after_delivery :: "nat \<Rightarrow> 'd stream_consumer \<Rightarrow> 'd \<Rightarrow> 'd stream_consumer \<Rightarrow> bool" where
  "after_delivery n c d' c' \<longleftrightarrow> c' = c\<lparr>sk_d := d', sc_conn := True, sc_group_ready := True\<rparr> \<and>
     xs_view (sk_srv c) d' = sv_deliver (sc_key c) (sc_group c) n (with_group c (sview_of c)) \<and>
     xs_up (sk_srv c) d'"

lemma stream_inv_delivery:
  assumes "stream_inv c" and "after_delivery n c d' c'"
  shows "stream_inv c'" "upcoming c' = drop n (upcoming c)" "sk_codec c' = sk_codec c" "sc_pending c' = sc_pending c"
    "sc_amb c' = sc_amb c"
proof -
  have c': "sk_srv c' = sk_srv c" "sk_codec c' = sk_codec c" "sc_key c' = sc_key c" "sc_group c' = sc_group c"
      "sc_pending c' = sc_pending c" "sc_amb c' = sc_amb c" "sc_block_ms c' = sc_block_ms c"
      "sc_maxlen c' = sc_maxlen c" "sc_group_start c' = sc_group_start c" "srv_up c'"
      "sview_of c' = sv_deliver (sc_key c) (sc_group c) n (with_group c (sview_of c))"
    using assms(2) by (simp_all add: after_delivery_def)
  then show up: "upcoming c' = drop n (upcoming c)" "sk_codec c' = sk_codec c" "sc_pending c' = sc_pending c"
      "sc_amb c' = sc_amb c"
    by (simp_all add: to_come_def with_group_to_come)
  have "sv_new (sview_of c') (sc_key c) (sc_group c) \<noteq> None" by (simp add: c'(11))
  then show "stream_inv c'"
    unfolding stream_inv_def up(1)
    using stream_invD [OF assms(1)] c'(10) by (auto simp: c'(1-9) dest: in_set_dropD)
qed

lemma read_group_inv:
  assumes "stream_inv c"
  obtains d' c' where "read_group n c = (Ret (Inr (map (decoded (sk_codec c)) (take n (upcoming c)))), c')"
    and "after_delivery n c d' c'"
proof -
  have "\<forall>e \<in> set (take n (upcoming c)). entry_message (sk_codec c) e \<noteq> None"
    using stream_invD(8) [OF assms] by (auto dest: in_set_takeD)
  from read_group_up [OF stream_invD(1,3,4,6) [OF assms] this] that show thesis
    unfolding after_delivery_def by blast
qed

lemma xack_up:
  assumes "stream_laws (sk_srv c)" and "srv_up c"
  shows "\<exists>d'. xack k g i c = (Ret (Inr ()), c\<lparr>sk_d := d'\<rparr>) \<and>
     xs_view (sk_srv c) d' = sv_unpend k g {i} (sview_of c) \<and> xs_up (sk_srv c) d'"
proof -
  from command_up [OF xs_ack_law [OF assms(1)] assms(2), of k g i]
  obtain n d' where "xs_ack (sk_srv c) k g i (sk_d c) = (Ret (Inr n), d')"
      "xs_view (sk_srv c) d' = sv_unpend k g {i} (sview_of c)" "xs_up (sk_srv c) d'" by auto
  then show ?thesis by (intro exI [of _ d']) (simp add: xack_def bindQ_Inr on_srv_Ret ret_def)
qed

lemma xadd_up:
  assumes "stream_laws (sk_srv c)" and "srv_up c" and "encode_msg (sk_codec c) m = Inr b"
  shows "\<exists>i d'. xadd k m mx c = (Ret (Inr ()), c\<lparr>sk_d := d'\<rparr>) \<and>
     add_effect k mx b i (sview_of c) (xs_view (sk_srv c) d') \<and> xs_up (sk_srv c) d'"
proof -
  from command_up [OF xs_add_law [OF assms(1)] assms(2), of k mx b]
  obtain i d' where "xs_add (sk_srv c) k mx b (sk_d c) = (Ret (Inr i), d')"
      "add_effect k mx b i (sview_of c) (xs_view (sk_srv c) d')" "xs_up (sk_srv c) d'" by auto
  with assms(3) show ?thesis
    by (intro exI [of _ i] exI [of _ d'])
      (simp add: xadd_def bindQ_Inr bindA_def getA_def bindQ_ret_Inr on_srv_Ret ret_def)
qed

text \<open>An acknowledgement, and the changes that leave the messages alone.\<close>

lemma to_come_unpend [simp]: "to_come (sv_unpend k g ids v) k' g' st = to_come v k' g' st"
  by (simp add: to_come_def split: option.splits)

lemma sv_unpend_none [simp]: "sv_unpend k g {} v = v"
  by (rule sview_eqI) simp_all

lemma stream_inv_settled:
  assumes "stream_inv c" and "xs_view (sk_srv c) d' = sv_unpend (sc_key c) (sc_group c) ids (sview_of c)"
    and "xs_up (sk_srv c) d'"
  shows "stream_inv (c\<lparr>sk_d := d', sc_conn := b\<rparr>)" "stream_inv (c\<lparr>sk_d := d'\<rparr>)"
  using assms by (simp_all add: stream_inv_def)

lemma stream_inv_forget:
  assumes "stream_inv c"
  shows "stream_inv (c\<lparr>sc_pending := hm_remove q (sc_pending c)\<rparr>)"
proof -
  have "set (hm_remove q (sc_pending c)) \<subseteq> set (sc_pending c)" by (auto simp: AList.delete_eq)
  then have "\<forall>(k, i, m) \<in> set (hm_remove q (sc_pending c)). uuid_used (sc_amb c) k \<and>
      (\<exists>b. decode_msg (sk_codec c) b = Inr m)"
    using stream_invD(11,12) [OF assms(1)] by blast
  moreover have "hm_remove q (sc_pending c) \<noteq> [] \<Longrightarrow> sc_pending c \<noteq> []" by auto
  ultimately show ?thesis
    unfolding stream_inv_def using stream_invD(1-10) [OF assms(1)] by simp
qed

lemma stream_inv_appended:
  assumes "stream_inv c" and "decode_msg (sk_codec c) b = Inr m"
    and "sv_new (sview_of c) (sc_key c) (sc_group c) \<noteq> None"
    and "add_effect (sc_key c) None b i (sview_of c) (xs_view (sk_srv c) d')" and "xs_up (sk_srv c) d'"
  shows "stream_inv (c\<lparr>sk_d := d'\<rparr>)" and "upcoming (c\<lparr>sk_d := d'\<rparr>) = upcoming c @ [(i, Some b)]"
proof -
  have v: "xs_view (sk_srv c) d' = sv_add (sc_key c) (i, Some b) (sview_of c)"
    using assms(4) by (simp add: add_effect_def)
  then show up: "upcoming (c\<lparr>sk_d := d'\<rparr>) = upcoming c @ [(i, Some b)]"
    using assms(3) by (auto simp: to_come_def)
  have "entry_message (sk_codec c) (i, Some b) \<noteq> None" using assms(2) by (simp add: entry_message_def)
  then have "\<forall>e \<in> set (upcoming (c\<lparr>sk_d := d'\<rparr>)). entry_message (sk_codec c) e \<noteq> None"
    using stream_invD(8) [OF assms(1)] unfolding up by auto
  moreover have "\<forall>(k, i, m) \<in> set (sc_pending c). uuid_used (sc_amb c) k \<and> (\<exists>b. decode_msg (sk_codec c) b = Inr m)"
    using stream_invD(11,12) [OF assms(1)] by blast
  ultimately show "stream_inv (c\<lparr>sk_d := d'\<rparr>)"
    unfolding stream_inv_def using stream_invD(1-10) [OF assms(1)] assms(3,5) by (simp add: v) 
qed

lemma stream_inv_clock [simp]: "stream_inv (c\<lparr>sc_amb := snd (read_clock (sc_amb c))\<rparr>) = stream_inv c"
  by (simp add: stream_inv_def)

lemma hm_insert_fresh: "hm_get m k = None \<Longrightarrow> hm_insert k v m = m @ [(k, v)]"
  by (induction m) (auto split: if_splits)

lemma stream_inv_claimed:
  assumes "stream_inv c" and "decode_msg (sk_codec c) b = Inr m"
    and "sv_new (sview_of c) (sc_key c) (sc_group c) \<noteq> None" and "new_uuid (sc_amb c) = (q, a)"
  shows "stream_inv (c\<lparr>sc_pending := hm_insert q (i, m) (sc_pending c), sc_amb := a\<rparr>)"
    and "hm_get (sc_pending c) q = None"
proof -
  have q: "q = uuid_src (sc_amb c) (uuid_next (sc_amb c))" "a = snd (new_uuid (sc_amb c))"
    using assms(4) by (simp_all add: new_uuid_def)
  show "hm_get (sc_pending c) q = None"
  proof (cases "hm_get (sc_pending c) q")
    case (Some e)
    then have "(q, e) \<in> set (sc_pending c)" by (rule map_of_SomeD)
    then have "uuid_used (sc_amb c) q" using stream_invD(11) [OF assms(1)] by (cases e) blast
    with new_uuid_fresh [OF stream_invD(10) [OF assms(1)]] q(1) show ?thesis by simp
  qed simp
  then have "hm_insert q (i, m) (sc_pending c) = sc_pending c @ [(q, i, m)]" by (rule hm_insert_fresh)
  then have "set (hm_insert q (i, m) (sc_pending c)) = insert (q, i, m) (set (sc_pending c))" by simp
  then have "\<forall>(k, i, m) \<in> set (hm_insert q (i, m) (sc_pending c)). uuid_used a k \<and>
      (\<exists>b. decode_msg (sk_codec c) b = Inr m)"
    using stream_invD(11,12) [OF assms(1)] assms(2) by (auto simp: q)
  moreover have "uuids_unique a" using stream_invD(10) [OF assms(1)] by (simp add: q)
  ultimately show "stream_inv (c\<lparr>sc_pending := hm_insert q (i, m) (sc_pending c), sc_amb := a\<rparr>)"
    unfolding stream_inv_def using stream_invD(1-9) [OF assms(1)] assms(3) by simp
qed


lemma stream_receive_inv:
  assumes "stream_inv c"
  shows "\<exists>x c'. stream_receive rounds c = (x, c') \<and> stream_inv c' \<and> sk_codec c' = sk_codec c \<and>
     sc_pending c' = sc_pending c \<and>
     ((\<exists>e. upcoming c = e # upcoming c' \<and> x = Ret (Some (snd (decoded (sk_codec c) e)))) \<or>
      (upcoming c' = upcoming c \<and> x = Pending))"
  using assms
proof (induction rounds arbitrary: c)
  case 0
  then show ?case by auto
next
  case (Suc rounds)
  from read_group_inv [OF Suc.prems, of 1] obtain d1 c1 where
    r: "read_group 1 c = (Ret (Inr (map (decoded (sk_codec c)) (take 1 (upcoming c)))), c1)"
      "after_delivery 1 c d1 c1" .
  note c1 = stream_inv_delivery [OF Suc.prems r(2)]
  show ?case
  proof (cases "upcoming c")
    case Nil
    then have "stream_receive (Suc rounds) c = stream_receive rounds c1"
      using r(1) by (simp add: bindA_Ret)
    with Suc.IH [OF c1(1)] c1 Nil show ?thesis by simp
  next
    case (Cons e es)
    from conn_up [OF stream_invD(1,3) [OF c1(1)]] obtain d2 where
      d2: "conn c1 = (Ret (Inr ()), c1\<lparr>sk_d := d2, sc_conn := True\<rparr>)"
        "xs_view (sk_srv c1) d2 = sview_of c1" "xs_up (sk_srv c1) d2" by blast
    let ?c2 = "c1\<lparr>sk_d := d2, sc_conn := True\<rparr>"
    from xack_up [of ?c2 "sc_key c1" "sc_group c1" "fst e"] stream_invD(1) [OF c1(1)] d2 obtain d3 where
      d3: "xack (sc_key c1) (sc_group c1) (fst e) ?c2 = (Ret (Inr ()), ?c2\<lparr>sk_d := d3\<rparr>)"
        "xs_view (sk_srv c1) d3 = sv_unpend (sc_key c1) (sc_group c1) {fst e} (sview_of c1)" "xs_up (sk_srv c1) d3"
      by auto
    let ?c3 = "c1\<lparr>sk_d := d3, sc_conn := True\<rparr>"
    have "stream_receive (Suc rounds) c = (Ret (Some (snd (decoded (sk_codec c) e))), ?c3)"
      using r(1) d2(1) d3(1) Cons
      by (simp add: bindA_Ret ack_entry_def getA_app ret_app decoded_def)
    moreover have "stream_inv ?c3" by (rule stream_inv_settled(1) [OF c1(1) d3(2,3)])
    moreover have "upcoming ?c3 = upcoming c1" by (simp add: d3(2))
    ultimately show ?thesis using c1 Cons by simp
  qed
qed

lemma register_stream_claim_app:
  "new_uuid (sc_amb c) = (q, a) \<Longrightarrow> register_stream_claim now e c =
     (Ret \<lparr>cm_message = snd e, cm_claim_id = q, cm_claimed_at = now\<rparr>,
      c\<lparr>sc_pending := hm_insert q e (sc_pending c), sc_amb := a\<rparr>)"
  by (cases e) (simp add: register_stream_claim_def)

lemma now_of_app: "read_clock (sc_amb c) = (t, a) \<Longrightarrow> now_of c = (Ret t, c\<lparr>sc_amb := a\<rparr>)"
  by (simp add: now_of_def)

lemma stream_claim_inv:
  assumes "stream_inv c"
  shows "\<exists>x c'. stream_claim c = (Ret (Inr x), c') \<and> stream_inv c' \<and> sk_codec c' = sk_codec c \<and>
     (case x of
        None \<Rightarrow> upcoming c = [] \<and> upcoming c' = [] \<and> sc_pending c' = sc_pending c
      | Some cm \<Rightarrow> (\<exists>e. upcoming c = e # upcoming c' \<and> cm_message cm = snd (decoded (sk_codec c) e) \<and>
          hm_get (sc_pending c) (cm_claim_id cm) = None \<and>
          sc_pending c' = hm_insert (cm_claim_id cm) (decoded (sk_codec c) e) (sc_pending c)))"
proof -
  from read_group_inv [OF assms, of 1] obtain d1 c1 where
    r: "read_group 1 c = (Ret (Inr (map (decoded (sk_codec c)) (take 1 (upcoming c)))), c1)"
      "after_delivery 1 c d1 c1" .
  note c1 = stream_inv_delivery [OF assms r(2)]
  show ?thesis
  proof (cases "upcoming c")
    case Nil
    then have "stream_claim c = (Ret (Inr None), c1)"
      using r(1) by (simp add: stream_claim_def stream_claim_batch_def bindQ_Inr ret_def)
    with c1 Nil show ?thesis by simp
  next
    case (Cons e es)
    obtain t a1 where t: "read_clock (sc_amb c1) = (t, a1)" by fastforce
    let ?c2 = "c1\<lparr>sc_amb := a1\<rparr>"
    obtain q a2 where q: "new_uuid a1 = (q, a2)" by fastforce
    let ?c3 = "?c2\<lparr>sc_pending := hm_insert q (decoded (sk_codec c) e) (sc_pending c), sc_amb := a2\<rparr>"
    have "stream_claim c = (Ret (Inr (Some \<lparr>cm_message = snd (decoded (sk_codec c) e), cm_claim_id = q,
        cm_claimed_at = t\<rparr>)), ?c3)"
      using r(1) Cons t q c1(4,5)
      by (simp add: stream_claim_def stream_claim_batch_def bindQ_Inr bindA_Ret now_of_app
          register_stream_claim_app ret_app bindQ_def)
    moreover have "stream_inv ?c2" using stream_inv_clock [of c1] t c1(1) by simp
    moreover obtain b where "decode_msg (sk_codec c) b = Inr (snd (decoded (sk_codec c) e))"
      using stream_invD(8) [OF assms] Cons
      by (auto simp: decoded_def entry_message_def split: option.splits sum.splits)
    moreover have "sv_new (sview_of ?c2) (sc_key ?c2) (sc_group ?c2) \<noteq> None"
      using r(2) by (simp add: after_delivery_def)
    ultimately show ?thesis
      using stream_inv_claimed(1) [of ?c2 b "snd (decoded (sk_codec c) e)" q a2 "fst e"]
        stream_inv_claimed(2) [of ?c2 b "snd (decoded (sk_codec c) e)" q a2] q c1(2-4) Cons
      by (simp add: decoded_def)
  qed
qed

lemma stream_ack_inv:
  assumes "stream_inv c"
  shows "\<exists>x c'. stream_ack q c = (Ret x, c') \<and> stream_inv c' \<and> sk_codec c' = sk_codec c \<and>
     upcoming c' = upcoming c \<and> sc_pending c' = hm_remove q (sc_pending c) \<and>
     (is_ok x \<longleftrightarrow> hm_get (sc_pending c) q \<noteq> None)"
proof (cases "hm_get (sc_pending c) q")
  case None
  then show ?thesis
    using assms stream_inv_forget [OF assms, of q]
    by (simp add: stream_ack_def take_pending_def bindA_def ret_def)
next
  case (Some e)
  let ?c1 = "c\<lparr>sc_pending := hm_remove q (sc_pending c)\<rparr>"
  have c1: "stream_inv ?c1" by (rule stream_inv_forget [OF assms])
  from conn_up [OF stream_invD(1,3) [OF c1]] obtain d2 where
    d2: "conn ?c1 = (Ret (Inr ()), ?c1\<lparr>sk_d := d2, sc_conn := True\<rparr>)"
      "xs_view (sk_srv c) d2 = sview_of c" "xs_up (sk_srv c) d2" by auto
  let ?c2 = "?c1\<lparr>sk_d := d2, sc_conn := True\<rparr>"
  from xack_up [of ?c2 "sc_key c" "sc_group c" "fst e"] stream_invD(1) [OF assms] d2 obtain d3 where
    d3: "xack (sc_key c) (sc_group c) (fst e) ?c2 = (Ret (Inr ()), ?c2\<lparr>sk_d := d3\<rparr>)"
      "xs_view (sk_srv c) d3 = sv_unpend (sc_key c) (sc_group c) {fst e} (sview_of c)" "xs_up (sk_srv c) d3"
    by auto
  have "stream_ack q c = (Ret (Inr ()), ?c1\<lparr>sk_d := d3, sc_conn := True\<rparr>)"
    using Some d2(1) d3(1) 
    by (cases e) (simp add: stream_ack_def take_pending_def bindA_def bindQ_Inr ack_entry_def getA_app)
  moreover have "stream_inv (?c1\<lparr>sk_d := d3, sc_conn := True\<rparr>)"
    using stream_inv_settled(1) [OF c1, of d3 "{fst e}"] d3(2,3) by simp
  ultimately show ?thesis using Some d3(2) by simp
qed

lemma stream_nack_inv:
  assumes "stream_inv c"
  shows "\<exists>x c'. stream_nack q c = (Ret x, c') \<and> stream_inv c' \<and> sk_codec c' = sk_codec c \<and>
     sc_pending c' = hm_remove q (sc_pending c) \<and>
     (case hm_get (sc_pending c) q of
        None \<Rightarrow> \<not> is_ok x \<and> upcoming c' = upcoming c
      | Some (i, m) \<Rightarrow> is_ok x \<and> (\<exists>j b. upcoming c' = upcoming c @ [(j, Some b)] \<and>
          decode_msg (sk_codec c) b = Inr m))"
proof (cases "hm_get (sc_pending c) q")
  case None
  then show ?thesis
    using assms stream_inv_forget [OF assms, of q]
    by (simp add: stream_nack_def take_pending_def bindA_def ret_def)
next
  case (Some e)
  obtain i m where e: "e = (i, m)" by fastforce
  let ?c1 = "c\<lparr>sc_pending := hm_remove q (sc_pending c)\<rparr>"
  have c1: "stream_inv ?c1" by (rule stream_inv_forget [OF assms])
  have mem: "(q, i, m) \<in> set (sc_pending c)" using map_of_SomeD [OF Some] e by simp
  then have grp: "sv_new (sview_of c) (sc_key c) (sc_group c) \<noteq> None"
    by (intro stream_invD(7) [OF assms]) auto
  obtain b0 where "decode_msg (sk_codec c) b0 = Inr m" using stream_invD(12) [OF assms mem] by blast
  from reencode_msg [OF stream_invD(2) [OF assms] this] obtain b where
    b: "encode_msg (sk_codec c) m = Inr b" "decode_msg (sk_codec c) b = Inr m" .
  from conn_up [OF stream_invD(1,3) [OF c1]] obtain d2 where
    d2: "conn ?c1 = (Ret (Inr ()), ?c1\<lparr>sk_d := d2, sc_conn := True\<rparr>)"
      "xs_view (sk_srv c) d2 = sview_of c" "xs_up (sk_srv c) d2" by auto
  let ?c2 = "?c1\<lparr>sk_d := d2, sc_conn := True\<rparr>"
  have c2: "stream_inv ?c2" using stream_inv_settled(1) [OF c1, of d2 "{}"] d2(2,3) by simp
  from xadd_up [of ?c2 m b "sc_key c" None] stream_invD(1) [OF assms] d2 b(1) obtain j d3 where
    d3: "xadd (sc_key c) m None ?c2 = (Ret (Inr ()), ?c2\<lparr>sk_d := d3\<rparr>)"
      "add_effect (sc_key c) None b j (sview_of c) (xs_view (sk_srv c) d3)" "xs_up (sk_srv c) d3" by auto
  let ?c3 = "?c2\<lparr>sk_d := d3\<rparr>"
  have c3: "stream_inv ?c3" "upcoming ?c3 = upcoming c @ [(j, Some b)]"
    using stream_inv_appended [OF c2, of b m j d3] b(2) grp d2(2) d3(2,3) by simp_all
  from xack_up [of ?c3 "sc_key c" "sc_group c" i] stream_invD(1) [OF assms] d3(3) obtain d4 where
    d4: "xack (sc_key c) (sc_group c) i ?c3 = (Ret (Inr ()), ?c3\<lparr>sk_d := d4\<rparr>)"
      "xs_view (sk_srv c) d4 = sv_unpend (sc_key c) (sc_group c) {i} (xs_view (sk_srv c) d3)" "xs_up (sk_srv c) d4"
    by auto
  have "stream_nack q c = (Ret (Inr ()), ?c3\<lparr>sk_d := d4\<rparr>)"
    using Some e d2(1) d3(1) d4(1) stream_invD(5) [OF assms]
    by (simp add: stream_nack_def take_pending_def bindA_def bindQ_Inr ack_entry_def getA_app)
  moreover have "stream_inv (?c3\<lparr>sk_d := d4\<rparr>)"
    using stream_inv_settled(2) [OF c3(1), of d4 "{i}"] d4(2,3) by simp
  moreover have "upcoming (?c3\<lparr>sk_d := d4\<rparr>) = upcoming c @ [(j, Some b)]"
    using c3(2) d4(2) by simp
  ultimately show ?thesis using Some e b(2) by auto
qed


lemma keeps_stream_inv:
  "keeps stream_inv (stream_receive rounds)" "keeps stream_inv stream_claim"
  "keeps stream_inv (stream_ack k)" "keeps stream_inv (stream_nack k)"
proof -
  show "keeps stream_inv (stream_receive rounds)"
    by (rule keepsI, drule stream_receive_inv [of _ rounds]) auto
  show "keeps stream_inv stream_claim"
    by (rule keepsI, drule stream_claim_inv) auto
  show "keeps stream_inv (stream_ack k)"
    by (rule keepsI, drule stream_ack_inv [of _ k]) auto
  show "keeps stream_inv (stream_nack k)"
    by (rule keepsI, drule stream_nack_inv [of _ k]) auto
qed

lemma redis_consumer_sel [simp]:
  "ec_receive (redis_consumer rounds) = stream_receive rounds" "ec_claim (redis_consumer rounds) = stream_claim"
  "ec_claim_batch (redis_consumer rounds) = stream_claim_batch" "ec_ack (redis_consumer rounds) = stream_ack"
  "ec_nack (redis_consumer rounds) = stream_nack" "ec_claim_stale (redis_consumer rounds) = stream_claim_stale"
  by (simp_all add: redis_consumer_def)

text \<open>The consumer of Redis Streams is a queue in the sense of the contract.\<close>

interpretation redis_queue: claim_requeue "redis_consumer rounds" stream_inv stream_queued stream_inflight
proof unfold_locales
  fix c :: "'d stream_consumer"
  assume "stream_inv c"
  then show "hm_wf (stream_inflight c)" using stream_invD(9) by simp
next
  show "keeps stream_inv (ec_receive (redis_consumer rounds))" "keeps stream_inv (ec_claim (redis_consumer rounds))"
    "keeps stream_inv (ec_ack (redis_consumer rounds) k)" "keeps stream_inv (ec_nack (redis_consumer rounds) k)" for k
    by (simp_all add: keeps_stream_inv)
next
  fix c c' :: "'d stream_consumer" and m
  assume "stream_inv c" and "ec_receive (redis_consumer rounds) c = (Ret (Some m), c')"
  with stream_receive_inv [of c rounds] show "stream_queued c = m # stream_queued c' \<and> stream_inflight c' = stream_inflight c"
    by (auto simp: stream_queued_def stream_inflight_def)
next
  fix c c' :: "'d stream_consumer" and v
  assume "stream_inv c" and "ec_receive (redis_consumer rounds) c = (v, c')" and "\<And>m. v \<noteq> Ret (Some m)"
  with stream_receive_inv [of c rounds] show "stream_queued c' = stream_queued c \<and> stream_inflight c' = stream_inflight c"
    by (auto simp: stream_queued_def stream_inflight_def)
next
  fix c c' :: "'d stream_consumer" and cm
  assume "stream_inv c" and "ec_claim (redis_consumer rounds) c = (Ret (Inr (Some cm)), c')"
  with stream_claim_inv [of c] show "stream_queued c = cm_message cm # stream_queued c' \<and>
      hm_get (stream_inflight c) (cm_claim_id cm) = None \<and>
      stream_inflight c' = hm_insert (cm_claim_id cm) (cm_message cm) (stream_inflight c)"
    by (auto simp: stream_queued_def stream_inflight_def decoded_def inflight_update)
next
  fix c c' :: "'d stream_consumer" and r
  assume "stream_inv c" and "ec_claim (redis_consumer rounds) c = (r, c')" and "\<And>cm. r \<noteq> Ret (Inr (Some cm))"
  with stream_claim_inv [of c] show "stream_queued c' = stream_queued c \<and> stream_inflight c' = stream_inflight c"
    by (auto simp: stream_queued_def stream_inflight_def split: option.splits)
next
  fix c :: "'d stream_consumer" and k
  assume "stream_inv c"
  with stream_ack_inv [of c k] show "stream_queued (snd (ec_ack (redis_consumer rounds) k c)) = stream_queued c \<and>
      stream_inflight (snd (ec_ack (redis_consumer rounds) k c)) = hm_remove k (stream_inflight c)"
    by (auto simp: stream_queued_def stream_inflight_def inflight_update)
next
  fix c c' :: "'d stream_consumer" and k
  assume "stream_inv c" and "ec_nack (redis_consumer rounds) k c = (Ret (Inr ()), c')"
  with stream_nack_inv [of c k] show "\<exists>m. hm_get (stream_inflight c) k = Some m \<and>
      stream_queued c' = stream_queued c @ [m] \<and> stream_inflight c' = hm_remove k (stream_inflight c)"
    by (auto simp: stream_queued_def stream_inflight_def inflight_update decoded_def
        entry_message_def split: option.splits)
next
  fix c c' :: "'d stream_consumer" and k r
  assume "stream_inv c" and r: "ec_nack (redis_consumer rounds) k c = (r, c')" "r \<noteq> Ret (Inr ())"
  then obtain x where x: "r = Ret x" "sk_codec c' = sk_codec c" "sc_pending c' = hm_remove k (sc_pending c)"
      "case hm_get (sc_pending c) k of None \<Rightarrow> \<not> is_ok x \<and> upcoming c' = upcoming c
        | Some (i, m) \<Rightarrow> is_ok x \<and> (\<exists>j b. upcoming c' = upcoming c @ [(j, Some b)] \<and> decode_msg (sk_codec c) b = Inr m)"
    using stream_nack_inv [of c k] by auto
  have "hm_get (sc_pending c) k = None" using x(1,4) r(2) by (cases x) (auto split: option.splits)
  with x show "stream_queued c' = stream_queued c \<and> stream_inflight c' = stream_inflight c"
    by (simp add: stream_queued_def stream_inflight_def)
qed


section \<open>Properties\<close>

text \<open>A consumer in memory for the messages of a table.\<close>

definition table_codec :: "(u8 list, emessage) hashmap \<Rightarrow> emessage codec" where
  "table_codec t = \<lparr>cd_enc = (\<lambda>m. case map_of (map prod.swap t) m of None \<Rightarrow> Inl ''unknown'' | Some b \<Rightarrow> Inr b),
     cd_dec = (\<lambda>b. case map_of t b of None \<Rightarrow> Inl ''unknown'' | Some m \<Rightarrow> Inr m)\<rparr>"

definition two_messages :: "(u8 list, emessage) hashmap" where
  "two_messages = [([1], emessage_default 1), ([2], emessage_default 2)]"

lemma table_codec_ok:
  assumes "distinct (map fst t)" and "distinct (map snd t)"
  shows "reencodes (table_codec t)" "codec_ok (table_codec t)"
proof -
  have sw: "distinct (map fst (map prod.swap t))" using assms(2) by (simp add: comp_def)
  have "map_of (map prod.swap t) m = Some b \<longleftrightarrow> map_of t b = Some m" for m b
    using map_of_eq_Some_iff [OF sw, of m b] map_of_eq_Some_iff [OF assms(1), of b m] by force
  note iff = this
  show ok: "codec_ok (table_codec t)"
    using iff
    by (auto simp: codec_ok_def table_codec_def split: option.splits)
  have "cd_dec (table_codec t) b = Inr m \<Longrightarrow> is_ok (cd_enc (table_codec t) m)" for b m
    using iff [of m b] by (auto simp: table_codec_def split: option.splits)
  with ok show "reencodes (table_codec t)" by (simp add: reencodes_def)
qed

definition two_entries :: mserver where
  "two_entries = \<lparr>ms_logs = [(''event_base:orders'', [(''1'', Some [1]), (''2'', Some [2])])], ms_groups = []\<rparr>"

definition memory_link :: "mserver slink" where
  "memory_link = \<lparr>sk_srv = memory_streams, sk_codec = table_codec two_messages, sk_d = two_entries\<rparr>"

definition memory_stream_consumer :: "mserver stream_consumer" where
  "memory_stream_consumer = stream_consumer_new memory_link ''event_base:orders'' ''event_base'' ''0'' 500 None unary_ambient"

lemma two_messages_ok [simp]: "reencodes (table_codec two_messages)" "codec_ok (table_codec two_messages)"
  by (rule table_codec_ok; simp add: two_messages_def emessage_default_def)+

lemma two_messages_decode [simp]:
  "decode_msg (table_codec two_messages) [1] = Inr (emessage_default 1)"
  "decode_msg (table_codec two_messages) [2] = Inr (emessage_default 2)"
  by (simp_all add: decode_msg_def table_codec_def two_messages_def check_wire_version_def emessage_default_def)

lemma memory_stream_consumer_simps [simp]:
  "sk_srv memory_stream_consumer = memory_streams" "sk_codec memory_stream_consumer = table_codec two_messages"
  "sk_d memory_stream_consumer = two_entries" "sc_key memory_stream_consumer = ''event_base:orders''"
  "sc_group memory_stream_consumer = ''event_base''" "sc_group_start memory_stream_consumer = ''0''"
  "sc_block_ms memory_stream_consumer = 500" "sc_maxlen memory_stream_consumer = None"
  "sc_pending memory_stream_consumer = []" "\<not> sc_group_ready memory_stream_consumer"
  "sc_amb memory_stream_consumer = snd (new_uuid unary_ambient)"
  by (simp_all add: memory_stream_consumer_def stream_consumer_new_def memory_link_def case_prod_beta')

lemma memory_upcoming [simp]:
  "to_come (ms_view two_entries) ''event_base:orders'' ''event_base'' ''0'' = [(''1'', Some [1]), (''2'', Some [2])]"
  by (simp add: to_come_def two_entries_def start_entries_def ms_log_def)

lemma memory_stream_inv: "stream_inv memory_stream_consumer"
  unfolding stream_inv_def by (simp add: memory_streams_laws entry_message_def)




end
