(* ===== verification/Stream_Group.thy ===== *)
theory Stream_Group
  imports Queue_Redis
begin

text \<open>
  The nodes of a deployment on one Redis server: producers append, consumers of any group claim,
  acknowledge, reject, take over stale entries, join and crash, in any order (relation
  \<open>cluster_step\<close>), and every command may fail or lose its answer. A message that was sent is
  never lost to a group: it waits in the stream or on the pending list of the group, or a
  consumer of the group has been told that it is done. An entry whose consumer crashed is
  handed out again by \<^verbatim>\<open>claim_stale\<close>.
\<close>

section \<open>What a group still has to handle\<close>

definition tidy :: "sview \<Rightarrow> bool" where
  "tidy v \<longleftrightarrow> (\<forall>k. distinct (map fst (sv_log v k)) \<and>
     (\<forall>g es. sv_new v k g = Some es \<longrightarrow> set es \<subseteq> set (sv_log v k)) \<and>
     (\<forall>g. sv_new v k g = None \<longrightarrow> sv_pel v k g = []))"

text \<open>The group and the message that are followed.\<close>

record watch =
  wt_codec :: "emessage codec"
  wt_key :: string
  wt_group :: string
  wt_start :: string
  wt_msg :: emessage

definition carries :: "watch \<Rightarrow> sview \<Rightarrow> string \<Rightarrow> u8 list \<Rightarrow> bool" where
  "carries T v i b \<longleftrightarrow> decode_msg (wt_codec T) b = Inr (wt_msg T) \<and> (i, Some b) \<in> set (sv_log v (wt_key T))"

definition outstanding :: "watch \<Rightarrow> sview \<Rightarrow> string \<Rightarrow> u8 list \<Rightarrow> bool" where
  "outstanding T v i b \<longleftrightarrow> (i, Some b) \<in> set (to_come v (wt_key T) (wt_group T) (wt_start T)) \<or>
     i \<in> set (sv_pel v (wt_key T) (wt_group T))"

definition waiting :: "watch \<Rightarrow> sview \<Rightarrow> bool" where
  "waiting T v \<longleftrightarrow> (\<exists>i b. carries T v i b \<and> outstanding T v i b)"

text \<open>A change of the server that loses nothing of this.\<close>

definition safe :: "watch \<Rightarrow> bool \<Rightarrow> sview \<Rightarrow> sview \<Rightarrow> bool" where
  "safe T on v v' \<longleftrightarrow> tidy v' \<and> (\<forall>k. set (sv_log v k) \<subseteq> set (sv_log v' k)) \<and>
     (on \<and> waiting T v \<longrightarrow> waiting T v')"

lemma tidyD:
  assumes "tidy v"
  shows "distinct (map fst (sv_log v k))" "sv_new v k g = Some es \<Longrightarrow> set es \<subseteq> set (sv_log v k)"
    "sv_new v k g = None \<Longrightarrow> sv_pel v k g = []"
  using assms by (auto simp: tidy_def)

lemma tidy_to_come: "tidy v \<Longrightarrow> set (to_come v k g st) \<subseteq> set (sv_log v k)"
  by (auto simp: to_come_def start_entries_def split: option.splits if_splits dest: tidyD(2))

lemma waitingI: "carries T v i b \<Longrightarrow> outstanding T v i b \<Longrightarrow> waiting T v"
  by (auto simp: waiting_def)

lemma safeI:
  assumes "tidy v'" and "\<And>k. set (sv_log v k) \<subseteq> set (sv_log v' k)"
    and "\<And>i b. \<lbrakk>on; carries T v i b; outstanding T v i b\<rbrakk> \<Longrightarrow> outstanding T v' i b"
  shows "safe T on v v'"
proof -
  have "waiting T v'" if "on" "waiting T v"
  proof -
    from that(2) obtain i b where i: "carries T v i b" "outstanding T v i b" by (auto simp: waiting_def)
    moreover have "carries T v' i b" using i(1) assms(2) by (auto simp: carries_def)
    ultimately show ?thesis using assms(3) [OF that(1)] waitingI by blast
  qed
  with assms(1,2) show ?thesis by (simp add: safe_def)
qed

lemma safe_refl: "tidy v \<Longrightarrow> safe T on v v"
  by (simp add: safe_def)

lemma safe_add:
  assumes "tidy v" and "add_effect k None b i v v'"
  shows "safe T on v v'"
proof (rule safeI)
  have v': "v' = sv_add k (i, Some b) v" "i \<notin> fst ` set (sv_log v k)"
    using assms(2) by (auto simp: add_effect_def)
  show "set (sv_log v k') \<subseteq> set (sv_log v' k')" for k' by (auto simp: v'(1))
  show "tidy v'" using assms(1) v' by (fastforce simp: tidy_def)
  show "outstanding T v i b \<Longrightarrow> outstanding T v' i b" for i b
    by (auto simp: outstanding_def v'(1) to_come_def start_entries_def split: option.splits)
qed

lemma add_waiting:
  assumes "add_effect (wt_key T) None b i v v'" and "decode_msg (wt_codec T) b = Inr (wt_msg T)"
    and "sv_new v (wt_key T) (wt_group T) \<noteq> None \<or> wt_start T = ''0''"
  shows "waiting T v'"
proof (rule waitingI)
  have v': "v' = sv_add (wt_key T) (i, Some b) v" using assms(1) by (simp add: add_effect_def)
  show "carries T v' i b" using assms(2) by (simp add: carries_def v')
  show "outstanding T v' i b"
    using assms(3) by (auto simp: outstanding_def v' to_come_def start_entries_def split: option.splits)
qed

lemma safe_create:
  assumes "tidy v" and "sv_new v k g = None" and "k = wt_key T \<Longrightarrow> g = wt_group T \<Longrightarrow> st = wt_start T"
  shows "safe T on v (sv_create k g (start_entries st (sv_log v k)) v)" (is "safe T on v ?v'")
proof (rule safeI)
  show "tidy ?v'"
    using assms(1) by (auto simp: tidy_def start_entries_def split: if_splits)
  have "sv_pel ?v' k' g' = sv_pel v k' g'" for k' g'
    using tidyD(3) [OF assms(1,2)] by simp
  then show "outstanding T v i b \<Longrightarrow> outstanding T ?v' i b" for i b
    using assms(2,3) by (auto simp: outstanding_def to_come_def split: option.splits)
qed simp

lemma safe_deliver:
  assumes "tidy v" and "sv_new v k g = Some es"
  shows "safe T on v (sv_deliver k g n v)" (is "safe T on v ?v'")
proof (rule safeI)
  show "tidy ?v'"
    using assms by (fastforce simp: tidy_def dest: in_set_dropD)
  have mem: "(i, x) \<in> set es \<Longrightarrow> (i, x) \<in> set (drop n es) \<or> i \<in> fst ` set (take n es)" for i x
    by (metis Un_iff append_take_drop_id fst_conv imageI set_append)
  show "outstanding T v i b \<Longrightarrow> outstanding T ?v' i b" for i b
    using assms(2) mem [of i "Some b"] by (auto simp: outstanding_def to_come_def split: option.splits)
qed simp

lemma safe_unpend:
  assumes "tidy v"
    and "\<And>i b. \<lbrakk>on; k = wt_key T; g = wt_group T; i \<in> ids\<rbrakk> \<Longrightarrow> \<not> carries T v i b"
  shows "safe T on v (sv_unpend k g ids v)"
proof (rule safeI)
  show "tidy (sv_unpend k g ids v)" using assms(1) by (auto simp: tidy_def)
  show "on \<Longrightarrow> carries T v i b \<Longrightarrow> outstanding T v i b \<Longrightarrow> outstanding T (sv_unpend k g ids v) i b" for i b
    using assms(2) [of i b] by (auto simp: outstanding_def)
qed simp

text \<open>An identifier names one entry.\<close>

lemma carries_unique:
  assumes "tidy v" and "(i, x) \<in> set (sv_log v (wt_key T))" and "carries T v i b"
  shows "x = Some b"
  using assms tidyD(1) [OF assms(1), of "wt_key T"] by (auto simp: carries_def dest: eq_key_imp_eq_value)


section \<open>Reasoning about a client\<close>

definition ends :: "('a \<Rightarrow> 's \<Rightarrow> bool) \<Rightarrow> ('s \<Rightarrow> bool) \<Rightarrow> 'a outcome \<times> 's \<Rightarrow> bool" where
  "ends Q E p \<longleftrightarrow> (case fst p of Ret x \<Rightarrow> Q x (snd p) | _ \<Rightarrow> E (snd p))"

definition post :: "('s \<Rightarrow> bool) \<Rightarrow> ('s, 'a) act \<Rightarrow> ('a \<Rightarrow> 's \<Rightarrow> bool) \<Rightarrow> ('s \<Rightarrow> bool) \<Rightarrow> bool" where
  "post P f Q E \<longleftrightarrow> (\<forall>s. P s \<longrightarrow> ends Q E (f s))"

lemma ends_simps [simp]:
  "ends Q E (Ret x, s) = Q x s" "ends Q E (Pending, s) = E s" "ends Q E (Blocked, s) = E s"
  "ends Q E (Panic e, s) = E s"
  by (simp_all add: ends_def)

lemma postD: "post P f Q E \<Longrightarrow> P s \<Longrightarrow> ends Q E (f s)"
  by (simp add: post_def)

lemma ends_mono: "ends Q E p \<Longrightarrow> (\<And>x s. Q x s \<Longrightarrow> Q' x s) \<Longrightarrow> (\<And>s. E s \<Longrightarrow> E' s) \<Longrightarrow> ends Q' E' p"
  by (auto simp: ends_def split: outcome.splits)

lemma post_weaken:
  assumes "post P f Q E" and "\<And>s. P' s \<Longrightarrow> P s" and "\<And>x s. Q x s \<Longrightarrow> Q' x s"
  shows "post P' f Q' E"
  unfolding post_def using postD [OF assms(1)] assms(2,3) ends_mono by blast

lemma post_ret: "(\<And>s. P s \<Longrightarrow> Q x s) \<Longrightarrow> post P (ret x) Q E"
  by (simp add: post_def ret_def)

lemma post_bindA:
  assumes "post P f R E" and "\<And>x. post (R x) (k x) Q E"
  shows "post P (bindA f k) Q E"
  unfolding post_def
proof (intro allI impI)
  fix s
  assume "P s"
  obtain r s1 where r: "f s = (r, s1)" by fastforce
  with postD [OF assms(1) \<open>P s\<close>] have "ends R E (r, s1)" by simp
  with r show "ends Q E (bindA f k s)"
    by (cases r) (simp_all add: bindA_def postD [OF assms(2)])
qed

lemma post_bindQ:
  assumes "post P f (\<lambda>r s. case r of Inl e \<Rightarrow> Q (Inl e) s | Inr x \<Rightarrow> R x s) E"
    and "\<And>x. post (R x) (k x) Q E"
  shows "post P (bindQ f k) Q E"
proof -
  have "post (\<lambda>s. case r of Inl e \<Rightarrow> Q (Inl e) s | Inr x \<Rightarrow> R x s)
      (case r of Inl e \<Rightarrow> ret (Inl e) | Inr x \<Rightarrow> k x) Q E" for r
    using assms(2) by (cases r) (auto intro: post_ret)
  then show ?thesis unfolding bindQ_def by (rule post_bindA [OF assms(1)])
qed

lemma post_getA: "(\<And>s. P s \<Longrightarrow> Q (f s) s) \<Longrightarrow> post P (getA f) Q E"
  by (simp add: post_def getA_def)

lemma post_putA: "(\<And>s. P s \<Longrightarrow> Q () (f s)) \<Longrightarrow> post P (putA f) Q E"
  by (simp add: post_def putA_def)

lemma post_ex: "(\<And>x. post (P x) f Q E) \<Longrightarrow> post (\<lambda>s. \<exists>x. P x s) f Q E"
  unfolding post_def by blast

lemma post_pure: "(A \<Longrightarrow> post P f Q E) \<Longrightarrow> post (\<lambda>s. A \<and> P s) f Q E"
  unfolding post_def by blast

text \<open>
  A consumer of a stream and group, seen by an observer who follows a message: \<open>L\<close> holds entries
  known to be in the streams.
\<close>

record 'd seat =
  st_srv :: "'d streams"
  st_watch :: watch
  st_on :: bool
  st_key :: string
  st_group :: string

definition known :: "watch \<Rightarrow> entry set \<Rightarrow> string \<Rightarrow> emessage \<Rightarrow> bool" where
  "known T es i m \<longleftrightarrow> (\<exists>b. (i, Some b) \<in> es \<and> decode_msg (wt_codec T) b = Inr m)"

definition seated :: "'d seat \<Rightarrow> (string \<Rightarrow> entry set) \<Rightarrow> 'd stream_consumer \<Rightarrow> bool" where
  "seated Z L c \<longleftrightarrow> sk_srv c = st_srv Z \<and> sk_codec c = wt_codec (st_watch Z) \<and> sc_key c = st_key Z \<and>
     sc_group c = st_group Z \<and> sc_maxlen c = None \<and> 0 < sc_block_ms c \<and>
     (st_key Z = wt_key (st_watch Z) \<longrightarrow> sc_group_start c = wt_start (st_watch Z)) \<and>
     tidy (sview_of c) \<and> (\<forall>k. L k \<subseteq> set (sv_log (sview_of c) k)) \<and>
     (\<forall>(q, i, m) \<in> set (sc_pending c). known (st_watch Z) (set (sv_log (sview_of c) (st_key Z))) i m) \<and>
     (st_on Z \<longrightarrow> waiting (st_watch Z) (sview_of c))"

text \<open>Acknowledging \<open>i\<close> does not settle the message that is followed.\<close>

definition spares :: "'d seat \<Rightarrow> (string \<Rightarrow> entry set) \<Rightarrow> string \<Rightarrow> bool" where
  "spares Z L i \<longleftrightarrow> (st_on Z \<and> st_key Z = wt_key (st_watch Z) \<and> st_group Z = wt_group (st_watch Z) \<longrightarrow>
     (\<exists>x. (i, x) \<in> L (st_key Z) \<and> (\<forall>b. x = Some b \<longrightarrow> decode_msg (wt_codec (st_watch Z)) b \<noteq> Inr (wt_msg (st_watch Z)))))"

lemma known_mono: "known T es i m \<Longrightarrow> es \<subseteq> es' \<Longrightarrow> known T es' i m"
  by (auto simp: known_def)

lemma seatedD:
  assumes "seated Z L c"
  shows "sk_srv c = st_srv Z" "sk_codec c = wt_codec (st_watch Z)" "sc_key c = st_key Z" "sc_group c = st_group Z"
    "sc_maxlen c = None" "0 < sc_block_ms c" "tidy (sview_of c)" "L k \<subseteq> set (sv_log (sview_of c) k)"
    "st_key Z = wt_key (st_watch Z) \<Longrightarrow> sc_group_start c = wt_start (st_watch Z)"
    "st_on Z \<Longrightarrow> waiting (st_watch Z) (sview_of c)"
    "(q, i, m) \<in> set (sc_pending c) \<Longrightarrow> known (st_watch Z) (set (sv_log (sview_of c) (st_key Z))) i m"
  using assms unfolding seated_def by blast+

lemma seated_local [simp]:
  "seated Z L (c\<lparr>sc_conn := x\<rparr>) = seated Z L c" "seated Z L (c\<lparr>sc_group_ready := x\<rparr>) = seated Z L c"
  "seated Z L (c\<lparr>sc_amb := a\<rparr>) = seated Z L c"
  by (simp_all add: seated_def)

lemma seated_safe:
  assumes "seated Z L c" and "safe (st_watch Z) (st_on Z) (sview_of c) (xs_view (st_srv Z) d')"
  shows "seated Z L (c\<lparr>sk_d := d'\<rparr>)"
proof -
  have log: "set (sv_log (sview_of c) k) \<subseteq> set (sv_log (xs_view (st_srv Z) d') k)" for k
    using assms(2) by (simp add: safe_def)
  have "\<forall>(q, i, m) \<in> set (sc_pending c). known (st_watch Z) (set (sv_log (xs_view (st_srv Z) d') (st_key Z))) i m"
    using seatedD(11) [OF assms(1)] known_mono [OF _ log] by blast
  moreover have "\<forall>k. L k \<subseteq> set (sv_log (xs_view (st_srv Z) d') k)"
    using seatedD(8) [OF assms(1)] log by blast
  ultimately show ?thesis
    unfolding seated_def using seatedD(1-6,9,10) [OF assms(1)] assms(2) by (simp add: safe_def)
qed

lemma seated_more: "seated Z L c \<Longrightarrow> seated Z (\<lambda>k. set (sv_log (sview_of c) k)) c"
  unfolding seated_def by (elim conjE, intro conjI) (assumption | simp)+

lemma seated_less: "seated Z L' c \<Longrightarrow> (\<And>k. L k \<subseteq> L' k) \<Longrightarrow> seated Z L c"
  unfolding seated_def by (elim conjE, intro conjI) (assumption | blast)+

text \<open>A command either answers with its effect, or fails with or without it.\<close>

lemma post_command:
  assumes "stream_ok (st_srv Z) (f (st_srv Z)) fit eff" and "\<And>c. P c \<Longrightarrow> seated Z L c"
    and "\<And>c y v'. P c \<Longrightarrow> eff y (sview_of c) v' \<Longrightarrow> safe (st_watch Z) (st_on Z) (sview_of c) v'"
    and "\<And>c y d'. \<lbrakk>P c; eff y (sview_of c) (xs_view (st_srv Z) d'); seated Z L (c\<lparr>sk_d := d'\<rparr>)\<rbrakk> \<Longrightarrow>
      Q (Inr y) (c\<lparr>sk_d := d'\<rparr>)"
    and "\<And>c e d'. P c \<Longrightarrow> seated Z L (c\<lparr>sk_d := d'\<rparr>) \<Longrightarrow> Q (Inl (err e)) (c\<lparr>sk_d := d'\<rparr>)"
  shows "post P (on_srv f err) Q E"
  unfolding post_def
proof (intro allI impI)
  fix c
  assume P: "P c"
  note srv = seatedD(1) [OF assms(2) [OF P]]
  have seat: "seated Z L (c\<lparr>sk_d := d'\<rparr>)" if "eff y (sview_of c) (xs_view (st_srv Z) d')" for y d'
    by (rule seated_safe [OF assms(2) [OF P] assms(3) [OF P that]])
  show "ends Q E (on_srv f err c)"
  proof (cases rule: command_any [OF assms(1), of "sk_d c"])
    case (1 y d')
    then show ?thesis using assms(4) [OF P _ seat] srv by (auto simp: on_srv_def)
  next
    case (2 e d')
    have "seated Z L (c\<lparr>sk_d := d'\<rparr>)"
    proof (cases "xs_view (st_srv Z) d' = sview_of c")
      case True
      then show ?thesis using seated_safe [OF assms(2) [OF P]] safe_refl [OF seatedD(7) [OF assms(2) [OF P]]] by simp
    next
      case False
      then show ?thesis using 2(2) srv seat by (auto simp: or_lost_def)
    qed
    with 2(1) assms(5) [OF P] srv show ?thesis by (simp add: on_srv_def)
  qed
qed

lemma post_connect:
  assumes "stream_laws (st_srv Z)"
  shows "post (seated Z L) conn (\<lambda>_. seated Z L) E"
  unfolding conn_def
proof (rule post_bindA [where R = "\<lambda>_. seated Z L"])
  show "post (seated Z L) (getA sc_conn) (\<lambda>_. seated Z L) E" by (rule post_getA)
  have "post (seated Z L) (on_srv xs_connect recv_err) (\<lambda>r s. case r of Inl e \<Rightarrow> seated Z L s | Inr _ \<Rightarrow> seated Z L s) E"
    by (rule post_command [where f = xs_connect and Z = Z and L = L, OF xs_connect_law [OF assms]])
      (simp_all add: seatedD(7) safe_refl)
  then show "post (seated Z L) (if opened then ret (Inr ()) else
      bindQ (on_srv xs_connect recv_err) (\<lambda>_. bindA (putA (sc_conn_update (\<lambda>_. True))) (\<lambda>_. ret (Inr ()))))
      (\<lambda>_. seated Z L) E" for opened
    by (auto intro!: post_ret post_bindQ [where R = "\<lambda>_. seated Z L"] post_bindA [where R = "\<lambda>_. seated Z L"]
        post_putA)
qed


lemma post_if: "(A \<Longrightarrow> post P f Q E) \<Longrightarrow> (\<not> A \<Longrightarrow> post P g Q E) \<Longrightarrow> post P (if A then f else g) Q E"
  by simp

lemma post_read_state: "(\<And>s. P s \<Longrightarrow> post (\<lambda>s'. s' = s \<and> P s) (k s) Q E) \<Longrightarrow> post P (bindA (getA (\<lambda>s. s)) k) Q E"
  by (simp add: post_def bindA_def getA_def)

lemma post_set_ready:
  "post (seated Z L) (bindA (putA (sc_group_ready_update (\<lambda>_. True))) (\<lambda>_. ret (Inr ()))) (\<lambda>_. seated Z L) E"
  by (rule post_bindA [where R = "\<lambda>_. seated Z L"]) (auto intro!: post_putA post_ret)

lemma post_ensure_group:
  assumes "stream_laws (st_srv Z)"
  shows "post (seated Z L) ensure_group (\<lambda>_. seated Z L) E"
  unfolding ensure_group_def
proof (intro post_read_state post_if)
  fix c
  assume c: "seated Z L c"
  show "post (\<lambda>s'. s' = c \<and> seated Z L c) (ret (Inr ())) (\<lambda>_. seated Z L) E" by (rule post_ret) simp
  let ?f = "\<lambda>s. xs_group s (sc_key c) (sc_group c) (sc_group_start c)"
  have "post (\<lambda>s'. s' = c \<and> seated Z L c) (on_srv ?f recv_err) (\<lambda>r s. seated Z L s) E"
  proof (rule post_command [where f = ?f and Z = Z and L = L, OF xs_group_law [OF assms]])
    fix c' :: "'a stream_consumer" and y v'
    assume "c' = c \<and> seated Z L c" and "sv_new (sview_of c') (sc_key c) (sc_group c) = None \<and>
        v' = sv_create (sc_key c) (sc_group c) (start_entries (sc_group_start c) (sv_log (sview_of c') (sc_key c))) (sview_of c')"
    then show "safe (st_watch Z) (st_on Z) (sview_of c') v'"
      using safe_create [OF seatedD(7) [OF c], of "sc_key c" "sc_group c" "st_watch Z" "sc_group_start c" "st_on Z"]
        seatedD(3,9) [OF c] by auto
  qed simp_all
  then show "post (\<lambda>s'. s' = c \<and> seated Z L c) (bindA (on_srv ?f recv_err) (\<lambda>r. case r of
           Inr _ \<Rightarrow> bindA (putA (sc_group_ready_update (\<lambda>_. True))) (\<lambda>_. ret (Inr ()))
         | Inl (EQueue (QReceive e)) \<Rightarrow>
             if sublist ''BUSYGROUP'' e then bindA (putA (sc_group_ready_update (\<lambda>_. True))) (\<lambda>_. ret (Inr ()))
             else ret (Inl (EQueue (QReceive e)))
         | Inl e \<Rightarrow> ret (Inl e))) (\<lambda>_. seated Z L) E"
  proof (rule post_bindA)
    show "post (seated Z L) (case r of
           Inr _ \<Rightarrow> bindA (putA (sc_group_ready_update (\<lambda>_. True))) (\<lambda>_. ret (Inr ()))
         | Inl (EQueue (QReceive e)) \<Rightarrow>
             if sublist ''BUSYGROUP'' e then bindA (putA (sc_group_ready_update (\<lambda>_. True))) (\<lambda>_. ret (Inr ()))
             else ret (Inl (EQueue (QReceive e)))
         | Inl e \<Rightarrow> ret (Inl e)) (\<lambda>_. seated Z L) E" for r
      by (auto intro!: post_ret post_set_ready split: sum.split core_error.split queue_error.split)
  qed
qed

lemma post_ready:
  assumes "stream_laws (st_srv Z)"
  shows "post (seated Z L) ready_conn (\<lambda>_. seated Z L) E"
proof -
  have "post (seated Z L) conn (\<lambda>r s. case r of Inl e \<Rightarrow> seated Z L s | Inr x \<Rightarrow> seated Z L s) E"
    by (rule post_weaken [OF post_connect [OF assms]]) (auto split: sum.splits)
  then show ?thesis unfolding ready_conn_def by (rule post_bindQ) (rule post_ensure_group [OF assms])
qed

lemma spares_not_carried:
  assumes "seated Z L c" and "spares Z L i" and "st_on Z" and "st_key Z = wt_key (st_watch Z)"
    and "st_group Z = wt_group (st_watch Z)"
  shows "\<not> carries (st_watch Z) (sview_of c) i b"
proof
  assume b: "carries (st_watch Z) (sview_of c) i b"
  obtain x where x: "(i, x) \<in> L (st_key Z)"
      "\<forall>b. x = Some b \<longrightarrow> decode_msg (wt_codec (st_watch Z)) b \<noteq> Inr (wt_msg (st_watch Z))"
    using assms(2-5) by (auto simp: spares_def)
  then have "(i, x) \<in> set (sv_log (sview_of c) (wt_key (st_watch Z)))"
    using seatedD(8) [OF assms(1)] assms(4) by auto
  from carries_unique [OF seatedD(7) [OF assms(1)] this b] x(2) b show False by (simp add: carries_def)
qed

lemma post_ack_entry_if:
  assumes "stream_laws (st_srv Z)" and "\<And>c. P c \<Longrightarrow> seated Z L c"
    and "\<And>c. P c \<Longrightarrow> safe (st_watch Z) (st_on Z) (sview_of c) (sv_unpend (st_key Z) (st_group Z) {i} (sview_of c))"
  shows "post P (ack_entry i) (\<lambda>_. seated Z L) E"
  unfolding ack_entry_def
proof (rule post_read_state)
  fix c
  assume c: "P c"
  let ?f = "\<lambda>s. xs_ack s (sc_key c) (sc_group c) i"
  have "post (\<lambda>s'. s' = c \<and> P c) (on_srv ?f send_err) (\<lambda>r s. case r of Inl e \<Rightarrow> seated Z L s | Inr _ \<Rightarrow> seated Z L s) E"
    by (rule post_command [where f = ?f and Z = Z and L = L, OF xs_ack_law [OF assms(1)]])
      (use assms(2,3) seatedD(3,4) [OF assms(2) [OF c]] in auto)
  then show "post (\<lambda>s'. s' = c \<and> P c) (xack (sc_key c) (sc_group c) i) (\<lambda>_. seated Z L) E"
    unfolding xack_def by (rule post_bindQ) (auto intro: post_ret)
qed

lemma post_ack_entry:
  assumes "stream_laws (st_srv Z)" and "spares Z L i"
  shows "post (seated Z L) (ack_entry i) (\<lambda>_. seated Z L) E"
  by (rule post_ack_entry_if [OF assms(1)])
    (auto intro!: safe_unpend simp: seatedD(7) spares_not_carried [OF _ assms(2)])

definition gathered :: "'d seat \<Rightarrow> (string \<Rightarrow> entry set) \<Rightarrow> (string \<times> emessage) list \<Rightarrow> bool" where
  "gathered Z L es \<longleftrightarrow> (\<forall>(i, m) \<in> set es. known (st_watch Z) (L (st_key Z)) i m)"

lemma post_decode_entries:
  assumes "stream_laws (st_srv Z)" and "set es \<subseteq> L (st_key Z)" and "gathered Z L out"
  shows "post (seated Z L) (decode_entries es out)
     (\<lambda>r s. seated Z L s \<and> (case r of Inl _ \<Rightarrow> True | Inr es \<Rightarrow> gathered Z L es)) E"
  using assms(2,3)
proof (induction es arbitrary: out)
  case Nil
  then show ?case by (auto intro: post_ret)
next
  case (Cons e es)
  obtain i x where e: "e = (i, x)" by fastforce
  show ?case
  proof (cases x)
    case None
    then have "spares Z L i" using Cons.prems(1) e by (auto simp: spares_def)
    then show ?thesis
      using Cons.IH [of out] Cons.prems e None
      by (auto intro!: post_bindA [OF post_ack_entry [OF assms(1)]])
  next
    case (Some b)
    have "post (seated Z L) (getA sk_codec) (\<lambda>c s. c = wt_codec (st_watch Z) \<and> seated Z L s) E"
      by (rule post_getA) (simp add: seatedD(2))
    moreover have "post (\<lambda>s. c = wt_codec (st_watch Z) \<and> seated Z L s)
        (bindQ (ret (decode_msg c b)) (\<lambda>m. decode_entries es (out @ [(i, m)])))
        (\<lambda>r s. seated Z L s \<and> (case r of Inl _ \<Rightarrow> True | Inr es \<Rightarrow> gathered Z L es)) E" for c
    proof (rule post_pure)
      assume c: "c = wt_codec (st_watch Z)"
      show "post (seated Z L) (bindQ (ret (decode_msg c b)) (\<lambda>m. decode_entries es (out @ [(i, m)])))
        (\<lambda>r s. seated Z L s \<and> (case r of Inl _ \<Rightarrow> True | Inr es \<Rightarrow> gathered Z L es)) E"
      proof (cases "decode_msg c b")
        case (Inl err)
        then show ?thesis by (simp add: bindQ_ret_Inl post_ret)
      next
        case (Inr m)
        then have "gathered Z L (out @ [(i, m)])"
          using Cons.prems c e Some by (auto simp: gathered_def known_def)
        with Inr Cons.IH Cons.prems(1) show ?thesis by (simp add: bindQ_ret_Inr)
      qed
    qed
    ultimately show ?thesis unfolding e Some decode_entries.simps by (rule post_bindA)
  qed
qed


definition found :: "'d seat \<Rightarrow> (string \<Rightarrow> entry set) \<Rightarrow> (string \<times> emessage) list \<Rightarrow> 'd stream_consumer \<Rightarrow> bool" where
  "found Z L es s \<longleftrightarrow> (\<exists>L'. (\<forall>k. L k \<subseteq> L' k) \<and> gathered Z L' es \<and> seated Z L' s)"

lemma post_read_group:
  assumes "stream_laws (st_srv Z)"
  shows "post (seated Z L) (read_group n) (\<lambda>r s. case r of Inl _ \<Rightarrow> seated Z L s | Inr es \<Rightarrow> found Z L es s) E"
    (is "post _ _ ?Q E")
  unfolding read_group_def
proof (rule post_bindQ [where R = "\<lambda>_. seated Z L"])
  show "post (seated Z L) ready_conn (\<lambda>r s. case r of Inl e \<Rightarrow> ?Q (Inl e) s | Inr x \<Rightarrow> seated Z L s) E"
    by (rule post_weaken [OF post_ready [OF assms]]) (auto split: sum.splits)
next
  let ?entries = "\<lambda>reply. case reply of None \<Rightarrow> [] | Some keys \<Rightarrow> concat (map snd (keys :: (string \<times> entry list) list))"
  show "post (seated Z L) (bindA (getA (\<lambda>c. c)) (\<lambda>c.
     bindQ (on_srv (\<lambda>s. xs_read s (sc_key c) (sc_group c) (sc_name c) (sc_block_ms c) n) recv_err)
       (\<lambda>reply. decode_entries (?entries reply) []))) ?Q E" for x :: unit
  proof (rule post_read_state)
    fix c
    assume c: "seated Z L c"
    let ?f = "\<lambda>s. xs_read s (sc_key c) (sc_group c) (sc_name c) (sc_block_ms c) n"
    let ?R = "\<lambda>reply s. \<exists>L'. (\<forall>k. L k \<subseteq> L' k) \<and> set (?entries reply) \<subseteq> L' (st_key Z) \<and> seated Z L' s"
    show "post (\<lambda>s'. s' = c \<and> seated Z L c) (bindQ (on_srv ?f recv_err) (\<lambda>reply. decode_entries (?entries reply) [])) ?Q E"
    proof (rule post_bindQ [where R = ?R])
      show "post (\<lambda>s'. s' = c \<and> seated Z L c) (on_srv ?f recv_err)
          (\<lambda>r s. case r of Inl e \<Rightarrow> ?Q (Inl e) s | Inr x \<Rightarrow> ?R x s) E"
      proof (rule post_command [where f = ?f and Z = Z and L = L, OF xs_read_law [OF assms seatedD(6) [OF c]]])
        fix c' :: "'a stream_consumer" and y v'
        assume "c' = c \<and> seated Z L c" and "read_effect (sc_key c) (sc_group c) n y (sview_of c') v'"
        then show "safe (st_watch Z) (st_on Z) (sview_of c') v'"
          using safe_deliver seatedD(7) [OF c] by (auto simp: read_effect_def)
      next
        fix c' :: "'a stream_consumer" and y d'
        assume *: "c' = c \<and> seated Z L c" "read_effect (sc_key c) (sc_group c) n y (sview_of c') (xs_view (st_srv Z) d')"
          and seat: "seated Z L (c'\<lparr>sk_d := d'\<rparr>)"
        let ?c = "c'\<lparr>sk_d := d'\<rparr>"
        obtain es where es: "sv_new (sview_of c) (sc_key c) (sc_group c) = Some es"
            "sv_log (sview_of ?c) = sv_log (sview_of c)" "set (?entries y) \<subseteq> set es"
          using * seatedD(1) [OF c] by (auto simp: read_effect_def set_take_subset split: if_splits)
        then have "set (?entries y) \<subseteq> set (sv_log (sview_of ?c) (st_key Z))"
          using tidyD(2) [OF seatedD(7) [OF c] es(1)] seatedD(3) [OF c] by auto
        moreover have "seated Z (\<lambda>k. set (sv_log (sview_of ?c) k)) ?c" by (rule seated_more [OF seat])
        moreover have "\<forall>k. L k \<subseteq> set (sv_log (sview_of ?c) k)" using seatedD(8) [OF seat] by (rule allI)
        ultimately have "?R y ?c" by (intro exI [of _ "\<lambda>k. set (sv_log (sview_of ?c) k)"] conjI)
        then show "case Inr y of Inl e \<Rightarrow> ?Q (Inl e) ?c | Inr x \<Rightarrow> ?R x ?c" by simp
      qed simp_all
    next
      fix reply
      show "post (?R reply) (decode_entries (?entries reply) []) ?Q E"
      proof (intro post_ex)
        fix L'
        show "post (\<lambda>s. (\<forall>k. L k \<subseteq> L' k) \<and> set (?entries reply) \<subseteq> L' (st_key Z) \<and> seated Z L' s)
            (decode_entries (?entries reply) []) ?Q E"
        proof (intro post_pure)
          assume L: "\<forall>k. L k \<subseteq> L' k" and es: "set (?entries reply) \<subseteq> L' (st_key Z)"
          have "gathered Z L' []" by (simp add: gathered_def)
          from post_decode_entries [where L = L', OF assms es this]
          show "post (seated Z L') (decode_entries (?entries reply) []) ?Q E"
            by (rule post_weaken) (use L in \<open>auto simp: found_def intro: seated_less split: sum.splits\<close>)
        qed
      qed
    qed
  qed
qed

lemma set_hm_insert: "set (hm_insert k v m) \<subseteq> insert (k, v) (set m)"
  by (induction m) auto

lemma seated_register:
  assumes "seated Z L c" and "known (st_watch Z) (L (st_key Z)) i m"
  shows "seated Z L (c\<lparr>sc_pending := hm_insert q (i, m) (sc_pending c)\<rparr>)"
proof -
  have "known (st_watch Z) (set (sv_log (sview_of c) (st_key Z))) i m"
    using known_mono [OF assms(2) seatedD(8) [OF assms(1)]] .
  then have "\<forall>(q, i, m) \<in> set (hm_insert q (i, m) (sc_pending c)).
      known (st_watch Z) (set (sv_log (sview_of c) (st_key Z))) i m"
    using seatedD(11) [OF assms(1)] set_hm_insert [of q "(i, m)" "sc_pending c"] by blast
  then show ?thesis using assms(1) unfolding seated_def by (elim conjE, intro conjI) simp_all
qed

lemma post_register:
  assumes "known (st_watch Z) (L (st_key Z)) i m"
  shows "post (seated Z L) (register_stream_claim now (i, m)) (\<lambda>_. seated Z L) E"
  using assms by (auto simp: post_def register_stream_claim_def Let_def split: prod.split intro: seated_register)

lemma post_register_all:
  assumes "gathered Z L es"
  shows "post (seated Z L) (register_all_claims now es batch) (\<lambda>_. seated Z L) E"
  using assms
proof (induction es arbitrary: batch)
  case (Cons e es)
  obtain i m where e: "e = (i, m)" by fastforce
  with Cons have "known (st_watch Z) (L (st_key Z)) i m" "gathered Z L es" by (auto simp: gathered_def)
  with Cons.IH e show ?case by (auto intro: post_bindA post_register)
qed (simp add: post_ret)

lemma post_now: "post (seated Z L) now_of (\<lambda>_. seated Z L) E"
  by (auto simp: post_def now_of_def Let_def split: prod.split)

lemma post_claim_batch:
  assumes "stream_laws (st_srv Z)"
  shows "post (seated Z L) (stream_claim_batch n) (\<lambda>_. seated Z L) E"
  unfolding stream_claim_batch_def
proof (rule post_if)
  show "post (seated Z L) (ret (Inr [])) (\<lambda>_. seated Z L) E" by (rule post_ret)
  let ?rest = "\<lambda>entries. if entries = [] then ret (Inr []) else
      bindA now_of (\<lambda>now. bindA (register_all_claims now entries []) (\<lambda>batch. ret (Inr batch)))"
  have "post (found Z L es) (?rest es) (\<lambda>_. seated Z L) E" for es
    unfolding found_def
  proof (intro post_ex post_pure)
    fix L'
    assume L: "\<forall>k. L k \<subseteq> L' k" and es: "gathered Z L' es"
    have "post (seated Z L') (?rest es) (\<lambda>_. seated Z L') E"
      by (auto intro!: post_if post_ret post_bindA [OF post_now] post_bindA [OF post_register_all [OF es]])
    then show "post (seated Z L') (?rest es) (\<lambda>_. seated Z L) E"
      by (rule post_weaken) (use L in \<open>auto intro: seated_less\<close>)
  qed
  moreover have "post (seated Z L) (read_group n) (\<lambda>r s. case r of Inl e \<Rightarrow> seated Z L s | Inr es \<Rightarrow> found Z L es s) E"
    by (rule post_read_group [OF assms])
  ultimately show "post (seated Z L) (bindQ (read_group n) ?rest) (\<lambda>_. seated Z L) E"
    by (rule post_bindQ [rotated])
qed

text \<open>The observer stops following once the message has been settled.\<close>

definition settles :: "'d seat \<Rightarrow> emessage \<Rightarrow> bool" where
  "settles Z m \<longleftrightarrow> st_key Z = wt_key (st_watch Z) \<and> st_group Z = wt_group (st_watch Z) \<and> m = wt_msg (st_watch Z)"

definition off :: "bool \<Rightarrow> 'd seat \<Rightarrow> 'd seat" where
  "off b Z = Z\<lparr>st_on := st_on Z \<and> \<not> b\<rparr>"

lemma off_simps [simp]:
  "st_srv (off b Z) = st_srv Z" "st_watch (off b Z) = st_watch Z" "st_key (off b Z) = st_key Z"
  "st_group (off b Z) = st_group Z" "st_on (off b Z) = (st_on Z \<and> \<not> b)"
  by (simp_all add: off_def)

lemma seated_off: "seated Z L c \<Longrightarrow> seated (off b Z) L c"
  unfolding seated_def off_simps by (elim conjE, intro conjI) (assumption | (rule impI, elim conjE, erule mp, assumption))+

lemma off_False [simp]: "off False Z = Z"
  by (simp add: off_def)

lemma known_spares:
  assumes "known (st_watch Z) (L (st_key Z)) i m"
  shows "spares (off (settles Z m) Z) L i"
  using assms by (auto simp: known_def spares_def settles_def)

lemma post_ack_known:
  assumes "stream_laws (st_srv Z)" and "known (st_watch Z) (L (st_key Z)) i m"
  shows "post (seated Z L) (ack_entry i) (\<lambda>_. seated (off (settles Z m) Z) L) E"
proof -
  have "spares (off (settles Z m) Z) L i" using assms(2) by (rule known_spares)
  with assms(1) have "post (seated (off (settles Z m) Z) L) (ack_entry i) (\<lambda>_. seated (off (settles Z m) Z) L) E"
    by (intro post_ack_entry) simp_all
  then show ?thesis by (rule post_weaken) (rule seated_off)
qed


lemma seated_run:
  assumes "post (seated Z L) f (\<lambda>_. seated Z' L) (seated Z' L)" and "seated Z L c"
  shows "seated Z' L (snd (f c))"
proof (cases "f c")
  case (Pair r s)
  with postD [OF assms] show ?thesis by (cases r) simp_all
qed

lemma seated_forget:
  assumes "seated Z L c"
  shows "seated Z L (c\<lparr>sc_pending := hm_remove q (sc_pending c)\<rparr>)"
proof -
  have "set (hm_remove q (sc_pending c)) \<subseteq> set (sc_pending c)" by (auto simp: AList.delete_eq)
  then have "\<forall>(q, i, m) \<in> set (hm_remove q (sc_pending c)).
      known (st_watch Z) (set (sv_log (sview_of c) (st_key Z))) i m"
    using seatedD(11) [OF assms] by blast
  then show ?thesis using assms unfolding seated_def by (elim conjE, intro conjI) simp_all
qed

lemma post_connected:
  assumes "stream_laws (st_srv Z)" and "post (seated Z L) f (\<lambda>_. seated (off b Z) L) E"
  shows "post (seated Z L) (bindQ conn (\<lambda>_. f)) (\<lambda>_. seated (off b Z) L) E"
proof (rule post_bindQ [where R = "\<lambda>_. seated Z L"])
  show "post (seated Z L) conn (\<lambda>r s. case r of Inl e \<Rightarrow> seated (off b Z) L s | Inr x \<Rightarrow> seated Z L s) E"
    by (rule post_weaken [OF post_connect [OF assms(1)]]) (auto intro: seated_off split: sum.split)
qed (rule assms(2))

definition claim_settled :: "'d stream_consumer \<Rightarrow> string \<Rightarrow> emessage list" where
  "claim_settled c q = (case hm_get (sc_pending c) q of None \<Rightarrow> [] | Some (i, m) \<Rightarrow> [m])"

lemma seated_ack:
  assumes "stream_laws (st_srv Z)" and "seated Z L c"
  shows "seated (off (\<exists>m \<in> set (claim_settled c q). settles Z m) Z) L (snd (stream_ack q c))"
proof (cases "hm_get (sc_pending c) q")
  case None
  then show ?thesis
    using seated_forget [OF assms(2)] assms(2)
    by (simp add: stream_ack_def take_pending_def bindA_def ret_def claim_settled_def)
next
  case (Some e)
  obtain i m where e: "e = (i, m)" by fastforce
  let ?L = "\<lambda>k. set (sv_log (sview_of c) k)" and ?c = "c\<lparr>sc_pending := hm_remove q (sc_pending c)\<rparr>"
  have "known (st_watch Z) (?L (st_key Z)) i m"
    using seatedD(11) [OF assms(2)] map_of_SomeD [OF Some] e by blast
  then have "post (seated Z ?L) (bindQ conn (\<lambda>_. ack_entry i)) (\<lambda>_. seated (off (settles Z m) Z) ?L)
      (seated (off (settles Z m) Z) ?L)"
    by (intro post_connected assms(1) post_ack_known)
  moreover have "seated Z ?L ?c" by (rule seated_forget [OF seated_more [OF assms(2)]])
  ultimately have "seated (off (settles Z m) Z) ?L (snd (bindQ conn (\<lambda>_. ack_entry i) ?c))" by (rule seated_run)
  then have "seated (off (settles Z m) Z) L (snd (bindQ conn (\<lambda>_. ack_entry i) ?c))"
    using seatedD(8) [OF assms(2)] by (rule seated_less)
  with Some e show ?thesis by (simp add: stream_ack_def take_pending_def bindA_def claim_settled_def)
qed

lemma waiting_group:
  assumes "tidy v" and "waiting T v"
  shows "sv_new v (wt_key T) (wt_group T) \<noteq> None \<or> wt_start T = ''0''"
proof (cases "sv_new v (wt_key T) (wt_group T)")
  case None
  with assms(2) tidyD(3) [OF assms(1) None] show ?thesis
    by (auto simp: waiting_def outstanding_def to_come_def start_entries_def split: if_splits)
qed simp

text \<open>After a rejection the copy at the end of the stream stands for the entry.\<close>

definition copied :: "'d seat \<Rightarrow> string \<Rightarrow> sview \<Rightarrow> bool" where
  "copied Z i v \<longleftrightarrow> (\<exists>j b. j \<noteq> i \<and> carries (st_watch Z) v j b \<and> outstanding (st_watch Z) v j b)"

lemma copied_safe:
  assumes "tidy v" and "copied Z i v"
  shows "safe (st_watch Z) (st_on Z) v (sv_unpend k g {i} v)"
proof -
  obtain j b where j: "j \<noteq> i" "carries (st_watch Z) v j b" "outstanding (st_watch Z) v j b"
    using assms(2) by (auto simp: copied_def)
  then have "waiting (st_watch Z) (sv_unpend k g {i} v)"
    by (intro waitingI [of _ _ j b]) (auto simp: carries_def outstanding_def)
  moreover have "tidy (sv_unpend k g {i} v)" using assms(1) by (auto simp: tidy_def)
  ultimately show ?thesis by (simp add: safe_def)
qed

lemma decode_msg_version: "decode_msg c b = Inr m \<Longrightarrow> is_ok (check_wire_version m)"
  by (auto simp: decode_msg_def split: sum.splits)

lemma post_xadd_copied:
  assumes "seated Z L c" and "add_effect (st_key Z) None b j (sview_of c) v'"
    and "decode_msg (wt_codec (st_watch Z)) b = Inr m" and "known (st_watch Z) (L (st_key Z)) i m"
  shows "st_on Z \<and> settles Z m \<longrightarrow> copied Z i v'"
proof
  assume on: "st_on Z \<and> settles Z m"
  let ?T = "st_watch Z"
  have v': "v' = sv_add (wt_key ?T) (j, Some b) (sview_of c)" "j \<notin> fst ` set (sv_log (sview_of c) (wt_key ?T))"
    using assms(2) on by (auto simp: add_effect_def settles_def)
  have "i \<in> fst ` set (sv_log (sview_of c) (wt_key ?T))"
    using assms(4) seatedD(8) [OF assms(1)] on by (force simp: known_def settles_def)
  then have "j \<noteq> i" using v'(2) by auto
  moreover have "carries ?T v' j b" using assms(3) on by (simp add: carries_def v'(1) settles_def)
  moreover have "outstanding ?T v' j b"
    using waiting_group [OF seatedD(7,10) [OF assms(1)]] on
    by (auto simp: outstanding_def v'(1) to_come_def start_entries_def split: option.splits)
  ultimately show "copied Z i v'" by (auto simp: copied_def)
qed

lemma post_xadd:
  assumes "stream_laws (st_srv Z)" and "codec_ok (wt_codec (st_watch Z))" and "known (st_watch Z) (L (st_key Z)) i m"
  shows "post (seated Z L) (xadd (st_key Z) m None)
    (\<lambda>r s. seated Z L s \<and> (is_ok r \<and> st_on Z \<and> settles Z m \<longrightarrow> copied Z i (sview_of s))) E"
    (is "post _ _ ?Q E")
  unfolding xadd_def
proof (rule post_bindA [where R = "\<lambda>c s. c = wt_codec (st_watch Z) \<and> seated Z L s"])
  show "post (seated Z L) (getA sk_codec) (\<lambda>c s. c = wt_codec (st_watch Z) \<and> seated Z L s) E"
    by (rule post_getA) (simp add: seatedD(2))
  fix c
  let ?add = "\<lambda>bytes. bindQ (on_srv (\<lambda>s. xs_add s (st_key Z) None bytes) send_err) (\<lambda>_. ret (Inr ()))"
  show "post (\<lambda>s. c = wt_codec (st_watch Z) \<and> seated Z L s) (bindQ (ret (encode_msg c m)) ?add) ?Q E"
  proof (rule post_pure)
    assume c: "c = wt_codec (st_watch Z)"
    show "post (seated Z L) (bindQ (ret (encode_msg c m)) ?add) ?Q E"
    proof (cases "encode_msg c m")
      case (Inl e)
      then show ?thesis by (simp add: bindQ_ret_Inl post_ret)
    next
      case (Inr b)
      have dec: "decode_msg (wt_codec (st_watch Z)) b = Inr m"
        using assms(2,3) Inr c by (auto simp: known_def intro: encode_decode_msg decode_msg_version)
      let ?f = "\<lambda>s. xs_add s (st_key Z) None b"
      have "post (seated Z L) (on_srv ?f send_err) (\<lambda>r s. case r of Inl e \<Rightarrow> ?Q (Inl e) s | Inr _ \<Rightarrow> ?Q (Inr ()) s) E"
      proof (rule post_command [where f = ?f and Z = Z and L = L, OF xs_add_law [OF assms(1)]])
        show "seated Z L c \<Longrightarrow> add_effect (st_key Z) None b y (sview_of c) v' \<Longrightarrow>
            safe (st_watch Z) (st_on Z) (sview_of c) v'" for c y v'
          by (rule safe_add [OF seatedD(7)])
      next
        fix c y d'
        assume seat: "seated Z L c" "seated Z L (c\<lparr>sk_d := d'\<rparr>)"
          and add: "add_effect (st_key Z) None b y (sview_of c) (xs_view (st_srv Z) d')"
        show "case Inr y of Inl e \<Rightarrow> ?Q (Inl e) (c\<lparr>sk_d := d'\<rparr>) | Inr _ \<Rightarrow> ?Q (Inr ()) (c\<lparr>sk_d := d'\<rparr>)"
          using post_xadd_copied [OF seat(1) add dec assms(3)] seat seatedD(1) [OF seat(1)] by simp
      qed simp_all
      then have "post (seated Z L) (?add b) ?Q E" by (rule post_bindQ) (auto intro: post_ret)
      with Inr show ?thesis by (simp add: bindQ_ret_Inr)
    qed
  qed
qed


lemma post_reject:
  assumes "stream_laws (st_srv Z)" and "codec_ok (wt_codec (st_watch Z))" and "known (st_watch Z) (L (st_key Z)) i m"
  shows "post (seated Z L) (bindQ (xadd (st_key Z) m None) (\<lambda>_. ack_entry i)) (\<lambda>_. seated Z L) E"
proof (rule post_bindQ [where R = "\<lambda>_ s. seated Z L s \<and> (st_on Z \<and> settles Z m \<longrightarrow> copied Z i (sview_of s))"])
  show "post (seated Z L) (xadd (st_key Z) m None) (\<lambda>r s. case r of Inl e \<Rightarrow> seated Z L s
      | Inr _ \<Rightarrow> seated Z L s \<and> (st_on Z \<and> settles Z m \<longrightarrow> copied Z i (sview_of s))) E"
    by (rule post_weaken [OF post_xadd [where L = L, OF assms]]) (auto split: sum.split)
  show "post (\<lambda>s. seated Z L s \<and> (st_on Z \<and> settles Z m \<longrightarrow> copied Z i (sview_of s))) (ack_entry i) (\<lambda>_. seated Z L) E"
  proof (cases "st_on Z \<and> settles Z m")
    case True
    show ?thesis
      by (rule post_ack_entry_if [OF assms(1)]) (use True copied_safe seatedD(7) in blast)+
  next
    case False
    have "spares (off (settles Z m) Z) L i" using assms(3) by (rule known_spares)
    with False have "spares Z L i" by (auto simp: spares_def settles_def)
    then show ?thesis using False
      by (intro post_weaken [OF post_ack_entry [OF assms(1)]]) simp_all
  qed
qed

lemma seated_nack:
  assumes "stream_laws (st_srv Z)" and "codec_ok (wt_codec (st_watch Z))" and "seated Z L c"
  shows "seated Z L (snd (stream_nack q c))"
proof (cases "hm_get (sc_pending c) q")
  case None
  then show ?thesis
    using seated_forget [OF assms(3)] assms(3)
    by (simp add: stream_nack_def take_pending_def bindA_def ret_def)
next
  case (Some e)
  obtain i m where e: "e = (i, m)" by fastforce
  let ?L = "\<lambda>k. set (sv_log (sview_of c) k)" and ?c = "c\<lparr>sc_pending := hm_remove q (sc_pending c)\<rparr>"
  let ?rest = "bindA (getA (\<lambda>c. c)) (\<lambda>c. bindQ (xadd (sc_key c) m (sc_maxlen c)) (\<lambda>_. ack_entry i))"
  have kn: "known (st_watch Z) (?L (st_key Z)) i m"
    using seatedD(11) [OF assms(3)] map_of_SomeD [OF Some] e by blast
  have "post (seated Z ?L) ?rest (\<lambda>_. seated (off False Z) ?L) (seated (off False Z) ?L)"
  proof (rule post_read_state)
    fix s
    assume s: "seated Z ?L s"
    show "post (\<lambda>s'. s' = s \<and> seated Z ?L s) (bindQ (xadd (sc_key s) m (sc_maxlen s)) (\<lambda>_. ack_entry i))
        (\<lambda>_. seated (off False Z) ?L) (seated (off False Z) ?L)"
      using post_weaken [OF post_reject [where L = ?L and E = "seated Z ?L", OF assms(1,2) kn], of "\<lambda>s'. s' = s \<and> seated Z ?L s" "\<lambda>_. seated Z ?L"]
        seatedD(3,5) [OF s] by simp
  qed
  then have "post (seated Z ?L) (bindQ conn (\<lambda>_. ?rest)) (\<lambda>_. seated (off False Z) ?L) (seated (off False Z) ?L)"
    by (rule post_connected [OF assms(1)])
  from seated_run [OF this seated_forget [OF seated_more [OF assms(3)]], of q]
  have "seated Z ?L (snd (bindQ conn (\<lambda>_. ?rest) ?c))" by simp
  then have "seated Z L (snd (bindQ conn (\<lambda>_. ?rest) ?c))"
    using seatedD(8) [OF assms(3)] by (rule seated_less)
  with Some e show ?thesis by (simp add: stream_nack_def take_pending_def bindA_def)
qed


definition told :: "'d seat \<Rightarrow> emessage option \<Rightarrow> bool" where
  "told Z r \<longleftrightarrow> (case r of None \<Rightarrow> False | Some m \<Rightarrow> settles Z m)"

lemma told_simps [simp]: "\<not> told Z None" "told Z (Some m) = settles Z m"
  by (simp_all add: told_def)

lemma post_receive:
  assumes "stream_laws (st_srv Z)"
  shows "post (seated Z L) (stream_receive rounds) (\<lambda>r. seated (off (told Z r) Z) L) (seated Z L)"
proof (induction rounds)
  case 0
  then show ?case by (simp add: post_def)
next
  case (Suc rounds)
  let ?E = "seated Z L" and ?Q = "\<lambda>r. seated (off (told Z r) Z) L"
  let ?pop = "\<lambda>es. bindA conn (\<lambda>k. case k of Inl _ \<Rightarrow> ret None
      | Inr _ \<Rightarrow> bindA (ack_entry (fst (last es))) (\<lambda>_. ret (Some (snd (last es)))))"
  have pop: "post (found Z L es) (?pop es) ?Q ?E" if es: "es \<noteq> []" for es
    unfolding found_def
  proof (intro post_ex post_pure)
    fix L'
    assume L: "\<forall>k. L k \<subseteq> L' k" and g: "gathered Z L' es"
    have "last es \<in> set es" using es by simp
    with g have kn: "known (st_watch Z) (L' (st_key Z)) (fst (last es)) (snd (last es))"
      by (auto simp: gathered_def)
    have less: "seated Z' L' s \<Longrightarrow> seated Z' L s" for Z' s using L by (blast intro: seated_less)
    have "post (seated Z L') (case k of Inl _ \<Rightarrow> ret None
      | Inr _ \<Rightarrow> bindA (ack_entry (fst (last es))) (\<lambda>_. ret (Some (snd (last es))))) ?Q ?E" for k :: "unit result"
      using kn by (cases k) (auto intro!: post_ret post_bindA [OF post_ack_known [where L = L', OF assms]] dest: less)
    then show "post (seated Z L') (?pop es) ?Q ?E" by (rule post_bindA [OF post_connect [OF assms]])
  qed
  have "post (\<lambda>s. case r of Inl _ \<Rightarrow> seated Z L s | Inr es \<Rightarrow> found Z L es s) (case r of
         Inl _ \<Rightarrow> ret None
       | Inr entries \<Rightarrow> if entries = [] then stream_receive rounds else ?pop entries) ?Q ?E"
    for r :: "(string \<times> emessage) list result"
  proof (cases r)
    case (Inl e)
    then show ?thesis by (auto intro: post_ret)
  next
    case (Inr es)
    have "found Z L es s \<Longrightarrow> seated Z L s" for s by (auto simp: found_def intro: seated_less)
    with Inr Suc.IH pop show ?thesis by (auto elim: post_weaken)
  qed
  then show ?case unfolding stream_receive.simps by (rule post_bindA [OF post_read_group [OF assms]])
qed

lemma post_reap:
  assumes "stream_laws (st_srv Z)" and "\<And>i b. (i, Some b) \<in> set es \<Longrightarrow> (i, Some b) \<in> L (st_key Z)"
  shows "post (seated Z L) (reap_entries now es out) (\<lambda>_. seated Z L) E"
  using assms(2)
proof (induction es arbitrary: out)
  case (Cons e es)
  note IH = Cons.IH [OF Cons.prems]
  obtain i x where e: "e = (i, x)" by fastforce
  show ?case
  proof (cases x)
    case (Some b)
    have mem: "(i, Some b) \<in> L (st_key Z)" using Cons.prems e Some by simp
    have "post (\<lambda>s. c = wt_codec (st_watch Z) \<and> seated Z L s) (case decode_msg c b of
         Inr m \<Rightarrow> bindA (register_stream_claim now (i, m)) (\<lambda>cm. reap_entries now es (out @ [cm]))
       | Inl _ \<Rightarrow> bindA (ack_entry i) (\<lambda>_. reap_entries now es out)) (\<lambda>_. seated Z L) E" for c
    proof (rule post_pure, cases "decode_msg c b")
      fix err
      assume c: "c = wt_codec (st_watch Z)" and d: "decode_msg c b = Inl err"
      then have "spares Z L i" using mem by (auto simp: spares_def)
      with IH d show "post (seated Z L) (case decode_msg c b of
         Inr m \<Rightarrow> bindA (register_stream_claim now (i, m)) (\<lambda>cm. reap_entries now es (out @ [cm]))
       | Inl _ \<Rightarrow> bindA (ack_entry i) (\<lambda>_. reap_entries now es out)) (\<lambda>_. seated Z L) E"
        by (auto intro: post_bindA [OF post_ack_entry [OF assms(1)]])
    next
      fix m
      assume c: "c = wt_codec (st_watch Z)" and d: "decode_msg c b = Inr m"
      then have "known (st_watch Z) (L (st_key Z)) i m" using mem by (auto simp: known_def)
      with IH d show "post (seated Z L) (case decode_msg c b of
         Inr m \<Rightarrow> bindA (register_stream_claim now (i, m)) (\<lambda>cm. reap_entries now es (out @ [cm]))
       | Inl _ \<Rightarrow> bindA (ack_entry i) (\<lambda>_. reap_entries now es out)) (\<lambda>_. seated Z L) E"
        by (auto intro: post_bindA post_register)
    qed
    moreover have "post (seated Z L) (getA sk_codec) (\<lambda>c s. c = wt_codec (st_watch Z) \<and> seated Z L s) E"
      by (rule post_getA) (simp add: seatedD(2))
    ultimately show ?thesis unfolding e Some reap_entries.simps by (rule post_bindA [rotated])
  next
    case None
    with IH e show ?thesis by simp
  qed
qed (simp add: post_ret)


lemma autoclaim_entries:
  assumes "autoclaim_effect k g y v v'" and "(i, Some b) \<in> set y"
  shows "(i, Some b) \<in> set (sv_log v k)"
  using assms by (auto simp: autoclaim_effect_def split: option.splits dest!: map_of_SomeD bspec)

lemma safe_autoclaim:
  assumes "tidy v" and "autoclaim_effect k g y v v'"
  shows "safe T on v v'"
proof -
  obtain gone where gone: "gone \<inter> fst ` set (sv_log v k) = {}" "v' = sv_unpend k g gone v"
    using assms(2) by (auto simp: autoclaim_effect_def)
  have "\<not> carries T v i b" if "k = wt_key T" "i \<in> gone" for i b
    using gone(1) that by (force simp: carries_def)
  then show ?thesis using assms(1) unfolding gone(2) by (intro safe_unpend)
qed

lemma post_claim_stale:
  assumes "stream_laws (st_srv Z)"
  shows "post (seated Z L) (stream_claim_stale min_idle) (\<lambda>_. seated Z L) E"
  unfolding stream_claim_stale_def
proof (rule post_bindQ [where R = "\<lambda>_. seated Z L"])
  show "post (seated Z L) ready_conn (\<lambda>r s. case r of Inl e \<Rightarrow> seated Z L s | Inr x \<Rightarrow> seated Z L s) E"
    by (rule post_weaken [OF post_ready [OF assms]]) (auto split: sum.splits)
next
  let ?reap = "\<lambda>claimed. bindA now_of (\<lambda>now. bindA (reap_entries now claimed []) (\<lambda>out. ret (Inr out)))"
  show "post (seated Z L) (bindA (getA (\<lambda>c. c)) (\<lambda>c.
     bindQ (on_srv (\<lambda>s. xs_autoclaim s (sc_key c) (sc_group c) (sc_name c)
       (word_of_nat (min_idle div 1000000)) ''0-0'' 64) recv_err) ?reap)) (\<lambda>_. seated Z L) E" for x :: unit
  proof (rule post_read_state)
    fix c
    assume c: "seated Z L c"
    let ?f = "\<lambda>s. xs_autoclaim s (sc_key c) (sc_group c) (sc_name c) (word_of_nat (min_idle div 1000000)) ''0-0'' 64"
    let ?R = "\<lambda>reply s. \<exists>L'. (\<forall>k. L k \<subseteq> L' k) \<and> (\<forall>i b. (i, Some b) \<in> set reply \<longrightarrow> (i, Some b) \<in> L' (st_key Z)) \<and>
        seated Z L' s"
    show "post (\<lambda>s'. s' = c \<and> seated Z L c) (bindQ (on_srv ?f recv_err) ?reap) (\<lambda>_. seated Z L) E"
    proof (rule post_bindQ [where R = ?R])
      show "post (\<lambda>s'. s' = c \<and> seated Z L c) (on_srv ?f recv_err)
          (\<lambda>r s. case r of Inl e \<Rightarrow> seated Z L s | Inr x \<Rightarrow> ?R x s) E"
      proof (rule post_command [where f = ?f and Z = Z and L = L, OF xs_autoclaim_law [OF assms]])
        show "c' = c \<and> seated Z L c \<Longrightarrow> autoclaim_effect (sc_key c) (sc_group c) y (sview_of c') v' \<Longrightarrow>
            safe (st_watch Z) (st_on Z) (sview_of c') v'" for c' y v'
          using safe_autoclaim seatedD(7) [OF c] by blast
      next
        fix c' :: "'a stream_consumer" and y d'
        assume *: "c' = c \<and> seated Z L c" "autoclaim_effect (sc_key c) (sc_group c) y (sview_of c') (xs_view (st_srv Z) d')"
          and seat: "seated Z L (c'\<lparr>sk_d := d'\<rparr>)"
        have "set (sv_log (sview_of c') (st_key Z)) \<subseteq> set (sv_log (xs_view (st_srv Z) d') (st_key Z))"
          using * safe_autoclaim [OF seatedD(7) [OF c], of "sc_key c" "sc_group c" y] by (auto simp: safe_def)
        then have "\<forall>i b. (i, Some b) \<in> set y \<longrightarrow> (i, Some b) \<in> set (sv_log (xs_view (st_srv Z) d') (st_key Z))"
          using autoclaim_entries [OF *(2)] seatedD(3) [OF c] by auto
        moreover have "seated Z (\<lambda>k. set (sv_log (xs_view (st_srv Z) d') k)) (c'\<lparr>sk_d := d'\<rparr>)"
          using seated_more [OF seat] * seatedD(1) [OF c] by simp
        moreover have "\<forall>k. L k \<subseteq> set (sv_log (xs_view (st_srv Z) d') k)"
          using seatedD(8) [OF seat] * seatedD(1) [OF c] by simp
        ultimately have "?R y (c'\<lparr>sk_d := d'\<rparr>)"
          by (intro exI [of _ "\<lambda>k. set (sv_log (xs_view (st_srv Z) d') k)"] conjI)
        then show "case Inr y of Inl e \<Rightarrow> seated Z L (c'\<lparr>sk_d := d'\<rparr>) | Inr x \<Rightarrow> ?R x (c'\<lparr>sk_d := d'\<rparr>)" by simp
      qed simp_all
    next
      fix reply
      show "post (?R reply) (?reap reply) (\<lambda>_. seated Z L) E"
      proof (intro post_ex post_pure)
        fix L'
        assume L: "\<forall>k. L k \<subseteq> L' k" and es: "\<forall>i b. (i, Some b) \<in> set reply \<longrightarrow> (i, Some b) \<in> L' (st_key Z)"
        have "post (seated Z L') (reap_entries now reply []) (\<lambda>_. seated Z L') E" for now
          using es by (intro post_reap [OF assms]) blast
        then have "post (seated Z L') (?reap reply) (\<lambda>_. seated Z L') E"
          by (intro post_bindA [OF post_now] post_bindA [where R = "\<lambda>_. seated Z L'"] post_ret)
        then show "post (seated Z L') (?reap reply) (\<lambda>_. seated Z L) E"
          by (rule post_weaken) (use L in \<open>auto intro: seated_less\<close>)
      qed
    qed
  qed
qed



section \<open>Several nodes\<close>

datatype stream_op = SReceive nat | SClaim nat | SAck string | SNack string | SStale duration

text \<open>An operation of a consumer, with the messages its client has been done with.\<close>

fun stream_op_step :: "stream_op \<Rightarrow> 'd stream_consumer \<Rightarrow> 'd stream_consumer \<times> emessage list" where
  "stream_op_step (SReceive rounds) c = (case stream_receive rounds c of
       (Ret (Some m), c') \<Rightarrow> (c', [m])
     | (_, c') \<Rightarrow> (c', []))"
| "stream_op_step (SClaim n) c = (snd (stream_claim_batch n c), [])"
| "stream_op_step (SAck q) c = (snd (stream_ack q c), claim_settled c q)"
| "stream_op_step (SNack q) c = (snd (stream_nack q c), [])"
| "stream_op_step (SStale min_idle) c = (snd (stream_claim_stale min_idle c), [])"

type_synonym 'd cluster = "'d \<times> 'd stream_consumer list \<times> (string \<times> string \<times> emessage) list"

text \<open>
  The state is the server, the consumers and what has been handled, by stream and group. The
  nodes share the prefix of the keys and do not trim; their group names may differ.
\<close>

inductive cluster_step :: "'d streams \<Rightarrow> emessage codec \<Rightarrow> string \<Rightarrow> 'd cluster \<Rightarrow> 'd cluster \<Rightarrow> bool"
  for S :: "'d streams" and cod :: "emessage codec" and pre :: string where
  send: "cluster_step S cod pre (d, cs, h)
     (sk_d (snd (route_send pre None m \<lparr>sk_srv = S, sk_codec = cod, sk_d = d\<rparr>)), cs, h)"
| join: "\<lbrakk>stream_create_queue F global topic = Inr (p, f); sk_srv (qf_link F) = S; sk_codec (qf_link F) = cod;
     qc_prefix (qf_config F) = pre; qc_maxlen (qf_config F) = None; 0 < qc_block_ms (qf_config F)\<rbrakk> \<Longrightarrow>
     cluster_step S cod pre (d, cs, h) (d, cs @ [stream_create_consumer f a], h)"
| work: "\<lbrakk>i < length cs; stream_op_step x ((cs ! i)\<lparr>sk_d := d\<rparr>) = (c', ms)\<rbrakk> \<Longrightarrow>
     cluster_step S cod pre (d, cs, h)
       (sk_d c', cs[i := c'], h @ map (\<lambda>m. (sc_key c', sc_group c', m)) ms)"
| crash: "cluster_step S cod pre (d, cs @ c # cs', h) (d, cs @ cs', h)"

definition chair :: "'d streams \<Rightarrow> watch \<Rightarrow> bool \<Rightarrow> 'd stream_consumer \<Rightarrow> 'd seat" where
  "chair S T on c = \<lparr>st_srv = S, st_watch = T, st_on = on, st_key = sc_key c, st_group = sc_group c\<rparr>"

definition handled :: "watch \<Rightarrow> (string \<times> string \<times> emessage) list \<Rightarrow> bool" where
  "handled T h \<longleftrightarrow> (wt_key T, wt_group T, wt_msg T) \<in> set h"

fun cluster_inv :: "'d streams \<Rightarrow> watch \<Rightarrow> bool \<Rightarrow> 'd cluster \<Rightarrow> bool" where
  "cluster_inv S T on (d, cs, h) \<longleftrightarrow> tidy (xs_view S d) \<and>
     (\<forall>c \<in> set cs. seated (chair S T False c) (\<lambda>_. {}) (c\<lparr>sk_d := d\<rparr>)) \<and>
     (on \<longrightarrow> handled T h \<or> waiting T (xs_view S d))"

lemma chair_simps [simp]:
  "st_srv (chair S T on c) = S" "st_watch (chair S T on c) = T" "st_on (chair S T on c) = on"
  "st_key (chair S T on c) = sc_key c" "st_group (chair S T on c) = sc_group c"
  by (simp_all add: chair_def)

lemma seated_chair:
  "seated (chair S T True c) L c' \<longleftrightarrow> seated (chair S T False c) L c' \<and> waiting T (sview_of c')"
  "seated (chair S T False c) L c' \<longleftrightarrow> seated (chair S T False c) (\<lambda>_. {}) c' \<and> (\<forall>k. L k \<subseteq> set (sv_log (sview_of c') k))"
  unfolding seated_def chair_simps by auto

lemma stream_op_seated:
  assumes "stream_laws S" and "codec_ok (wt_codec T)" and "seated (chair S T on c) L c0"
    and "stream_op_step x c0 = (c', ms)"
  shows "seated (off (\<exists>m \<in> set ms. settles (chair S T on c) m) (chair S T on c)) L c'"
proof -
  let ?Z = "chair S T on c"
  have laws: "stream_laws (st_srv ?Z)" "codec_ok (wt_codec (st_watch ?Z))" using assms(1,2) by simp_all
  show ?thesis
  proof (cases x)
    case (SReceive rounds)
    obtain r c1 where r: "stream_receive rounds c0 = (r, c1)" by fastforce
    with postD [OF post_receive [OF laws(1)] assms(3), of rounds]
    have "ends (\<lambda>r. seated (off (told ?Z r) ?Z) L) (seated ?Z L) (r, c1)" by simp
    with r SReceive assms(4) show ?thesis
      by (cases r) (auto simp: told_def split: option.splits)
  next
    case (SClaim n)
    with seated_run [OF post_claim_batch [OF laws(1)] assms(3), of n] assms(4) show ?thesis by auto
  next
    case (SAck q)
    with seated_ack [OF laws(1) assms(3), of q] assms(4) show ?thesis by auto
  next
    case (SNack q)
    with seated_nack [OF laws assms(3), of q] assms(4) show ?thesis by auto
  next
    case (SStale min_idle)
    with seated_run [OF post_claim_stale [OF laws(1)] assms(3), of min_idle] assms(4) show ?thesis by auto
  qed
qed

lemma route_send_effect:
  assumes "stream_laws S"
  shows "\<exists>r d'. route_send pre None m \<lparr>sk_srv = S, sk_codec = cod, sk_d = d\<rparr> =
      (Ret r, \<lparr>sk_srv = S, sk_codec = cod, sk_d = d'\<rparr>) \<and>
    ((\<not> is_ok r \<and> xs_view S d' = xs_view S d) \<or>
     (\<exists>b i. encode_msg cod m = Inr b \<and> add_effect (pre @ '':'' @ msg_topic m) None b i (xs_view S d) (xs_view S d')))"
proof (cases "encode_msg cod m")
  case (Inl e)
  then show ?thesis
    by (simp add: route_send_def xadd_def bindA_def getA_def bindQ_ret_Inl ret_app)
next
  case (Inr b)
  show ?thesis
  proof (cases rule: command_any [OF xs_add_law [OF assms], of "pre @ '':'' @ msg_topic m" None b d])
    case (1 y d')
    with Inr show ?thesis
      by (auto simp: route_send_def xadd_def bindA_def getA_def bindQ_ret_Inr bindQ_Inr on_srv_def ret_def bindQ_def)
  next
    case (2 e d')
    with Inr show ?thesis
      by (auto simp: route_send_def xadd_def bindA_def getA_def bindQ_ret_Inr on_srv_def ret_def bindQ_def or_lost_def)
  qed
qed


lemma cluster_inv_safe:
  assumes "cluster_inv S T on (d, cs, h)" and "safe T on (xs_view S d) (xs_view S d')"
    and "handled T h \<longrightarrow> handled T h'"
  shows "cluster_inv S T on (d', cs, h')"
proof -
  have safe: "safe T False (xs_view S d) (xs_view S d')" using assms(2) by (simp add: safe_def)
  have "seated (chair S T False c) (\<lambda>_. {}) (c\<lparr>sk_d := d'\<rparr>)" if "c \<in> set cs" for c
  proof -
    have c: "seated (chair S T False c) (\<lambda>_. {}) (c\<lparr>sk_d := d\<rparr>)" using assms(1) that by simp
    from seated_safe [OF this, of d'] safe seatedD(1) [OF c] show ?thesis by simp
  qed
  with assms show ?thesis by (auto simp: safe_def)
qed

lemma cluster_inv_join:
  assumes "cluster_inv S T on (d, cs, h)" and "stream_create_queue F global topic = Inr (p, f)"
    and "sk_srv (qf_link F) = S" and "sk_codec (qf_link F) = wt_codec T" and "qc_prefix (qf_config F) = pre"
    and "qc_maxlen (qf_config F) = None" and "0 < qc_block_ms (qf_config F)"
    and "wt_key T = pre @ '':'' @ topic0" and "wt_start T = group_start_for topic0"
  shows "cluster_inv S T on (d, cs @ [stream_create_consumer f a], h)"
proof -
  have f: "f = \<lparr>cf_link = qf_link F, cf_key = stream_key (qf_config F) topic,
      cf_group = group_for (qf_config F) global topic, cf_group_start = group_start_for topic,
      cf_block_ms = qc_block_ms (qf_config F), cf_maxlen = None\<rparr>"
    using assms(2,6) by (simp add: stream_create_queue_def Let_def)
  let ?c = "stream_create_consumer f a"
  have "seated (chair S T False ?c) (\<lambda>_. {}) (?c\<lparr>sk_d := d\<rparr>)"
    unfolding seated_def chair_simps using assms
    by (auto simp: f stream_create_consumer_def stream_consumer_new_def case_prod_beta' stream_key_def)
  with assms(1) show ?thesis by simp
qed

lemma cluster_inv_work:
  assumes "stream_laws S" and "codec_ok (wt_codec T)" and "cluster_inv S T on (d, cs, h)"
    and "i < length cs" and "stream_op_step x ((cs ! i)\<lparr>sk_d := d\<rparr>) = (c', ms)"
  shows "cluster_inv S T on (sk_d c', cs[i := c'], h @ map (\<lambda>m. (sc_key c', sc_group c', m)) ms)"
proof -
  let ?c = "cs ! i" and ?L = "\<lambda>k. set (sv_log (xs_view S d) k)"
  let ?h = "h @ map (\<lambda>m. (sc_key c', sc_group c', m)) ms"
  define live where "live = (on \<and> \<not> handled T h)"
  let ?b = "\<exists>m \<in> set ms. settles (chair S T live ?c) m"
  have c: "seated (chair S T False ?c) (\<lambda>_. {}) (?c\<lparr>sk_d := d\<rparr>)" using assms(3,4) by simp
  then have "seated (chair S T live ?c) ?L (?c\<lparr>sk_d := d\<rparr>)"
    using seated_more [OF c] seatedD(1) [OF c] assms(3) by (cases live) (auto simp: seated_chair(1) live_def)
  from stream_op_seated [OF assms(1,2) this assms(5)] have seat: "seated (off ?b (chair S T live ?c)) ?L c'" .
  note c' = seatedD [OF seat, simplified]
  have "off True (off ?b (chair S T live ?c)) = chair S T False c'" using c'(3,4) by (simp add: off_def chair_def)
  with seated_off [OF seat, of True] have seat': "seated (chair S T False c') ?L c'" by simp
  have h: "handled T ?h" if "?b"
  proof -
    from that obtain m where "m \<in> set ms" "settles (chair S T live ?c) m" by blast
    with c'(3,4) show ?thesis by (auto simp: handled_def settles_def)
  qed
  have h': "handled T ?h" if "handled T h" using that by (simp add: handled_def)
  have w: "handled T ?h \<or> waiting T (xs_view S (sk_d c'))" if on
  proof (cases "handled T ?h")
    case False
    with h h' that have "live" "\<not> ?b" by (auto simp: live_def)
    with c'(1,10) show ?thesis by simp
  qed simp
  have log: "set (sv_log (xs_view S d) k) \<subseteq> set (sv_log (xs_view S (sk_d c')) k)" for k
    using c'(8) [of k] unfolding c'(1) .
  have safe: "safe T False (xs_view S d) (xs_view S (sk_d c'))"
    unfolding safe_def using c'(1,7) log by simp
  have "cluster_inv S T False (d, cs, h)" using assms(3) by simp
  then have cs: "cluster_inv S T False (sk_d c', cs, ?h)"
    by (rule cluster_inv_safe [OF _ safe]) (intro impI h')
  have "seated (chair S T False c) (\<lambda>_. {}) (c\<lparr>sk_d := sk_d c'\<rparr>)" if "c \<in> set (cs[i := c'])" for c
  proof (cases "c = c'")
    case True
    with seated_less [OF seat', of "\<lambda>_. {}"] show ?thesis by simp
  next
    case False
    with that set_update_subset_insert [of cs i c'] have "c \<in> set cs" by blast
    with cs show ?thesis by simp
  qed
  with w c'(1,7) show ?thesis by simp
qed

lemma cluster_inv_step:
  assumes "stream_laws S" and "codec_ok cod" and "cluster_step S cod pre \<sigma> \<sigma>'" and "cluster_inv S T on \<sigma>"
    and "wt_codec T = cod" and "wt_key T = pre @ '':'' @ topic" and "wt_start T = group_start_for topic"
  shows "cluster_inv S T on \<sigma>'"
  using assms(3,4)
proof cases
  case (send d cs h m)
  from route_send_effect [OF assms(1), of pre m cod d] obtain r d' where
    d': "route_send pre None m \<lparr>sk_srv = S, sk_codec = cod, sk_d = d\<rparr> = (Ret r, \<lparr>sk_srv = S, sk_codec = cod, sk_d = d'\<rparr>)"
      "xs_view S d' = xs_view S d \<or> (\<exists>b i. add_effect (pre @ '':'' @ msg_topic m) None b i (xs_view S d) (xs_view S d'))"
    by blast
  have "tidy (xs_view S d)" using assms(4) send by simp
  with d'(2) have "safe T on (xs_view S d) (xs_view S d')" using safe_refl safe_add by metis
  with cluster_inv_safe [of S T on d cs h d' h] assms(4) send d'(1) show ?thesis by simp
next
  case (join F global topic' p f d cs h a)
  have "cluster_inv S T on (d, cs, h)" using assms(4) join(1) by (simp only:)
  then show ?thesis unfolding join(2) using join(3-8) assms(5-7)
    by (intro cluster_inv_join [where pre = pre and ?topic0.0 = topic]) (simp_all only:)
next
  case (work i cs x d c' ms h)
  have "cluster_inv S T on (d, cs, h)" using assms(4) work(1) by (simp only:)
  then show ?thesis unfolding work(2) using work(3,4) assms(1,2,5)
    by (intro cluster_inv_work) (simp_all only:)
next
  case (crash d cs c cs' h)
  have "cluster_inv S T on (d, cs @ c # cs', h)" using assms(4) crash(1) by (simp only:)
  then show ?thesis unfolding crash(2) cluster_inv.simps set_append set_simps by blast
qed

lemma cluster_inv_reach:
  assumes "(cluster_step S cod pre)\<^sup>*\<^sup>* \<sigma> \<sigma>'" and "stream_laws S" and "codec_ok cod" and "cluster_inv S T on \<sigma>"
    and "wt_codec T = cod" and "wt_key T = pre @ '':'' @ topic" and "wt_start T = group_start_for topic"
  shows "cluster_inv S T on \<sigma>'"
  using assms(1,4)
proof (induction rule: rtranclp_induct)
  case (step y z)
  with cluster_inv_step [OF assms(2,3) step.hyps(2) _ assms(5-7)] show ?case by simp
qed


section \<open>Properties\<close>


text \<open>A node that joins, claims the message and crashes.\<close>

definition no_entries :: mserver where
  "no_entries = \<lparr>ms_logs = [], ms_groups = []\<rparr>"

definition empty_link :: "mserver slink" where
  "empty_link = \<lparr>sk_srv = memory_streams, sk_codec = table_codec two_messages, sk_d = no_entries\<rparr>"

lemma no_entries_tidy: "tidy (ms_view no_entries)"
  by (simp add: tidy_def no_entries_def ms_log_def ms_pel_def)

lemma join_claim_crash:
  assumes "stream_op_step (SClaim n) (c\<lparr>sk_d := d\<rparr>) = (c', [])"
    and "cluster_step S cod pre (d, [], []) (d, [c], [])"
  shows "(cluster_step S cod pre)\<^sup>*\<^sup>* (d, [], []) (sk_d c', [], [])"
proof -
  have "cluster_step S cod pre (d, [c], []) (sk_d c', [c'], [])"
    using work [of 0 "[c]" "SClaim n" d c' "[]" S cod pre "[]"] assms(1) by simp
  moreover have "cluster_step S cod pre (sk_d c', [c'], []) (sk_d c', [], [])"
    using crash [of S cod pre "sk_d c'" "[]" c' "[]" "[]"] by simp
  ultimately show ?thesis using assms(2) by (meson converse_rtranclp_into_rtranclp rtranclp.rtrancl_refl)
qed


lemma ack_entry_any:
  assumes "stream_laws (sk_srv c)"
  obtains r d' where "ack_entry i c = (Ret r, c\<lparr>sk_d := d'\<rparr>)"
proof (cases rule: command_any [OF xs_ack_law [OF assms], of "sc_key c" "sc_group c" i "sk_d c"])
  case (1 y d')
  with that show thesis by (simp add: ack_entry_def bindA_def getA_def xack_def bindQ_def on_srv_def ret_def)
next
  case (2 e d')
  with that show thesis by (simp add: ack_entry_def bindA_def getA_def xack_def bindQ_def on_srv_def ret_def)
qed

lemma reap_collects:
  assumes "stream_laws (sk_srv c)" and "uuids_unique (sc_amb c)"
  shows "\<exists>cms c'. reap_entries now es out c = (Ret (out @ cms), c') \<and>
     (\<forall>q. uuid_used (sc_amb c) q \<longrightarrow> hm_get (sc_pending c') q = hm_get (sc_pending c) q) \<and>
     (\<forall>i b m. (i, Some b) \<in> set es \<and> decode_msg (sk_codec c) b = Inr m \<longrightarrow>
        (\<exists>cm \<in> set cms. cm_message cm = m \<and> hm_get (sc_pending c') (cm_claim_id cm) = Some (i, m)))"
  using assms
proof (induction es arbitrary: out c)
  case Nil
  then show ?case by (auto simp: ret_def)
next
  case (Cons e es)
  obtain i x where e: "e = (i, x)" by fastforce
  consider (none) "x = None" | (bad) b err where "x = Some b" "decode_msg (sk_codec c) b = Inl err"
    | (good) b m where "x = Some b" "decode_msg (sk_codec c) b = Inr m"
    by (metis not_Some_eq sum.exhaust)
  then show ?case
  proof cases
    case none
    with Cons.IH [OF Cons.prems, of out] e show ?thesis by simp
  next
    case bad
    obtain r d' where "ack_entry i c = (Ret r, c\<lparr>sk_d := d'\<rparr>)" by (rule ack_entry_any [OF Cons.prems(1)])
    with Cons.IH [of "c\<lparr>sk_d := d'\<rparr>" out] Cons.prems bad e show ?thesis
      by (auto simp: bindA_def getA_def)
  next
    case good
    obtain q a where q: "new_uuid (sc_amb c) = (q, a)" by fastforce
    let ?cm = "\<lparr>cm_message = m, cm_claim_id = q, cm_claimed_at = now\<rparr>"
    let ?c = "c\<lparr>sc_pending := hm_insert q (i, m) (sc_pending c), sc_amb := a\<rparr>"
    have a: "q = uuid_src (sc_amb c) (uuid_next (sc_amb c))" "a = snd (new_uuid (sc_amb c))"
      using q by (simp_all add: new_uuid_def)
    then have fresh: "\<not> uuid_used (sc_amb c) q" "uuid_used a q" "uuids_unique a"
        "\<And>q'. uuid_used (sc_amb c) q' \<Longrightarrow> uuid_used a q'"
      using new_uuid_fresh [OF Cons.prems(2)] Cons.prems(2) by simp_all
    from Cons.IH [of ?c "out @ [?cm]"] Cons.prems(1) fresh(3) obtain cms c' where
      r: "reap_entries now es (out @ [?cm]) ?c = (Ret (out @ [?cm] @ cms), c')"
        "\<forall>q'. uuid_used a q' \<longrightarrow> hm_get (sc_pending c') q' = hm_get (hm_insert q (i, m) (sc_pending c)) q'"
        "\<forall>i b m. (i, Some b) \<in> set es \<and> decode_msg (sk_codec c) b = Inr m \<longrightarrow>
           (\<exists>cm \<in> set cms. cm_message cm = m \<and> hm_get (sc_pending c') (cm_claim_id cm) = Some (i, m))"
      by auto
    have "reap_entries now (e # es) out c = (Ret (out @ [?cm] @ cms), c')"
      using r(1) good e q by (simp add: bindA_def getA_def register_stream_claim_app)
    moreover have "\<forall>q'. uuid_used (sc_amb c) q' \<longrightarrow> hm_get (sc_pending c') q' = hm_get (sc_pending c) q'"
      using r(2) fresh by auto
    moreover have "hm_get (sc_pending c') q = Some (i, m)" using r(2) fresh(2) by simp
    ultimately show ?thesis
      using r(3) good e by (intro exI [of _ "[?cm] @ cms"] exI [of _ c']) auto
  qed
qed

text \<open>C14: what a crashed consumer held is not stuck. When a consumer that has been polling asks a
  reachable server for stale entries, every readable entry of the group's pending list that has
  been idle for long enough is handed to it as a claim under a fresh identifier, which an ack or
  nack will find, if the pending list is no longer than the 64 entries of one sweep. Entries
  that cannot be decoded do not prevent this.\<close>

theorem redis_stale_recovered:
  assumes "stream_laws (sk_srv c)" and "srv_up c" and "sc_conn c" and "sc_group_ready c" and "uuids_unique (sc_amb c)"
    and "tidy (sview_of c)" and "length (sv_pel (sview_of c) (sc_key c) (sc_group c)) \<le> 64"
    and "i \<in> set (sv_pel (sview_of c) (sc_key c) (sc_group c))" and "(i, Some b) \<in> set (sv_log (sview_of c) (sc_key c))"
    and "decode_msg (sk_codec c) b = Inr m"
    and "min_idle div 1000000 \<le> xs_idle (sk_srv c) (sk_d c) (sc_key c) (sc_group c) i"
  shows "\<exists>out c'. stream_claim_stale min_idle c = (Ret (Inr out), c') \<and>
     (\<exists>cm \<in> set out. cm_message cm = m \<and> hm_get (sc_pending c') (cm_claim_id cm) = Some (i, m))"
proof -
  let ?v = "sview_of c" and ?k = "sc_key c" and ?g = "sc_group c" and ?ms = "word_of_nat (min_idle div 1000000) :: u64"
  have ready: "ready_conn c = (Ret (Inr ()), c)"
    using assms(3,4) by (simp add: ready_conn_def conn_def ensure_group_def bindA_def getA_def bindQ_def ret_def)
  have "sv_new ?v ?k ?g \<noteq> None" using tidyD(3) [OF assms(6), of ?k ?g] assms(8) by (cases "sv_new ?v ?k ?g") auto
  from command_up [OF xs_autoclaim_law [OF assms(1)] assms(2) this, of "sc_name c" ?ms "''0-0''" 64]
  obtain y d' where y: "xs_autoclaim (sk_srv c) ?k ?g (sc_name c) ?ms ''0-0'' 64 (sk_d c) = (Ret (Inr y), d')"
      "autoclaim_effect ?k ?g y ?v (xs_view (sk_srv c) d')" by blast
  have "unat ?ms \<le> min_idle div 1000000" by (simp add: unat_of_nat)
  with assms(11) have "unat ?ms \<le> xs_idle (sk_srv c) (sk_d c) ?k ?g i" by linarith
  moreover have "i \<in> set (sv_pel ?v ?k ?g) \<inter> fst ` set (sv_log ?v ?k)" using assms(8,9) by force
  ultimately have "i \<in> fst ` set y"
    using sweep_law [OF assms(1)] y(1) assms(7) unfolding sweep_complete_def by blast
  then obtain x where x: "(i, x) \<in> set y" by auto
  moreover have "map_of (sv_log ?v ?k) i = Some (Some b)"
    using assms(9) tidyD(1) [OF assms(6)] by (rule map_of_is_SomeI [rotated])
  ultimately have mem: "(i, Some b) \<in> set y" using y(2) by (auto simp: autoclaim_effect_def)
  obtain t a where t: "read_clock (sc_amb c) = (t, a)" by fastforce
  let ?c = "c\<lparr>sk_d := d', sc_amb := a\<rparr>"
  have "uuids_unique a" using assms(5) uuids_unique_step t by (metis snd_conv)
  with reap_collects [of ?c t y "[]"] assms(1) obtain cms c' where
    r: "reap_entries t y [] ?c = (Ret cms, c')"
      "\<exists>cm \<in> set cms. cm_message cm = m \<and> hm_get (sc_pending c') (cm_claim_id cm) = Some (i, m)"
    using mem assms(10) by fastforce
  have "stream_claim_stale min_idle c = (Ret (Inr cms), c')"
    using ready y(1) r(1) t
    by (simp add: stream_claim_stale_def bindQ_Inr bindA_def getA_def on_srv_Ret now_of_app ret_def)
  with r(2) show ?thesis by blast
qed

text \<open>A stream of which a crashed consumer holds two entries, one of them unreadable.\<close>

definition stuck_entries :: mserver where
  "stuck_entries = \<lparr>ms_logs = [(''event_base:orders'', [(''1'', Some [9]), (''2'', Some [2])])],
     ms_groups = [((''event_base:orders'', ''event_base''), [], [''1'', ''2''])]\<rparr>"

definition second_consumer :: "mserver stream_consumer" where
  "second_consumer = memory_stream_consumer\<lparr>sk_d := stuck_entries, sc_conn := True, sc_group_ready := True\<rparr>"

theorem redis_stale_recovered_witness:
  "\<exists>out c'. stream_claim_stale (from_secs 60) second_consumer = (Ret (Inr out), c') \<and>
     (\<exists>cm \<in> set out. cm_message cm = emessage_default 2 \<and>
        hm_get (sc_pending c') (cm_claim_id cm) = Some (''2'', emessage_default 2))"
proof -
  have "sv_log (ms_view stuck_entries) ''event_base:orders'' = [(''1'', Some [9]), (''2'', Some [2])]"
      "sv_pel (ms_view stuck_entries) ''event_base:orders'' ''event_base'' = [''1'', ''2'']"
    by (simp_all add: stuck_entries_def ms_log_def ms_pel_def)
  moreover have "tidy (ms_view stuck_entries)"
    by (auto simp: tidy_def stuck_entries_def ms_log_def ms_pel_def)
  ultimately show ?thesis
    using redis_stale_recovered [of second_consumer "''2''" "[2]" "emessage_default 2" "from_secs 60"]
    by (simp add: second_consumer_def memory_streams_laws from_secs_def nanos_per_sec_def)
qed

lemma decode_entries_bad:
  assumes "\<forall>e \<in> set es. snd e \<noteq> None" and "\<exists>e \<in> set es. entry_message (sk_codec c) e = None"
  shows "\<exists>err. decode_entries es out c = (Ret (Inl err), c)"
  using assms
proof (induction es arbitrary: out)
  case (Cons e es)
  obtain i b where e: "e = (i, Some b)" using Cons.prems(1) by (cases e) auto
  show ?case
  proof (cases "decode_msg (sk_codec c) b")
    case (Inl err)
    with e show ?thesis by (simp add: bindA_def getA_def bindQ_ret_Inl ret_app)
  next
    case (Inr m)
    with Cons.prems e have "\<exists>e \<in> set es. entry_message (sk_codec c) e = None" by (auto simp: entry_message_def)
    with Cons e Inr show ?thesis by (simp add: bindA_def getA_def bindQ_ret_Inr)
  qed
qed simp

text \<open>C40: one undecodable entry costs the batch it is read with. A batched claim on a reachable
  server whose next entries all hold a message field, one of them bytes that cannot be decoded,
  answers an error: every entry of the batch has moved to the pending list of the group and
  will not be read again, and not one of them is among the consumer's claims, so only
  \<^verbatim>\<open>claim_stale\<close> brings back the readable ones.\<close>

theorem redis_undecodable_entry_costs_batch:
  assumes "stream_laws (sk_srv c)" and "srv_up c" and "0 < sc_block_ms c" and "sc_conn c" and "sc_group_ready c"
    and "sv_new (sview_of c) (sc_key c) (sc_group c) = Some es" and "\<forall>e \<in> set (take n es). snd e \<noteq> None"
    and "\<exists>e \<in> set (take n es). entry_message (sk_codec c) e = None"
  shows "\<exists>err c'. stream_claim_batch n c = (Ret (Inl err), c') \<and> sc_pending c' = sc_pending c \<and>
     sv_new (sview_of c') (sc_key c) (sc_group c) = Some (drop n es) \<and>
     sv_pel (sview_of c') (sc_key c) (sc_group c) = sv_pel (sview_of c) (sc_key c) (sc_group c) @ map fst (take n es)"
proof -
  have n: "0 < n" "take n es \<noteq> []" using assms(8) by (cases n; auto)+
  have ready: "ready_conn c = (Ret (Inr ()), c)"
    using assms(4,5) by (simp add: ready_conn_def conn_def ensure_group_def bindA_def getA_def bindQ_def ret_def)
  from command_up [OF xs_read_law [OF assms(1,3)] assms(2), of "sc_key c" "sc_group c" "sc_name c" n] assms(6)
  obtain y d' where y: "xs_read (sk_srv c) (sc_key c) (sc_group c) (sc_name c) (sc_block_ms c) n (sk_d c) = (Ret (Inr y), d')"
      "read_effect (sc_key c) (sc_group c) n y (sview_of c) (xs_view (sk_srv c) d')" by auto
  then have v: "y = Some [(sc_key c, take n es)]" "xs_view (sk_srv c) d' = sv_deliver (sc_key c) (sc_group c) n (sview_of c)"
    using assms(6) n(2) by (auto simp: read_effect_def)
  obtain err where "decode_entries (take n es) [] (c\<lparr>sk_d := d'\<rparr>) = (Ret (Inl err), c\<lparr>sk_d := d'\<rparr>)"
    using decode_entries_bad [of "take n es" "c\<lparr>sk_d := d'\<rparr>" "[]"] assms(7,8) by auto
  then have "read_group n c = (Ret (Inl err), c\<lparr>sk_d := d'\<rparr>)"
    using ready y(1) v(1) by (simp add: read_group_def bindQ_Inr bindA_def getA_def on_srv_Ret)
  then have "stream_claim_batch n c = (Ret (Inl err), c\<lparr>sk_d := d'\<rparr>)"
    using n(1) by (simp add: stream_claim_batch_def bindQ_Inl)
  with v(2) assms(6) show ?thesis by simp
qed

text \<open>A stream whose second entry is unreadable.\<close>

definition poisoned_entries :: mserver where
  "poisoned_entries = \<lparr>ms_logs = [(''event_base:orders'', [(''1'', Some [1]), (''2'', Some [9])])],
     ms_groups = [((''event_base:orders'', ''event_base''), [(''1'', Some [1]), (''2'', Some [9])], [])]\<rparr>"

theorem redis_undecodable_entry_costs_batch_witness:
  "\<exists>err c'. stream_claim_batch 2 (second_consumer\<lparr>sk_d := poisoned_entries\<rparr>) = (Ret (Inl err), c') \<and>
     sc_pending c' = [] \<and> sv_new (sview_of c') ''event_base:orders'' ''event_base'' = Some [] \<and>
     sv_pel (sview_of c') ''event_base:orders'' ''event_base'' = [''1'', ''2'']"
proof -
  have "sv_new (ms_view poisoned_entries) ''event_base:orders'' ''event_base'' = Some [(''1'', Some [1]), (''2'', Some [9])]"
      "sv_pel (ms_view poisoned_entries) ''event_base:orders'' ''event_base'' = []"
    by (simp_all add: poisoned_entries_def ms_pel_def)
  moreover have "entry_message (table_codec two_messages) (''2'', Some [9]) = None"
    by (simp add: entry_message_def decode_msg_def table_codec_def two_messages_def)
  ultimately show ?thesis
    using redis_undecodable_entry_costs_batch [of "second_consumer\<lparr>sk_d := poisoned_entries\<rparr>"
        "[(''1'', Some [1]), (''2'', Some [9])]" 2]
    by (simp add: second_consumer_def memory_streams_laws)
qed

text \<open>Nodes of one deployment share the group of a topic, unless it is a coordination topic.\<close>

lemma group_for_shared:
  assumes "qc_group c = qc_group c'" and "node_or_global c n = Some a" and "node_or_global c' n' = Some b"
  shows "group_for c n topic = group_for c' n' topic \<longleftrightarrow> topic \<notin> set FANOUT_SYSTEM_TOPICS \<or> a = b"
  using assms by (auto simp: group_for_def)

end
