(* ===== verification/Wire.thy ===== *)
theory Wire
  imports Wal
begin

text \<open>
  The messages that the parts of the system send each other through the system topics, one
  record or datatype per type of the source (\<^verbatim>\<open>audit.rs\<close>, \<^verbatim>\<open>wal/sync.rs\<close>,
  \<^verbatim>\<open>worker_registry.rs\<close>, \<^verbatim>\<open>shutdown/messages.rs\<close>, \<^verbatim>\<open>system_handlers/topic.rs\<close>,
  \<^verbatim>\<open>metrics/node.rs\<close> and \<^verbatim>\<open>lib.rs\<close> of \<^verbatim>\<open>event_base_core\<close>), and the record of the codecs
  (bincode and serde\_json, parameters) that turn them into payloads. A floating-point
  number is carried as its bits.
\<close>

datatype node_type = Host | WorkerNode

datatype audit_event_type =
  Enqueued | ProcessingStarted | ProcessingCompleted | RetryEvent | DeadLettered

datatype audit_result = StartResult | SuccessResult | FailureResult | RetryResult | DeadResult

record audit_record =
  ar_message_id :: string
  ar_topic :: string
  ar_event_type :: audit_event_type
  ar_worker_id :: "string option"
  ar_timestamp :: time
  ar_result :: audit_result
  ar_error :: "string option"
  ar_duration :: "duration option"

record wal_sync_message =
  ws_message_id :: string
  ws_topic :: string
  ws_worker_id :: string
  ws_status :: wal_record_state
  ws_attempts :: u32
  ws_last_attempt_at :: time
  ws_error :: "string option"
  ws_timestamp :: time

record worker_heartbeat_message =
  hb_worker_name :: string
  hb_timestamp :: time

record worker_discovery_message =
  wd_worker_name :: string
  wd_topic :: string
  wd_started_at :: time

datatype shutdown_strategy =
    TwoStage u64 u64
  | Graceful string u64
  | Force
  | TimeoutStrategy u64
  | StateBasedIdle
  | Batched nat u64

datatype shutdown_status = Completed | FailedStatus | TimeoutStatus

record shutdown_ack =
  sa_worker_name :: string
  sa_status :: shutdown_status
  sa_timestamp :: time
  sa_error :: "string option"

record topic_discovery_message =
  has_topics :: "string list"

record topic_sync_message =
  sync_topics :: "string list"

record node_metrics =
  nm_node_name :: string
  nm_node_type :: node_type
  nm_cpu_percent :: "u32 list"
  nm_memory_percent :: u32
  nm_worker_count :: nat
  nm_update_time :: time

record codecs =
  cc_sync :: "wal_sync_message codec"
  cc_audit :: "audit_record codec"
  cc_heartbeat :: "worker_heartbeat_message codec"
  cc_discovery :: "worker_discovery_message codec"
  cc_shutdown :: "shutdown_strategy codec"
  cc_shutdown_ack :: "shutdown_ack codec"
  cc_topic_discovery :: "topic_discovery_message codec"
  cc_topic_sync :: "topic_sync_message codec"
  cc_metrics :: "node_metrics codec"

text \<open>Codecs that encode nothing, for examples that send no payload.\<close>

definition null_codec :: "'a codec" where
  "null_codec = \<lparr>cd_enc = (\<lambda>_. Inl ''unsupported''), cd_dec = (\<lambda>_. Inl ''unsupported'')\<rparr>"

definition null_codecs :: codecs where
  "null_codecs =
     \<lparr>cc_sync = null_codec, cc_audit = null_codec, cc_heartbeat = null_codec,
      cc_discovery = null_codec, cc_shutdown = null_codec, cc_shutdown_ack = null_codec,
      cc_topic_discovery = null_codec, cc_topic_sync = null_codec, cc_metrics = null_codec\<rparr>"

end
