(* ===== verification/World.thy ===== *)
theory World
  imports Wire Queue
begin

text \<open>
  The process-wide state that the components reach through \<^verbatim>\<open>global()\<close> and the statics of
  \<^verbatim>\<open>event_base_core/src/lib.rs\<close>: the queues (an opaque fabric \<open>'f\<close> that producers act on, so
  that producers of the same queue share its state), the topic router, the worker registry
  and its log (a trait object, its operations and its state \<open>'w\<close>), the node's name and type, and
  the clock and identifier sources. A \<^verbatim>\<open>OnceLock\<close> is an option; reading one that is not set
  panics. The locks are not part of the state: each operation below is one critical section or
  a sequence of them, and interleavings are sequences of operations.
\<close>

section \<open>State\<close>

record 'f topic_router =
  tr_topics :: "string list"
  tr_producer :: "'f eproducer"
  tr_default_timeout :: "duration option"

record 'w worker_registry =
  wr_workers :: "(string, worker_info) hashmap"
  wr_wal :: "'w wal_ops option"

record ('f, 'w) world =
  w_fabric :: 'f
  w_wal :: 'w
  w_router :: "'f topic_router option"
  w_registry :: "'w worker_registry option"
  w_node_name :: "string option"
  w_node_type :: "node_type option"
  w_amb :: ambient
  w_codecs :: codecs


section \<open>Reaching the parts\<close>

definition on_fabric :: "('f, 'a) act \<Rightarrow> (('f, 'w, 'z) world_scheme, 'a) act" where
  "on_fabric m w = (case m (w_fabric w) of (r, f') \<Rightarrow> (r, w\<lparr>w_fabric := f'\<rparr>))"

definition on_wal :: "('w, 'a) act \<Rightarrow> (('f, 'w, 'z) world_scheme, 'a) act" where
  "on_wal m w = (case m (w_wal w) of (r, x') \<Rightarrow> (r, w\<lparr>w_wal := x'\<rparr>))"

definition uuid_v4 :: "(('f, 'w, 'z) world_scheme, string) act" where
  "uuid_v4 w = (case new_uuid (w_amb w) of (k, a) \<Rightarrow> (Ret k, w\<lparr>w_amb := a\<rparr>))"

definition time_now :: "(('f, 'w, 'z) world_scheme, time) act" where
  "time_now w = (case read_clock (w_amb w) of (t, a) \<Rightarrow> (Ret t, w\<lparr>w_amb := a\<rparr>))"

definition encode_with :: "(codecs \<Rightarrow> 'a codec) \<Rightarrow> 'a \<Rightarrow> (('f, 'w, 'z) world_scheme, u8 list result) act"
  where
  "encode_with c x =
     getA (\<lambda>w. case cd_enc (c (w_codecs w)) x of
       Inl e \<Rightarrow> Inl (ESerialize (SerializeError e)) | Inr b \<Rightarrow> Inr b)"


section \<open>Node identity\<close>

definition set_node_name :: "string \<Rightarrow> (('f, 'w, 'z) world_scheme, unit) act" where
  "set_node_name n =
     bindA (getA w_node_name) (\<lambda>old. case old of
         None \<Rightarrow> putA (\<lambda>w. w\<lparr>w_node_name := Some n\<rparr>)
       | Some _ \<Rightarrow> halt ''Node name already set'')"

definition try_set_node_name :: "string \<Rightarrow> (('f, 'w, 'z) world_scheme, string + unit) act" where
  "try_set_node_name n =
     bindA (getA w_node_name) (\<lambda>old. case old of
         None \<Rightarrow> bindA (putA (\<lambda>w. w\<lparr>w_node_name := Some n\<rparr>)) (\<lambda>_. ret (Inr ()))
       | Some _ \<Rightarrow> ret (Inl ''node name already set''))"

definition get_node_name :: "(('f, 'w, 'z) world_scheme, string) act" where
  "get_node_name =
     bindA (getA w_node_name) (\<lambda>n. case n of
         None \<Rightarrow> halt ''Node name not initialized'' | Some x \<Rightarrow> ret x)"

definition try_get_node_name :: "(('f, 'w, 'z) world_scheme, string option) act" where
  "try_get_node_name = getA w_node_name"

definition set_node_type :: "node_type \<Rightarrow> (('f, 'w, 'z) world_scheme, unit) act" where
  "set_node_type t = putA (\<lambda>w. w\<lparr>w_node_type := Some t\<rparr>)"

definition get_node_type :: "(('f, 'w, 'z) world_scheme, node_type) act" where
  "get_node_type =
     bindA (getA w_node_type) (\<lambda>t. case t of
         None \<Rightarrow> halt ''Node type not initialized'' | Some x \<Rightarrow> ret x)"


section \<open>Messages made by the system\<close>

text \<open>\<^verbatim>\<open>EMessage::new\<close> with the identifier and the time it draws.\<close>

definition make_message :: "string \<Rightarrow> u8 list \<Rightarrow> delivery_mode \<Rightarrow> string option
    \<Rightarrow> (('f, 'w, 'z) world_scheme, emessage) act" where
  "make_message topic pl mode target =
     bindA uuid_v4 (\<lambda>u. bindA time_now (\<lambda>t. ret (emessage_new u t topic pl mode target)))"


section \<open>Lemmas\<close>

lemma uuid_v4_app [outcome_simps]:
  "uuid_v4 w = (Ret (uuid_src (w_amb w) (uuid_next (w_amb w))), w\<lparr>w_amb := snd (new_uuid (w_amb w))\<rparr>)"
  by (simp add: uuid_v4_def split_def)

lemma time_now_app [outcome_simps]:
  "time_now w =
     (Ret (clock_src (w_amb w) (clock_next (w_amb w))), w\<lparr>w_amb := snd (read_clock (w_amb w))\<rparr>)"
  by (simp add: time_now_def split_def)

lemma on_fabric_app: "m (w_fabric w) = (r, f') \<Longrightarrow> on_fabric m w = (r, w\<lparr>w_fabric := f'\<rparr>)"
  by (simp add: on_fabric_def)

lemma on_wal_app: "m (w_wal w) = (r, x') \<Longrightarrow> on_wal m w = (r, w\<lparr>w_wal := x'\<rparr>)"
  by (simp add: on_wal_def)

end
