(* ===== verification/Worker_Registry.thy ===== *)
theory Worker_Registry
  imports World Wal_Persistent
begin

text \<open>
  The registry of workers (\<^verbatim>\<open>event_base_core/src/worker_registry.rs\<close>). It holds a map from
  worker names to their topic and last heartbeat and saves the whole map through the log
  after every change. The lemmas are proved for every log that satisfies \<open>wal_backend\<close>
  and used for the two logs of the development.
\<close>

section \<open>Operations\<close>

definition registry_init :: "'w wal_ops option \<Rightarrow> (('f, 'w, 'z) world_scheme, unit result) act" where
  "registry_init wal =
     (case wal of
        None \<Rightarrow> ret (Inl (EUnsupported ''WorkerRegistry requires a WAL (pass Some(..))''))
      | Some ops \<Rightarrow>
          bindQ (on_wal (wal_load_worker_registry ops)) (\<lambda>wr.
          bindA (getA w_registry) (\<lambda>old. case old of
              Some _ \<Rightarrow> ret (Inl EAlreadyInitialized)
            | None \<Rightarrow>
                bindA (putA (\<lambda>w. w\<lparr>w_registry := Some \<lparr>wr_workers = wr, wr_wal = Some ops\<rparr>\<rparr>))
                  (\<lambda>_. ret (Inr ())))))"

text \<open>\<^verbatim>\<open>WorkerRegistry::global()\<close>.\<close>

definition the_registry :: "(('f, 'w, 'z) world_scheme, 'w worker_registry) act" where
  "the_registry =
     bindA (getA w_registry) (\<lambda>r. case r of
         None \<Rightarrow> halt ''WorkerRegistry is not initialized'' | Some wr \<Rightarrow> ret wr)"

definition set_workers ::
    "(string, worker_info) hashmap \<Rightarrow> (('f, 'w, 'z) world_scheme, unit) act" where
  "set_workers ws = putA (\<lambda>w. w\<lparr>w_registry := map_option (\<lambda>r. r\<lparr>wr_workers := ws\<rparr>) (w_registry w)\<rparr>)"

definition save_worker_registry :: "(('f, 'w, 'z) world_scheme, unit result) act" where
  "save_worker_registry =
     bindA the_registry (\<lambda>wr. case wr_wal wr of
         None \<Rightarrow> halt ''called `Option::unwrap()` on a `None` value''
       | Some ops \<Rightarrow> on_wal (wal_save_worker_registry ops (wr_workers wr)))"

definition registry_register :: "worker_info \<Rightarrow> (('f, 'w, 'z) world_scheme, unit result) act" where
  "registry_register info =
     bindA the_registry (\<lambda>wr.
     bindA (set_workers (hm_insert (wi_name info) info (wr_workers wr))) (\<lambda>_.
     bindQ save_worker_registry (\<lambda>_. ret (Inr ()))))"

definition registry_unregister :: "string \<Rightarrow> (('f, 'w, 'z) world_scheme, unit result) act" where
  "registry_unregister worker_id =
     bindA the_registry (\<lambda>wr.
     bindA (set_workers (hm_remove worker_id (wr_workers wr))) (\<lambda>_.
     bindQ save_worker_registry (\<lambda>_. ret (Inr ()))))"

definition registry_heartbeat :: "string \<Rightarrow> (('f, 'w, 'z) world_scheme, unit result) act" where
  "registry_heartbeat worker_id =
     bindA the_registry (\<lambda>wr.
     bindA (if hm_contains (wr_workers wr) worker_id then
              bindA time_now (\<lambda>now. set_workers
                (hm_modify (\<lambda>info. info\<lparr>last_heartbeat := now\<rparr>) worker_id (wr_workers wr)))
            else ret ()) (\<lambda>_.
     bindQ save_worker_registry (\<lambda>_. ret (Inr ()))))"

definition registry_get_workers ::
    "string \<Rightarrow> (('f, 'w, 'z) world_scheme, worker_info list result) act" where
  "registry_get_workers topic =
     bindA the_registry (\<lambda>wr.
     ret (Inr (filter (\<lambda>info. wi_topic info = topic) (hm_values (wr_workers wr)))))"

definition registry_get_all_workers ::
    "(('f, 'w, 'z) world_scheme, worker_info list result) act" where
  "registry_get_all_workers = bindA the_registry (\<lambda>wr. ret (Inr (hm_values (wr_workers wr))))"

text \<open>\<^verbatim>\<open>now.duration_since(hb).unwrap_or(Duration::MAX) > timeout\<close>.\<close>

definition is_stale :: "time \<Rightarrow> duration \<Rightarrow> worker_info \<Rightarrow> bool" where
  "is_stale now timeout info =
     (timeout < (case duration_since now (last_heartbeat info) of
         Inr elapsed \<Rightarrow> elapsed | Inl _ \<Rightarrow> duration_max))"

definition registry_cleanup_stale ::
    "duration \<Rightarrow> (('f, 'w, 'z) world_scheme, string list result) act" where
  "registry_cleanup_stale timeout =
     bindA time_now (\<lambda>now.
     bindA the_registry (\<lambda>wr.
     let stale = map fst (filter (\<lambda>(id, info). is_stale now timeout info) (wr_workers wr)) in
     bindA (set_workers (fold hm_remove stale (wr_workers wr))) (\<lambda>_.
     bindQ save_worker_registry (\<lambda>_. ret (Inr stale)))))"


section \<open>Behaviour over any log\<close>

text \<open>
  The registry's invariant: it uses the given log, every worker is filed under its own name,
  and the log holds the registry's map.
\<close>

definition registry_ready :: "'w wal_ops \<Rightarrow> ('f, 'w, 'z) world_scheme \<Rightarrow> bool" where
  "registry_ready ops w \<longleftrightarrow> (case w_registry w of None \<Rightarrow> False
     | Some wr \<Rightarrow> wr_wal wr = Some ops \<and> hm_wf (wr_workers wr) \<and>
         (\<forall>(k, info) \<in> set (wr_workers wr). wi_name info = k))"

definition world_workers :: "('f, 'w, 'z) world_scheme \<Rightarrow> (string, worker_info) hashmap" where
  "world_workers w = (case w_registry w of None \<Rightarrow> [] | Some wr \<Rightarrow> wr_workers wr)"

definition registry_saved :: "'w wal_ops \<Rightarrow> ('w \<Rightarrow> bool) \<Rightarrow> ('w \<Rightarrow> (string, worker_info) hashmap)
    \<Rightarrow> ('f, 'w, 'z) world_scheme \<Rightarrow> bool" where
  "registry_saved ops winv reg w \<longleftrightarrow>
     registry_ready ops w \<and> winv (w_wal w) \<and> reg (w_wal w) = world_workers w"

lemmas registry_defs = registry_register_def registry_unregister_def registry_heartbeat_def
  registry_cleanup_stale_def registry_get_workers_def registry_get_all_workers_def
  the_registry_def set_workers_def save_worker_registry_def bindA_def bindQ_def outcome_simps
  Let_def

lemma registry_ready_obtain:
  assumes "registry_ready ops w"
  obtains wr where "w_registry w = Some wr" and "wr_wal wr = Some ops" and "hm_wf (wr_workers wr)"
    and "\<forall>(k, info) \<in> set (wr_workers wr). wi_name info = k" and "world_workers w = wr_workers wr"
  using assms that by (auto simp: registry_ready_def world_workers_def split: option.splits)

lemma registry_ready_workers:
  "registry_ready ops w \<Longrightarrow> hm_wf ws \<Longrightarrow> \<forall>(k, info) \<in> set ws. wi_name info = k \<Longrightarrow>
   registry_ready ops (w\<lparr>w_registry := map_option (\<lambda>r. r\<lparr>wr_workers := ws\<rparr>) (w_registry w)\<rparr>)"
  by (auto simp: registry_ready_def split: option.splits)

lemma registry_ready_upd [simp]:
  "registry_ready ops (w\<lparr>w_wal := x\<rparr>) = registry_ready ops w"
  "registry_ready ops (w\<lparr>w_amb := a\<rparr>) = registry_ready ops w"
  "registry_ready ops (w\<lparr>w_fabric := f\<rparr>) = registry_ready ops w"
  by (simp_all add: registry_ready_def)

lemma world_workers_upd [simp]:
  "world_workers (w\<lparr>w_wal := x\<rparr>) = world_workers w"
  "world_workers (w\<lparr>w_amb := a\<rparr>) = world_workers w"
  "world_workers (w\<lparr>w_fabric := f\<rparr>) = world_workers w"
  by (simp_all add: world_workers_def)

context wal_backend
begin

text \<open>Saving after the map is set to \<open>ws\<close>: the common tail of the four changing operations.\<close>

lemma set_and_save:
  assumes "registry_ready ops w" and "winv (w_wal w)"
    and "hm_wf ws" and "\<forall>(k, info) \<in> set ws. wi_name info = k"
  shows "\<exists>x. bindA (set_workers ws) (\<lambda>_. bindQ save_worker_registry k) w =
       k () (w\<lparr>w_registry := map_option (\<lambda>r. r\<lparr>wr_workers := ws\<rparr>) (w_registry w), w_wal := x\<rparr>) \<and>
     winv x \<and> reg x = ws \<and> recs x = recs (w_wal w) \<and> dels x = dels (w_wal w)"
proof -
  obtain wr where wr: "w_registry w = Some wr" "wr_wal wr = Some ops"
    using assms(1) by (rule registry_ready_obtain)
  obtain x where "wal_save_worker_registry ops ws (w_wal w) = (Ret (Inr ()), x)" "winv x"
      "reg x = ws" "recs x = recs (w_wal w)" "dels x = dels (w_wal w)"
    using save_law [OF assms(2), of ws] by blast
  with wr show ?thesis
    by (intro exI [of _ x]) (simp add: registry_defs on_wal_def)
qed

lemma set_and_save_spec:
  assumes "registry_ready ops w" and "winv (w_wal w)"
    and "hm_wf ws" and "\<forall>(k, info) \<in> set ws. wi_name info = k"
  shows "\<exists>w'. bindA (set_workers ws) (\<lambda>_. bindQ save_worker_registry k) w = k () w' \<and>
     registry_saved ops winv reg w' \<and> world_workers w' = ws \<and> w_fabric w' = w_fabric w \<and> w_router w' = w_router w"
proof -
  obtain wr where wr: "w_registry w = Some wr"
    using assms(1) by (rule registry_ready_obtain)
  obtain x where x: "bindA (set_workers ws) (\<lambda>_. bindQ save_worker_registry k) w =
       k () (w\<lparr>w_registry := map_option (\<lambda>r. r\<lparr>wr_workers := ws\<rparr>) (w_registry w), w_wal := x\<rparr>)"
     "winv x" "reg x = ws"
    using set_and_save [OF assms, of k] by blast
  have "registry_ready ops (w\<lparr>w_registry := map_option (\<lambda>r. r\<lparr>wr_workers := ws\<rparr>) (w_registry w)\<rparr>)"
    using assms(1,3,4) by (rule registry_ready_workers)
  with x wr show ?thesis
    by (intro exI conjI) (assumption | simp add: registry_saved_def world_workers_def)+
qed

lemma register_spec:
  assumes "registry_ready ops w" and "winv (w_wal w)"
  shows "\<exists>w'. registry_register info w = (Ret (Inr ()), w') \<and> registry_saved ops winv reg w' \<and>
     hm_get (world_workers w') = (hm_get (world_workers w))(wi_name info \<mapsto> info)"
proof -
  obtain wr where wr: "w_registry w = Some wr" "hm_wf (wr_workers wr)"
      "\<forall>(k, info) \<in> set (wr_workers wr). wi_name info = k" "world_workers w = wr_workers wr"
    using assms(1) by (rule registry_ready_obtain)
  let ?ws = "hm_insert (wi_name info) info (wr_workers wr)"
  have "hm_wf ?ws" "\<forall>(k, info) \<in> set ?ws. wi_name info = k"
    using wr by (auto simp: hm_set_insert)
  from set_and_save_spec [OF assms this, of "\<lambda>_. ret (Inr ())"] obtain w' where
    "bindA (set_workers ?ws) (\<lambda>_. bindQ save_worker_registry (\<lambda>_. ret (Inr ()))) w =
       (Ret (Inr ()), w')" "registry_saved ops winv reg w'" "world_workers w' = ?ws" by (auto simp: ret_def)
  moreover have "registry_register info w =
      bindA (set_workers ?ws) (\<lambda>_. bindQ save_worker_registry (\<lambda>_. ret (Inr ()))) w"
    using wr by (simp add: registry_register_def the_registry_def bindA_def getA_def ret_def)
  ultimately show ?thesis using wr by (intro exI [of _ w']) (simp add: fun_eq_iff)
qed

lemma unregister_spec:
  assumes "registry_ready ops w" and "winv (w_wal w)"
  shows "\<exists>w'. registry_unregister k w = (Ret (Inr ()), w') \<and> registry_saved ops winv reg w' \<and>
     hm_get (world_workers w') = (hm_get (world_workers w))(k := None)"
proof -
  obtain wr where wr: "w_registry w = Some wr" "hm_wf (wr_workers wr)"
      "\<forall>(k, info) \<in> set (wr_workers wr). wi_name info = k" "world_workers w = wr_workers wr"
    using assms(1) by (rule registry_ready_obtain)
  let ?ws = "hm_remove k (wr_workers wr)"
  have "hm_wf ?ws" "\<forall>(k, info) \<in> set ?ws. wi_name info = k"
    using wr by (auto simp: hm_set_remove)
  from set_and_save_spec [OF assms this, of "\<lambda>_. ret (Inr ())"] obtain w' where
    "bindA (set_workers ?ws) (\<lambda>_. bindQ save_worker_registry (\<lambda>_. ret (Inr ()))) w =
       (Ret (Inr ()), w')" "registry_saved ops winv reg w'" "world_workers w' = ?ws" by (auto simp: ret_def)
  moreover have "registry_unregister k w =
      bindA (set_workers ?ws) (\<lambda>_. bindQ save_worker_registry (\<lambda>_. ret (Inr ()))) w"
    using wr by (simp add: registry_unregister_def the_registry_def bindA_def getA_def ret_def)
  ultimately show ?thesis using wr by (intro exI [of _ w']) (simp add: fun_eq_iff)
qed

lemma heartbeat_spec:
  assumes "registry_ready ops w" and "winv (w_wal w)"
  shows "\<exists>w'. registry_heartbeat k w = (Ret (Inr ()), w') \<and> registry_saved ops winv reg w' \<and>
     hm_get (world_workers w') = (hm_get (world_workers w))(k := map_option
       (\<lambda>info. info\<lparr>last_heartbeat := clock_src (w_amb w) (clock_next (w_amb w))\<rparr>)
       (hm_get (world_workers w) k))"
proof -
  obtain wr where wr: "w_registry w = Some wr" "hm_wf (wr_workers wr)"
      "\<forall>(k, info) \<in> set (wr_workers wr). wi_name info = k" "world_workers w = wr_workers wr"
      "wr_wal wr = Some ops"
    using assms(1) by (rule registry_ready_obtain)
  let ?now = "clock_src (w_amb w) (clock_next (w_amb w))"
  let ?ws = "hm_modify (\<lambda>info. info\<lparr>last_heartbeat := ?now\<rparr>) k (wr_workers wr)"
  let ?save = "\<lambda>ws. bindA (set_workers ws) (\<lambda>_. bindQ save_worker_registry (\<lambda>_. ret (Inr ())))"
  have ws: "hm_wf ?ws" "\<forall>(k, info) \<in> set ?ws. wi_name info = k"
    using wr by (auto simp: hm_modify_def hm_set_insert dest: map_of_SomeD split: option.splits)
  show ?thesis
  proof (cases "hm_get (wr_workers wr) k")
    case None
    from set_and_save_spec [OF assms wr(2,3), of "\<lambda>_. ret (Inr ())"] obtain w' where w':
      "?save (wr_workers wr) w = (Ret (Inr ()), w')" "registry_saved ops winv reg w'"
      "world_workers w' = wr_workers wr" by (auto simp: ret_def)
    have same: "w\<lparr>w_registry := Some wr\<rparr> = w" using wr(1) by simp
    have "registry_heartbeat k w = ?save (wr_workers wr) w"
      using wr None by (simp add: registry_defs same)
    with w' wr None show ?thesis by (intro exI [of _ w']) (auto simp: fun_eq_iff)
  next
    case (Some info)
    let ?w = "w\<lparr>w_amb := snd (read_clock (w_amb w))\<rparr>"
    have "registry_ready ops ?w" "winv (w_wal ?w)" using assms by simp_all
    from set_and_save_spec [OF this ws, of "\<lambda>_. ret (Inr ())"] obtain w' where w':
      "?save ?ws ?w = (Ret (Inr ()), w')" "registry_saved ops winv reg w'"
      "world_workers w' = ?ws" by (auto simp: ret_def)
    have "registry_heartbeat k w = ?save ?ws ?w" using wr Some by (simp add: registry_defs)
    with w' wr Some show ?thesis
      by (intro exI [of _ w']) (auto simp: fun_eq_iff hm_get_modify)
  qed
qed

lemma cleanup_spec:
  assumes "registry_ready ops w" and "winv (w_wal w)"
    and now: "now = clock_src (w_amb w) (clock_next (w_amb w))"
  shows "\<exists>stale w'. registry_cleanup_stale d w = (Ret (Inr stale), w') \<and>
     registry_saved ops winv reg w' \<and> distinct stale \<and>
     set stale = {k. \<exists>info. hm_get (world_workers w) k = Some info \<and> is_stale now d info} \<and>
     hm_get (world_workers w') = (\<lambda>k. case hm_get (world_workers w) k of None \<Rightarrow> None
       | Some info \<Rightarrow> if is_stale now d info then None else Some info)"
proof -
  obtain wr where wr: "w_registry w = Some wr" "hm_wf (wr_workers wr)"
      "\<forall>(k, info) \<in> set (wr_workers wr). wi_name info = k" "world_workers w = wr_workers wr"
    using assms(1) by (rule registry_ready_obtain)
  let ?stale = "map fst (filter (\<lambda>(i, x). is_stale now d x) (wr_workers wr))"
  let ?ws = "fold hm_remove ?stale (wr_workers wr)" and ?w = "w\<lparr>w_amb := snd (read_clock (w_amb w))\<rparr>"
  let ?save = "bindA (set_workers ?ws) (\<lambda>_. bindQ save_worker_registry (\<lambda>_. ret (Inr ?stale)))"
  have ws: "hm_wf ?ws" "\<forall>(k, info) \<in> set ?ws. wi_name info = k"
    using wr hm_set_fold_remove [OF wr(2), of ?stale] by (auto simp: hm_wf_fold_remove)
  have "registry_ready ops ?w" "winv (w_wal ?w)" using assms by simp_all
  from set_and_save_spec [OF this ws, of "\<lambda>_. ret (Inr ?stale)"] obtain w' where w':
    "?save ?w = (Ret (Inr ?stale), w')" "registry_saved ops winv reg w'" "world_workers w' = ?ws"
    by (auto simp: ret_def)
  have "registry_cleanup_stale d w = ?save ?w"
    using wr now by (simp add: registry_cleanup_stale_def the_registry_def bindA_def
        outcome_simps Let_def)
  moreover have "distinct ?stale" using wr(2) by (rule distinct_map_filter)
  moreover have "set ?stale = {k. \<exists>info. hm_get (wr_workers wr) k = Some info \<and> is_stale now d info}"
    using wr(2) by force
  ultimately show ?thesis
    using w' wr(4) take_due [OF wr(2), of "is_stale now d"]
    by (intro exI [of _ ?stale] exI [of _ w']) simp
qed

text \<open>A process that starts again on the same log has the registry that was saved.\<close>

lemma reload_spec:
  assumes "registry_saved ops winv reg w" and "w_registry w0 = None" and "w_wal w0 = w_wal w"
  shows "\<exists>w1. registry_init (Some ops) w0 = (Ret (Inr ()), w1) \<and> registry_saved ops winv reg w1 \<and>
     world_workers w1 = world_workers w"
proof -
  have "wal_load_worker_registry ops (w_wal w0) = (Ret (Inr (world_workers w)), w_wal w0)"
    using assms load_law [of "w_wal w"] by (simp add: registry_saved_def)
  moreover have "registry_ready ops w" using assms(1) by (simp add: registry_saved_def)
  then obtain wr where "w_registry w = Some wr" "world_workers w = wr_workers wr"
      "hm_wf (wr_workers wr)" "\<forall>(k, info) \<in> set (wr_workers wr). wi_name info = k"
    by (rule registry_ready_obtain)
  ultimately show ?thesis
    using assms
    by (simp add: registry_init_def on_wal_def bindQ_def bindA_def outcome_simps
        registry_saved_def registry_ready_def world_workers_def)
qed

end



section \<open>Properties\<close>


definition registry_world :: "'w wal_ops \<Rightarrow> 'w \<Rightarrow> (string, worker_info) hashmap \<Rightarrow> (unit, 'w) world"
  where
  "registry_world ops x ws =
     \<lparr>w_fabric = (), w_wal = x, w_router = None,
      w_registry = Some \<lparr>wr_workers = ws, wr_wal = Some ops\<rparr>, w_node_name = None,
      w_node_type = Some Host,
      w_amb = \<lparr>uuid_src = (\<lambda>n. replicate n CHR ''u''), uuid_next = 0,
        clock_src = (\<lambda>n. 100 + int n), clock_next = 0\<rparr>,
      w_codecs = null_codecs\<rparr>"

lemma registry_world_ready:
  "hm_wf ws \<Longrightarrow> \<forall>(k, info) \<in> set ws. wi_name info = k \<Longrightarrow>
   registry_ready ops (registry_world ops x ws)"
  by (simp add: registry_ready_def registry_world_def)


text \<open>The cleanup removes exactly the workers it reports, each once: those whose last
  heartbeat is older than the timeout, and those whose heartbeat lies in the future of the
  clock (for every timeout below the largest duration). All other workers stay, and the
  result is saved to the log.\<close>

theorem registry_cleanup_exact:
  assumes "registry_ready memory_wal w" and "mw_inv (w_wal w)" and "timeout < duration_max"
    and "now = clock_src (w_amb w) (clock_next (w_amb w))"
  shows "\<exists>stale w'. registry_cleanup_stale timeout w = (Ret (Inr stale), w') \<and> distinct stale \<and>
     (\<forall>k. hm_get (world_workers w') k = (if k \<in> set stale then None else hm_get (world_workers w) k)) \<and>
     (\<forall>k info. hm_get (world_workers w) k = Some info \<longrightarrow>
        (k \<in> set stale \<longleftrightarrow> now < last_heartbeat info \<or> last_heartbeat info + int timeout < now)) \<and>
     mw_registry (w_wal w') = world_workers w'"
proof -
  obtain stale w' where c: "registry_cleanup_stale timeout w = (Ret (Inr stale), w')"
      "registry_saved memory_wal mw_inv mw_registry w'" "distinct stale"
      "set stale = {k. \<exists>info. hm_get (world_workers w) k = Some info \<and> is_stale now timeout info}"
      "hm_get (world_workers w') = (\<lambda>k. case hm_get (world_workers w) k of None \<Rightarrow> None
         | Some info \<Rightarrow> if is_stale now timeout info then None else Some info)"
    using mem_wal.cleanup_spec [OF assms(1,2,4), of timeout] by blast
  have stale: "is_stale now timeout info \<longleftrightarrow>
      now < last_heartbeat info \<or> last_heartbeat info + int timeout < now" for info
    using assms(3) by (auto simp: is_stale_def duration_since_def)
  have "hm_get (world_workers w') k = (if k \<in> set stale then None else hm_get (world_workers w) k)"
    for k using c(4,5) by (auto split: option.splits)
  with c stale show ?thesis
    by (intro exI [of _ stale] exI [of _ w']) (auto simp: registry_saved_def)
qed

theorem registry_cleanup_exact_witness:
  "\<exists>stale w'. registry_cleanup_stale 30 (registry_world memory_wal mem_wal_new
       [(''a'', \<lparr>wi_name = ''a'', wi_topic = ''t'', last_heartbeat = 50\<rparr>),
        (''b'', \<lparr>wi_name = ''b'', wi_topic = ''t'', last_heartbeat = 90\<rparr>),
        (''c'', \<lparr>wi_name = ''c'', wi_topic = ''t'', last_heartbeat = 101\<rparr>)]) = (Ret (Inr stale), w') \<and>
     ''a'' \<in> set stale \<and> ''b'' \<notin> set stale \<and> ''c'' \<in> set stale"
proof -
  let ?w = "registry_world memory_wal mem_wal_new
       [(''a'', \<lparr>wi_name = ''a'', wi_topic = ''t'', last_heartbeat = 50\<rparr>),
        (''b'', \<lparr>wi_name = ''b'', wi_topic = ''t'', last_heartbeat = 90\<rparr>),
        (''c'', \<lparr>wi_name = ''c'', wi_topic = ''t'', last_heartbeat = 101\<rparr>)]"
  have ready: "registry_ready memory_wal ?w" by (rule registry_world_ready) auto
  have inv: "mw_inv (w_wal ?w)" by (simp add: registry_world_def mem_wal_new_def mw_inv_def)
  have dur: "(30 :: nat) < duration_max" by (simp add: duration_max_def nanos_per_sec_def)
  have now: "100 = clock_src (w_amb ?w) (clock_next (w_amb ?w))" by (simp add: registry_world_def)
  have ws: "hm_get (world_workers ?w) ''a'' = Some \<lparr>wi_name = ''a'', wi_topic = ''t'', last_heartbeat = 50\<rparr>"
    "hm_get (world_workers ?w) ''b'' = Some \<lparr>wi_name = ''b'', wi_topic = ''t'', last_heartbeat = 90\<rparr>"
    "hm_get (world_workers ?w) ''c'' = Some \<lparr>wi_name = ''c'', wi_topic = ''t'', last_heartbeat = 101\<rparr>"
    by (simp_all add: world_workers_def registry_world_def)
  from registry_cleanup_exact [OF ready inv dur now] ws show ?thesis by fastforce
qed

text \<open>A heartbeat refreshes the named worker's timestamp to the current time, changes no
  other worker and saves the registry; for a worker that is not registered it succeeds as
  well and changes nothing.\<close>

theorem registry_heartbeat_correct:
  assumes "registry_ready memory_wal w" and "mw_inv (w_wal w)"
  shows "\<exists>w'. registry_heartbeat k w = (Ret (Inr ()), w') \<and>
     hm_get (world_workers w') = (hm_get (world_workers w))(k := map_option
       (\<lambda>info. info\<lparr>last_heartbeat := clock_src (w_amb w) (clock_next (w_amb w))\<rparr>)
       (hm_get (world_workers w) k)) \<and>
     mw_registry (w_wal w') = world_workers w'"
  using mem_wal.heartbeat_spec [OF assms, of k] by (auto simp: registry_saved_def)

theorem registry_heartbeat_correct_witness:
  "\<exists>w'. registry_heartbeat ''ghost'' (registry_world memory_wal mem_wal_new []) = (Ret (Inr ()), w') \<and>
     hm_get (world_workers w') ''ghost'' = None"
  using registry_heartbeat_correct [of "registry_world memory_wal mem_wal_new []" "''ghost''"]
  by (auto simp: registry_world_ready)
    (auto simp: registry_world_def mem_wal_new_def mw_inv_def world_workers_def)

end
