(* ===== verification/Topic_Router.thy ===== *)
theory Topic_Router
  imports Worker_Registry Queue_Flume
begin

text \<open>
  The topic router (\<^verbatim>\<open>event_base_core/src/topic.rs\<close>): sending to a topic with delayed and
  broadcast delivery, system sends, replay of the log, and the delay scheduler.

  The locale \<open>router_env\<close> joins the contract of the producer the router holds and that of
  the log the registry holds; \<open>open_router_env\<close> adds that every send succeeds. Both are
  interpreted on the flume producer and the in-memory log.
\<close>

section \<open>Operations\<close>

definition router_init :: "'f eproducer \<Rightarrow> (('f, 'w, 'z) world_scheme, unit result) act" where
  "router_init producer =
     bindA (getA w_router) (\<lambda>old. case old of
         Some _ \<Rightarrow> ret (Inl EAlreadyInitialized)
       | None \<Rightarrow>
           bindA (putA (\<lambda>w. w\<lparr>w_router := Some \<lparr>tr_topics = [], tr_producer = producer,
             tr_default_timeout = None\<rparr>\<rparr>)) (\<lambda>_. ret (Inr ())))"

text \<open>\<^verbatim>\<open>TopicRouter::global()\<close>.\<close>

definition the_router :: "(('f, 'w, 'z) world_scheme, 'f topic_router) act" where
  "the_router =
     bindA (getA w_router) (\<lambda>r. case r of
         None \<Rightarrow> halt ''TopicRouter not initialized'' | Some tr \<Rightarrow> ret tr)"

definition emit :: "emessage \<Rightarrow> bool option \<Rightarrow> duration option
    \<Rightarrow> (('f, 'w, 'z) world_scheme, unit result) act" where
  "emit msg try_send timeout =
     bindA the_router (\<lambda>tr.
     if (case try_send of None \<Rightarrow> False | Some b \<Rightarrow> b)
     then on_fabric (ep_try_send (tr_producer tr) msg)
     else case (case timeout of Some t \<Rightarrow> Some t | None \<Rightarrow> tr_default_timeout tr) of
         Some t \<Rightarrow> on_fabric (ep_send_timeout (tr_producer tr) msg t)
       | None \<Rightarrow> on_fabric (ep_send (tr_producer tr) msg))"

text \<open>The log the registry holds, or the error of a registry without one.\<close>

definition registry_wal :: "(('f, 'w, 'z) world_scheme, 'w wal_ops result) act" where
  "registry_wal =
     bindA the_registry (\<lambda>wr. ret (case wr_wal wr of
         None \<Rightarrow> Inl (EUnsupported ''WAL not available'') | Some ops \<Rightarrow> Inr ops))"

definition broadcast_copy :: "emessage \<Rightarrow> worker_info \<Rightarrow> emessage" where
  "broadcast_copy msg info =
     msg\<lparr>msg_id := msg_id msg @ ''-'' @ wi_name info, to_worker := Some (wi_name info)\<rparr>"

definition topic_send :: "string \<Rightarrow> emessage \<Rightarrow> bool option \<Rightarrow> duration option
    \<Rightarrow> (('f, 'w, 'z) world_scheme, unit result) act" where
  "topic_send topic msg try_send timeout =
     (if deliver_at msg \<noteq> None then
        bindQ registry_wal (\<lambda>ops.
        bindQ (on_wal (wal_schedule ops (wal_record_from_msg msg))) (\<lambda>_. ret (Inr ())))
      else if delivery_mode msg = Broadcast then
        bindA get_node_type (\<lambda>nt.
        if nt = WorkerNode then
          ret (Inl (EUnsupported ''Unsupported node type, send broadcast message must host''))
        else
          bindQ (registry_get_workers topic) (\<lambda>workers.
          bindQ (forQ (\<lambda>info. emit (broadcast_copy msg info) try_send timeout) workers)
            (\<lambda>_. ret (Inr ()))))
      else emit (msg\<lparr>msg_topic := topic\<rparr>) try_send timeout)"

definition send_system :: "emessage \<Rightarrow> bool option \<Rightarrow> duration option
    \<Rightarrow> (('f, 'w, 'z) world_scheme, unit result) act" where
  "send_system msg try_send timeout = emit msg try_send timeout"

definition set_default_send_timeout ::
    "duration option \<Rightarrow> (('f, 'w, 'z) world_scheme, unit) act" where
  "set_default_send_timeout t =
     putA (\<lambda>w. w\<lparr>w_router := map_option (\<lambda>r. r\<lparr>tr_default_timeout := t\<rparr>) (w_router w)\<rparr>)"

definition list_topics :: "(('f, 'w, 'z) world_scheme, string list) act" where
  "list_topics = bindA the_router (\<lambda>tr. ret (tr_topics tr))"

definition register_topic :: "string \<Rightarrow> (('f, 'w, 'z) world_scheme, unit) act" where
  "register_topic topic =
     bindA the_router (\<lambda>tr.
     if topic \<in> set (tr_topics tr) then ret ()
     else putA (\<lambda>w. w\<lparr>w_router := map_option (\<lambda>r. r\<lparr>tr_topics := tr_topics r @ [topic]\<rparr>)
       (w_router w)\<rparr>))"

definition get_producer :: "(('f, 'w, 'z) world_scheme, 'f eproducer) act" where
  "get_producer = bindA the_router (\<lambda>tr. ret (tr_producer tr))"

record replay_summary =
  rs_recovered :: nat
  rs_delayed :: nat
  rs_errors :: "(string \<times> core_error) list"

text \<open>\<^verbatim>\<open>msg.deliver_at = None\<close> on the message of a record.\<close>

definition undelay :: "wal_record \<Rightarrow> emessage" where
  "undelay rec = (wr_message rec)\<lparr>deliver_at := None\<rparr>"

fun replay_loop :: "string list option \<Rightarrow> 'w wal_ops \<Rightarrow> wal_record list \<Rightarrow> replay_summary
    \<Rightarrow> (('f, 'w, 'z) world_scheme, replay_summary result) act" where
  "replay_loop filt ops [] summary = ret (Inr summary)"
| "replay_loop filt ops (rec # recs) summary =
     (let msg = wr_message rec in
      if (case filt of None \<Rightarrow> False | Some allowed \<Rightarrow> msg_topic msg \<notin> set allowed)
      then replay_loop filt ops recs summary
      else
        bindA (case deliver_at msg of
            None \<Rightarrow> ret False
          | Some t \<Rightarrow> bindA time_now (\<lambda>now. ret (now < t))) (\<lambda>future.
        if future then
          bindQ (on_wal (wal_schedule ops (wal_record_from_msg msg))) (\<lambda>_.
          replay_loop filt ops recs (summary\<lparr>rs_delayed := rs_delayed summary + 1\<rparr>))
        else
          bindA (topic_send (msg_topic (undelay rec)) (undelay rec) None None) (\<lambda>r. case r of
              Inr _ \<Rightarrow>
                replay_loop filt ops recs (summary\<lparr>rs_recovered := rs_recovered summary + 1\<rparr>)
            | Inl e \<Rightarrow> replay_loop filt ops recs
                (summary\<lparr>rs_errors := rs_errors summary @ [(msg_id (undelay rec), e)]\<rparr>))))"

definition replay :: "string list option \<Rightarrow> (('f, 'w, 'z) world_scheme, replay_summary result) act" where
  "replay topics =
     bindQ registry_wal (\<lambda>ops.
     bindQ (on_wal (wal_replay_pending ops)) (\<lambda>pending.
     replay_loop topics ops pending \<lparr>rs_recovered = 0, rs_delayed = 0, rs_errors = []\<rparr>))"

text \<open>
  One iteration of the loop of \<^verbatim>\<open>run_delay_scheduler\<close>, and \<open>n\<close> of them; between two
  iterations the task sleeps. Failures of \<^verbatim>\<open>send\<close> are logged.
\<close>

definition delay_tick :: "(('f, 'w, 'z) world_scheme, unit) act" where
  "delay_tick =
     bindA the_registry (\<lambda>wr. case wr_wal wr of
         None \<Rightarrow> ret ()
       | Some ops \<Rightarrow>
           bindA time_now (\<lambda>now.
           bindA (on_wal (wal_fetch_ready ops now)) (\<lambda>r.
           forA (\<lambda>rec. topic_send (msg_topic (undelay rec)) (undelay rec) None None)
             (case r of Inr rs \<Rightarrow> rs | Inl _ \<Rightarrow> []))))"

fun run_delay_scheduler :: "nat \<Rightarrow> (('f, 'w, 'z) world_scheme, unit) act" where
  "run_delay_scheduler 0 = ret ()"
| "run_delay_scheduler (Suc n) = bindA delay_tick (\<lambda>_. run_delay_scheduler n)"


section \<open>Behaviour over any producer and log\<close>

definition router_ready :: "'f eproducer \<Rightarrow> ('f, 'w, 'z) world_scheme \<Rightarrow> bool" where
  "router_ready pdr w \<longleftrightarrow> (case w_router w of None \<Rightarrow> False | Some tr \<Rightarrow> tr_producer tr = pdr)"

lemma router_ready_upd [simp]:
  "router_ready pdr (w\<lparr>w_fabric := f\<rparr>) = router_ready pdr w"
  "router_ready pdr (w\<lparr>w_wal := x\<rparr>) = router_ready pdr w"
  "router_ready pdr (w\<lparr>w_amb := a\<rparr>) = router_ready pdr w"
  "router_ready pdr (w\<lparr>w_registry := r\<rparr>) = router_ready pdr w"
  by (simp_all add: router_ready_def)

definition env_ready :: "'f eproducer \<Rightarrow> ('f \<Rightarrow> bool) \<Rightarrow> 'w wal_ops \<Rightarrow> ('w \<Rightarrow> bool)
    \<Rightarrow> ('f, 'w, 'z) world_scheme \<Rightarrow> bool" where
  "env_ready pdr pinv ops winv w \<longleftrightarrow>
     router_ready pdr w \<and> registry_ready ops w \<and> pinv (w_fabric w) \<and> winv (w_wal w)"

lemma env_ready_upd [simp]:
  "env_ready pdr pinv ops winv (w\<lparr>w_amb := a\<rparr>) = env_ready pdr pinv ops winv w"
  "env_ready pdr pinv ops winv w \<Longrightarrow> pinv f \<Longrightarrow> env_ready pdr pinv ops winv (w\<lparr>w_fabric := f\<rparr>)"
  "env_ready pdr pinv ops winv w \<Longrightarrow> winv x \<Longrightarrow> env_ready pdr pinv ops winv (w\<lparr>w_wal := x\<rparr>)"
  by (simp_all add: env_ready_def)

lemma send_plain:
  "deliver_at m = None \<Longrightarrow> delivery_mode m \<noteq> Broadcast \<Longrightarrow>
   topic_send t m b d = emit (m\<lparr>msg_topic := t\<rparr>) b d"
  by (rule ext) (simp add: topic_send_def)

lemma send_broadcast_worker:
  "deliver_at m = None \<Longrightarrow> delivery_mode m = Broadcast \<Longrightarrow> w_node_type w = Some WorkerNode \<Longrightarrow>
   topic_send t m b d w =
     (Ret (Inl (EUnsupported ''Unsupported node type, send broadcast message must host'')), w)"
  by (simp add: topic_send_def get_node_type_def bindA_def outcome_simps)

lemma send_broadcast_host:
  assumes "deliver_at m = None" and "delivery_mode m = Broadcast" and "w_node_type w = Some Host"
    and "registry_ready ops w"
  shows "topic_send t m b d w = forQ (\<lambda>info. emit (broadcast_copy m info) b d)
     (filter (\<lambda>info. wi_topic info = t) (hm_values (world_workers w))) w"
proof -
  obtain wr where "w_registry w = Some wr" "world_workers w = wr_workers wr"
    using assms(4) by (rule registry_ready_obtain)
  then have "registry_get_workers t w = (Ret (Inr (filter (\<lambda>info. wi_topic info = t)
      (hm_values (world_workers w)))), w)"
    by (simp add: registry_get_workers_def the_registry_def bindA_def outcome_simps)
  moreover have "get_node_type w = (Ret Host, w)"
    using assms(3) by (simp add: get_node_type_def bindA_def outcome_simps)
  ultimately show ?thesis
    using assms(1,2) by (simp add: topic_send_def bindQ_unit bindA_Ret bindQ_Inr)
qed

lemma emit_cases:
  assumes "router_ready pdr w"
  shows "\<exists>t. emit m b d w = on_fabric (ep_try_send pdr m) w \<or>
     emit m b d w = on_fabric (ep_send_timeout pdr m t) w \<or>
     emit m b d w = on_fabric (ep_send pdr m) w"
  using assms
  by (auto simp: router_ready_def emit_def the_router_def bindA_def getA_def ret_def
      split: option.splits)

lemma registry_wal_ready:
  assumes "registry_ready ops w"
  shows "registry_wal w = (Ret (Inr ops), w)"
proof -
  obtain wr where "w_registry w = Some wr" "wr_wal wr = Some ops"
    using assms by (rule registry_ready_obtain)
  then show ?thesis
    by (simp add: registry_wal_def the_registry_def bindA_def getA_def ret_def)
qed

locale router_env =
  qp: queue_producer pdr pinv items + wb: wal_backend ops winv recs dels reg
  for pdr :: "'f eproducer" and pinv :: "'f \<Rightarrow> bool" and items :: "'f \<Rightarrow> emessage list"
    and ops :: "'w wal_ops" and winv :: "'w \<Rightarrow> bool" and recs dels :: "'w \<Rightarrow> string \<Rightarrow> wal_record option"
    and reg :: "'w \<Rightarrow> (string, worker_info) hashmap"
begin

text \<open>One emission: the message is appended if and only if success is reported.\<close>

lemma emit_effect:
  assumes "router_ready pdr w" and "pinv (w_fabric w)" and "emit m b d w = (r, w')"
  obtains f' where "w' = w\<lparr>w_fabric := f'\<rparr>" and "pinv f'"
    and "items f' = items (w_fabric w) @ (if r = Ret (Inr ()) then [m] else [])"
proof -
  have step: "\<exists>f'. w' = w\<lparr>w_fabric := f'\<rparr> \<and> pinv f' \<and>
     items f' = items (w_fabric w) @ (if r = Ret (Inr ()) then [m] else [])"
    if "on_fabric g w = (r, w')" and "keeps pinv g"
      and "\<And>f'. g (w_fabric w) = (Ret (Inr ()), f') \<Longrightarrow> items f' = items (w_fabric w) @ [m]"
      and "\<And>v f'. g (w_fabric w) = (v, f') \<Longrightarrow> v \<noteq> Ret (Inr ()) \<Longrightarrow> items f' = items (w_fabric w)"
    for g :: "('f, unit result) act"
  proof -
    obtain v f' where f': "g (w_fabric w) = (v, f')" by fastforce
    with that(1) have "v = r" "w' = w\<lparr>w_fabric := f'\<rparr>" by (simp_all add: on_fabric_def)
    with f' keepsD [OF that(2) assms(2)] that(3,4) show ?thesis by auto
  qed
  obtain t where "emit m b d w = on_fabric (ep_try_send pdr m) w \<or>
     emit m b d w = on_fabric (ep_send_timeout pdr m t) w \<or>
     emit m b d w = on_fabric (ep_send pdr m) w"
    using emit_cases [OF assms(1)] by blast
  then have "\<exists>f'. w' = w\<lparr>w_fabric := f'\<rparr> \<and> pinv f' \<and>
     items f' = items (w_fabric w) @ (if r = Ret (Inr ()) then [m] else [])"
  proof (elim disjE)
    assume "emit m b d w = on_fabric (ep_try_send pdr m) w"
    then show ?thesis using assms(3) qp.try_send_ok [OF assms(2)] qp.try_send_other [OF assms(2)]
      by (intro step [of "ep_try_send pdr m"] qp.try_send_pinv) simp_all
  next
    assume "emit m b d w = on_fabric (ep_send_timeout pdr m t) w"
    then show ?thesis
      using assms(3) qp.send_timeout_ok [OF assms(2)] qp.send_timeout_other [OF assms(2)]
      by (intro step [of "ep_send_timeout pdr m t"] qp.send_timeout_pinv) simp_all
  next
    assume "emit m b d w = on_fabric (ep_send pdr m) w"
    then show ?thesis using assms(3) qp.send_ok [OF assms(2)] qp.send_other [OF assms(2)]
      by (intro step [of "ep_send pdr m"] qp.send_pinv) simp_all
  qed
  with that show thesis by blast
qed

text \<open>Emitting a list of messages: a prefix is appended, all of it exactly on success.\<close>

lemma emit_all:
  assumes "router_ready pdr w" and "pinv (w_fabric w)"
    and "forQ (\<lambda>x. emit (f x) b d) xs w = (r, w')"
  shows "\<exists>f' sent rest. w' = w\<lparr>w_fabric := f'\<rparr> \<and> pinv f' \<and> map f xs = sent @ rest \<and>
     items f' = items (w_fabric w) @ sent \<and> (r = Ret (Inr ()) \<longleftrightarrow> rest = [])"
  using assms
proof (induction xs arbitrary: w)
  case Nil
  then show ?case by (intro exI [of _ "w_fabric w"]) (simp add: ret_def)
next
  case (Cons x xs)
  obtain v w1 where v: "emit (f x) b d w = (v, w1)" by fastforce
  obtain f1 where f1: "w1 = w\<lparr>w_fabric := f1\<rparr>" "pinv f1"
      "items f1 = items (w_fabric w) @ (if v = Ret (Inr ()) then [f x] else [])"
    using emit_effect [OF Cons.prems(1,2) v] by blast
  show ?case
  proof (cases "v = Ret (Inr ())")
    case True
    have w1: "router_ready pdr w1" "pinv (w_fabric w1)" using f1 Cons.prems(1) by simp_all
    have "forQ (\<lambda>x. emit (f x) b d) xs w1 = (r, w')"
      using Cons.prems(3) v True by (simp add: bindQ_Inr)
    from Cons.IH [OF w1 this] obtain f' sent rest where
      "w' = w1\<lparr>w_fabric := f'\<rparr>" "pinv f'" "map f xs = sent @ rest"
      "items f' = items (w_fabric w1) @ sent" "r = Ret (Inr ()) \<longleftrightarrow> rest = []"
      by blast
    with f1 True show ?thesis
      by (intro exI [of _ f'] exI [of _ "f x # sent"] exI [of _ rest]) simp
  next
    case False
    then have "r \<noteq> Ret (Inr ())" and "w' = w1"
      using Cons.prems(3) v
      by (auto simp: bindQ_def bindA_def ret_def split: outcome.splits sum.splits)
    with f1 False show ?thesis
      by (intro exI [of _ f1] exI [of _ "[]"] exI [of _ "map f (x # xs)"]) simp
  qed
qed

text \<open>A delayed message goes to the log's delay store and to no queue.\<close>

lemma send_delayed:
  assumes "env_ready pdr pinv ops winv w" and "deliver_at m \<noteq> None"
  shows "\<exists>n x. topic_send t m b d w = (Ret (Inr ()), w\<lparr>w_wal := x\<rparr>) \<and> winv x \<and>
     dels x = (dels (w_wal w))(msg_id m \<mapsto> (wal_record_from_msg m)\<lparr>record_id := n\<rparr>) \<and>
     recs x = recs (w_wal w) \<and> reg x = reg (w_wal w)"
proof -
  have inv: "winv (w_wal w)" and ready: "registry_ready ops w"
    using assms(1) by (simp_all add: env_ready_def)
  obtain n x where "wal_schedule ops (wal_record_from_msg m) (w_wal w) = (Ret (Inr ()), x)" "winv x"
      "dels x = (dels (w_wal w))(msg_id m \<mapsto> (wal_record_from_msg m)\<lparr>record_id := n\<rparr>)"
      "recs x = recs (w_wal w)" "reg x = reg (w_wal w)"
    using wb.schedule_law [OF inv, of "wal_record_from_msg m"]
    by (auto simp: wal_record_from_msg_def)
  with assms(2) registry_wal_ready [OF ready] show ?thesis
    by (intro exI [of _ n] exI [of _ x])
      (simp add: topic_send_def bindQ_def bindA_def on_wal_def outcome_simps)
qed

lemma send_broadcast:
  assumes "env_ready pdr pinv ops winv w" and "w_node_type w = Some Host"
    and "deliver_at m = None" and "delivery_mode m = Broadcast"
    and "topic_send t m b d w = (r, w')"
  shows "\<exists>f' sent rest. w' = w\<lparr>w_fabric := f'\<rparr> \<and> pinv f' \<and>
     map (broadcast_copy m) (filter (\<lambda>i. wi_topic i = t) (hm_values (world_workers w))) = sent @ rest \<and>
     items f' = items (w_fabric w) @ sent \<and> (r = Ret (Inr ()) \<longleftrightarrow> rest = [])"
proof -
  have w: "router_ready pdr w" "pinv (w_fabric w)" and ready: "registry_ready ops w"
    using assms(1) by (simp_all add: env_ready_def)
  have "forQ (\<lambda>info. emit (broadcast_copy m info) b d)
      (filter (\<lambda>info. wi_topic info = t) (hm_values (world_workers w))) w = (r, w')"
    using send_broadcast_host [OF assms(3,4,2) ready, of t b d] assms(5) by simp
  with w show ?thesis by (rule emit_all)
qed

text \<open>One poll: what is due leaves the log, whatever becomes of the sends.\<close>

lemma delay_tick_cases:
  assumes "env_ready pdr pinv ops winv w"
    and "now = clock_src (w_amb w) (clock_next (w_amb w))"
  obtains rs x where "delay_tick w =
       forA (\<lambda>rec. topic_send (msg_topic (undelay rec)) (undelay rec) None None) rs
         (w\<lparr>w_amb := snd (read_clock (w_amb w)), w_wal := x\<rparr>)"
    and "winv x" and "distinct rs" and "set rs = {r. \<exists>k. dels (w_wal w) k = Some r \<and> is_due now r}"
    and "dels x = (\<lambda>k. case dels (w_wal w) k of None \<Rightarrow> None
         | Some r \<Rightarrow> if is_due now r then None else Some r)"
proof -
  have inv: "winv (w_wal w)" and "registry_ready ops w"
    using assms(1) by (simp_all add: env_ready_def)
  then obtain wr where wr: "w_registry w = Some wr" "wr_wal wr = Some ops"
    using registry_ready_obtain by blast
  obtain rs x where f: "wal_fetch_ready ops now (w_wal w) = (Ret (Inr rs), x)" "winv x"
      "distinct rs" "set rs = {r. \<exists>k. dels (w_wal w) k = Some r \<and> is_due now r}"
      "dels x = (\<lambda>k. case dels (w_wal w) k of None \<Rightarrow> None
         | Some r \<Rightarrow> if is_due now r then None else Some r)"
    using wb.fetch_law [OF inv, of now] by blast
  have "delay_tick w = forA (\<lambda>rec. topic_send (msg_topic (undelay rec)) (undelay rec) None None) rs
         (w\<lparr>w_amb := snd (read_clock (w_amb w)), w_wal := x\<rparr>)"
    using wr f(1) assms(2)
    by (simp add: delay_tick_def the_registry_def bindA_def outcome_simps on_wal_def)
  with f that show thesis by blast
qed

end

locale open_router_env = router_env + open_producer pdr pinv items
begin

lemma emit_open:
  assumes "router_ready pdr w" and "pinv (w_fabric w)"
  shows "\<exists>f'. emit m b d w = (Ret (Inr ()), w\<lparr>w_fabric := f'\<rparr>) \<and> pinv f' \<and>
     items f' = items (w_fabric w) @ [m]"
proof -
  obtain r w' where e: "emit m b d w = (r, w')" by fastforce
  have "r = Ret (Inr ())"
    using emit_cases [OF assms(1), of m b d] e send_accepts [OF assms(2), of m]
      try_send_accepts [OF assms(2), of m] send_timeout_accepts [OF assms(2), of m]
    by (auto simp: on_fabric_def split: prod.splits)
  with e emit_effect [OF assms e] show ?thesis by auto
qed

text \<open>A poll when a single record is scheduled.\<close>

lemma delay_tick_single:
  assumes "env_ready pdr pinv ops winv w" and "dels (w_wal w) = [k \<mapsto> r]"
    and "delivery_mode (wr_message r) \<noteq> Broadcast"
    and "now = clock_src (w_amb w) (clock_next (w_amb w))"
  shows "\<exists>w'. delay_tick w = (Ret (), w') \<and> env_ready pdr pinv ops winv w' \<and>
     w_amb w' = snd (read_clock (w_amb w)) \<and>
     (if is_due now r
      then items (w_fabric w') = items (w_fabric w) @ [undelay r] \<and> dels (w_wal w') = Map.empty
      else items (w_fabric w') = items (w_fabric w) \<and> dels (w_wal w') = [k \<mapsto> r])"
proof -
  obtain rs x where t: "delay_tick w =
       forA (\<lambda>rec. topic_send (msg_topic (undelay rec)) (undelay rec) None None) rs
         (w\<lparr>w_amb := snd (read_clock (w_amb w)), w_wal := x\<rparr>)"
     "winv x" "distinct rs" "set rs = {r. \<exists>k. dels (w_wal w) k = Some r \<and> is_due now r}"
     "dels x = (\<lambda>k. case dels (w_wal w) k of None \<Rightarrow> None
         | Some r \<Rightarrow> if is_due now r then None else Some r)"
    using delay_tick_cases [OF assms(1,4)] by blast
  let ?w = "w\<lparr>w_amb := snd (read_clock (w_amb w)), w_wal := x\<rparr>"
  have ready: "env_ready pdr pinv ops winv ?w" using assms(1) t(2) by simp
  show ?thesis
  proof (cases "is_due now r")
    case True
    have "set rs = {r}" using t(4) assms(2) True by auto
    with t(3) have rs: "rs = [r]" by (rule distinct_singleton)
    have plain: "topic_send (msg_topic (undelay r)) (undelay r) None None ?w =
        emit (undelay r) None None ?w"
      using assms(3) by (simp add: undelay_def send_plain)
    obtain f' where f': "emit (undelay r) None None ?w = (Ret (Inr ()), ?w\<lparr>w_fabric := f'\<rparr>)"
        "pinv f'" "items f' = items (w_fabric w) @ [undelay r]"
      using emit_open [of ?w "undelay r"] ready by (auto simp: env_ready_def)
    have "dels x = Map.empty" using t(5) assms(2) True by (auto split: if_splits)
    with t(1) rs plain f' ready True show ?thesis
      by (intro exI [of _ "?w\<lparr>w_fabric := f'\<rparr>"]) (simp add: bindA_def outcome_simps)
  next
    case False
    then have "set rs = {}" using t(4) assms(2) by (auto split: if_splits)
    then have "rs = []" by simp
    moreover have "dels x = [k \<mapsto> r]" using t(5) assms(2) False by (auto split: option.splits)
    ultimately show ?thesis using t(1) ready False
      by (intro exI [of _ ?w]) (simp add: outcome_simps)
  qed
qed

lemma delay_tick_none:
  assumes "env_ready pdr pinv ops winv w" and "dels (w_wal w) = Map.empty"
  shows "\<exists>w'. delay_tick w = (Ret (), w') \<and> env_ready pdr pinv ops winv w' \<and>
     w_amb w' = snd (read_clock (w_amb w)) \<and>
     items (w_fabric w') = items (w_fabric w) \<and> dels (w_wal w') = Map.empty"
proof -
  obtain rs x where t: "delay_tick w =
       forA (\<lambda>rec. topic_send (msg_topic (undelay rec)) (undelay rec) None None) rs
         (w\<lparr>w_amb := snd (read_clock (w_amb w)), w_wal := x\<rparr>)"
     "winv x" "set rs = {}" "dels x = Map.empty"
    by (rule delay_tick_cases [OF assms(1) refl]) (use assms(2) in auto)
  have "env_ready pdr pinv ops winv (w\<lparr>w_amb := snd (read_clock (w_amb w)), w_wal := x\<rparr>)"
    using assms(1) t(2) by simp
  with t show ?thesis by (auto simp: outcome_simps)
qed

text \<open>
  The scheduler over any number of polls: the record is sent exactly once, at the first
  poll that reads a time at or after its own.
\<close>

lemma scheduler_single:
  assumes "env_ready pdr pinv ops winv w" and "dels (w_wal w) = [k \<mapsto> r]"
    and "delivery_mode (wr_message r) \<noteq> Broadcast"
  shows "\<exists>w'. run_delay_scheduler n w = (Ret (), w') \<and>
     items (w_fabric w') = items (w_fabric w) @
       (if \<exists>i < n. is_due (clock_src (w_amb w) (clock_next (w_amb w) + i)) r
        then [undelay r] else [])"
  using assms
proof (induction n arbitrary: w)
  case 0
  then show ?case by (simp add: ret_def)
next
  case (Suc n)
  let ?now = "clock_src (w_amb w) (clock_next (w_amb w))"
  obtain w1 where w1: "delay_tick w = (Ret (), w1)" "env_ready pdr pinv ops winv w1"
      "w_amb w1 = snd (read_clock (w_amb w))"
      "if is_due ?now r
       then items (w_fabric w1) = items (w_fabric w) @ [undelay r] \<and> dels (w_wal w1) = Map.empty
       else items (w_fabric w1) = items (w_fabric w) \<and> dels (w_wal w1) = [k \<mapsto> r]"
    using delay_tick_single [OF Suc.prems refl] by blast
  have run: "run_delay_scheduler (Suc n) w = run_delay_scheduler n w1"
    using w1(1) by (simp add: bindA_Ret)
  have rest: "\<exists>w'. run_delay_scheduler j v = (Ret (), w') \<and> items (w_fabric w') = items (w_fabric v)"
    if "env_ready pdr pinv ops winv v" "dels (w_wal v) = Map.empty" for j and v :: "('a, 'b, 'c) world_scheme"
    using that
  proof (induction j arbitrary: v)
    case 0
    then show ?case by (simp add: ret_def)
  next
    case (Suc j)
    with delay_tick_none [OF Suc.prems] show ?case by (fastforce simp: bindA_Ret)
  qed
  show ?case
  proof (cases "is_due ?now r")
    case True
    with w1(2,4) obtain w' where "run_delay_scheduler n w1 = (Ret (), w')"
        "items (w_fabric w') = items (w_fabric w1)" using rest [of w1 n] by auto
    with True w1(4) run show ?thesis by (intro exI [of _ w']) auto
  next
    case False
    with Suc.IH [OF w1(2) _ Suc.prems(3)] w1(3,4) obtain w' where
      "run_delay_scheduler n w1 = (Ret (), w')"
      "items (w_fabric w') = items (w_fabric w1) @
         (if \<exists>i < n. is_due (clock_src (w_amb w) (Suc (clock_next (w_amb w)) + i)) r
          then [undelay r] else [])" by auto
    moreover have "(\<exists>i < Suc n. is_due (clock_src (w_amb w) (clock_next (w_amb w) + i)) r) \<longleftrightarrow>
        (\<exists>i < n. is_due (clock_src (w_amb w) (Suc (clock_next (w_amb w)) + i)) r)"
      using False by (auto simp: less_Suc_eq_0_disj)
    ultimately show ?thesis using False w1(4) run by (intro exI [of _ w']) auto
  qed
qed

end

interpretation flume_memory: router_env flume_producer link_inv link_items memory_wal mw_inv
    mw_recs mw_dels mw_registry
  by unfold_locales

interpretation open_flume_memory: open_router_env flume_producer open_link link_items memory_wal
    mw_inv mw_recs mw_dels mw_registry
  by unfold_locales


section \<open>Replay\<close>

definition summary_total :: "replay_summary \<Rightarrow> nat" where
  "summary_total s = rs_recovered s + rs_delayed s + length (rs_errors s)"

definition replay_allowed :: "string list option \<Rightarrow> wal_record \<Rightarrow> bool" where
  "replay_allowed filt r = (case filt of None \<Rightarrow> True | Some ts \<Rightarrow> msg_topic (wr_message r) \<in> set ts)"

lemma replay_loop_total:
  "replay_loop filt ops rs s w = (Ret (Inr s'), w') \<Longrightarrow>
   summary_total s' = summary_total s + length (filter (replay_allowed filt) rs)"
proof (induction rs arbitrary: s w)
  case Nil
  then show ?case by (simp add: ret_def)
next
  case (Cons r rs)
  show ?case
  proof (cases "replay_allowed filt r")
    case False
    then have "replay_loop filt ops (r # rs) s w = replay_loop filt ops rs s w"
      by (auto simp: replay_allowed_def Let_def split: option.splits)
    with Cons.IH [of s w] Cons.prems False show ?thesis by simp
  next
    case True
    have "\<not> (case filt of None \<Rightarrow> False | Some allowed \<Rightarrow> msg_topic (wr_message r) \<notin> set allowed)"
      using True by (auto simp: replay_allowed_def split: option.splits)
    with Cons.prems obtain future w1 where body: "(if future then
          bindQ (on_wal (wal_schedule ops (wal_record_from_msg (wr_message r)))) (\<lambda>_.
          replay_loop filt ops rs (s\<lparr>rs_delayed := rs_delayed s + 1\<rparr>))
        else
          bindA (topic_send (msg_topic (undelay r)) (undelay r) None None) (\<lambda>v. case v of
              Inr _ \<Rightarrow> replay_loop filt ops rs (s\<lparr>rs_recovered := rs_recovered s + 1\<rparr>)
            | Inl e \<Rightarrow>
                replay_loop filt ops rs (s\<lparr>rs_errors := rs_errors s @ [(msg_id (undelay r), e)]\<rparr>)))
        w1 = (Ret (Inr s'), w')"
      by (simp add: Let_def) (erule bindA_RetE, blast)
    obtain s1 w2 where "summary_total s1 = Suc (summary_total s)"
        and "replay_loop filt ops rs s1 w2 = (Ret (Inr s'), w')"
    proof (cases future)
      case True
      with body that [of "s\<lparr>rs_delayed := rs_delayed s + 1\<rparr>"] show thesis
        by (auto simp: summary_total_def elim!: bindQ_RetE)
    next
      case False
      with body obtain v :: "unit result" and w2 where "(case v of
              Inr _ \<Rightarrow> replay_loop filt ops rs (s\<lparr>rs_recovered := Suc (rs_recovered s)\<rparr>)
            | Inl e \<Rightarrow> replay_loop filt ops rs
                (s\<lparr>rs_errors := rs_errors s @ [(msg_id (undelay r), e)]\<rparr>)) w2 =
          (Ret (Inr s'), w')" by (auto elim!: bindA_RetE)
      with that [of "s\<lparr>rs_recovered := Suc (rs_recovered s)\<rparr>" w2]
        that [of "s\<lparr>rs_errors := rs_errors s @ [(msg_id (undelay r), projl v)]\<rparr>" w2]
      show thesis by (cases v) (simp_all add: summary_total_def)
    qed
    with Cons.IH [of s1 w2] True show ?thesis by simp
  qed
qed


section \<open>Properties\<close>

text \<open>C19: a broadcast on a host sends one copy per worker registered for the topic: each copy is
  addressed to its worker and carries an identifier of its own. If the broadcast succeeds
  the queue has gained exactly these copies; if it fails, the copies of some of the first
  workers only; nothing but the queue changes.\<close>

theorem broadcast_one_copy_per_worker:
  assumes "env_ready flume_producer link_inv memory_wal mw_inv w" and "w_node_type w = Some Host"
    and "deliver_at m = None" and "delivery_mode m = Broadcast"
    and "topic_send t m b d w = (r, w')"
    and "copies = map (broadcast_copy m)
      (filter (\<lambda>i. wi_topic i = t) (hm_values (world_workers w)))"
  shows "\<exists>f' n. w' = w\<lparr>w_fabric := f'\<rparr> \<and> link_items f' = link_items (w_fabric w) @ take n copies \<and>
     (r = Ret (Inr ()) \<longrightarrow> take n copies = copies) \<and> distinct (map msg_id copies) \<and>
     (\<forall>c \<in> set copies. payload c = payload m \<and> (\<exists>i. hm_get (world_workers w) (wi_name i) = Some i \<and>
        wi_topic i = t \<and> to_worker c = Some (wi_name i) \<and> msg_id c = msg_id m @ ''-'' @ wi_name i))"
proof -
  obtain f' sent rest where s: "w' = w\<lparr>w_fabric := f'\<rparr>" "copies = sent @ rest"
      "link_items f' = link_items (w_fabric w) @ sent" "r = Ret (Inr ()) \<longleftrightarrow> rest = []"
    using flume_memory.send_broadcast [OF assms(1-5)] unfolding assms(6) by blast
  have ready: "registry_ready memory_wal w" using assms(1) by (simp add: env_ready_def)
  obtain wr where wr: "w_registry w = Some wr" "hm_wf (wr_workers wr)" "world_workers w = wr_workers wr"
      "\<forall>(k, info) \<in> set (wr_workers wr). wi_name info = k"
    using ready by (rule registry_ready_obtain)
  let ?ws = "filter (\<lambda>i. wi_topic i = t) (hm_values (world_workers w))"
  have names: "map wi_name (hm_values (world_workers w)) = hm_keys (world_workers w)"
    using wr(3,4) by auto
  have "distinct (map wi_name (hm_values (world_workers w)))"
    unfolding names using wr(2,3) by simp
  then have "distinct (map wi_name ?ws)" by (rule distinct_map_filter)
  then have "distinct (map (\<lambda>i. msg_id m @ ''-'' @ wi_name i) ?ws)"
    by (simp add: distinct_map inj_on_def)
  then have "distinct (map msg_id copies)"
    unfolding assms(6) by (simp add: comp_def broadcast_copy_def)
  moreover have "hm_get (world_workers w) (wi_name i) = Some i \<and> wi_topic i = t" if "i \<in> set ?ws" for i
    using that wr(2-4) by fastforce
  then have "\<forall>c \<in> set copies. payload c = payload m \<and>
      (\<exists>i. hm_get (world_workers w) (wi_name i) = Some i \<and>
        wi_topic i = t \<and> to_worker c = Some (wi_name i) \<and> msg_id c = msg_id m @ ''-'' @ wi_name i)"
    unfolding assms(6) by (force simp: broadcast_copy_def)
  ultimately show ?thesis
    using s by (intro exI [of _ f'] exI [of _ "length sent"]) auto
qed

definition flume_world :: "emessage list \<Rightarrow> (string, worker_info) hashmap \<Rightarrow> node_type
    \<Rightarrow> (emessage list link, mem_wal) world" where
  "flume_world ms ws nt =
     \<lparr>w_fabric = open_list_link ms, w_wal = mem_wal_new,
      w_router = Some \<lparr>tr_topics = [], tr_producer = flume_producer, tr_default_timeout = None\<rparr>,
      w_registry = Some \<lparr>wr_workers = ws, wr_wal = Some memory_wal\<rparr>, w_node_name = None,
      w_node_type = Some nt,
      w_amb = \<lparr>uuid_src = (\<lambda>n. replicate n CHR ''u''), uuid_next = 0,
        clock_src = (\<lambda>n. 100 + int n), clock_next = 0\<rparr>,
      w_codecs = null_codecs\<rparr>"

lemma flume_world_ready [simp]:
  assumes "hm_wf ws" and "\<forall>(k, info) \<in> set ws. wi_name info = k"
  shows "env_ready flume_producer link_inv memory_wal mw_inv (flume_world ms ws nt)"
    and "env_ready flume_producer open_link memory_wal mw_inv (flume_world ms ws nt)"
  using assms
  by (simp_all add: env_ready_def router_ready_def registry_ready_def flume_world_def mem_wal_new_def
      mw_inv_def)

lemma flume_world_sel [simp]:
  "w_fabric (flume_world ms ws nt) = open_list_link ms" "w_node_type (flume_world ms ws nt) = Some nt"
  "world_workers (flume_world ms ws nt) = ws" "w_wal (flume_world ms ws nt) = mem_wal_new"
  by (simp_all add: flume_world_def world_workers_def)

theorem broadcast_one_copy_per_worker_witness:
  "\<exists>r w' f'. topic_send ''t'' ((emessage_default 1)\<lparr>delivery_mode := Broadcast\<rparr>) None None
       (flume_world [] [(''a'', \<lparr>wi_name = ''a'', wi_topic = ''t'', last_heartbeat = 0\<rparr>),
         (''b'', \<lparr>wi_name = ''b'', wi_topic = ''u'', last_heartbeat = 0\<rparr>)] Host) = (r, w') \<and>
     w' = (flume_world [] [(''a'', \<lparr>wi_name = ''a'', wi_topic = ''t'', last_heartbeat = 0\<rparr>),
         (''b'', \<lparr>wi_name = ''b'', wi_topic = ''u'', last_heartbeat = 0\<rparr>)] Host)\<lparr>w_fabric := f'\<rparr>"
proof -
  let ?w = "flume_world [] [(''a'', \<lparr>wi_name = ''a'', wi_topic = ''t'', last_heartbeat = 0\<rparr>),
         (''b'', \<lparr>wi_name = ''b'', wi_topic = ''u'', last_heartbeat = 0\<rparr>)] Host"
  let ?m = "(emessage_default 1)\<lparr>delivery_mode := Broadcast\<rparr>"
  obtain r w' where s: "topic_send ''t'' ?m None None ?w = (r, w')" by fastforce
  have "env_ready flume_producer link_inv memory_wal mw_inv ?w" by (rule flume_world_ready) auto
  moreover have "w_node_type ?w = Some Host" "deliver_at ?m = None" "delivery_mode ?m = Broadcast"
    by (simp_all add: emessage_default_def)
  ultimately show ?thesis using broadcast_one_copy_per_worker [OF _ _ _ _ s refl] s by blast
qed

text \<open>A worker node cannot broadcast: the send is refused and nothing is sent.\<close>

theorem broadcast_refused_on_worker_node:
  assumes "w_node_type w = Some WorkerNode" and "delivery_mode m = Broadcast" and "deliver_at m = None"
  shows "\<exists>e. topic_send t m b d w = (Ret (Inl (EUnsupported e)), w)"
  using send_broadcast_worker [OF assms(3,2,1)] by blast

theorem broadcast_refused_on_worker_node_witness:
  "\<exists>e. topic_send ''t'' ((emessage_default 1)\<lparr>delivery_mode := Broadcast\<rparr>) None None
     (flume_world [] [] WorkerNode) = (Ret (Inl (EUnsupported e)), flume_world [] [] WorkerNode)"
  by (rule broadcast_refused_on_worker_node) (simp_all add: emessage_default_def)

text \<open>C6: a delayed message is delivered exactly once. Sending it puts it in the log and in no
  queue; over any number of polls of the delay scheduler it is then sent once if some poll
  reads a time at or after its delivery time, and not at all otherwise; it is sent to the
  message's own topic, with the delivery time cleared. (No other message is scheduled, the
  queue accepts every send, and the message is not a broadcast.)\<close>

theorem delayed_message_delivered_once:
  assumes "env_ready flume_producer open_link memory_wal mw_inv w" and "mw_delays (w_wal w) = []"
    and "deliver_at m = Some due" and "delivery_mode m \<noteq> Broadcast"
  shows "\<exists>w1 w2. topic_send t m b d w = (Ret (Inr ()), w1) \<and>
     link_items (w_fabric w1) = link_items (w_fabric w) \<and>
     run_delay_scheduler n w1 = (Ret (), w2) \<and>
     link_items (w_fabric w2) = link_items (w_fabric w) @
       (if \<exists>i < n. due \<le> clock_src (w_amb w) (clock_next (w_amb w) + i)
        then [m\<lparr>deliver_at := None\<rparr>] else [])"
proof -
  obtain k x where x: "topic_send t m b d w = (Ret (Inr ()), w\<lparr>w_wal := x\<rparr>)" "mw_inv x"
      "mw_dels x = (mw_dels (w_wal w))(msg_id m \<mapsto> (wal_record_from_msg m)\<lparr>record_id := k\<rparr>)"
    using open_flume_memory.send_delayed [OF assms(1), of m t b d] assms(3) by auto
  let ?r = "(wal_record_from_msg m)\<lparr>record_id := k\<rparr>" and ?w = "w\<lparr>w_wal := x\<rparr>"
  have ready: "env_ready flume_producer open_link memory_wal mw_inv ?w" using assms(1) x(2) by simp
  have one: "mw_dels (w_wal ?w) = [msg_id m \<mapsto> ?r]" using x(3) assms(2) by simp
  have mode: "delivery_mode (wr_message ?r) \<noteq> Broadcast"
    using assms(4) by (simp add: wal_record_from_msg_def)
  have r: "is_due now ?r \<longleftrightarrow> due \<le> now" "undelay ?r = m\<lparr>deliver_at := None\<rparr>" for now
    using assms(3) by (simp_all add: is_due_def undelay_def wal_record_from_msg_def)
  from open_flume_memory.scheduler_single [OF ready one mode, of n] x(1) show ?thesis
    by (auto simp: r)
qed

theorem delayed_message_delivered_once_witness:
  "\<exists>w1 w2. topic_send ''t'' ((emessage_default 1)\<lparr>deliver_at := Some 101\<rparr>) None None
       (flume_world [] [] Host) = (Ret (Inr ()), w1) \<and> link_items (w_fabric w1) = [] \<and>
     run_delay_scheduler 5 w1 = (Ret (), w2) \<and>
     link_items (w_fabric w2) = [(emessage_default 1)\<lparr>deliver_at := None\<rparr>]"
proof -
  let ?m = "(emessage_default 1)\<lparr>deliver_at := Some 101\<rparr>"
  have "env_ready flume_producer open_link memory_wal mw_inv (flume_world [] [] Host)"
    "mw_delays (w_wal (flume_world [] [] Host)) = []" "deliver_at ?m = Some 101"
    "delivery_mode ?m \<noteq> Broadcast"
    by (simp_all add: mem_wal_new_def emessage_default_def)
  moreover have "\<exists>i < 5. 101 \<le> clock_src (w_amb (flume_world [] [] Host))
      (clock_next (w_amb (flume_world [] [] Host)) + i)"
    by (intro exI [of _ "1 :: nat"]) (simp add: flume_world_def)
  ultimately show ?thesis
    using delayed_message_delivered_once [of "flume_world [] [] Host" ?m 101 "''t''" None None 5]
    by simp
qed

text \<open>C21: the summary of a replay accounts for every pending record whose topic is asked for:
  each is counted exactly once, as recovered, as delayed, or in the list of errors.\<close>

theorem replay_accounts_for_every_record:
  assumes "registry_ready memory_wal w" and "mw_inv (w_wal w)"
    and "replay topics w = (Ret (Inr summary), w')"
  shows "\<exists>pending. set pending = {r. \<exists>k. mw_recs (w_wal w) k = Some r \<and> wr_status r = WPending} \<and>
     length pending = length (filter (\<lambda>(k, r). wr_status r = WPending) (mw_records (w_wal w))) \<and>
     rs_recovered summary + rs_delayed summary + length (rs_errors summary) =
       length (filter (replay_allowed topics) pending)"
proof -
  let ?p = "filter (\<lambda>r. wr_status r = WPending) (hm_values (mw_records (w_wal w)))"
  have p: "mem_replay_pending (w_wal w) = (Ret (Inr ?p), w_wal w)" by (simp add: mem_wal_defs)
  have "replay_loop topics memory_wal ?p \<lparr>rs_recovered = 0, rs_delayed = 0, rs_errors = []\<rparr> w =
      (Ret (Inr summary), w')"
    using assms(3) registry_wal_ready [OF assms(1)] p
    by (simp add: replay_def bindQ_Inr on_wal_def memory_wal_def)
  then have "summary_total summary = length (filter (replay_allowed topics) ?p)"
    by (auto dest!: replay_loop_total simp: summary_total_def)
  moreover have "set ?p = {r. \<exists>k. mw_recs (w_wal w) k = Some r \<and> wr_status r = WPending}"
    using mem_replay_law [OF assms(2)] p by auto
  moreover have "length ?p = length (filter (\<lambda>(k, r). wr_status r = WPending) (mw_records (w_wal w)))"
    by (simp add: filter_map comp_def split_def)
  ultimately show ?thesis by (intro exI [of _ ?p]) (simp add: summary_total_def)
qed

theorem replay_accounts_for_every_record_witness:
  "\<exists>summary w'. replay None ((flume_world [] [] Host)\<lparr>w_wal := mem_wal_new\<lparr>mw_records :=
       [(''m'', wal_record_from_msg (emessage_default 1))]\<rparr>\<rparr>) = (Ret (Inr summary), w') \<and>
     rs_recovered summary + rs_delayed summary + length (rs_errors summary) = 1"
proof -
  let ?r = "wal_record_from_msg (emessage_default 1)"
  let ?w = "(flume_world [] [] Host)\<lparr>w_wal := mem_wal_new\<lparr>mw_records := [(''m'', ?r)]\<rparr>\<rparr>"
  obtain summary w' where s: "replay None ?w = (Ret (Inr summary), w')"
    by (simp add: replay_def registry_wal_def the_registry_def flume_world_def bindQ_def bindA_def
        outcome_simps on_wal_def memory_wal_def mem_replay_pending_def mem_wal_new_def
        wal_record_from_msg_def emessage_default_def Let_def send_plain emit_def the_router_def
        on_fabric_def flume_producer_def flume_send_cases open_list_link_def open_chan_def undelay_def)
  have "registry_ready memory_wal ?w" by (simp add: registry_ready_def flume_world_def)
  moreover have "mw_inv (w_wal ?w)" by (simp add: mw_inv_def mem_wal_new_def)
  ultimately obtain pending where p: "length pending =
      length (filter (\<lambda>(k, r). wr_status r = WPending) (mw_records (w_wal ?w)))"
      "rs_recovered summary + rs_delayed summary + length (rs_errors summary) =
       length (filter (replay_allowed None) pending)"
    using replay_accounts_for_every_record [OF _ _ s] by blast
  have "filter (replay_allowed None) pending = pending"
    by (simp add: filter_id_conv replay_allowed_def)
  with p s show ?thesis by (simp add: wal_record_from_msg_def)
qed

end
