(* ===== verification/Worker.thy ===== *)
theory Worker
  imports Topic_Router Middleware Queue_Memory
begin

text \<open>
  A worker (\<^verbatim>\<open>event_base_core/src/worker.rs\<close>) and the client through which it reports message
  states (\<^verbatim>\<open>event_base_core/src/wal/sync.rs\<close>): the processing of one message with its audit and
  state messages, retries, repetition and dead-lettering, the targeting filter, the local
  inbox, and shutdown. A pipeline runs against the whole world, so a handler may send
  messages; the world it leaves is an argument of the theorems.
\<close>

section \<open>The state client\<close>

record wal_client =
  wc_worker_id :: string
  wc_template :: emessage

definition wal_client_new :: "string \<Rightarrow> (('f, 'w, 'z) world_scheme, wal_client) act" where
  "wal_client_new worker_id =
     bindA (make_message SYSTEM_TOPIC_WAL_SYNC [] Standard None) (\<lambda>t.
     ret \<lparr>wc_worker_id = worker_id, wc_template = t\<rparr>)"

definition sync_status :: "wal_client \<Rightarrow> string \<Rightarrow> string \<Rightarrow> wal_record_state \<Rightarrow> u32 \<Rightarrow> string option
    \<Rightarrow> (('f, 'w, 'z) world_scheme, unit result) act" where
  "sync_status c message_id topic status att error =
     bindA time_now (\<lambda>last.
     bindA time_now (\<lambda>stamp.
     bindQ (encode_with cc_sync
       \<lparr>ws_message_id = message_id, ws_topic = topic, ws_worker_id = wc_worker_id c,
        ws_status = status, ws_attempts = att, ws_last_attempt_at = last,
        ws_error = error, ws_timestamp = stamp\<rparr>) (\<lambda>pl.
     bindA uuid_v4 (\<lambda>u.
     bindQ (send_system ((wc_template c)\<lparr>payload := pl, msg_id := u\<rparr>) None None)
       (\<lambda>_. ret (Inr ()))))))"

definition mark_pending :: "wal_client \<Rightarrow> string \<Rightarrow> string \<Rightarrow> (('f, 'w, 'z) world_scheme, unit result) act"
  where "mark_pending c mid topic = sync_status c mid topic WPending 0 None"

definition mark_processing ::
    "wal_client \<Rightarrow> string \<Rightarrow> string \<Rightarrow> (('f, 'w, 'z) world_scheme, unit result) act" where
  "mark_processing c mid topic = sync_status c mid topic WProcessing 0 None"

definition mark_complete ::
    "wal_client \<Rightarrow> string \<Rightarrow> string \<Rightarrow> u32 \<Rightarrow> (('f, 'w, 'z) world_scheme, unit result) act" where
  "mark_complete c mid topic att = sync_status c mid topic WComplete att None"

definition mark_dead_letter :: "wal_client \<Rightarrow> string \<Rightarrow> string \<Rightarrow> u32 \<Rightarrow> string
    \<Rightarrow> (('f, 'w, 'z) world_scheme, unit result) act" where
  "mark_dead_letter c mid topic att err = sync_status c mid topic WFailed att (Some err)"


section \<open>The worker\<close>

datatype worker_status = Idle | Working

record ('f, 's) worker =
  wk_topic :: string
  wk_name :: string
  wk_pipeline :: "'s pipeline"
  wk_producer :: "'f eproducer"
  wk_time_out :: "duration option"
  wk_check_interval :: duration
  wk_shutdown_timeout :: "duration option"
  wk_wal :: wal_client
  wk_audit_template :: emessage

definition MAX_TARGETED_HOPS :: u32 where
  "MAX_TARGETED_HOPS = 64"

definition worker_new :: "string \<Rightarrow> 's pipeline \<Rightarrow> 'f eproducer \<Rightarrow> duration option \<Rightarrow> duration
    \<Rightarrow> duration option \<Rightarrow> (('f, 'w, 'z) world_scheme, ('f, 's) worker) act" where
  "worker_new topic pipeline producer time_out check_interval shutdown_timeout =
     bindA uuid_v4 (\<lambda>u.
     bindA try_get_node_name (\<lambda>node.
     let base = ''worker-'' @ topic @ ''-'' @ u;
         name = (case node of Some n \<Rightarrow> n @ ''@'' @ base | None \<Rightarrow> base)
     in bindA (wal_client_new name) (\<lambda>wal.
        bindA (make_message SYSTEM_TOPIC_AUDIT [] Standard None) (\<lambda>audit.
        ret \<lparr>wk_topic = topic, wk_name = name, wk_pipeline = pipeline, wk_producer = producer,
          wk_time_out = time_out, wk_check_interval = check_interval,
          wk_shutdown_timeout = shutdown_timeout, wk_wal = wal, wk_audit_template = audit\<rparr>))))"

definition generate_audit_msg :: "('f, 's) worker \<Rightarrow> emessage \<Rightarrow> audit_result \<Rightarrow> audit_event_type
    \<Rightarrow> string option \<Rightarrow> duration option \<Rightarrow> (('f, 'w, 'z) world_scheme, audit_record) act" where
  "generate_audit_msg wk msg result event error dur =
     bindA time_now (\<lambda>t. ret
       \<lparr>ar_message_id = msg_id msg, ar_topic = msg_topic msg, ar_event_type = event,
        ar_worker_id = Some (wk_name wk), ar_timestamp = t, ar_result = result,
        ar_error = error, ar_duration = dur\<rparr>)"

definition send_audit_msg ::
    "('f, 's) worker \<Rightarrow> audit_record \<Rightarrow> (('f, 'w, 'z) world_scheme, unit result) act" where
  "send_audit_msg wk record =
     bindQ (encode_with cc_audit record) (\<lambda>pl.
     bindA uuid_v4 (\<lambda>u.
     bindQ (send_system ((wk_audit_template wk)\<lparr>payload := pl, msg_id := u\<rparr>) None None)
       (\<lambda>_. ret (Inr ()))))"

text \<open>
  An audit message whose failure is only logged, as \<^verbatim>\<open>process_msg\<close> and
  \<^verbatim>\<open>send_to_dead_letter\<close> send it unless the worker's topic is the audit topic.
\<close>

definition audit_best_effort :: "('f, 's) worker \<Rightarrow> emessage \<Rightarrow> audit_result \<Rightarrow> audit_event_type
    \<Rightarrow> string option \<Rightarrow> duration option \<Rightarrow> (('f, 'w, 'z) world_scheme, unit) act" where
  "audit_best_effort wk msg result event error dur =
     (if wk_topic wk \<noteq> SYSTEM_TOPIC_AUDIT then
        bindA (generate_audit_msg wk msg result event error dur) (\<lambda>rec.
        bindA (send_audit_msg wk rec) (\<lambda>_. ret ()))
      else ret ())"

definition requeue_message ::
    "('f, 's) worker \<Rightarrow> emessage \<Rightarrow> (('f, 'w, 'z) world_scheme, unit result) act" where
  "requeue_message wk msg =
     bindQ (mark_pending (wk_wal wk) (msg_id msg) (msg_topic msg)) (\<lambda>_.
     bindQ (on_fabric (ep_send (wk_producer wk) msg)) (\<lambda>_. ret (Inr ())))"

definition send_to_dead_letter :: "('f, 's) worker \<Rightarrow> emessage \<Rightarrow> dead_reason \<Rightarrow> duration
    \<Rightarrow> (('f, 'w, 'z) world_scheme, unit result) act" where
  "send_to_dead_letter wk msg reason process_time =
     (let topic = ''dead_letter.'' @ wk_topic wk;
          letter = msg\<lparr>msg_topic := topic, to_worker := None\<rparr>
      in bindQ (mark_dead_letter (wk_wal wk) (msg_id letter) (msg_topic letter) (attempts letter)
           (dead_reason_to_string reason)) (\<lambda>_.
         bindQ (topic_send topic letter None None) (\<lambda>_.
         bindA (audit_best_effort wk letter DeadResult DeadLettered
           (Some (dead_reason_to_string reason)) (Some process_time)) (\<lambda>_. ret (Inr ())))))"

text \<open>The pipeline under the worker's timeout; the message is the one the chain left.\<close>

definition run_pipeline :: "('f, ('f, 'w, 'z) world_scheme) worker \<Rightarrow> emessage
    \<Rightarrow> (('f, 'w, 'z) world_scheme, ack \<times> emessage) act" where
  "run_pipeline wk msg w =
     (case (case wk_time_out wk of
              Some t \<Rightarrow> bindA (timeoutA (pipeline_run (wk_pipeline wk))) (\<lambda>r. case r of
                  Inr result \<Rightarrow> ret result
                | Inl _ \<Rightarrow> ret (Dead HandlerTimeout))
            | None \<Rightarrow> pipeline_run (wk_pipeline wk)) (msg, w) of
        (r, (msg', w')) \<Rightarrow> (map_outcome (\<lambda>a. (a, msg')) r, w'))"

text \<open>The match on the acknowledgement at the end of \<^verbatim>\<open>process_msg\<close>.\<close>

definition settle :: "('f, 's) worker \<Rightarrow> emessage \<Rightarrow> ack \<Rightarrow> duration
    \<Rightarrow> (('f, 'w, 'z) world_scheme, unit result) act" where
  "settle wk msg status process_time =
     (case status of
        Ack \<Rightarrow> (case delivery_mode msg of
            Repeated limit \<Rightarrow>
              let msg' = msg\<lparr>consumed_count := consumed_count msg + 1\<rparr> in
              if limit = consumed_count msg' then
                bindQ (mark_complete (wk_wal wk) (msg_id msg') (msg_topic msg') (attempts msg'))
                  (\<lambda>_. ret (Inr ()))
              else
                bindQ (mark_pending (wk_wal wk) (msg_id msg') (msg_topic msg')) (\<lambda>_.
                bindQ (requeue_message wk msg') (\<lambda>_. ret (Inr ())))
          | _ \<Rightarrow>
              bindA (audit_best_effort wk msg SuccessResult ProcessingCompleted None
                (Some process_time)) (\<lambda>_.
              bindQ (mark_complete (wk_wal wk) (msg_id msg) (msg_topic msg) (attempts msg))
                (\<lambda>_. ret (Inr ()))))
      | NoAck retry_after max_retries \<Rightarrow>
          let msg' = msg\<lparr>attempts := attempts msg + 1\<rparr> in
          bindQ (mark_pending (wk_wal wk) (msg_id msg') (msg_topic msg')) (\<lambda>_.
          if max_retries \<le> attempts msg' then
            bindQ (send_to_dead_letter wk msg' MaxRetriesExceeded process_time) (\<lambda>_. ret (Inr ()))
          else (case retry_after of
              Some delay \<Rightarrow>
                bindA time_now (\<lambda>now.
                let msg'' = msg'\<lparr>deliver_at := time_checked_add now delay\<rparr> in
                bindQ (topic_send (msg_topic msg'') msg'' None None) (\<lambda>_. ret (Inr ())))
            | None \<Rightarrow>
                bindQ (on_fabric (ep_send (wk_producer wk) msg')) (\<lambda>_. ret (Inr ()))))
      | Dead reason \<Rightarrow>
          bindQ (mark_dead_letter (wk_wal wk) (msg_id msg) (msg_topic msg) (attempts msg)
            (dead_reason_to_string reason)) (\<lambda>_.
          bindQ (send_to_dead_letter wk msg reason process_time) (\<lambda>_. ret (Inr ()))))"

definition process_msg :: "('f, ('f, 'w, 'z) world_scheme) worker \<Rightarrow> emessage
    \<Rightarrow> (('f, 'w, 'z) world_scheme, unit result) act" where
  "process_msg wk msg =
     (let is_system = starts_with (wk_topic wk) ''_system.'' in
      bindA (if \<not> is_system then
               audit_best_effort wk msg StartResult ProcessingStarted None None
             else ret ()) (\<lambda>_.
      bindA time_now (\<lambda>start_time.
      bindQ (if \<not> is_system then mark_processing (wk_wal wk) (msg_id msg) (msg_topic msg)
             else ret (Inr ())) (\<lambda>_.
      bindA (run_pipeline wk msg) (\<lambda>(status, msg').
      if is_system then ret (Inr ())
      else
        bindA time_now (\<lambda>finish_time.
        case duration_since finish_time start_time of
            Inl d \<Rightarrow> ret (Inl (EProcessTimeError d))
          | Inr process_time \<Rightarrow> settle wk msg' status process_time))))))"

section \<open>Targeting\<close>

definition is_misrouted :: "('f, 's) worker \<Rightarrow> emessage \<Rightarrow> bool" where
  "is_misrouted wk msg = (case to_worker msg of Some target \<Rightarrow> target \<noteq> wk_name wk | None \<Rightarrow> False)"

definition route_targeted ::
    "('f, 's) worker \<Rightarrow> emessage \<Rightarrow> (('f, 'w, 'z) world_scheme, unit) act" where
  "route_targeted wk msg =
     (if MAX_TARGETED_HOPS \<le> attempts msg then ret ()
      else bindA (on_fabric (ep_send (wk_producer wk) (msg\<lparr>attempts := attempts msg + 1\<rparr>)))
        (\<lambda>_. ret ()))"

text \<open>
  One turn of the receive loops of \<^verbatim>\<open>start\<close>, with the message that \<^verbatim>\<open>receive\<close> returned. The
  status cell is that of the worker; the loop over the local inbox writes it directly, the loop
  over the topic's consumer goes through the consumer router, a parameter here.
\<close>

definition deliver :: "('f, ('f, 'w, 'z) world_scheme) worker \<Rightarrow> emessage option
    \<Rightarrow> (('f, 'w, 'z) world_scheme, unit) act" where
  "deliver wk received =
     (case received of
        None \<Rightarrow> ret ()
      | Some msg \<Rightarrow>
          if is_misrouted wk msg then route_targeted wk msg
          else bindA (process_msg wk msg) (\<lambda>_. ret ()))"

definition set_local_status :: "worker_status \<Rightarrow> (worker_status \<times> 'v, unit) act" where
  "set_local_status st = putA (\<lambda>(_, v). (st, v))"

definition on_world :: "('v, 'a) act \<Rightarrow> (worker_status \<times> 'v, 'a) act" where
  "on_world m = (\<lambda>(st, v). case m v of (r, v') \<Rightarrow> (r, (st, v')))"

definition inbox_turn :: "('f, ('f, 'w, 'z) world_scheme) worker \<Rightarrow> emessage option
    \<Rightarrow> (worker_status \<times> ('f, 'w, 'z) world_scheme, unit) act" where
  "inbox_turn wk received =
     bindA (set_local_status Working) (\<lambda>_.
     bindA (on_world (deliver wk received)) (\<lambda>_. set_local_status Idle))"

definition queue_turn :: "(string \<Rightarrow> string \<Rightarrow> worker_status \<Rightarrow> (('f, 'w, 'z) world_scheme, unit) act)
    \<Rightarrow> ('f, ('f, 'w, 'z) world_scheme) worker \<Rightarrow> emessage option
    \<Rightarrow> (worker_status \<times> ('f, 'w, 'z) world_scheme, unit) act" where
  "queue_turn router_set wk received =
     bindA (on_world (router_set (wk_topic wk) (wk_name wk) Working)) (\<lambda>_.
     bindA (set_local_status Working) (\<lambda>_.
     bindA (on_world (deliver wk received)) (\<lambda>_.
     bindA (on_world (router_set (wk_topic wk) (wk_name wk) Idle)) (\<lambda>_. set_local_status Idle))))"

definition process_one :: "('f, ('f, 'w, 'z) world_scheme) worker \<Rightarrow> emessage
    \<Rightarrow> (worker_status \<times> ('f, 'w, 'z) world_scheme, unit) act" where
  "process_one wk msg =
     bindA (set_local_status Working) (\<lambda>_.
     bindA (on_world (process_msg wk msg)) (\<lambda>_. ret ()))"


section \<open>Shutdown\<close>

text \<open>
  The loop that waits for the worker to become idle, over the statuses it observes at its
  successive checks; when the observations end the loop is still waiting.
\<close>

fun shutdown_wait :: "time \<Rightarrow> duration option \<Rightarrow> worker_status list
    \<Rightarrow> (('f, 'w, 'z) world_scheme, unit) act" where
  "shutdown_wait start limit [] = (\<lambda>w. (Pending, w))"
| "shutdown_wait start limit (st # sts) =
     (if st = Working then
        (case limit of
           None \<Rightarrow> shutdown_wait start limit sts
         | Some t \<Rightarrow>
             bindA time_now (\<lambda>now.
             let elapsed = (case duration_since now start of Inr d \<Rightarrow> d | Inl _ \<Rightarrow> 0) in
             if t < elapsed then ret () else shutdown_wait start limit sts))
      else ret ())"

definition worker_shutdown :: "('f, 's) worker \<Rightarrow> duration option \<Rightarrow> worker_status list
    \<Rightarrow> (('f, 'w, 'z) world_scheme, unit result) act" where
  "worker_shutdown wk limit observed =
     bindA time_now (\<lambda>start.
     bindA (shutdown_wait start limit observed) (\<lambda>_.
     bindA time_now (\<lambda>stamp.
     bindQ (encode_with cc_shutdown_ack
       \<lparr>sa_worker_name = wk_name wk, sa_status = Completed, sa_timestamp = stamp,
        sa_error = None\<rparr>) (\<lambda>pl.
     bindA (make_message SYSTEM_TOPIC_SHUTDOWN_ACK pl Standard None) (\<lambda>ack_msg.
     bindQ (topic_send SYSTEM_TOPIC_SHUTDOWN_ACK ack_msg None None) (\<lambda>_. ret (Inr ())))))))"


section \<open>The local inbox\<close>

definition inbox_new :: "(nat \<Rightarrow> 'q link) \<Rightarrow> nat \<Rightarrow> ambient \<Rightarrow> 'q link \<times> 'q mem_consumer" where
  "inbox_new channel capacity a = (channel capacity, mem_consumer_new (channel capacity) a)"

definition inbox_receive :: "('q mem_consumer, emessage option) act" where
  "inbox_receive =
     bindA (on_q ch_recv) (\<lambda>r. ret (case r of Inr (Some m) \<Rightarrow> Some m | _ \<Rightarrow> None))"

definition inbox_claim :: "('q mem_consumer, claimed_message option result) act" where
  "inbox_claim =
     bindA (on_q ch_recv) (\<lambda>r. case r of
         Inr (Some m) \<Rightarrow> bindA (register_claim m) (\<lambda>cm. ret (Inr (Some cm)))
       | _ \<Rightarrow> ret (Inr None))"

definition inbox_ack :: "string \<Rightarrow> ('q mem_consumer, unit result) act" where
  "inbox_ack claim_id =
     bindA (putA (\<lambda>c. c\<lparr>mc_pending := hm_remove claim_id (mc_pending c)\<rparr>)) (\<lambda>_. ret (Inr ()))"

definition inbox_nack :: "string \<Rightarrow> ('q mem_consumer, unit result) act" where
  "inbox_nack claim_id =
     bindA (getA (\<lambda>c. hm_get (mc_pending c) claim_id)) (\<lambda>msg.
     bindA (putA (\<lambda>c. c\<lparr>mc_pending := hm_remove claim_id (mc_pending c)\<rparr>)) (\<lambda>_.
     case msg of
         Some m \<Rightarrow>
           bindA (on_q (\<lambda>ch. ch_send ch m)) (\<lambda>r. case r of
               Inl e \<Rightarrow> ret (Inl (EOther e))
             | Inr _ \<Rightarrow> ret (Inr ()))
       | None \<Rightarrow> ret (Inr ())))"

definition inbox_consumer :: "'q mem_consumer econsumer" where
  "inbox_consumer =
     \<lparr>ec_receive = inbox_receive, ec_claim = inbox_claim,
      ec_claim_batch = default_claim_batch inbox_claim,
      ec_ack = inbox_ack, ec_nack = inbox_nack, ec_claim_stale = default_claim_stale\<rparr>"

lemma inbox_is_flume:
  "inbox_receive = flume_receive" "inbox_claim = flume_claim" "inbox_ack = flume_ack"
proof -
  show "inbox_receive = flume_receive"
    unfolding inbox_receive_def flume_receive_def
    by (rule arg_cong [where f = "bindA (on_q ch_recv)"]) (auto split: sum.splits option.splits)
  show "inbox_claim = flume_claim" by (simp add: inbox_claim_def flume_claim_def)
  show "inbox_ack = flume_ack" by (rule ext) (simp add: inbox_ack_def flume_ack_def)
qed

lemma keeps_inbox_nack: "keeps mem_inv (inbox_nack k)"
  unfolding inbox_nack_def by (intro keeps_intros) (simp_all add: mem_inv_remove)

lemma inbox_consumer_ops:
  "ec_receive inbox_consumer = ec_receive flume_consumer"
  "ec_claim inbox_consumer = ec_claim flume_consumer"
  "ec_ack inbox_consumer = ec_ack flume_consumer"
  "ec_nack inbox_consumer = inbox_nack"
  by (simp_all add: inbox_consumer_def flume_consumer_def inbox_is_flume)

interpretation inbox: claim_source inbox_consumer mem_inv link_items mc_pending
  by unfold_locales
    (simp_all add: inbox_consumer_ops flume_cons.inflight_wf flume_cons.receive_inv
      flume_cons.claim_inv flume_cons.ack_inv keeps_inbox_nack flume_cons.receive_Some
      flume_cons.receive_other flume_cons.claim_Some flume_cons.claim_other flume_cons.ack_state
      flume_cons.ack_ok)

end
