(* ===== verification/Worker_Process.thy ===== *)
theory Worker_Process
  imports Worker
begin

text \<open>
  What becomes of a message that a worker processes. The state and audit messages that
  accompany the processing all go to system topics (\<open>quiet\<close> steps); besides them a message is
  settled, sent again, scheduled, or moved to the dead-letter topic, and \<open>fate_of\<close> says which
  from the handler's answer.
\<close>

named_theorems quiet_intros \<open>steps that send only to system topics\<close>

section \<open>Steps that only send system messages\<close>

definition system_news :: "('f \<Rightarrow> bool) \<Rightarrow> ('f \<Rightarrow> emessage list) \<Rightarrow> ('f, 'w, 'z) world_scheme
    \<Rightarrow> ('f, 'w, 'z) world_scheme \<Rightarrow> bool" where
  "system_news pinv items w w' \<longleftrightarrow> (\<exists>f a xs. w' = w\<lparr>w_fabric := f, w_amb := a\<rparr> \<and> pinv f \<and>
     items f = items (w_fabric w) @ xs \<and> (\<forall>x \<in> set xs. is_system_topic (msg_topic x)))"

definition quiet :: "'f eproducer \<Rightarrow> ('f \<Rightarrow> bool) \<Rightarrow> ('f \<Rightarrow> emessage list)
    \<Rightarrow> (('f, 'w, 'z) world_scheme, 'a) act \<Rightarrow> bool" where
  "quiet pdr pinv items m \<longleftrightarrow> (\<forall>w. router_ready pdr w \<and> pinv (w_fabric w) \<longrightarrow>
     system_news pinv items w (snd (m w)))"

lemma system_news_refl: "pinv (w_fabric w) \<Longrightarrow> system_news pinv items w w"
  unfolding system_news_def
  by (intro exI [of _ "w_fabric w"] exI [of _ "w_amb w"] exI [of _ "[]"]) simp

lemma system_news_amb: "pinv (w_fabric w) \<Longrightarrow> system_news pinv items w (w\<lparr>w_amb := a\<rparr>)"
  unfolding system_news_def
  by (intro exI [of _ "w_fabric w"] exI [of _ a] exI [of _ "[]"]) simp

lemma system_news_trans:
  assumes "system_news pinv items w w1" and "system_news pinv items w1 w2"
  shows "system_news pinv items w w2"
proof -
  obtain f a xs where 1: "w1 = w\<lparr>w_fabric := f, w_amb := a\<rparr>" "items f = items (w_fabric w) @ xs"
      "\<forall>x \<in> set xs. is_system_topic (msg_topic x)"
    using assms(1) unfolding system_news_def by blast
  obtain g b ys where 2: "w2 = w1\<lparr>w_fabric := g, w_amb := b\<rparr>" "pinv g"
      "items g = items (w_fabric w1) @ ys" "\<forall>y \<in> set ys. is_system_topic (msg_topic y)"
    using assms(2) unfolding system_news_def by blast
  have "w2 = w\<lparr>w_fabric := g, w_amb := b\<rparr>" using 1(1) 2(1) by simp
  with 1 2 show ?thesis
    unfolding system_news_def by (intro exI [of _ g] exI [of _ b] exI [of _ "xs @ ys"]) auto
qed

lemma system_news_ready:
  assumes "system_news pinv items w w'"
  shows "router_ready pdr w \<Longrightarrow> router_ready pdr w'" and "pinv (w_fabric w')"
    and "env_ready pdr pinv ops winv w \<Longrightarrow> env_ready pdr pinv ops winv w'"
    and "w_wal w' = w_wal w" and "w_node_type w' = w_node_type w"
    and "world_workers w' = world_workers w" and "w_codecs w' = w_codecs w"
  using assms by (auto simp: system_news_def env_ready_def)

lemma quietD:
  "quiet pdr pinv items m \<Longrightarrow> router_ready pdr w \<Longrightarrow> pinv (w_fabric w) \<Longrightarrow> m w = (r, w') \<Longrightarrow>
   system_news pinv items w w'"
  by (metis quiet_def snd_conv)

lemma quiet_ret [quiet_intros]: "quiet pdr pinv items (ret x)"
  by (simp add: quiet_def ret_def system_news_refl)

lemma quiet_halt [quiet_intros]: "quiet pdr pinv items (halt e)"
  by (simp add: quiet_def halt_def system_news_refl)

lemma quiet_getA [quiet_intros]: "quiet pdr pinv items (getA g)"
  by (simp add: quiet_def getA_def system_news_refl)

lemma quiet_time_now [quiet_intros]: "quiet pdr pinv items time_now"
  by (simp add: quiet_def time_now_app system_news_amb)

lemma quiet_uuid_v4 [quiet_intros]: "quiet pdr pinv items uuid_v4"
  by (simp add: quiet_def uuid_v4_app system_news_amb)

lemma quiet_encode [quiet_intros]: "quiet pdr pinv items (encode_with c x)"
  unfolding encode_with_def by (rule quiet_getA)

lemma quiet_bindA [quiet_intros]:
  assumes "quiet pdr pinv items m" and "\<And>x. quiet pdr pinv items (k x)"
  shows "quiet pdr pinv items (bindA m k)"
  unfolding quiet_def
proof (intro allI impI, elim conjE)
  fix w :: "('a, 'b, 'c) world_scheme"
  assume w: "router_ready pdr w" "pinv (w_fabric w)"
  obtain r w1 where m: "m w = (r, w1)" by fastforce
  have news: "system_news pinv items w w1" using quietD [OF assms(1) w m] .
  have "system_news pinv items w1 (snd (k x w1))" for x
    using assms(2) [of x] system_news_ready(1,2) [OF news] w(1) by (simp add: quiet_def)
  with news m show "system_news pinv items w (snd (bindA m k w))"
    by (auto simp: bindA_def intro: system_news_trans split: outcome.splits)
qed

lemma quiet_bindQ [quiet_intros]:
  assumes "quiet pdr pinv items m" and "\<And>x. quiet pdr pinv items (k x)"
  shows "quiet pdr pinv items (bindQ m k)"
  unfolding bindQ_def
proof (rule quiet_bindA [OF assms(1)])
  show "quiet pdr pinv items (case r of Inl e \<Rightarrow> ret (Inl e) | Inr x \<Rightarrow> k x)" for r
    by (cases r) (simp_all add: quiet_ret assms(2))
qed

lemma quiet_if [quiet_intros]:
  "quiet pdr pinv items m \<Longrightarrow> quiet pdr pinv items m' \<Longrightarrow> quiet pdr pinv items (if b then m else m')"
  by simp

text \<open>What \<^verbatim>\<open>Worker::new\<close> sets up and the lemmas rely on.\<close>

definition worker_wf :: "'f eproducer \<Rightarrow> ('f, 's) worker \<Rightarrow> bool" where
  "worker_wf pdr wk \<longleftrightarrow> wk_producer wk = pdr \<and>
     msg_topic (wc_template (wk_wal wk)) = SYSTEM_TOPIC_WAL_SYNC \<and>
     msg_topic (wk_audit_template wk) = SYSTEM_TOPIC_AUDIT"

lemma worker_new_wf:
  assumes "worker_new topic p pdr t ci st w = (r, w')"
  shows "\<exists>wk. r = Ret wk \<and> worker_wf pdr wk \<and> wk_topic wk = topic \<and> wk_pipeline wk = p"
  using assms
  by (auto simp: worker_new_def wal_client_new_def make_message_def bindA_def outcome_simps
      try_get_node_name_def worker_wf_def Let_def)

context router_env
begin

lemma quiet_send_system:
  assumes "is_system_topic (msg_topic m)"
  shows "quiet pdr pinv items (send_system m b d :: (('f, 'v, 'z) world_scheme, unit result) act)"
  unfolding quiet_def
proof (intro allI impI, elim conjE)
  fix w :: "('f, 'v, 'z) world_scheme"
  assume w: "router_ready pdr w" "pinv (w_fabric w)"
  obtain r w1 where m: "send_system m b d w = (r, w1)" by fastforce
  then have "emit m b d w = (r, w1)" by (simp add: send_system_def)
  from emit_effect [OF w this] obtain f' where f': "w1 = w\<lparr>w_fabric := f'\<rparr>" "pinv f'"
      "items f' = items (w_fabric w) @ (if r = Ret (Inr ()) then [m] else [])" by blast
  have "system_news pinv items w w1"
    unfolding system_news_def
    using f' assms
    by (intro exI [of _ f'] exI [of _ "w_amb w"] exI [of _ "if r = Ret (Inr ()) then [m] else []"])
      auto
  with m show "system_news pinv items w (snd (send_system m b d w))" by simp
qed

lemma quiet_sync_status:
  assumes "worker_wf pdr wk"
  shows "quiet pdr pinv items (sync_status (wk_wal wk) mid t s a e)"
  unfolding sync_status_def using assms
  by (intro quiet_intros quiet_send_system)
    (simp add: worker_wf_def is_system_topic_def system_topic_defs)

lemma quiet_audit:
  assumes "worker_wf pdr wk"
  shows "quiet pdr pinv items (audit_best_effort wk m r ev e d)"
  unfolding audit_best_effort_def generate_audit_msg_def send_audit_msg_def using assms
  by (intro quiet_intros quiet_send_system)
    (simp add: worker_wf_def is_system_topic_def system_topic_defs)

lemma quiet_marks:
  assumes "worker_wf pdr wk"
  shows "quiet pdr pinv items (mark_pending (wk_wal wk) mid t)"
    and "quiet pdr pinv items (mark_processing (wk_wal wk) mid t)"
    and "quiet pdr pinv items (mark_complete (wk_wal wk) mid t a)"
    and "quiet pdr pinv items (mark_dead_letter (wk_wal wk) mid t a e)"
  using quiet_sync_status [OF assms]
  by (simp_all add: mark_pending_def mark_processing_def mark_complete_def mark_dead_letter_def)

end


section \<open>The fate of a message\<close>

datatype fate =
    Settled
  | Requeued emessage
  | Scheduled emessage
  | Lettered emessage

definition letter_of :: "string \<Rightarrow> emessage \<Rightarrow> emessage" where
  "letter_of topic m = m\<lparr>msg_topic := ''dead_letter.'' @ topic, to_worker := None\<rparr>"

fun fate_of :: "string \<Rightarrow> time \<Rightarrow> emessage \<Rightarrow> ack \<Rightarrow> fate" where
  "fate_of topic now m Ack =
     (case delivery_mode m of
        Repeated limit \<Rightarrow>
          if limit = consumed_count m + 1 then Settled
          else Requeued (m\<lparr>consumed_count := consumed_count m + 1\<rparr>)
      | _ \<Rightarrow> Settled)"
| "fate_of topic now m (NoAck retry_after max_retries) =
     (let m' = m\<lparr>attempts := attempts m + 1\<rparr> in
      if max_retries \<le> attempts m' then Lettered (letter_of topic m')
      else case retry_after of
          None \<Rightarrow> Requeued m'
        | Some d \<Rightarrow> (case time_checked_add now d of
              Some t \<Rightarrow> Scheduled (m'\<lparr>deliver_at := Some t\<rparr>)
            | None \<Rightarrow> Requeued (m'\<lparr>deliver_at := None\<rparr>)))"
| "fate_of topic now m (Dead reason) = Lettered (letter_of topic m)"

text \<open>The queue gains the messages \<open>key\<close>, in one place among messages to system topics.\<close>

definition sends_key :: "('f \<Rightarrow> bool) \<Rightarrow> ('f \<Rightarrow> emessage list) \<Rightarrow> ('f, 'w, 'z) world_scheme
    \<Rightarrow> emessage list \<Rightarrow> ('f, 'w, 'z) world_scheme \<Rightarrow> bool" where
  "sends_key pinv items w key w' \<longleftrightarrow> (\<exists>f a pre post. w' = w\<lparr>w_fabric := f, w_amb := a\<rparr> \<and> pinv f \<and>
     items f = items (w_fabric w) @ pre @ key @ post \<and>
     (\<forall>x \<in> set pre \<union> set post. is_system_topic (msg_topic x)))"

lemma sends_key_news: "system_news pinv items w w' \<Longrightarrow> sends_key pinv items w [] w'"
  unfolding system_news_def sends_key_def
  by (elim exE conjE, intro exI [of _ "[]"] exI conjI) auto

lemma news_sends_key:
  assumes "system_news pinv items w w1" and "sends_key pinv items w1 key w2"
  shows "sends_key pinv items w key w2"
proof -
  obtain f a xs where 1: "w1 = w\<lparr>w_fabric := f, w_amb := a\<rparr>" "items f = items (w_fabric w) @ xs"
      "\<forall>x \<in> set xs. is_system_topic (msg_topic x)"
    using assms(1) unfolding system_news_def by blast
  obtain g b pre post where 2: "w2 = w1\<lparr>w_fabric := g, w_amb := b\<rparr>" "pinv g"
      "items g = items (w_fabric w1) @ pre @ key @ post"
      "\<forall>y \<in> set pre \<union> set post. is_system_topic (msg_topic y)"
    using assms(2) unfolding sends_key_def by blast
  have "w2 = w\<lparr>w_fabric := g, w_amb := b\<rparr>" using 1(1) 2(1) by simp
  with 1 2 show ?thesis
    unfolding sends_key_def
    by (intro exI [of _ g] exI [of _ b] exI [of _ "xs @ pre"] exI [of _ post]) auto
qed

lemma sends_key_then_news:
  assumes "sends_key pinv items w key w1" and "system_news pinv items w1 w2"
  shows "sends_key pinv items w key w2"
proof -
  obtain f a pre post where 1: "w1 = w\<lparr>w_fabric := f, w_amb := a\<rparr>"
      "items f = items (w_fabric w) @ pre @ key @ post"
      "\<forall>y \<in> set pre \<union> set post. is_system_topic (msg_topic y)"
    using assms(1) unfolding sends_key_def by blast
  obtain g b ys where 2: "w2 = w1\<lparr>w_fabric := g, w_amb := b\<rparr>" "pinv g"
      "items g = items (w_fabric w1) @ ys" "\<forall>y \<in> set ys. is_system_topic (msg_topic y)"
    using assms(2) unfolding system_news_def by blast
  have "w2 = w\<lparr>w_fabric := g, w_amb := b\<rparr>" using 1(1) 2(1) by simp
  with 1 2 show ?thesis
    unfolding sends_key_def
    by (intro exI [of _ g] exI [of _ b] exI [of _ pre] exI [of _ "post @ ys"]) auto
qed

lemma sends_key_ready:
  assumes "sends_key pinv items w key w'"
  shows "router_ready pdr w \<Longrightarrow> router_ready pdr w'" and "pinv (w_fabric w')"
  using assms by (auto simp: sends_key_def)

text \<open>What a fate means for the queue and the delay store of the log.\<close>

definition fate_reached :: "('f \<Rightarrow> bool) \<Rightarrow> ('f \<Rightarrow> emessage list) \<Rightarrow> ('v \<Rightarrow> bool)
    \<Rightarrow> ('v \<Rightarrow> string \<Rightarrow> wal_record option) \<Rightarrow> ('f, 'v, 'z) world_scheme \<Rightarrow> fate
    \<Rightarrow> ('f, 'v, 'z) world_scheme \<Rightarrow> bool" where
  "fate_reached pinv items winv dels w ft w' =
     (case ft of
        Settled \<Rightarrow> sends_key pinv items w [] w'
      | Requeued m \<Rightarrow> sends_key pinv items w [m] w'
      | Lettered m \<Rightarrow> sends_key pinv items w [m] w'
      | Scheduled m \<Rightarrow> \<exists>w1 x n. sends_key pinv items w [] w1 \<and> w' = w1\<lparr>w_wal := x\<rparr> \<and> winv x \<and>
          dels x = (dels (w_wal w))(msg_id m \<mapsto> (wal_record_from_msg m)\<lparr>record_id := n\<rparr>))"

lemma news_fate_reached:
  assumes "system_news pinv items w w1" and "fate_reached pinv items winv dels w1 ft w2"
  shows "fate_reached pinv items winv dels w ft w2"
proof -
  have "w_wal w1 = w_wal w" using assms(1) by (auto simp: system_news_def)
  with assms show ?thesis
    by (auto simp: fate_reached_def split: fate.splits dest: news_sends_key)
qed

context router_env
begin

lemma produce_key:
  assumes "pinv (w_fabric w)" and "on_fabric (ep_send pdr m) w = (Ret (Inr ()), w')"
  shows "sends_key pinv items w [m] w'"
proof -
  obtain f where f: "ep_send pdr m (w_fabric w) = (Ret (Inr ()), f)" "w' = w\<lparr>w_fabric := f\<rparr>"
    using assms(2) by (auto simp: on_fabric_def split: prod.splits)
  with qp.send_ok [OF assms(1) f(1)] keepsD [OF qp.send_pinv assms(1), of m] show ?thesis
    unfolding sends_key_def
    by (intro exI [of _ f] exI [of _ "w_amb w"] exI [of _ "[]"]) simp
qed

lemma emit_key:
  assumes "router_ready pdr w" and "pinv (w_fabric w)" and "emit m b d w = (Ret (Inr ()), w')"
  shows "sends_key pinv items w [m] w'"
proof -
  obtain f where "w' = w\<lparr>w_fabric := f\<rparr>" "pinv f" "items f = items (w_fabric w) @ [m]"
    using emit_effect [OF assms] by auto
  then show ?thesis
    unfolding sends_key_def
    by (intro exI [of _ f] exI [of _ "w_amb w"] exI [of _ "[]"]) simp
qed

lemma requeue_key:
  assumes "worker_wf pdr wk" and "router_ready pdr w" and "pinv (w_fabric w)"
    and "requeue_message wk m w = (Ret (Inr ()), w')"
  shows "sends_key pinv items w [m] w'"
proof -
  obtain w1 where w1: "mark_pending (wk_wal wk) (msg_id m) (msg_topic m) w = (Ret (Inr ()), w1)"
      "on_fabric (ep_send pdr m) w1 = (Ret (Inr ()), w')"
    using assms(1,4) unfolding requeue_message_def bindQ_unit
    by (auto simp: worker_wf_def elim!: bindQ_OkE)
  have news: "system_news pinv items w w1"
    using quietD [OF quiet_marks(1) [OF assms(1)] assms(2,3) w1(1)] .
  show ?thesis
    using news_sends_key [OF news produce_key [OF system_news_ready(2) [OF news] w1(2)]] .
qed

lemma dead_letter_key:
  assumes "worker_wf pdr wk" and "router_ready pdr w" and "pinv (w_fabric w)"
    and "deliver_at m = None" and "delivery_mode m \<noteq> Broadcast"
    and "send_to_dead_letter wk m reason pt w = (Ret (Inr ()), w')"
  shows "sends_key pinv items w [letter_of (wk_topic wk) m] w'"
proof -
  let ?l = "letter_of (wk_topic wk) m" and ?t = "''dead_letter.'' @ wk_topic wk"
  have l: "?l\<lparr>msg_topic := ?t\<rparr> = ?l" "deliver_at ?l = None" "delivery_mode ?l \<noteq> Broadcast"
    using assms(4,5) by (simp_all add: letter_of_def)
  have eq: "send_to_dead_letter wk m reason pt w =
      bindQ (mark_dead_letter (wk_wal wk) (msg_id ?l) (msg_topic ?l) (attempts ?l)
         (dead_reason_to_string reason)) (\<lambda>_. bindQ (topic_send ?t ?l None None) (\<lambda>_.
       bindA (audit_best_effort wk ?l DeadResult DeadLettered (Some (dead_reason_to_string reason))
         (Some pt)) (\<lambda>_. ret (Inr ())))) w"
    by (simp add: send_to_dead_letter_def Let_def letter_of_def)
  obtain w1 w2 u u1 u2 v where
    w1: "mark_dead_letter (wk_wal wk) (msg_id ?l) (msg_topic ?l) (attempts ?l)
         (dead_reason_to_string reason) w = (Ret (Inr u1), w1)"
    and w2: "topic_send ?t ?l None None w1 = (Ret (Inr u2), w2)"
    and w3: "audit_best_effort wk ?l DeadResult DeadLettered (Some (dead_reason_to_string reason))
         (Some pt) w2 = (Ret u, v)" "ret (Inr ()) v = (Ret (Inr () :: unit result), w')"
    using trans [OF eq [symmetric] assms(6)]
    by (elim bindQ_OkE bindA_RetE) (rule that)
  from w3 have w3: "audit_best_effort wk ?l DeadResult DeadLettered
      (Some (dead_reason_to_string reason)) (Some pt) w2 = (Ret u, w')"
    by (simp add: ret_def)
  have n1: "system_news pinv items w w1"
    using quietD [OF quiet_marks(4) [OF assms(1)] assms(2,3) w1] .
  note r1 = system_news_ready(1) [OF n1 assms(2)] system_news_ready(2) [OF n1]
  have "emit ?l None None w1 = (Ret (Inr ()), w2)" using w2 l by (simp add: send_plain)
  then have k: "sends_key pinv items w1 [?l] w2" by (rule emit_key [OF r1])
  have n3: "system_news pinv items w2 w'"
    using quietD [OF quiet_audit [OF assms(1)] sends_key_ready(1) [OF k r1(1)]
        sends_key_ready(2) [OF k] w3] .
  show ?thesis using news_sends_key [OF n1 sends_key_then_news [OF k n3]] .
qed

lemma settle_ack:
  assumes wf: "worker_wf pdr wk" and ready: "router_ready pdr w" "pinv (w_fabric w)"
    and run: "settle wk m Ack pt w = (Ret (Inr ()), w')"
  shows "fate_reached pinv items winv dels w (fate_of (wk_topic wk) now m Ack) w'"
proof (cases "\<exists>l. delivery_mode m = Repeated l \<and> l \<noteq> consumed_count m + 1")
  case True
  let ?m = "m\<lparr>consumed_count := consumed_count m + 1\<rparr>"
  have eq: "settle wk m Ack pt w = bindQ (mark_pending (wk_wal wk) (msg_id ?m) (msg_topic ?m))
      (\<lambda>_. bindQ (requeue_message wk ?m) (\<lambda>_. ret (Inr ()))) w"
    using True by (auto simp: settle_def Let_def)
  obtain w1 w2 u1 u2 where w1: "mark_pending (wk_wal wk) (msg_id ?m) (msg_topic ?m) w = (Ret (Inr u1), w1)"
      and w2: "requeue_message wk ?m w1 = (Ret (Inr u2), w2)"
      and w3: "ret (Inr ()) w2 = (Ret (Inr () :: unit result), w')"
    using trans [OF eq [symmetric] run] by (elim bindQ_OkE) (rule that)
  have n1: "system_news pinv items w w1" using quietD [OF quiet_marks(1) [OF wf] ready w1] .
  have "requeue_message wk ?m w1 = (Ret (Inr ()), w')" using w2 w3 by (simp add: ret_def)
  then have "sends_key pinv items w1 [?m] w'"
    by (rule requeue_key [OF wf system_news_ready(1) [OF n1 ready(1)] system_news_ready(2) [OF n1]])
  with n1 True show ?thesis by (auto simp: fate_reached_def intro: news_sends_key)
next
  case False
  have q: "quiet pdr pinv items (settle wk m Ack pt :: (('f, 'v, 'z) world_scheme, unit result) act)"
    using False wf
    by (auto simp: settle_def Let_def split: delivery_mode.splits
        intro!: quiet_intros quiet_audit quiet_marks)
  have "fate_of (wk_topic wk) now m Ack = Settled"
    using False by (auto split: delivery_mode.splits)
  with quietD [OF q ready run] show ?thesis by (simp add: fate_reached_def sends_key_news)
qed

lemma retry_send:
  assumes env: "env_ready pdr pinv ops winv w" and mode: "delivery_mode m \<noteq> Broadcast"
    and run: "topic_send (msg_topic m) (m\<lparr>deliver_at := at\<rparr>) None None w = (Ret (Inr ()), w')"
  shows "fate_reached pinv items winv dels w (case at of Some t \<Rightarrow> Scheduled (m\<lparr>deliver_at := at\<rparr>)
    | None \<Rightarrow> Requeued (m\<lparr>deliver_at := None\<rparr>)) w'"
proof (cases at)
  case None
  have "emit (m\<lparr>deliver_at := None\<rparr>) None None w = (Ret (Inr ()), w')"
    using run None mode by (simp add: send_plain)
  then have "sends_key pinv items w [m\<lparr>deliver_at := None\<rparr>] w'"
    using env by (intro emit_key) (simp_all add: env_ready_def)
  with None show ?thesis by (simp add: fate_reached_def)
next
  case (Some t)
  obtain n x where "topic_send (msg_topic m) (m\<lparr>deliver_at := at\<rparr>) None None w =
      (Ret (Inr ()), w\<lparr>w_wal := x\<rparr>)" "winv x"
      "dels x = (dels (w_wal w))(msg_id m \<mapsto> (wal_record_from_msg (m\<lparr>deliver_at := at\<rparr>))\<lparr>record_id := n\<rparr>)"
    using send_delayed [OF env, of "m\<lparr>deliver_at := at\<rparr>" "msg_topic m" None None] Some by auto
  moreover have "sends_key pinv items w [] w"
    using env by (intro sends_key_news system_news_refl) (simp add: env_ready_def)
  ultimately show ?thesis using run Some by (auto simp: fate_reached_def)
qed

lemma settle_retry:
  assumes wf: "worker_wf pdr wk" and env: "env_ready pdr pinv ops winv w"
    and m: "deliver_at m = None" "delivery_mode m \<noteq> Broadcast"
    and run: "settle wk m (NoAck after mx) pt w = (Ret (Inr ()), w')"
  shows "\<exists>now. fate_reached pinv items winv dels w (fate_of (wk_topic wk) now m (NoAck after mx)) w'"
proof -
  let ?m = "m\<lparr>attempts := attempts m + 1\<rparr>"
  have ready: "router_ready pdr w" "pinv (w_fabric w)" using env by (simp_all add: env_ready_def)
  obtain w1 u1 where w1: "mark_pending (wk_wal wk) (msg_id ?m) (msg_topic ?m) w = (Ret (Inr u1), w1)"
      and k: "(if mx \<le> attempts ?m then
            bindQ (send_to_dead_letter wk ?m MaxRetriesExceeded pt) (\<lambda>_. ret (Inr ()))
          else (case after of
              Some delay \<Rightarrow>
                bindA time_now (\<lambda>now. bindQ (topic_send (msg_topic (?m\<lparr>deliver_at := time_checked_add now delay\<rparr>))
                  (?m\<lparr>deliver_at := time_checked_add now delay\<rparr>) None None) (\<lambda>_. ret (Inr ())))
            | None \<Rightarrow> bindQ (on_fabric (ep_send (wk_producer wk) ?m)) (\<lambda>_. ret (Inr ())))) w1
          = (Ret (Inr ()), w')"
    using run unfolding settle_def ack.case Let_def by (elim bindQ_OkE) simp
  have n1: "system_news pinv items w w1" using quietD [OF quiet_marks(1) [OF wf] ready w1] .
  note r1 = system_news_ready(1) [OF n1 ready(1)] system_news_ready(2) [OF n1]
  have env1: "env_ready pdr pinv ops winv w1"
    using env n1 by (auto simp: system_news_def)
  have "\<exists>now. fate_reached pinv items winv dels w1 (fate_of (wk_topic wk) now m (NoAck after mx)) w'"
  proof (cases "mx \<le> attempts ?m")
    case True
    then have "send_to_dead_letter wk ?m MaxRetriesExceeded pt w1 = (Ret (Inr ()), w')"
      using k by (simp add: bindQ_unit)
    from dead_letter_key [OF wf r1 _ _ this] m True show ?thesis
      by (simp add: fate_reached_def Let_def)
  next
    case more: False
    show ?thesis
    proof (cases after)
      case None
      then have "on_fabric (ep_send pdr ?m) w1 = (Ret (Inr ()), w')"
        using k more wf by (simp add: bindQ_unit worker_wf_def)
      from produce_key [OF r1(2) this] None more show ?thesis
        by (simp add: fate_reached_def Let_def)
    next
      case (Some delay)
      obtain w2 now where t: "time_now w1 = (Ret now, w2)"
          and s: "topic_send (msg_topic ?m) (?m\<lparr>deliver_at := time_checked_add now delay\<rparr>) None None w2
            = (Ret (Inr ()), w')"
        using k more Some by (auto simp: bindQ_unit elim!: bindA_RetE)
      have n2: "system_news pinv items w1 w2" by (rule quietD [where pinv = pinv, OF quiet_time_now r1 t])
      have "env_ready pdr pinv ops winv w2"
        using env1 n2 by (auto simp: system_news_def)
      from news_fate_reached [OF n2 retry_send [OF this _ s]] m more Some show ?thesis
        by (intro exI [of _ now]) (simp add: Let_def split: option.splits)
    qed
  qed
  with news_fate_reached [OF n1] show ?thesis by blast
qed

lemma settle_ok:
  assumes wf: "worker_wf pdr wk" and env: "env_ready pdr pinv ops winv w"
    and m: "deliver_at m = None" "delivery_mode m \<noteq> Broadcast"
    and run: "settle wk m st pt w = (Ret (Inr ()), w')"
  shows "\<exists>now. fate_reached pinv items winv dels w (fate_of (wk_topic wk) now m st) w'"
proof (cases st)
  case Ack
  with settle_ack [OF wf] env run show ?thesis by (auto simp: env_ready_def)
next
  case NoAck
  with settle_retry [OF wf env m] run show ?thesis by simp
next
  case (Dead reason)
  have ready: "router_ready pdr w" "pinv (w_fabric w)" using env by (simp_all add: env_ready_def)
  obtain w1 u1 where w1: "mark_dead_letter (wk_wal wk) (msg_id m) (msg_topic m) (attempts m)
        (dead_reason_to_string reason) w = (Ret (Inr u1), w1)"
      and k: "send_to_dead_letter wk m reason pt w1 = (Ret (Inr ()), w')"
    using run unfolding settle_def Dead ack.case bindQ_unit by (elim bindQ_OkE) simp
  have n1: "system_news pinv items w w1" using quietD [OF quiet_marks(4) [OF wf] ready w1] .
  from news_sends_key [OF n1 dead_letter_key [OF wf system_news_ready(1) [OF n1 ready(1)]
        system_news_ready(2) [OF n1] m k]] Dead show ?thesis
    by (simp add: fate_reached_def)
qed

text \<open>
  Processing a message whose pipeline returns a verdict and sends nothing but system
  messages: an \<^verbatim>\<open>Ok\<close> means that the message has met the fate its verdict asks for.
\<close>

lemma process_msg_ok:
  assumes wf: "worker_wf pdr wk" and env: "env_ready pdr pinv ops winv w"
    and user: "\<not> starts_with (wk_topic wk) ''_system.''"
    and q: "quiet pdr pinv items (run_pipeline wk m)"
    and res: "\<And>v v' p. run_pipeline wk m v = (Ret p, v') \<Longrightarrow> p = (a, m1)"
    and m1: "deliver_at m1 = None" "delivery_mode m1 \<noteq> Broadcast"
    and run: "process_msg wk m w = (Ret (Inr ()), w')"
  shows "\<exists>now. fate_reached pinv items winv dels w (fate_of (wk_topic wk) now m1 a) w'"
proof -
  have ready: "router_ready pdr w" "pinv (w_fabric w)" using env by (simp_all add: env_ready_def)
  obtain u0 wa start wb u1 wc p wd fin we where
      s1: "audit_best_effort wk m StartResult ProcessingStarted None None w = (Ret u0, wa)"
    and s2: "time_now wa = (Ret start, wb)"
    and s3: "mark_processing (wk_wal wk) (msg_id m) (msg_topic m) wb = (Ret (Inr u1), wc)"
    and s4: "run_pipeline wk m wc = (Ret p, wd)"
    and s5: "time_now wd = (Ret fin, we)"
    and s6: "(case duration_since fin start of Inl d \<Rightarrow> ret (Inl (EProcessTimeError d))
          | Inr pt \<Rightarrow> settle wk (snd p) (fst p) pt) we = (Ret (Inr ()), w')"
    using run user unfolding process_msg_def Let_def
    by (auto simp only: if_True if_False simp_thms split_def elim!: bindA_RetE bindQ_OkE)
  note news = system_news_trans and rdy = system_news_ready
  have na: "system_news pinv items w wa" using quietD [OF quiet_audit [OF wf] ready s1] .
  have nb: "system_news pinv items wa wb"
    by (rule quietD [where pinv = pinv, OF quiet_time_now rdy(1) [OF na ready(1)] rdy(2) [OF na] s2])
  note nb = news [OF na nb]
  have nc: "system_news pinv items wb wc"
    using quietD [OF quiet_marks(2) [OF wf] rdy(1) [OF nb ready(1)] rdy(2) [OF nb] s3] .
  note nc = news [OF nb nc]
  have nd: "system_news pinv items wc wd"
    by (rule quietD [OF q rdy(1) [OF nc ready(1)] rdy(2) [OF nc] s4])
  note nd = news [OF nc nd]
  have ne: "system_news pinv items wd we"
    by (rule quietD [where pinv = pinv, OF quiet_time_now rdy(1) [OF nd ready(1)] rdy(2) [OF nd] s5])
  note ne = news [OF nd ne]
  have "env_ready pdr pinv ops winv we" using env ne by (auto simp: system_news_def)
  moreover obtain pt where "settle wk m1 a pt we = (Ret (Inr ()), w')"
    using s6 res [OF s4] by (auto simp: ret_def split: sum.splits)
  ultimately obtain now where "fate_reached pinv items winv dels we (fate_of (wk_topic wk) now m1 a) w'"
    using settle_ok [OF wf _ m1] by blast
  with news_fate_reached [OF ne] show ?thesis by blast
qed

end


section \<open>An open queue\<close>

text \<open>
  With a queue that accepts every message and encodable state messages nothing in the
  worker can fail but the clock.
\<close>

definition encodable :: "('f, 'w, 'z) world_scheme \<Rightarrow> bool" where
  "encodable w \<longleftrightarrow> (\<forall>x. is_ok (cd_enc (cc_sync (w_codecs w)) x))"

lemma encodable_upd [simp]:
  "encodable (w\<lparr>w_fabric := f\<rparr>) = encodable w" "encodable (w\<lparr>w_amb := a\<rparr>) = encodable w"
  "encodable (w\<lparr>w_wal := x\<rparr>) = encodable w"
  by (simp_all add: encodable_def)

definition calm :: "'f eproducer \<Rightarrow> ('f \<Rightarrow> bool) \<Rightarrow> 'w wal_ops \<Rightarrow> ('w \<Rightarrow> bool)
    \<Rightarrow> ('f, 'w, 'z) world_scheme \<Rightarrow> bool" where
  "calm pdr pinv ops winv w \<longleftrightarrow> env_ready pdr pinv ops winv w \<and> encodable w"

lemma calm_ready:
  assumes "calm pdr pinv ops winv w"
  shows "router_ready pdr w" "pinv (w_fabric w)" "env_ready pdr pinv ops winv w"
  using assms by (simp_all add: calm_def env_ready_def)

lemma calm_upd:
  assumes "calm pdr pinv ops winv w"
  shows "pinv f \<Longrightarrow> calm pdr pinv ops winv (w\<lparr>w_fabric := f\<rparr>)"
    and "winv x \<Longrightarrow> calm pdr pinv ops winv (w\<lparr>w_wal := x\<rparr>)"
    and "calm pdr pinv ops winv (w\<lparr>w_amb := a\<rparr>)"
  using assms by (simp_all add: calm_def env_ready_def)

lemma calm_time_now: "total_in (calm pdr pinv ops winv) (\<lambda>_. True) time_now"
  by (rule total_inI) (simp add: calm_upd time_now_app)

lemma calm_uuid: "total_in (calm pdr pinv ops winv) (\<lambda>_. True) uuid_v4"
  by (rule total_inI) (simp add: calm_upd uuid_v4_app)

lemma calm_encode_sync: "total_in (calm pdr pinv ops winv) is_ok (encode_with cc_sync x)"
  unfolding encode_with_def
  by (rule total_getA) (metis calm_def encodable_def is_ok_simps(1) obj_sumE is_ok_simps(2) sum.simps(6))

lemma calm_encode: "total_in (calm pdr pinv ops winv) (\<lambda>_. True) (encode_with c x)"
  unfolding encode_with_def by (rule total_getA) simp

context open_router_env
begin

lemma calm_emit: "total_in (calm pdr pinv ops winv) is_ok (emit m b d)"
proof (rule total_inI)
  fix w assume c: "calm pdr pinv ops winv w"
  obtain f' where "emit m b d w = (Ret (Inr ()), w\<lparr>w_fabric := f'\<rparr>)" "pinv f'"
    using emit_open [OF calm_ready(1,2) [OF c], of m b d] by blast
  with c show "\<exists>x w'. emit m b d w = (Ret x, w') \<and> is_ok x \<and> calm pdr pinv ops winv w'"
    by (simp add: calm_upd)
qed

lemma calm_produce: "total_in (calm pdr pinv ops winv) is_ok (on_fabric (ep_send pdr m))"
proof (rule total_inI)
  fix w assume c: "calm pdr pinv ops winv w"
  obtain r f' where e: "ep_send pdr m (w_fabric w) = (r, f')" by fastforce
  have "r = Ret (Inr ())" "pinv f'"
    using e send_accepts [OF calm_ready(2) [OF c], of m]
      keepsD [OF qp.send_pinv calm_ready(2) [OF c], of m] by simp_all
  with e c show "\<exists>x w'. on_fabric (ep_send pdr m) w = (Ret x, w') \<and> is_ok x \<and>
      calm pdr pinv ops winv w'"
    by (simp add: calm_upd on_fabric_def)
qed

lemma calm_send:
  assumes "delivery_mode m \<noteq> Broadcast"
  shows "total_in (calm pdr pinv ops winv) is_ok (topic_send t m b d)"
proof (cases "deliver_at m")
  case None
  with assms calm_emit show ?thesis by (simp add: send_plain)
next
  case (Some x)
  show ?thesis
  proof (rule total_inI)
    fix w assume c: "calm pdr pinv ops winv w"
    obtain n x where "topic_send t m b d w = (Ret (Inr ()), w\<lparr>w_wal := x\<rparr>)" "winv x"
      using send_delayed [OF calm_ready(3) [OF c], of m t b d] Some by auto
    with c show "\<exists>x w'. topic_send t m b d w = (Ret x, w') \<and> is_ok x \<and> calm pdr pinv ops winv w'"
      by (simp add: calm_upd)
  qed
qed

lemma calm_sync: "total_in (calm pdr pinv ops winv) is_ok (sync_status c mid t s a e)"
  unfolding sync_status_def send_system_def
  by (intro total_intros calm_time_now calm_encode_sync calm_uuid calm_emit) simp

lemma calm_marks:
  "total_in (calm pdr pinv ops winv) is_ok (mark_pending c mid t)"
  "total_in (calm pdr pinv ops winv) is_ok (mark_processing c mid t)"
  "total_in (calm pdr pinv ops winv) is_ok (mark_complete c mid t a)"
  "total_in (calm pdr pinv ops winv) is_ok (mark_dead_letter c mid t a e)"
  by (simp_all add: calm_sync mark_pending_def mark_processing_def mark_complete_def
      mark_dead_letter_def)

lemma calm_send_audit: "total_in (calm pdr pinv ops winv) (\<lambda>_. True) (send_audit_msg wk x)"
proof -
  have "total_in (calm pdr pinv ops winv) (\<lambda>_. True)
      (bindA uuid_v4 (\<lambda>u. bindQ (send_system (m u) None None) (\<lambda>_. ret (Inr ()))))" for m
    unfolding send_system_def
    by (intro total_intros calm_uuid total_weaken [OF calm_emit]) simp_all
  then show ?thesis
    unfolding send_audit_msg_def bindQ_def [of "encode_with cc_audit x"]
    by (intro total_bindA_any [OF calm_encode]) (auto intro: total_ret split: sum.splits)
qed

lemma calm_audit: "total_in (calm pdr pinv ops winv) (\<lambda>_. True) (audit_best_effort wk m r ev e d)"
  unfolding audit_best_effort_def generate_audit_msg_def
  by (intro total_intros calm_time_now calm_send_audit) simp_all

lemma calm_dead_letter:
  assumes "delivery_mode m \<noteq> Broadcast"
  shows "total_in (calm pdr pinv ops winv) is_ok (send_to_dead_letter wk m reason pt)"
  unfolding send_to_dead_letter_def Let_def using assms
  by (intro total_intros calm_marks calm_audit calm_send) simp_all

lemma calm_settle:
  assumes "wk_producer wk = pdr" and "delivery_mode m \<noteq> Broadcast"
  shows "total_in (calm pdr pinv ops winv) is_ok (settle wk m st pt)"
  unfolding settle_def Let_def requeue_message_def assms(1) using assms(2)
  by (cases st)
    (auto split: delivery_mode.splits option.splits
      intro!: total_intros calm_marks calm_audit calm_dead_letter calm_send calm_produce
        calm_time_now)

lemma calm_process_msg:
  assumes "wk_producer wk = pdr"
    and "total_in (calm pdr pinv ops winv) (\<lambda>(a, m1). delivery_mode m1 \<noteq> Broadcast) (run_pipeline wk m)"
  shows "total_in (calm pdr pinv ops winv) (\<lambda>r. is_ok r \<or> (\<exists>d. r = Inl (EProcessTimeError d)))
    (process_msg wk m)"
proof -
  let ?I = "calm pdr pinv ops winv" and ?P = "\<lambda>r. is_ok r \<or> (\<exists>d. r = Inl (EProcessTimeError d))"
  have last: "total_in ?I ?P (case duration_since fin start of
      Inl d \<Rightarrow> ret (Inl (EProcessTimeError d)) | Inr pt \<Rightarrow> settle wk m1 a pt)"
    if "delivery_mode m1 \<noteq> Broadcast" for fin start m1 a
    using total_weaken [OF calm_settle [OF assms(1) that], where Q = ?P]
    by (auto split: sum.splits intro: total_ret)
  show ?thesis
    unfolding process_msg_def Let_def
    by (intro total_intros total_bindA [OF assms(2)] calm_audit calm_time_now calm_marks)
      (auto intro!: total_intros calm_time_now last)
qed

end


section \<open>Properties\<close>


definition blank_codec :: "'a codec" where
  "blank_codec = \<lparr>cd_enc = (\<lambda>_. Inr []), cd_dec = (\<lambda>_. Inl ''unsupported'')\<rparr>"

definition calm_world :: "(emessage list link, mem_wal) world" where
  "calm_world = (flume_world [] [] Host)\<lparr>w_codecs := null_codecs\<lparr>cc_sync := blank_codec\<rparr>\<rparr>"

definition verdict_worker :: "ack \<Rightarrow> (emessage list link, (emessage list link, mem_wal) world) worker" where
  "verdict_worker a =
     \<lparr>wk_topic = ''jobs'', wk_name = ''w1'', wk_pipeline = pipeline_new (\<lambda>m. ret a),
      wk_producer = flume_producer, wk_time_out = None, wk_check_interval = 0,
      wk_shutdown_timeout = None,
      wk_wal = \<lparr>wc_worker_id = ''w1'',
        wc_template = (emessage_default 0)\<lparr>msg_topic := SYSTEM_TOPIC_WAL_SYNC\<rparr>\<rparr>,
      wk_audit_template = (emessage_default 0)\<lparr>msg_topic := SYSTEM_TOPIC_AUDIT\<rparr>\<rparr>"

lemma calm_world_calm: "calm flume_producer open_link memory_wal mw_inv calm_world"
proof -
  have "env_ready flume_producer open_link memory_wal mw_inv (flume_world [] [] Host)"
    by (rule flume_world_ready) simp_all
  then have "env_ready flume_producer open_link memory_wal mw_inv calm_world"
    by (simp add: calm_world_def env_ready_def router_ready_def registry_ready_def)
  then show ?thesis
    by (simp add: calm_def encodable_def calm_world_def blank_codec_def)
qed

lemma verdict_worker_wf:
  "worker_wf flume_producer (verdict_worker a)" "\<not> starts_with (wk_topic (verdict_worker a)) ''_system.''"
  by (simp_all add: worker_wf_def verdict_worker_def)

lemma verdict_worker_topic [simp]: "wk_topic (verdict_worker a) = ''jobs''"
  by (simp add: verdict_worker_def)

lemma emessage_default_plain [simp]:
  "deliver_at (emessage_default t) = None" "delivery_mode (emessage_default t) = Standard"
  "attempts (emessage_default t) = 0" "consumed_count (emessage_default t) = 0"
  "to_worker (emessage_default t) = None"
  by (simp_all add: emessage_default_def)

lemma verdict_worker_run: "run_pipeline (verdict_worker a) m v = (Ret (a, m), v)"
  by (simp add: run_pipeline_def verdict_worker_def pipeline_run_def pipeline_new_def next_run.simps
      call_handler_def outcome_simps)


text \<open>
  A chain of runs of a worker on one message: each run is an \<^verbatim>\<open>Ok\<close>, and the next message of
  the chain is the one the run put on the queue.
\<close>

definition run_chain :: "('f \<Rightarrow> bool) \<Rightarrow> ('f \<Rightarrow> emessage list) \<Rightarrow> ('f, ('f, 'w, 'z) world_scheme) worker
    \<Rightarrow> nat \<Rightarrow> (nat \<Rightarrow> emessage) \<Rightarrow> (nat \<Rightarrow> ('f, 'w, 'z) world_scheme) \<Rightarrow> bool" where
  "run_chain pinv items wk n ms ws \<longleftrightarrow> (\<forall>i<n.
     process_msg wk (ms i) (ws i) = (Ret (Inr ()), ws (Suc i)) \<and>
     sends_key pinv items (ws i) [ms (Suc i)] (ws (Suc i)) \<and>
     msg_topic (ms i) = wk_topic wk \<and> \<not> is_system_topic (msg_topic (ms (Suc i))))"

lemma sends_key_user:
  assumes "sends_key pinv items w key w'"
  shows "filter (\<lambda>x. \<not> is_system_topic (msg_topic x)) (items (w_fabric w')) =
    filter (\<lambda>x. \<not> is_system_topic (msg_topic x)) (items (w_fabric w)) @
    filter (\<lambda>x. \<not> is_system_topic (msg_topic x)) key"
proof -
  obtain f a pre post where "w' = w\<lparr>w_fabric := f, w_amb := a\<rparr>"
      "items f = items (w_fabric w) @ pre @ key @ post"
      "\<forall>x \<in> set pre \<union> set post. is_system_topic (msg_topic x)"
    using assms unfolding sends_key_def by blast
  moreover from this(3) have "filter (\<lambda>x. \<not> is_system_topic (msg_topic x)) pre = []"
      "filter (\<lambda>x. \<not> is_system_topic (msg_topic x)) post = []"
    by (auto simp: filter_empty_conv)
  ultimately show ?thesis by simp
qed

lemma sends_key_unique:
  assumes "sends_key pinv items w [x] w'" and "sends_key pinv items w key w'"
    and "\<not> is_system_topic (msg_topic x)" and "\<forall>y \<in> set key. \<not> is_system_topic (msg_topic y)"
  shows "key = [x]"
  using sends_key_user [OF assms(1)] sends_key_user [OF assms(2)] assms(3,4)
  by (simp add: filter_id_conv [THEN iffD2])

lemma sends_key_calm:
  assumes "sends_key pinv items w key w'" and "calm pdr pinv ops winv w"
  shows "calm pdr pinv ops winv w'"
  using assms by (auto simp: sends_key_def intro!: calm_upd)

lemma run_chain_step:
  fixes wk :: "('q link, ('q link, mem_wal, 'z) world_scheme) worker"
  assumes chain: "run_chain open_link link_items wk n ms ws" and i: "i < n"
    and calm: "calm flume_producer open_link memory_wal mw_inv (ws i)"
    and wf: "worker_wf flume_producer wk" "\<not> starts_with (wk_topic wk) ''_system.''"
    and run: "\<forall>v. run_pipeline wk (ms i) v = (Ret (a, ms i), v)"
    and m: "deliver_at (ms i) = None" "delivery_mode (ms i) \<noteq> Broadcast"
    and fate: "\<And>now. fate_of (wk_topic wk) now (ms i) a = ft"
    and key: "\<And>x. ft \<noteq> Scheduled x" "\<And>x. ft = Requeued x \<or> ft = Lettered x \<Longrightarrow>
      \<not> is_system_topic (msg_topic x)"
  shows "ft = Requeued (ms (Suc i)) \<or> ft = Lettered (ms (Suc i))"
    and "calm flume_producer open_link memory_wal mw_inv (ws (Suc i))"
proof -
  have c: "process_msg wk (ms i) (ws i) = (Ret (Inr ()), ws (Suc i))"
      "sends_key open_link link_items (ws i) [ms (Suc i)] (ws (Suc i))"
      "\<not> is_system_topic (msg_topic (ms (Suc i)))"
    using chain i by (simp_all add: run_chain_def)
  show "calm flume_producer open_link memory_wal mw_inv (ws (Suc i))"
    using sends_key_calm [OF c(2) calm] .
  have q: "quiet flume_producer open_link link_items (run_pipeline wk (ms i))"
    using run by (simp add: quiet_def system_news_refl)
  have "fate_reached open_link link_items mw_inv mw_dels (ws i) ft (ws (Suc i))"
    using open_flume_memory.process_msg_ok [OF wf(1) calm_ready(3) [OF calm] wf(2) q _ m c(1), of a]
      run fate by simp
  then have "\<exists>k. sends_key open_link link_items (ws i) k (ws (Suc i)) \<and>
      (k = [] \<or> (\<exists>x. k = [x] \<and> (ft = Requeued x \<or> ft = Lettered x)))"
    using key(1) by (auto simp: fate_reached_def split: fate.splits)
  then obtain k where k: "sends_key open_link link_items (ws i) k (ws (Suc i))"
      "k = [] \<or> (\<exists>x. k = [x] \<and> (ft = Requeued x \<or> ft = Lettered x))" by blast
  have "k = [ms (Suc i)]"
    by (rule sends_key_unique [OF c(2) k(1) c(3)]) (use k(2) key(2) in auto)
  with k(2) show "ft = Requeued (ms (Suc i)) \<or> ft = Lettered (ms (Suc i))" by auto
qed

lemma dead_letter_user: "\<not> is_system_topic (msg_topic (letter_of t m))"
  by (simp add: letter_of_def is_system_topic_def)

lemma dead_letter_other: "msg_topic (letter_of t m) \<noteq> t"
proof
  assume "msg_topic (letter_of t m) = t"
  then have "length (msg_topic (letter_of t m)) = length t" by simp
  then show False by (simp add: letter_of_def)
qed


definition job :: emessage where
  "job = (emessage_default 1)\<lparr>msg_topic := ''jobs''\<rparr>"

lemma job_sel [simp]:
  "msg_topic job = ''jobs''" "attempts job = 0" "deliver_at job = None" "delivery_mode job = Standard"
  "consumed_count job = 0"
  by (simp_all add: job_def)

lemma flume_send_open_list:
  "flume_send m (open_list_link ms) = (Ret (Inr ()), open_list_link (ms @ [m]))"
  by (simp add: flume_send_def open_list_link_def on_q_def open_chan_def list_chan_def bindA_def ret_def)

lemma verdict_worker_sel:
  "wk_producer (verdict_worker a) = flume_producer" "wk_name (verdict_worker a) = ''w1''"
  "wk_wal (verdict_worker a) = \<lparr>wc_worker_id = ''w1'',
        wc_template = (emessage_default 0)\<lparr>msg_topic := SYSTEM_TOPIC_WAL_SYNC\<rparr>\<rparr>"
  by (simp_all add: verdict_worker_def)

lemma verdict_run_ok:
  "\<exists>w'. process_msg (verdict_worker (NoAck None 3)) job calm_world = (Ret (Inr ()), w')"
  "\<exists>w'. process_msg (verdict_worker Ack) (job\<lparr>delivery_mode := Repeated 1\<rparr>) calm_world = (Ret (Inr ()), w')"
  by (simp_all add: process_msg_def Let_def bindA_def bindQ_def verdict_worker_run
      outcome_simps
      audit_best_effort_def generate_audit_msg_def send_audit_msg_def encode_with_def getA_def
      mark_processing_def mark_pending_def mark_complete_def sync_status_def settle_def 
      calm_world_def flume_world_def null_codecs_def null_codec_def blank_codec_def
      send_system_def emit_def the_router_def on_fabric_def flume_producer_def
      read_clock_def new_uuid_def duration_since_def flume_send_open_list system_topic_defs
      verdict_worker_sel ret_def word_le_nat_alt)

text \<open>
  C9: a message in repeated mode with limit \<open>l\<close> whose handler always acknowledges is consumed
  exactly \<open>l\<close> times: each run before the \<open>l\<close>-th puts it back with its consumption counter
  raised, and the \<open>l\<close>-th run puts nothing back. The counter wraps, so for the limit zero the
  count is two to the thirty-two.
\<close>

theorem repeated_consumed_exactly:
  fixes wk :: "('q link, ('q link, mem_wal, 'z) world_scheme) worker"
  assumes chain: "run_chain open_link link_items wk n ms ws"
    and last: "process_msg wk (ms n) (ws n) = (Ret (Inr ()), w')"
    and calm: "calm flume_producer open_link memory_wal mw_inv (ws 0)"
    and wf: "worker_wf flume_producer wk" "\<not> starts_with (wk_topic wk) ''_system.''"
    and run: "\<forall>m v. run_pipeline wk m v = (Ret (Ack, m), v)"
    and m: "consumed_count (ms 0) = 0" "deliver_at (ms 0) = None" "delivery_mode (ms 0) = Repeated l"
  shows "n \<le> unat (l - 1) \<and> (\<forall>i\<le>n. ms i = (ms 0)\<lparr>consumed_count := of_nat i\<rparr>) \<and>
     sends_key open_link link_items (ws n)
       (if n = unat (l - 1) then [] else [(ms 0)\<lparr>consumed_count := of_nat (Suc n)\<rparr>]) w'"
proof -
  have fate: "fate_of (wk_topic wk) now ((ms 0)\<lparr>consumed_count := of_nat i\<rparr>) Ack =
      (if i = unat (l - 1) then Settled
       else Requeued ((ms 0)\<lparr>consumed_count := of_nat (Suc i)\<rparr>))" if "i \<le> unat (l - 1)" for now i
  proof -
    have "l = of_nat i + 1 \<longleftrightarrow> of_nat i = l - 1" by (auto simp: algebra_simps)
    also have "\<dots> \<longleftrightarrow> i = unat (l - 1)"
      using that unat_u32 [of "l - 1"]
      by (auto simp: word_unat_eq_iff unsigned_of_nat take_bit_nat_eq_self)
    finally show ?thesis using m(3) by (simp add: add.commute)
  qed
  have *: "i \<le> n \<Longrightarrow> i \<le> unat (l - 1) \<and> ms i = (ms 0)\<lparr>consumed_count := of_nat i\<rparr> \<and>
      calm flume_producer open_link memory_wal mw_inv (ws i)" for i
  proof (induction i)
    case 0
    with calm m(1) show ?case by simp
  next
    case (Suc i)
    then have IH: "i \<le> unat (l - 1)" "ms i = (ms 0)\<lparr>consumed_count := of_nat i\<rparr>"
        "calm flume_producer open_link memory_wal mw_inv (ws i)" and i: "i < n"
      by simp_all
    let ?m = "(ms 0)\<lparr>consumed_count := of_nat (Suc i)\<rparr>"
    let ?ft = "if i = unat (l - 1) then Settled else Requeued ?m"
    have "msg_topic (ms i) = wk_topic wk" using chain i by (simp add: run_chain_def)
    then have user: "\<not> is_system_topic (msg_topic ?m)"
      using wf(2) IH(2) by (simp add: is_system_topic_def)
    note step = run_chain_step [OF chain i IH(3) wf, of Ack ?ft]
    have "?ft = Requeued (ms (Suc i)) \<or> ?ft = Lettered (ms (Suc i))"
      by (rule step(1)) (use run m IH(2) fate [OF IH(1)] user in \<open>auto split: if_splits\<close>)
    moreover have "calm flume_producer open_link memory_wal mw_inv (ws (Suc i))"
      by (rule step(2)) (use run m IH(2) fate [OF IH(1)] user in \<open>auto split: if_splits\<close>)
    ultimately show ?case using IH(1) by (auto split: if_splits)
  qed
  have n: "n \<le> unat (l - 1)" "ms n = (ms 0)\<lparr>consumed_count := of_nat n\<rparr>"
      "calm flume_producer open_link memory_wal mw_inv (ws n)" using * [of n] by simp_all
  have q: "quiet flume_producer open_link link_items (run_pipeline wk (ms n))"
    using run by (simp add: quiet_def system_news_refl)
  have "\<exists>now. fate_reached open_link link_items mw_inv mw_dels (ws n)
      (fate_of (wk_topic wk) now (ms n) Ack) w'"
    by (rule open_flume_memory.process_msg_ok [OF wf(1) calm_ready(3) [OF n(3)] wf(2) q _ _ _ last])
      (use run m n(2) in auto)
  then have "sends_key open_link link_items (ws n)
       (if n = unat (l - 1) then [] else [(ms 0)\<lparr>consumed_count := of_nat (Suc n)\<rparr>]) w'"
    unfolding n(2) fate [OF n(1)] by (simp add: fate_reached_def split: if_splits)
  with * n(1) show ?thesis by blast
qed

text \<open>
  C25: a message for another worker is never processed: it goes back to the queue with its
  counter raised while the counter is below sixty-four, and is dropped from then on. The
  counter is the one retries use.
\<close>

theorem misrouted_relayed_or_dropped:
  fixes wk :: "('q link, ('q link, mem_wal, 'z) world_scheme) worker"
  assumes "wk_producer wk = flume_producer" and "open_link (w_fabric w)"
    and "to_worker m = Some target" and "target \<noteq> wk_name wk"
  shows "\<exists>f. deliver wk (Some m) w = (Ret (), w\<lparr>w_fabric := f\<rparr>) \<and> open_link f \<and>
     link_items f = link_items (w_fabric w) @
       (if attempts m < 64 then [m\<lparr>attempts := attempts m + 1\<rparr>] else [])"
proof (cases "attempts m < 64")
  case True
  obtain r f where e: "ep_send flume_producer (m\<lparr>attempts := attempts m + 1\<rparr>) (w_fabric w) = (r, f)"
    by fastforce
  have "r = Ret (Inr ())"
    using e flume_open.send_accepts [OF assms(2), of "m\<lparr>attempts := attempts m + 1\<rparr>"] by simp
  moreover have "open_link f"
    using e keepsD [OF flume_open.send_pinv assms(2), of "m\<lparr>attempts := attempts m + 1\<rparr>"]
    by simp
  ultimately show ?thesis
    using e assms True flume_open.send_ok [OF assms(2), of "m\<lparr>attempts := attempts m + 1\<rparr>" f]
    by (auto simp: deliver_def is_misrouted_def route_targeted_def MAX_TARGETED_HOPS_def
        on_fabric_def bindA_def ret_def not_le)
next
  case False
  with assms show ?thesis
    by (intro exI [of _ "w_fabric w"])
      (simp add: deliver_def is_misrouted_def route_targeted_def MAX_TARGETED_HOPS_def ret_def not_less)
qed

theorem misrouted_relayed_or_dropped_witness:
  "\<exists>f. deliver (verdict_worker Ack) (Some (job\<lparr>to_worker := Some ''w2''\<rparr>)) calm_world =
     (Ret (), calm_world\<lparr>w_fabric := f\<rparr>) \<and>
     link_items f = [job\<lparr>to_worker := Some ''w2'', attempts := 1\<rparr>]"
  using misrouted_relayed_or_dropped [of "verdict_worker Ack" calm_world
      "job\<lparr>to_worker := Some ''w2''\<rparr>" "''w2''"]
  by (auto simp: verdict_worker_sel calm_world_def)

theorem repeated_consumed_exactly_witness:
  "\<exists>w'. process_msg (verdict_worker Ack) (job\<lparr>delivery_mode := Repeated 1\<rparr>) calm_world = (Ret (Inr ()), w') \<and>
     sends_key open_link link_items calm_world [] w'"
proof -
  let ?wk = "verdict_worker Ack" and ?m = "job\<lparr>delivery_mode := Repeated 1\<rparr>"
  obtain w' where run: "process_msg ?wk ?m calm_world = (Ret (Inr ()), w')"
    using verdict_run_ok(2) by blast
  have "run_chain open_link link_items ?wk 0 (\<lambda>_. ?m) (\<lambda>_. calm_world)" by (simp add: run_chain_def)
  from repeated_consumed_exactly [OF this run calm_world_calm verdict_worker_wf, of 1] run
  show ?thesis by (simp add: verdict_worker_run)
qed

text \<open>
  Dead-lettering a copy of a broadcast loses it: on a host with no worker registered for the
  dead letter topic the call succeeds, marks the message, and puts only system messages on the
  queue.
\<close>

theorem broadcast_dead_letter_lost:
  fixes wk :: "('q link, ('q link, mem_wal, 'z) world_scheme) worker"
  assumes calm: "calm flume_producer open_link memory_wal mw_inv w"
    and wf: "worker_wf flume_producer wk" and host: "w_node_type w = Some Host"
    and m: "delivery_mode m = Broadcast" "deliver_at m = None"
    and none: "\<forall>i \<in> set (hm_values (world_workers w)). wi_topic i \<noteq> ''dead_letter.'' @ wk_topic wk"
  shows "\<exists>w'. send_to_dead_letter wk m reason pt w = (Ret (Inr ()), w') \<and>
     system_news open_link link_items w w'"
proof -
  let ?l = "letter_of (wk_topic wk) m" and ?t = "''dead_letter.'' @ wk_topic wk"
  let ?I = "calm flume_producer open_link memory_wal mw_inv"
  let ?J = "\<lambda>v. ?I v \<and> system_news open_link link_items w v"
  obtain u w1 where w1: "mark_dead_letter (wk_wal wk) (msg_id ?l) (msg_topic ?l) (attempts ?l)
      (dead_reason_to_string reason) w = (Ret u, w1)" "is_ok u" "?I w1"
    by (rule total_inE [OF open_flume_memory.calm_marks(4) calm])
  have n1: "system_news open_link link_items w w1"
    using quietD [OF open_flume_memory.quiet_marks(4) [OF wf] calm_ready(1,2) [OF calm] w1(1)] .
  have "topic_send ?t ?l None None w1 = (Ret (Inr ()), w1)"
  proof -
    have "w_node_type w1 = Some Host" "world_workers w1 = world_workers w"
      using host n1 by (auto simp: system_news_def world_workers_def)
    moreover have "registry_ready memory_wal w1" using calm_ready(3) [OF w1(3)] by (simp add: env_ready_def)
    ultimately show ?thesis
      using m none send_broadcast_host [of ?l w1 memory_wal ?t None None]
      by (simp add: letter_of_def ret_def filter_empty_conv [THEN iffD2])
  qed
  moreover obtain v w2 where w2: "audit_best_effort wk ?l DeadResult DeadLettered
      (Some (dead_reason_to_string reason)) (Some pt) w1 = (Ret v, w2)" "?I w2"
    by (rule total_inE [OF open_flume_memory.calm_audit w1(3)])
  moreover have "system_news open_link link_items w1 w2"
    using quietD [OF open_flume_memory.quiet_audit [OF wf] calm_ready(1,2) [OF w1(3)] w2(1)] .
  ultimately show ?thesis
    using w1(1,2) system_news_trans [OF n1]
    by (auto simp: send_to_dead_letter_def Let_def bindQ_def bindA_def is_ok_def ret_def
        letter_of_def split: sum.splits)
qed

theorem broadcast_dead_letter_lost_witness:
  "\<exists>w'. send_to_dead_letter (verdict_worker Ack) (job\<lparr>delivery_mode := Broadcast\<rparr>) MaxRetriesExceeded 0
      calm_world = (Ret (Inr ()), w') \<and> system_news open_link link_items calm_world w'"
  by (rule broadcast_dead_letter_lost [OF calm_world_calm verdict_worker_wf(1)])
    (simp_all add: calm_world_def flume_world_def world_workers_def)

end
