(* ===== verification/Consumer_Router.thy ===== *)
theory Consumer_Router
  imports Worker
begin

text \<open>
  The consumer router's tables (\<^verbatim>\<open>event_base_core/src/queues/consumer_router.rs\<close>): topics,
  workers, idle pool, dispatcher lists and inboxes, with every operation that changes them.
  The dispatch loops over these tables are in \<open>Dispatcher\<close>.

  A spawned task is an entry of \<open>cr_tasks\<close>, a join handle its index, and \<^verbatim>\<open>abort\<close> clears its
  running flag. An inbox is a channel of the store \<open>cr_boxes\<close>, a sender its address, so that a
  sender cached elsewhere stays valid when the table forgets it. The queue factory, the
  consumer factories (\<open>'k\<close>) and the channel constructor of the inboxes are parameters.
\<close>

section \<open>State\<close>

record ('f, 'w, 'k) topic_entry =
  te_producer :: "'f eproducer"
  te_consumer_factory :: 'k
  te_handler :: "('f, 'w) world ehandler"
  te_pipeline :: "('f, 'w) world pipeline option"
  te_workers :: "string list"

datatype ('f, 'w, 'k) task =
    WorkerLoop "('f, ('f, 'w) world) worker" nat
  | TopicDispatcher string 'k "'f eproducer"
  | OneShot "('f, ('f, 'w) world) worker" emessage

record ('f, 'w, 'k, 'q) consumer_router =
  cr_world :: "('f, 'w) world"
  cr_factory :: "string \<Rightarrow> (('f, 'w) world, ('f eproducer \<times> 'k) result) act"
  cr_channel :: "u64 \<Rightarrow> 'q link outcome"
  cr_topics :: "(string, ('f, 'w, 'k) topic_entry) hashmap"
  cr_index :: "(string, ('f, ('f, 'w) world) worker \<times> nat) hashmap"
  cr_idle :: "(string, string list) hashmap"
  cr_dispatch :: "(string, string list) hashmap"
  cr_enabled :: "(string, bool) hashmap"
  cr_inboxes :: "(string, nat) hashmap"
  cr_generation :: u64
  cr_batch :: u64
  cr_boxes :: "'q link list"
  cr_tasks :: "(('f, 'w, 'k) task \<times> bool) list"

definition DEFAULT_BATCH_SIZE :: u64 where
  "DEFAULT_BATCH_SIZE = 64"

text \<open>The effect of \<^verbatim>\<open>init\<close> on the global cell.\<close>

definition consumer_router_init :: "('f, 'w) world
    \<Rightarrow> (string \<Rightarrow> (('f, 'w) world, ('f eproducer \<times> 'k) result) act) \<Rightarrow> (u64 \<Rightarrow> 'q link outcome)
    \<Rightarrow> u64 option \<Rightarrow> ('f, 'w, 'k, 'q) consumer_router option
    \<Rightarrow> unit result \<times> ('f, 'w, 'k, 'q) consumer_router option" where
  "consumer_router_init w factory channel batch_size cell =
     (case cell of
        Some r \<Rightarrow> (Inl EAlreadyInitialized, Some r)
      | None \<Rightarrow> (Inr (), Some
          \<lparr>cr_world = w, cr_factory = factory, cr_channel = channel, cr_topics = [], cr_index = [],
           cr_idle = [], cr_dispatch = [], cr_enabled = [], cr_inboxes = [], cr_generation = 0,
           cr_batch = (case batch_size of Some b \<Rightarrow> b | None \<Rightarrow> DEFAULT_BATCH_SIZE),
           cr_boxes = [], cr_tasks = []\<rparr>))"

definition in_world ::
    "(('f, 'w) world, 'a) act \<Rightarrow> (('f, 'w, 'k, 'q) consumer_router, 'a) act" where
  "in_world m r = (case m (cr_world r) of (x, w') \<Rightarrow> (x, r\<lparr>cr_world := w'\<rparr>))"

text \<open>\<^verbatim>\<open>tokio::spawn\<close> and \<^verbatim>\<open>JoinHandle::abort\<close>.\<close>

definition spawn :: "('f, 'w, 'k) task \<Rightarrow> (('f, 'w, 'k, 'q) consumer_router, nat) act" where
  "spawn t =
     bindA (getA (\<lambda>r. length (cr_tasks r))) (\<lambda>h.
     bindA (putA (\<lambda>r. r\<lparr>cr_tasks := cr_tasks r @ [(t, True)]\<rparr>)) (\<lambda>_. ret h))"

definition abort :: "nat \<Rightarrow> (('f, 'w, 'k, 'q) consumer_router, unit) act" where
  "abort h = putA (\<lambda>r. if h < length (cr_tasks r)
     then r\<lparr>cr_tasks := (cr_tasks r)[h := (fst (cr_tasks r ! h), False)]\<rparr> else r)"


section \<open>Topics\<close>

definition cr_register :: "string \<Rightarrow> ('f, 'w) world ehandler
    \<Rightarrow> (('f, 'w, 'k, 'q) consumer_router, unit result) act" where
  "cr_register topic handler =
     bindA (getA (\<lambda>r. hm_contains (cr_topics r) topic)) (\<lambda>known.
     if known then ret (Inl (ETopic (AlreadyExists topic)))
     else
       bindA (getA cr_factory) (\<lambda>create_queue.
       bindQ (in_world (create_queue topic)) (\<lambda>(producer, consumer_factory).
       bindA (putA (\<lambda>r. r\<lparr>cr_topics := hm_insert topic
         \<lparr>te_producer = producer, te_consumer_factory = consumer_factory, te_handler = handler,
          te_pipeline = None, te_workers = []\<rparr> (cr_topics r)\<rparr>)) (\<lambda>_. ret (Inr ())))))"

definition get_entry ::
    "string \<Rightarrow> (('f, 'w, 'k, 'q) consumer_router, ('f, 'w, 'k) topic_entry result) act" where
  "get_entry topic =
     getA (\<lambda>r. case hm_get (cr_topics r) topic of
       None \<Rightarrow> Inl (ETopic (TNotFound topic)) | Some e \<Rightarrow> Inr e)"

definition set_pipeline :: "string \<Rightarrow> ('f, 'w) world pipeline
    \<Rightarrow> (('f, 'w, 'k, 'q) consumer_router, unit result) act" where
  "set_pipeline topic pipeline =
     bindQ (get_entry topic) (\<lambda>e.
     bindA (putA (\<lambda>r. r\<lparr>cr_topics := hm_modify (\<lambda>e. e\<lparr>te_pipeline := Some pipeline\<rparr>) topic
       (cr_topics r)\<rparr>)) (\<lambda>_. ret (Inr ())))"

definition get_handler ::
    "string \<Rightarrow> (('f, 'w, 'k, 'q) consumer_router, ('f, 'w) world ehandler option) act" where
  "get_handler topic = getA (\<lambda>r. map_option te_handler (hm_get (cr_topics r) topic))"


section \<open>The idle pool\<close>

text \<open>\<^verbatim>\<open>Vec::pop\<close> takes from the end; the early returns are those of the two question marks.\<close>

definition select_local_idle_worker :: "string
    \<Rightarrow> (('f, 'w, 'k, 'q) consumer_router, ('f, ('f, 'w) world) worker option) act" where
  "select_local_idle_worker topic =
     bindA (getA (\<lambda>r. hm_get (cr_idle r) topic)) (\<lambda>names.
     case names of
         None \<Rightarrow> ret None
       | Some [] \<Rightarrow> ret None
       | Some ns \<Rightarrow>
           bindA (putA (\<lambda>r. r\<lparr>cr_idle := hm_insert topic (butlast ns) (cr_idle r)\<rparr>)) (\<lambda>_.
           getA (\<lambda>r. map_option fst (hm_get (cr_index r) (last ns)))))"

definition set_idle ::
    "string \<Rightarrow> string \<Rightarrow> (('f, 'w, 'k, 'q) consumer_router, unit result) act" where
  "set_idle topic name =
     bindA (putA (\<lambda>r. r\<lparr>cr_idle := hm_entry_or [] (\<lambda>ns. ns @ [name]) topic (cr_idle r)\<rparr>))
       (\<lambda>_. ret (Inr ()))"

definition set_working ::
    "string \<Rightarrow> string \<Rightarrow> (('f, 'w, 'k, 'q) consumer_router, unit result) act" where
  "set_working topic name =
     bindA (putA (\<lambda>r. r\<lparr>cr_idle := hm_modify (filter (\<lambda>n. n \<noteq> name)) topic (cr_idle r)\<rparr>))
       (\<lambda>_. ret (Inr ()))"


section \<open>Workers\<close>

definition register_worker :: "string \<Rightarrow> ('f, ('f, 'w) world) worker \<Rightarrow> nat
    \<Rightarrow> (('f, 'w, 'k, 'q) consumer_router, unit result) act" where
  "register_worker topic worker handle =
     bindA (putA (\<lambda>r. r\<lparr>cr_index := hm_insert (wk_name worker) (worker, handle) (cr_index r)\<rparr>)) (\<lambda>_.
     bindA (getA (\<lambda>r. hm_contains (cr_topics r) topic)) (\<lambda>known.
     if known then
       bindA (putA (\<lambda>r. r
         \<lparr>cr_topics := hm_modify (\<lambda>e. e\<lparr>te_workers := te_workers e @ [wk_name worker]\<rparr>) topic
            (cr_topics r),
          cr_dispatch := hm_entry_or [] (\<lambda>ns. ns @ [wk_name worker]) topic (cr_dispatch r),
          cr_generation := cr_generation r + 1\<rparr>)) (\<lambda>_. ret (Inr ()))
     else ret (Inl (ETopic (TNotFound topic)))))"

text \<open>
  \<^verbatim>\<open>announce_worker\<close>: \<^verbatim>\<open>TopicRouter::try_global\<close> gives nothing before the router is set, a
  payload that does not encode is empty, and a failed send is only logged.
\<close>

definition discovery_message :: "string \<Rightarrow> string \<Rightarrow> string option
    \<Rightarrow> (('f, 'w, 'z) world_scheme, emessage) act" where
  "discovery_message name topic node =
     bindA time_now (\<lambda>t.
     bindA (encode_with cc_discovery
       \<lparr>wd_worker_name = name, wd_topic = topic, wd_started_at = t\<rparr>) (\<lambda>pl.
     bindA (make_message SYSTEM_TOPIC_WORKER_DISCOVERY (case pl of Inr b \<Rightarrow> b | Inl _ \<Rightarrow> [])
       Standard None) (\<lambda>msg.
     ret (msg\<lparr>metadata := (metadata msg)\<lparr>msg_source := node\<rparr>\<rparr>))))"

definition announce_worker ::
    "('f, 's) worker \<Rightarrow> (('f, 'w, 'z) world_scheme, unit) act" where
  "announce_worker wk =
     (if starts_with (wk_topic wk) ''_system.'' then ret ()
      else
        bindA (getA w_router) (\<lambda>router. case router of
            None \<Rightarrow> ret ()
          | Some _ \<Rightarrow>
              bindA try_get_node_name (\<lambda>node.
              bindA (discovery_message (wk_name wk) (wk_topic wk) node) (\<lambda>msg.
              bindA (send_system msg (Some True) None) (\<lambda>_. ret ())))))"

definition new_inbox :: "(('f, 'w, 'k, 'q) consumer_router, nat) act" where
  "new_inbox =
     bindA (\<lambda>r. (cr_channel r (cr_batch r * 4), r)) (\<lambda>channel.
     bindA (getA (\<lambda>r. length (cr_boxes r))) (\<lambda>box.
     bindA (putA (\<lambda>r. r\<lparr>cr_boxes := cr_boxes r @ [channel]\<rparr>)) (\<lambda>_. ret box)))"

definition create_worker :: "string \<Rightarrow> ('f, 'w) world pipeline \<Rightarrow> duration option \<Rightarrow> duration option
    \<Rightarrow> duration option \<Rightarrow> (('f, 'w, 'k, 'q) consumer_router, string result) act" where
  "create_worker topic pipeline timeout shutdown_timeout check_interval =
     bindQ (get_entry topic) (\<lambda>e.
     bindA (in_world (worker_new topic pipeline (te_producer e) timeout
       (case check_interval of Some d \<Rightarrow> d | None \<Rightarrow> from_millis 50) shutdown_timeout)) (\<lambda>worker.
     bindA new_inbox (\<lambda>box.
     bindA (putA (\<lambda>r. r\<lparr>cr_inboxes := hm_insert (wk_name worker) box (cr_inboxes r)\<rparr>)) (\<lambda>_.
     bindA (getA (\<lambda>r. hm_get (cr_enabled r) topic)) (\<lambda>enabled.
     bindA (if enabled = Some True then ret ()
            else
              bindA (putA (\<lambda>r. r\<lparr>cr_enabled := hm_insert topic True (cr_enabled r)\<rparr>)) (\<lambda>_.
              bindA (spawn (TopicDispatcher topic (te_consumer_factory e) (te_producer e)))
                (\<lambda>_. ret ()))) (\<lambda>_.
     bindA (spawn (WorkerLoop worker box)) (\<lambda>handle.
     bindQ (register_worker topic worker handle) (\<lambda>_.
     bindA (in_world (announce_worker worker)) (\<lambda>_. ret (Inr (wk_name worker)))))))))))"

definition create_ephemeral_worker :: "string \<Rightarrow> emessage
    \<Rightarrow> (('f, 'w, 'k, 'q) consumer_router, unit result) act" where
  "create_ephemeral_worker topic msg =
     bindQ (get_entry topic) (\<lambda>e.
     bindA (in_world (worker_new topic
       (case te_pipeline e of Some p \<Rightarrow> p | None \<Rightarrow> pipeline_from_arc (te_handler e))
       (te_producer e) None (from_millis 50) None)) (\<lambda>worker.
     bindA (spawn (OneShot worker msg)) (\<lambda>_. ret (Inr ()))))"

definition get_worker :: "string
    \<Rightarrow> (('f, 'w, 'k, 'q) consumer_router, ('f, ('f, 'w) world) worker result) act" where
  "get_worker name =
     getA (\<lambda>r. case hm_get (cr_index r) name of
       None \<Rightarrow> Inl (EWorkerNotFound name) | Some (w, _) \<Rightarrow> Inr w)"

definition get_workers :: "string
    \<Rightarrow> (('f, 'w, 'k, 'q) consumer_router, ('f, ('f, 'w) world) worker list) act" where
  "get_workers topic =
     getA (\<lambda>r. case hm_get (cr_topics r) topic of
       None \<Rightarrow> []
     | Some e \<Rightarrow> List.map_filter (\<lambda>n. map_option fst (hm_get (cr_index r) n)) (te_workers e))"

definition get_all_workers ::
    "(('f, 'w, 'k, 'q) consumer_router, ('f, ('f, 'w) world) worker list) act" where
  "get_all_workers = getA (\<lambda>r. map fst (hm_values (cr_index r)))"

definition del_worker :: "string \<Rightarrow> (('f, 'w, 'k, 'q) consumer_router, unit result) act" where
  "del_worker name =
     bindA (getA (\<lambda>r. hm_get (cr_index r) name)) (\<lambda>found.
     case found of
         Some (worker, handle) \<Rightarrow>
           bindA (putA (\<lambda>r. r\<lparr>cr_index := hm_remove name (cr_index r)\<rparr>)) (\<lambda>_.
           bindA (abort handle) (\<lambda>_.
           bindA (putA (\<lambda>r. r
             \<lparr>cr_inboxes := hm_remove name (cr_inboxes r),
              cr_topics := hm_map_values
                (\<lambda>e. e\<lparr>te_workers := filter (\<lambda>n. n \<noteq> name) (te_workers e)\<rparr>) (cr_topics r),
              cr_dispatch := hm_map_values (filter (\<lambda>n. n \<noteq> name)) (cr_dispatch r),
              cr_generation := cr_generation r + 1\<rparr>)) (\<lambda>_. ret (Inr ()))))
       | None \<Rightarrow> ret (Inl (EWorkerNotFound name)))"

text \<open>One turn of the loop of \<^verbatim>\<open>del_workers\<close> over the topic's worker names.\<close>

definition drop_worker :: "string \<Rightarrow> (('f, 'w, 'k, 'q) consumer_router, unit) act" where
  "drop_worker name =
     bindA (getA (\<lambda>r. hm_get (cr_index r) name)) (\<lambda>found.
     case found of
         Some (worker, handle) \<Rightarrow>
           bindA (putA (\<lambda>r. r\<lparr>cr_index := hm_remove name (cr_index r)\<rparr>)) (\<lambda>_.
           bindA (abort handle) (\<lambda>_.
           putA (\<lambda>r. r\<lparr>cr_inboxes := hm_remove name (cr_inboxes r)\<rparr>)))
       | None \<Rightarrow> ret ())"

definition del_workers :: "string \<Rightarrow> (('f, 'w, 'k, 'q) consumer_router, unit result) act" where
  "del_workers topic =
     bindA (getA (\<lambda>r. case hm_get (cr_topics r) topic of None \<Rightarrow> [] | Some e \<Rightarrow> te_workers e)) (\<lambda>names.
     bindA (forA drop_worker names) (\<lambda>_.
     bindA (putA (\<lambda>r. r
       \<lparr>cr_topics := hm_remove topic (cr_topics r), cr_dispatch := hm_remove topic (cr_dispatch r),
        cr_enabled := hm_remove topic (cr_enabled r), cr_generation := cr_generation r + 1\<rparr>))
       (\<lambda>_. ret (Inr ()))))"

end
