(* ===== verification/Router_Invariant.thy ===== *)
theory Router_Invariant
  imports Consumer_Router
begin

text \<open>
  What holds of the consumer router's tables in every state that calls of its methods can
  reach: the index, the topic lists, the dispatcher lists, the inboxes and the running tasks
  agree. The operations keep the invariant one by one; the properties follow by rule induction
  over reachability.
\<close>

section \<open>The invariant\<close>

text \<open>
  Every indexed worker runs its own task on its own inbox and is listed under its topic, the
  lists name indexed workers only, the dispatcher's list is the topic's list, and a topic
  with workers has a running dispatcher.
\<close>

definition entry_workers :: "('f, 'w, 'k, 'q) consumer_router \<Rightarrow> string \<Rightarrow> string list" where
  "entry_workers r t = (case hm_get (cr_topics r) t of None \<Rightarrow> [] | Some e \<Rightarrow> te_workers e)"

definition dispatch_list :: "('f, 'w, 'k, 'q) consumer_router \<Rightarrow> string \<Rightarrow> string list" where
  "dispatch_list r t = (case hm_get (cr_dispatch r) t of None \<Rightarrow> [] | Some ns \<Rightarrow> ns)"

definition worker_live :: "('f, 'w, 'k, 'q) consumer_router \<Rightarrow> string
    \<Rightarrow> ('f, ('f, 'w) world) worker \<Rightarrow> nat \<Rightarrow> bool" where
  "worker_live r n wk h \<longleftrightarrow> wk_name wk = n \<and> n \<in> set (entry_workers r (wk_topic wk)) \<and>
     h < length (cr_tasks r) \<and>
     (\<exists>b. hm_get (cr_inboxes r) n = Some b \<and> b < length (cr_boxes r) \<and>
        cr_tasks r ! h = (WorkerLoop wk b, True))"

definition dispatcher_live :: "('f, 'w, 'k, 'q) consumer_router \<Rightarrow> string \<Rightarrow> bool" where
  "dispatcher_live r t \<longleftrightarrow> hm_get (cr_enabled r) t = Some True \<and>
     (\<exists>k p. (TopicDispatcher t k p, True) \<in> set (cr_tasks r))"

definition router_wf :: "('f, 'w, 'k, 'q) consumer_router \<Rightarrow> bool" where
  "router_wf r \<longleftrightarrow> hm_wf (cr_topics r) \<and> hm_wf (cr_index r) \<and> hm_wf (cr_dispatch r) \<and>
     (\<forall>n wk h. hm_get (cr_index r) n = Some (wk, h) \<longrightarrow> worker_live r n wk h) \<and>
     (\<forall>t n. n \<in> set (entry_workers r t) \<longrightarrow>
        (\<exists>wk h. hm_get (cr_index r) n = Some (wk, h) \<and> wk_topic wk = t)) \<and>
     (\<forall>t. distinct (entry_workers r t)) \<and>
     (\<forall>t. dispatch_list r t = entry_workers r t) \<and>
     (\<forall>t. hm_get (cr_enabled r) t = Some True \<longrightarrow> dispatcher_live r t) \<and>
     (\<forall>t. entry_workers r t \<noteq> [] \<longrightarrow> hm_get (cr_enabled r) t = Some True)"

lemma router_wfD:
  assumes "router_wf r"
  shows "hm_wf (cr_topics r)" "hm_wf (cr_index r)" "hm_wf (cr_dispatch r)"
    and "\<And>n wk h. hm_get (cr_index r) n = Some (wk, h) \<Longrightarrow> worker_live r n wk h"
    and "\<And>t n. n \<in> set (entry_workers r t) \<Longrightarrow>
      \<exists>wk h. hm_get (cr_index r) n = Some (wk, h) \<and> wk_topic wk = t"
    and "\<And>t. distinct (entry_workers r t)"
    and "\<And>t. dispatch_list r t = entry_workers r t"
    and "\<And>t. hm_get (cr_enabled r) t = Some True \<Longrightarrow> dispatcher_live r t"
    and "\<And>t. entry_workers r t \<noteq> [] \<Longrightarrow> hm_get (cr_enabled r) t = Some True"
  using assms unfolding router_wf_def by - (elim conjE; simp; fail)+

text \<open>A change that the invariant does not look at.\<close>

lemma router_wf_irrelevant:
  assumes "cr_index r' = cr_index r" and "cr_dispatch r' = cr_dispatch r"
    and "cr_enabled r' = cr_enabled r" and "cr_inboxes r' = cr_inboxes r"
    and "cr_boxes r' = cr_boxes r @ bs" and "cr_tasks r' = cr_tasks r @ ts"
    and "hm_wf (cr_topics r')" and "\<And>t. entry_workers r' t = entry_workers r t"
    and "router_wf r"
  shows "router_wf r'"
proof -
  have live: "worker_live r' n wk h" if "worker_live r n wk h" for n wk h
    using that unfolding worker_live_def assms(4-6,8) by (auto simp: nth_append)
  have disp: "dispatcher_live r' t" if "dispatcher_live r t" for t
    using that unfolding dispatcher_live_def assms(3,6) by auto
  note wf = router_wfD [OF assms(9)]
  show ?thesis
    unfolding router_wf_def assms(1-3,8) dispatch_list_def
    using assms(7) wf(2,3,5,6) live [OF wf(4)] disp [OF wf(8)] wf(9) wf(7) [unfolded dispatch_list_def]
    by (intro conjI allI impI) auto
qed

text \<open>
  Worker names end with an identifier the node has drawn, so that a new name is new: no
  identifier ends another, as they are unequal and of one length.
\<close>

definition uuid_shape :: "ambient \<Rightarrow> bool" where
  "uuid_shape a \<longleftrightarrow> (\<forall>i j. suffix (uuid_src a i) (uuid_src a j) \<longrightarrow> i = j)"

definition names_issued :: "('f, 'w, 'k, 'q) consumer_router \<Rightarrow> bool" where
  "names_issued r \<longleftrightarrow> (\<forall>n \<in> set (hm_keys (cr_index r)). \<exists>u. suffix u n \<and> uuid_used (w_amb (cr_world r)) u)"

definition amb_later :: "ambient \<Rightarrow> ambient \<Rightarrow> bool" where
  "amb_later a b \<longleftrightarrow> uuid_src b = uuid_src a \<and> uuid_next a \<le> uuid_next b"

abbreviation amb_from :: "ambient \<Rightarrow> ('f, 'w, 'z) world_scheme \<Rightarrow> bool" where
  "amb_from a w \<equiv> amb_later a (w_amb w)"

definition factory_ok :: "('f, 'w, 'k, 'q) consumer_router \<Rightarrow> bool" where
  "factory_ok r \<longleftrightarrow> (\<forall>t a. keeps (amb_from a) (cr_factory r t))"

definition router_inv :: "('f, 'w, 'k, 'q) consumer_router \<Rightarrow> bool" where
  "router_inv r \<longleftrightarrow> router_wf r \<and> names_issued r \<and> uuid_shape (w_amb (cr_world r)) \<and> factory_ok r"

lemma uuid_used_later: "amb_later a b \<Longrightarrow> uuid_used a u \<Longrightarrow> uuid_used b u"
  by (auto simp: amb_later_def uuid_used_def intro: less_le_trans)

lemma router_inv_world:
  assumes "router_wf r'" and "set (hm_keys (cr_index r')) \<subseteq> set (hm_keys (cr_index r))"
    and "amb_from (w_amb (cr_world r)) (cr_world r')" and "cr_factory r' = cr_factory r"
    and "router_inv r"
  shows "router_inv r'"
proof -
  have "names_issued r"
    using assms(5) by (simp add: router_inv_def)
  then have "names_issued r'"
    unfolding names_issued_def using assms(2) uuid_used_later [OF assms(3)] by (meson subsetD)
  moreover have "uuid_shape (w_amb (cr_world r'))"
    using assms(3,5) by (simp add: router_inv_def uuid_shape_def amb_later_def)
  ultimately show ?thesis using assms(1,4,5) by (simp add: router_inv_def factory_ok_def)
qed

lemma fresh_name:
  assumes "router_inv r" and "u = uuid_src (w_amb (cr_world r)) (uuid_next (w_amb (cr_world r)))"
    and "suffix u n"
  shows "hm_get (cr_index r) n = None"
proof (rule ccontr)
  assume "hm_get (cr_index r) n \<noteq> None"
  then have "n \<in> set (hm_keys (cr_index r))" by (simp add: map_of_eq_None_iff)
  then obtain u' where u': "suffix u' n" "uuid_used (w_amb (cr_world r)) u'"
    using assms(1) by (auto simp: router_inv_def names_issued_def)
  obtain j where j: "j < uuid_next (w_amb (cr_world r))" "u' = uuid_src (w_amb (cr_world r)) j"
    using u'(2) by (auto simp: uuid_used_def)
  have "suffix u' u \<or> suffix u u'" using u'(1) assms(3) suffix_same_cases by blast
  then show False
    using assms(1,2) j by (auto simp: router_inv_def uuid_shape_def)
qed

section \<open>The operations keep it\<close>

lemma amb_later_refl [simp]: "amb_later a a"
  by (simp add: amb_later_def)

lemma amb_later_steps [simp]:
  "amb_later a b \<Longrightarrow> amb_later a (snd (new_uuid b))" "amb_later a b \<Longrightarrow> amb_later a (snd (read_clock b))"
  by (auto simp: amb_later_def)

lemma amb_uuid [keeps_intros]: "keeps (amb_from a) uuid_v4"
  by (rule keepsI) (simp add: uuid_v4_app)

lemma amb_time [keeps_intros]: "keeps (amb_from a) time_now"
  by (rule keepsI) (simp add: time_now_app)

lemma amb_fabric [keeps_intros]: "keeps (amb_from a) (on_fabric m)"
  by (rule keepsI) (simp add: on_fabric_def split: prod.splits)

lemma amb_emit [keeps_intros]: "keeps (amb_from a) (emit m b d)"
  unfolding emit_def the_router_def by (intro keeps_intros)

lemma amb_announce: "keeps (amb_from a) (announce_worker wk)"
  unfolding announce_worker_def discovery_message_def try_get_node_name_def encode_with_def
    make_message_def send_system_def
  by (intro keeps_intros)

lemma router_inv_set_world:
  assumes "router_inv r" and "amb_from (w_amb (cr_world r)) w"
  shows "router_inv (r\<lparr>cr_world := w\<rparr>)"
proof (rule router_inv_world [of _ r])
  show "router_wf (r\<lparr>cr_world := w\<rparr>)"
    by (rule router_wf_irrelevant [where bs = "[]" and ts = "[]" and r = r])
      (use assms(1) in \<open>simp_all add: entry_workers_def router_inv_def router_wfD(1)\<close>)
qed (use assms in simp_all)

lemma in_world_inv:
  fixes m :: "(('f, 'w) world, 'x) act"
  assumes "\<And>a. keeps (amb_from a) m"
  shows "keeps router_inv (in_world m :: (('f, 'w, 'k, 'q) consumer_router, 'x) act)"
proof (rule keepsI)
  fix r :: "('f, 'w, 'k, 'q) consumer_router" assume "router_inv r"
  then show "router_inv (snd (in_world m r))"
    using router_inv_set_world keepsD [OF assms, of "w_amb (cr_world r)" "cr_world r"]
    by (simp add: in_world_def split_def)
qed

lemma router_inv_topics:
  assumes "router_inv r" and "hm_wf tps"
    and "\<And>t. (case hm_get tps t of None \<Rightarrow> [] | Some e \<Rightarrow> te_workers e) = entry_workers r t"
  shows "router_inv (r\<lparr>cr_topics := tps\<rparr>)"
proof (rule router_inv_world [of _ r])
  show "router_wf (r\<lparr>cr_topics := tps\<rparr>)"
    by (rule router_wf_irrelevant [where bs = "[]" and ts = "[]" and r = r])
      (use assms in \<open>simp_all add: entry_workers_def [of "_\<lparr>cr_topics := _\<rparr>"] router_inv_def\<close>)
qed (use assms in simp_all)

lemma router_inv_idle: "router_inv (r\<lparr>cr_idle := x\<rparr>) = router_inv r"
  by (simp add: router_inv_def router_wf_def names_issued_def factory_ok_def worker_live_def
      dispatcher_live_def entry_workers_def dispatch_list_def)

lemma router_inv_task:
  assumes "router_inv r"
  shows "router_inv (r\<lparr>cr_tasks := cr_tasks r @ [t]\<rparr>)"
proof (rule router_inv_world [of _ r])
  show "router_wf (r\<lparr>cr_tasks := cr_tasks r @ [t]\<rparr>)"
    by (rule router_wf_irrelevant [where bs = "[]" and ts = "[t]" and r = r])
      (use assms in \<open>simp_all add: entry_workers_def router_inv_def router_wfD(1)\<close>)
qed (use assms in simp_all)

lemma cr_register_inv:
  "keeps router_inv (cr_register t h :: (('f, 'w, 'k, 'q) consumer_router, unit result) act)"
proof (rule keepsI)
  fix r :: "('f, 'w, 'k, 'q) consumer_router" assume r: "router_inv r"
  show "router_inv (snd (cr_register t h r))"
  proof (cases "hm_contains (cr_topics r) t")
    case True
    with r show ?thesis by (simp add: cr_register_def bindA_def outcome_simps)
  next
    case False
    then have none: "hm_get (cr_topics r) t = None" by blast
    obtain x r1 where q: "in_world (cr_factory r t) r = (x, r1)" by fastforce
    have "keeps router_inv (in_world (cr_factory r t))"
      using r by (intro in_world_inv) (simp add: router_inv_def factory_ok_def)
    with q r have r1: "router_inv r1" by (metis keepsD snd_conv)
    have same: "cr_topics r1 = cr_topics r" using q by (auto simp: in_world_def split: prod.splits)
    have "router_inv (r1\<lparr>cr_topics := hm_insert t \<lparr>te_producer = p, te_consumer_factory = k,
        te_handler = h, te_pipeline = None, te_workers = []\<rparr> (cr_topics r1)\<rparr>)" for p k
      using r r1
      by (intro router_inv_topics)
        (simp_all add: router_inv_def router_wfD(1) entry_workers_def same none)
    with r1 False q show ?thesis
      by (auto simp: cr_register_def bindA_def bindQ_def outcome_simps split: outcome.splits sum.splits)
  qed
qed

lemma set_pipeline_inv:
  "keeps router_inv (set_pipeline t p :: (('f, 'w, 'k, 'q) consumer_router, unit result) act)"
proof (rule keepsI)
  fix r :: "('f, 'w, 'k, 'q) consumer_router" assume r: "router_inv r"
  have "router_inv (r\<lparr>cr_topics := hm_modify (\<lambda>e. e\<lparr>te_pipeline := Some p\<rparr>) t (cr_topics r)\<rparr>)"
    using r by (intro router_inv_topics)
      (auto simp: router_inv_def router_wfD(1) hm_simps entry_workers_def split: option.splits)
  with r show "router_inv (snd (set_pipeline t p r))"
    by (auto simp: set_pipeline_def get_entry_def bindQ_def bindA_def outcome_simps split: option.splits)
qed

lemma idle_inv:
  "keeps router_inv (set_idle t n)" "keeps router_inv (set_working t n)"
  "keeps router_inv (select_local_idle_worker t)"
  by (rule keepsI, simp add: set_idle_def set_working_def select_local_idle_worker_def bindA_def
      outcome_simps router_inv_idle split: option.splits list.splits)+

lemma read_inv:
  "keeps router_inv (get_handler t)" "keeps router_inv (get_worker n)"
  "keeps router_inv (get_workers t)" "keeps router_inv get_all_workers" "keeps router_inv (get_entry t)"
  unfolding get_handler_def get_worker_def get_workers_def get_all_workers_def get_entry_def
  by (intro keeps_intros)+

lemma create_ephemeral_inv: "keeps router_inv (create_ephemeral_worker t m)"
proof -
  have "keeps (amb_from a) (worker_new t p q d i s)" for a p q d i s
    unfolding worker_new_def wal_client_new_def make_message_def try_get_node_name_def Let_def
    by (intro keeps_intros)
  then show ?thesis
    unfolding create_ephemeral_worker_def spawn_def
    by (intro keeps_intros read_inv in_world_inv) (simp_all add: router_inv_task)
qed


text \<open>The tables after a worker has been added.\<close>

definition added :: "string \<Rightarrow> ('f, 'w, 'k) topic_entry \<Rightarrow> ('f, ('f, 'w) world) worker \<Rightarrow> 'q link
    \<Rightarrow> ('f, 'w) world \<Rightarrow> ('f, 'w, 'k, 'q) consumer_router \<Rightarrow> ('f, 'w, 'k, 'q) consumer_router" where
  "added topic e wk ch w r =
     (let n = wk_name wk; box = length (cr_boxes r);
          new = (if hm_get (cr_enabled r) topic = Some True then []
            else [(TopicDispatcher topic (te_consumer_factory e) (te_producer e), True)])
      in r\<lparr>cr_world := w,
           cr_topics := hm_modify (\<lambda>e. e\<lparr>te_workers := te_workers e @ [n]\<rparr>) topic (cr_topics r),
           cr_index := hm_insert n (wk, length (cr_tasks r @ new)) (cr_index r),
           cr_dispatch := hm_entry_or [] (\<lambda>ns. ns @ [n]) topic (cr_dispatch r),
           cr_enabled := (if hm_get (cr_enabled r) topic = Some True then cr_enabled r
             else hm_insert topic True (cr_enabled r)),
           cr_inboxes := hm_insert n box (cr_inboxes r), cr_generation := cr_generation r + 1,
           cr_boxes := cr_boxes r @ [ch],
           cr_tasks := cr_tasks r @ new @ [(WorkerLoop wk box, True)]\<rparr>)"

lemma worker_new_eval:
  obtains wk w1 where "worker_new t p q d i s w = (Ret wk, w1)" and "wk_topic wk = t"
    and "wk_producer wk = q" and "wk_pipeline wk = p"
    and "suffix (uuid_src (w_amb w) (uuid_next (w_amb w))) (wk_name wk)"
    and "amb_from (w_amb w) w1" and "uuid_used (w_amb w1) (uuid_src (w_amb w) (uuid_next (w_amb w)))"
    and "w_fabric w1 = w_fabric w" and "w_router w1 = w_router w"
proof -
  let ?r = "worker_new t p q d i s w"
  have "\<exists>wk. ?r = (Ret wk, snd ?r) \<and> wk_topic wk = t \<and> wk_producer wk = q \<and> wk_pipeline wk = p \<and>
     suffix (uuid_src (w_amb w) (uuid_next (w_amb w))) (wk_name wk) \<and> amb_from (w_amb w) (snd ?r) \<and>
     uuid_used (w_amb (snd ?r)) (uuid_src (w_amb w) (uuid_next (w_amb w))) \<and>
     w_fabric (snd ?r) = w_fabric w \<and> w_router (snd ?r) = w_router w"
    by (simp add: worker_new_def wal_client_new_def make_message_def bindA_def outcome_simps
        try_get_node_name_def Let_def amb_later_def suffix_def split: option.splits)
  with that show thesis by blast
qed

lemma create_worker_eval:
  assumes e: "hm_get (cr_topics r) topic = Some e"
    and wn: "worker_new topic p (te_producer e) d (case ci of Some x \<Rightarrow> x | None \<Rightarrow> from_millis 50) st
      (cr_world r) = (Ret wk, w1)"
    and ch: "cr_channel r (cr_batch r * 4) = Ret ch"
    and an: "announce_worker wk w1 = (x, w2)"
  shows "create_worker topic p d st ci r =
    (map_outcome (\<lambda>_. Inr (wk_name wk)) x, added topic e wk ch w2 r)"
proof -
  have c: "hm_contains (cr_topics r) topic" using e by simp
  show ?thesis
    using e wn ch an
    by (cases "hm_get (cr_enabled r) topic = Some True"; cases x)
      (simp_all add: create_worker_def get_entry_def new_inbox_def spawn_def register_worker_def
        in_world_def bindA_def bindQ_def outcome_simps added_def Let_def)
qed

lemma create_worker_other:
  assumes "\<And>e. hm_get (cr_topics r) topic = Some e \<Longrightarrow> \<nexists>ch. cr_channel r (cr_batch r * 4) = Ret ch"
  shows "\<exists>w1. snd (create_worker topic p d st ci r) = r\<lparr>cr_world := w1\<rparr> \<and>
    amb_from (w_amb (cr_world r)) w1"
proof (cases "hm_get (cr_topics r) topic")
  case None
  then show ?thesis
    by (intro exI [of _ "cr_world r"])
      (simp add: create_worker_def get_entry_def bindA_def bindQ_def outcome_simps)
next
  case (Some e)
  obtain wk w1 where wn: "worker_new topic p (te_producer e) d
      (case ci of Some x \<Rightarrow> x | None \<Rightarrow> from_millis 50) st (cr_world r) = (Ret wk, w1)"
    and later: "amb_from (w_amb (cr_world r)) w1"
    using worker_new_eval by metis
  then have "snd (create_worker topic p d st ci r) = r\<lparr>cr_world := w1\<rparr>"
    using Some assms [OF Some]
    by (cases "cr_channel r (cr_batch r * 4)")
      (simp_all add: create_worker_def get_entry_def new_inbox_def in_world_def bindA_def bindQ_def
        outcome_simps)
  with later show ?thesis by blast
qed


lemma added_sel:
  assumes "hm_get (cr_topics r) topic = Some e" and "r' = added topic e wk ch w r"
  shows "entry_workers r' t = (if t = topic then entry_workers r t @ [wk_name wk] else entry_workers r t)"
    and "dispatch_list r' t = (if t = topic then dispatch_list r t @ [wk_name wk] else dispatch_list r t)"
    and "hm_get (cr_enabled r') t = (if t = topic then Some True else hm_get (cr_enabled r) t)"
    and "\<exists>new. cr_tasks r' = cr_tasks r @ new @ [(WorkerLoop wk (length (cr_boxes r)), True)] \<and>
      hm_get (cr_index r') n = (if n = wk_name wk then Some (wk, length (cr_tasks r @ new))
        else hm_get (cr_index r) n) \<and>
      (hm_get (cr_enabled r) topic = Some True \<or>
       new = [(TopicDispatcher topic (te_consumer_factory e) (te_producer e), True)])"
    and "hm_get (cr_inboxes r') n = (if n = wk_name wk then Some (length (cr_boxes r)) else hm_get (cr_inboxes r) n)"
    and "cr_boxes r' = cr_boxes r @ [ch]"
  using assms(1) unfolding assms(2)
  by (simp_all add: added_def Let_def entry_workers_def dispatch_list_def hm_simps)

lemma added_live:
  assumes wf: "router_wf r" and e: "hm_get (cr_topics r) topic = Some e"
    and wk: "wk_topic wk = topic" "hm_get (cr_index r) (wk_name wk) = None"
    and r': "r' = added topic e wk ch w r"
    and i: "hm_get (cr_index r') n = Some (wk', h)"
  shows "worker_live r' n wk' h"
proof -
  note sel = added_sel [OF e r']
  obtain new where new: "cr_tasks r' = cr_tasks r @ new @ [(WorkerLoop wk (length (cr_boxes r)), True)]"
      "hm_get (cr_index r') n = (if n = wk_name wk then Some (wk, length (cr_tasks r @ new))
        else hm_get (cr_index r) n)"
    using sel(4) by blast
  show ?thesis
  proof (cases "n = wk_name wk")
    case True
    with i new wk(1) show ?thesis by (auto simp: worker_live_def sel nth_append)
  next
    case False
    then have "worker_live r n wk' h" using i new(2) router_wfD(4) [OF wf] by simp
    with False new(1) show ?thesis by (auto simp: worker_live_def sel nth_append)
  qed
qed

lemma added_wf:
  assumes wf: "router_wf r" and e: "hm_get (cr_topics r) topic = Some e"
    and wk: "wk_topic wk = topic" "hm_get (cr_index r) (wk_name wk) = None"
    and r': "r' = added topic e wk ch w r"
  shows "router_wf r'"
proof -
  note sel = added_sel [OF e r'] and old = router_wfD [OF wf]
  obtain new where new: "cr_tasks r' = cr_tasks r @ new @ [(WorkerLoop wk (length (cr_boxes r)), True)]"
      "hm_get (cr_enabled r) topic = Some True \<or>
       new = [(TopicDispatcher topic (te_consumer_factory e) (te_producer e), True)]"
    using sel(4) by blast
  have idx: "hm_get (cr_index r') n = (if n = wk_name wk then hm_get (cr_index r') n else hm_get (cr_index r) n)" for n
    using sel(4) [of n] by auto
  have fresh: "wk_name wk \<notin> set (entry_workers r t)" for t
    using old(5) [of "wk_name wk" t] wk(2) by auto
  have "hm_wf (cr_topics r')" "hm_wf (cr_index r')" "hm_wf (cr_dispatch r')"
    unfolding r' using old(1-3) by (simp_all add: added_def Let_def)
  moreover have "\<exists>wk' h. hm_get (cr_index r') n = Some (wk', h) \<and> wk_topic wk' = t"
    if "n \<in> set (entry_workers r' t)" for n t
  proof (cases "n = wk_name wk")
    case True
    then have "t = topic" using that fresh by (auto simp: sel split: if_splits)
    with True sel(4) [of n] wk(1) show ?thesis by auto
  next
    case False
    then show ?thesis using that old(5) [of n t] idx [of n] by (auto simp: sel split: if_splits)
  qed
  moreover have "distinct (entry_workers r' t)" for t using old(6) fresh by (simp add: sel)
  moreover have "dispatch_list r' t = entry_workers r' t" for t using old(7) by (simp add: sel)
  moreover have "dispatcher_live r' t" if "hm_get (cr_enabled r') t = Some True" for t
  proof (cases "hm_get (cr_enabled r) t = Some True")
    case True
    with old(8) [of t] that new(1) show ?thesis by (auto simp: dispatcher_live_def)
  next
    case False
    with that new show ?thesis by (auto simp: dispatcher_live_def sel split: if_splits)
  qed
  moreover have "hm_get (cr_enabled r') t = Some True" if "entry_workers r' t \<noteq> []" for t
    using that old(9) [of t] by (auto simp: sel split: if_splits)
  ultimately show ?thesis
    unfolding router_wf_def using added_live [OF assms] by blast
qed

lemma create_worker_inv:
  "keeps router_inv (create_worker topic p d st ci :: (('f, 'w, 'k, 'q) consumer_router, string result) act)"
proof (rule keepsI)
  fix r :: "('f, 'w, 'k, 'q) consumer_router" assume r: "router_inv r"
  show "router_inv (snd (create_worker topic p d st ci r))"
  proof (cases "\<exists>e ch. hm_get (cr_topics r) topic = Some e \<and> cr_channel r (cr_batch r * 4) = Ret ch")
    case False
    then obtain w1 where w1: "snd (create_worker topic p d st ci r) = r\<lparr>cr_world := w1\<rparr>"
        "amb_from (w_amb (cr_world r)) w1"
      using create_worker_other [of r topic p d st ci] by auto
    with router_inv_set_world [OF r w1(2)] show ?thesis by simp
  next
    case True
    then obtain e ch where e: "hm_get (cr_topics r) topic = Some e" "cr_channel r (cr_batch r * 4) = Ret ch"
      by blast
    obtain wk w1 where wk: "worker_new topic p (te_producer e) d
        (case ci of Some x \<Rightarrow> x | None \<Rightarrow> from_millis 50) st (cr_world r) = (Ret wk, w1)"
        "wk_topic wk = topic" "suffix (uuid_src (w_amb (cr_world r)) (uuid_next (w_amb (cr_world r)))) (wk_name wk)"
        "amb_from (w_amb (cr_world r)) w1"
        "uuid_used (w_amb w1) (uuid_src (w_amb (cr_world r)) (uuid_next (w_amb (cr_world r))))"
      by (rule worker_new_eval [of topic p "te_producer e" d
            "case ci of Some x \<Rightarrow> x | None \<Rightarrow> from_millis 50" st "cr_world r"]) blast
    obtain x w2 where an: "announce_worker wk w1 = (x, w2)" by fastforce
    have later: "amb_from (w_amb w1) w2" using keepsD [OF amb_announce, of "w_amb w1" w1 wk] an by simp
    let ?r = "added topic e wk ch w2 r"
    have "hm_get (cr_index r) (wk_name wk) = None" using fresh_name [OF r refl wk(3)] .
    then have wf: "router_wf ?r"
      using r by (intro added_wf [OF _ e(1) wk(2) _ refl]) (simp_all add: router_inv_def)
    have used: "uuid_used (w_amb (cr_world r)) u \<Longrightarrow> uuid_used (w_amb w2) u" for u
      using uuid_used_later [OF later] uuid_used_later [OF wk(4)] by blast
    have "names_issued ?r"
      using r used uuid_used_later [OF later wk(5)] wk(3)
      by (fastforce simp: router_inv_def names_issued_def added_def Let_def)
    moreover have "uuid_shape (w_amb w2)" "factory_ok ?r"
      using r later wk(4)
      by (auto simp: router_inv_def uuid_shape_def amb_later_def factory_ok_def
          added_def Let_def)
    ultimately have "router_inv ?r" using wf by (simp add: router_inv_def added_def Let_def)
    with create_worker_eval [OF e(1) wk(1) e(2) an] show ?thesis by simp
  qed
qed


text \<open>The tables after the workers named in a set have been dropped.\<close>

definition dropped :: "string set \<Rightarrow> ('f, 'w, 'k, 'q) consumer_router \<Rightarrow> ('f, 'w, 'k, 'q) consumer_router
    \<Rightarrow> bool" where
  "dropped N r r' \<longleftrightarrow> (\<exists>ix ib ts. r' = r\<lparr>cr_index := ix, cr_inboxes := ib, cr_tasks := ts\<rparr> \<and> hm_wf ix \<and>
     (\<forall>n. hm_get ix n = (if n \<in> N then None else hm_get (cr_index r) n)) \<and>
     (\<forall>n. n \<notin> N \<longrightarrow> hm_get ib n = hm_get (cr_inboxes r) n) \<and>
     length ts = length (cr_tasks r) \<and>
     (\<forall>h < length ts. ts ! h =
        (if \<exists>n \<in> N. \<exists>wk. hm_get (cr_index r) n = Some (wk, h) then (fst (cr_tasks r ! h), False)
         else cr_tasks r ! h)))"

lemma dropped_none: "hm_wf (cr_index r) \<Longrightarrow> dropped {} r r"
  unfolding dropped_def
  by (intro exI [of _ "cr_index r"] exI [of _ "cr_inboxes r"] exI [of _ "cr_tasks r"]) simp

lemma dropped_step:
  assumes "dropped N r r1"
  shows "\<exists>r2. drop_worker n r1 = (Ret (), r2) \<and> dropped (insert n N) r r2"
proof -
  obtain ix ib ts where r1: "r1 = r\<lparr>cr_index := ix, cr_inboxes := ib, cr_tasks := ts\<rparr>" "hm_wf ix"
      "\<And>n. hm_get ix n = (if n \<in> N then None else hm_get (cr_index r) n)"
      "\<And>n. n \<notin> N \<Longrightarrow> hm_get ib n = hm_get (cr_inboxes r) n" "length ts = length (cr_tasks r)"
      "\<And>h. h < length ts \<Longrightarrow> ts ! h =
        (if \<exists>n \<in> N. \<exists>wk. hm_get (cr_index r) n = Some (wk, h) then (fst (cr_tasks r ! h), False)
         else cr_tasks r ! h)"
    using assms unfolding dropped_def by blast
  show ?thesis
  proof (cases "hm_get ix n")
    case None
    then have "n \<in> N \<or> hm_get (cr_index r) n = None" using r1(3) [of n] by (auto split: if_splits)
    then have same: "(\<exists>k \<in> insert n N. \<exists>wk. hm_get (cr_index r) k = Some (wk, h)) \<longleftrightarrow>
        (\<exists>k \<in> N. \<exists>wk. hm_get (cr_index r) k = Some (wk, h))" for h by auto
    have "dropped (insert n N) r r1"
      unfolding dropped_def same
      using r1 None by (intro exI [of _ ix] exI [of _ ib] exI [of _ ts]) auto
    moreover have "drop_worker n r1 = (Ret (), r1)"
      using None by (simp add: drop_worker_def bindA_def outcome_simps r1(1))
    ultimately show ?thesis by blast
  next
    case (Some p)
    obtain wk h where p: "p = (wk, h)" by fastforce
    have i: "n \<notin> N" "hm_get (cr_index r) n = Some (wk, h)"
      using Some p r1(3) [of n] by (auto split: if_splits)
    define ts' where "ts' = (if h < length ts then ts[h := (fst (ts ! h), False)] else ts)"
    have ts': "ts' ! j = (if \<exists>k \<in> insert n N. \<exists>wk. hm_get (cr_index r) k = Some (wk, j)
        then (fst (cr_tasks r ! j), False) else cr_tasks r ! j)" if "j < length ts" for j
      using i(2) r1(6) [OF that] that by (auto simp: ts'_def nth_list_update)
    have len: "length ts' = length ts" by (simp add: ts'_def)
    have "drop_worker n r1 = (Ret (), r\<lparr>cr_index := hm_remove n ix, cr_inboxes := hm_remove n ib,
        cr_tasks := ts'\<rparr>)"
      using Some p by (simp add: drop_worker_def abort_def bindA_def outcome_simps r1(1) ts'_def)
    moreover have "dropped (insert n N) r (r\<lparr>cr_index := hm_remove n ix, cr_inboxes := hm_remove n ib,
        cr_tasks := ts'\<rparr>)"
      unfolding dropped_def
      using r1(2-5) ts'
      by (intro exI [of _ "hm_remove n ix"] exI [of _ "hm_remove n ib"] exI [of _ ts'] conjI refl)
        (auto simp: len)
    ultimately show ?thesis by blast
  qed
qed

lemma dropped_all:
  assumes "hm_wf (cr_index r)"
  shows "\<exists>r'. forA drop_worker ns r = (Ret (), r') \<and> dropped (set ns) r r'"
proof -
  have "dropped N r r1 \<Longrightarrow> \<exists>r'. forA drop_worker ns r1 = (Ret (), r') \<and> dropped (set ns \<union> N) r r'" for N r1
  proof (induction ns arbitrary: N r1)
    case Nil
    then show ?case by (simp add: outcome_simps)
  next
    case (Cons n ns)
    obtain r2 where r2: "drop_worker n r1 = (Ret (), r2)" "dropped (insert n N) r r2"
      using dropped_step [OF Cons.prems] by blast
    with Cons.IH [OF r2(2)] show ?case by (auto simp: bindA_def)
  qed
  from this [OF dropped_none [OF assms]] show ?thesis by simp
qed

lemma dropped_wf:
  assumes wf: "router_wf r" and d: "dropped N r r1"
    and r': "r' = r1\<lparr>cr_topics := tps, cr_dispatch := dsp, cr_enabled := en, cr_generation := g\<rparr>"
    and maps: "hm_wf tps" "hm_wf dsp"
    and ew: "\<And>t. entry_workers r' t = filter (\<lambda>n. n \<notin> N) (entry_workers r t)"
    and dl: "\<And>t. dispatch_list r' t = filter (\<lambda>n. n \<notin> N) (dispatch_list r t)"
    and en: "\<And>t. hm_get en t = hm_get (cr_enabled r) t \<or> hm_get en t = None \<and> entry_workers r' t = []"
  shows "router_wf r'"
proof -
  note old = router_wfD [OF wf]
  obtain ix ib ts where r1: "r1 = r\<lparr>cr_index := ix, cr_inboxes := ib, cr_tasks := ts\<rparr>" "hm_wf ix"
      "\<And>n. hm_get ix n = (if n \<in> N then None else hm_get (cr_index r) n)"
      "\<And>n. n \<notin> N \<Longrightarrow> hm_get ib n = hm_get (cr_inboxes r) n" "length ts = length (cr_tasks r)"
      "\<And>h. h < length ts \<Longrightarrow> ts ! h =
        (if \<exists>n \<in> N. \<exists>wk. hm_get (cr_index r) n = Some (wk, h) then (fst (cr_tasks r ! h), False)
         else cr_tasks r ! h)"
    using d unfolding dropped_def by blast
  have live: "worker_live r' n wk h" if i: "hm_get ix n = Some (wk, h)" for n wk h
  proof -
    have n: "n \<notin> N" "hm_get (cr_index r) n = Some (wk, h)" using i r1(3) [of n] by (auto split: if_splits)
    note l = old(4) [OF n(2), unfolded worker_live_def]
    have "k = n" if "hm_get (cr_index r) k = Some (wk', h)" for k wk'
      using old(4) [OF that] l by (auto simp: worker_live_def)
    then have "ts ! h = cr_tasks r ! h" using r1(5) r1(6) [of h] l n(1) by auto
    with l n(1) r1(4) [OF n(1)] show ?thesis
      unfolding worker_live_def ew by (auto simp: r' r1(1,5))
  qed
  have disp: "(TopicDispatcher t k p, True) \<in> set ts" if mem: "(TopicDispatcher t k p, True) \<in> set (cr_tasks r)" for t k p
  proof -
    obtain h where h: "h < length (cr_tasks r)" "cr_tasks r ! h = (TopicDispatcher t k p, True)"
      using mem by (auto simp: in_set_conv_nth)
    have "\<not> (\<exists>n. \<exists>wk. hm_get (cr_index r) n = Some (wk, h))"
      using old(4) h(2) by (fastforce simp: worker_live_def)
    with h r1(5) r1(6) [of h] show ?thesis by (metis nth_mem)
  qed
  have index: "cr_index r' = ix" "cr_enabled r' = en" "cr_tasks r' = ts" "cr_topics r' = tps"
      "cr_dispatch r' = dsp" by (simp_all add: r' r1(1))
  have "\<exists>wk h. hm_get ix n = Some (wk, h) \<and> wk_topic wk = t" if "n \<in> set (entry_workers r' t)" for t n
    using that old(5) [of n t] r1(3) [of n] by (auto simp: ew)
  moreover have "distinct (entry_workers r' t)" "dispatch_list r' t = entry_workers r' t" for t
    using old(6,7) [of t] by (simp_all add: ew dl)
  moreover have "dispatcher_live r' t" if "hm_get en t = Some True" for t
    using that en [of t] old(8) [of t] disp unfolding dispatcher_live_def index by fastforce
  moreover have "hm_get en t = Some True" if "entry_workers r' t \<noteq> []" for t
  proof -
    have "entry_workers r t \<noteq> []" using that by (auto simp: ew)
    with old(9) [of t] en [of t] that show ?thesis by auto
  qed
  ultimately show ?thesis
    unfolding router_wf_def index using maps r1(2) live by blast
qed


lemma del_worker_eval:
  assumes i: "hm_get (cr_index r) n = Some (wk, h)" and wf: "hm_wf (cr_index r)"
  shows "\<exists>r1. dropped {n} r r1 \<and> del_worker n r = (Ret (Inr ()), r1
    \<lparr>cr_topics := hm_map_values (\<lambda>e. e\<lparr>te_workers := filter (\<lambda>k. k \<noteq> n) (te_workers e)\<rparr>) (cr_topics r),
     cr_dispatch := hm_map_values (filter (\<lambda>k. k \<noteq> n)) (cr_dispatch r),
     cr_enabled := cr_enabled r, cr_generation := cr_generation r + 1\<rparr>)"
proof -
  obtain r1 where r1: "drop_worker n r = (Ret (), r1)" "dropped {n} r r1"
    using dropped_step [OF dropped_none [OF wf], of n] by auto
  have "del_worker n r = (Ret (Inr ()), r1
    \<lparr>cr_topics := hm_map_values (\<lambda>e. e\<lparr>te_workers := filter (\<lambda>k. k \<noteq> n) (te_workers e)\<rparr>) (cr_topics r),
     cr_dispatch := hm_map_values (filter (\<lambda>k. k \<noteq> n)) (cr_dispatch r),
     cr_enabled := cr_enabled r, cr_generation := cr_generation r + 1\<rparr>)"
    using i r1(1)
    by (auto simp: del_worker_def drop_worker_def abort_def bindA_def outcome_simps split: if_splits)
  with r1(2) show ?thesis by blast
qed

lemma dropped_inv:
  assumes "router_inv r" and "dropped N r r1" and "router_wf r'"
    and "r' = r1\<lparr>cr_topics := tps, cr_dispatch := dsp, cr_enabled := en, cr_generation := g\<rparr>"
  shows "router_inv r'"
proof (rule router_inv_world [OF assms(3) _ _ _ assms(1)])
  obtain ix ib ts where r1: "r1 = r\<lparr>cr_index := ix, cr_inboxes := ib, cr_tasks := ts\<rparr>"
      "\<And>n. hm_get ix n = (if n \<in> N then None else hm_get (cr_index r) n)"
    using assms(2) unfolding dropped_def by blast
  show "set (hm_keys (cr_index r')) \<subseteq> set (hm_keys (cr_index r))"
  proof
    fix n assume "n \<in> set (hm_keys (cr_index r'))"
    then have "hm_get ix n \<noteq> None" using assms(4) r1(1) by (simp add: map_of_eq_None_iff)
    then have "hm_get (cr_index r) n \<noteq> None" using r1(2) [of n] by (auto split: if_splits)
    then show "n \<in> set (hm_keys (cr_index r))" by (simp add: map_of_eq_None_iff)
  qed
  show "amb_from (w_amb (cr_world r)) (cr_world r')" "cr_factory r' = cr_factory r"
    using assms(4) r1(1) by simp_all
qed

lemma del_worker_inv:
  "keeps router_inv (del_worker n :: (('f, 'w, 'k, 'q) consumer_router, unit result) act)"
proof (rule keepsI)
  fix r :: "('f, 'w, 'k, 'q) consumer_router" assume r: "router_inv r"
  then have wf: "router_wf r" by (simp add: router_inv_def)
  show "router_inv (snd (del_worker n r))"
  proof (cases "hm_get (cr_index r) n")
    case None
    with r show ?thesis by (simp add: del_worker_def bindA_def outcome_simps)
  next
    case (Some p)
    obtain wk h where "hm_get (cr_index r) n = Some (wk, h)" using Some by (cases p) simp
    from del_worker_eval [OF this router_wfD(2) [OF wf]] obtain r1 where
      d: "dropped {n} r r1" and e: "snd (del_worker n r) = r1
      \<lparr>cr_topics := hm_map_values (\<lambda>e. e\<lparr>te_workers := filter (\<lambda>k. k \<noteq> n) (te_workers e)\<rparr>) (cr_topics r),
       cr_dispatch := hm_map_values (filter (\<lambda>k. k \<noteq> n)) (cr_dispatch r),
       cr_enabled := cr_enabled r, cr_generation := cr_generation r + 1\<rparr>" by fastforce
    have "router_wf (snd (del_worker n r))"
      by (rule dropped_wf [OF wf d e])
        (use router_wfD(1,3) [OF wf] in \<open>simp_all add: e entry_workers_def dispatch_list_def hm_simps
          split: option.splits\<close>)
    then show ?thesis by (rule dropped_inv [OF r d _ e])
  qed
qed

lemma del_workers_eval:
  assumes "hm_wf (cr_index r)"
  shows "\<exists>r1. dropped (set (entry_workers r t)) r r1 \<and> del_workers t r = (Ret (Inr ()), r1
    \<lparr>cr_topics := hm_remove t (cr_topics r), cr_dispatch := hm_remove t (cr_dispatch r),
     cr_enabled := hm_remove t (cr_enabled r), cr_generation := cr_generation r + 1\<rparr>)"
proof -
  obtain r1 where r1: "forA drop_worker (entry_workers r t) r = (Ret (), r1)"
      "dropped (set (entry_workers r t)) r r1"
    using dropped_all [OF assms] by blast
  obtain ix ib ts where "r1 = r\<lparr>cr_index := ix, cr_inboxes := ib, cr_tasks := ts\<rparr>"
    using r1(2) unfolding dropped_def by blast
  with r1(1) have "del_workers t r = (Ret (Inr ()), r1
    \<lparr>cr_topics := hm_remove t (cr_topics r), cr_dispatch := hm_remove t (cr_dispatch r),
     cr_enabled := hm_remove t (cr_enabled r), cr_generation := cr_generation r + 1\<rparr>)"
    by (simp add: del_workers_def bindA_def outcome_simps flip: entry_workers_def)
  with r1(2) show ?thesis by blast
qed

lemma del_workers_inv:
  "keeps router_inv (del_workers t :: (('f, 'w, 'k, 'q) consumer_router, unit result) act)"
proof (rule keepsI)
  fix r :: "('f, 'w, 'k, 'q) consumer_router" assume r: "router_inv r"
  then have wf: "router_wf r" by (simp add: router_inv_def)
  note old = router_wfD [OF wf]
  obtain r1 where d: "dropped (set (entry_workers r t)) r r1" and e: "snd (del_workers t r) = r1
    \<lparr>cr_topics := hm_remove t (cr_topics r), cr_dispatch := hm_remove t (cr_dispatch r),
     cr_enabled := hm_remove t (cr_enabled r), cr_generation := cr_generation r + 1\<rparr>"
    using del_workers_eval [OF old(2), of t] by fastforce
  have other: "filter (\<lambda>n. n \<notin> set (entry_workers r t)) (entry_workers r t') =
      (if t' = t then [] else entry_workers r t')" for t'
    using old(5) [of _ t] old(5) [of _ t'] by (fastforce simp: filter_empty_conv filter_id_conv)
  have ew: "entry_workers (snd (del_workers t r)) t' = (if t' = t then [] else entry_workers r t')" for t'
    by (simp add: e entry_workers_def)
  have dl: "dispatch_list (snd (del_workers t r)) t' = (if t' = t then [] else dispatch_list r t')" for t'
    by (simp add: e dispatch_list_def)
  have "router_wf (snd (del_workers t r))"
    by (rule dropped_wf [OF wf d e]) (use old(1,3,7) in \<open>simp_all add: ew dl other\<close>)
  then show "router_inv (snd (del_workers t r))" by (rule dropped_inv [OF r d _ e])
qed



section \<open>Reachable tables\<close>

text \<open>
  The calls of the router's methods in any order, between which the rest of the program runs:
  it may draw identifiers, and fill and drain the inboxes.
\<close>

inductive cr_reach :: "('f, 'w, 'k, 'q) consumer_router \<Rightarrow> ('f, 'w, 'k, 'q) consumer_router \<Rightarrow> bool"
  for r0 where
  start: "cr_reach r0 r0"
| topic: "cr_reach r0 r \<Longrightarrow> cr_register t h r = (x, r') \<Longrightarrow> cr_reach r0 r'"
| pipeline: "cr_reach r0 r \<Longrightarrow> set_pipeline t p r = (x, r') \<Longrightarrow> cr_reach r0 r'"
| create: "cr_reach r0 r \<Longrightarrow> create_worker t p d st ci r = (y, r') \<Longrightarrow> cr_reach r0 r'"
| ephemeral: "cr_reach r0 r \<Longrightarrow> create_ephemeral_worker t m r = (x, r') \<Longrightarrow> cr_reach r0 r'"
| delete: "cr_reach r0 r \<Longrightarrow> del_worker n r = (x, r') \<Longrightarrow> cr_reach r0 r'"
| delete_topic: "cr_reach r0 r \<Longrightarrow> del_workers t r = (x, r') \<Longrightarrow> cr_reach r0 r'"
| idle: "cr_reach r0 r \<Longrightarrow> set_idle t n r = (x, r') \<Longrightarrow> cr_reach r0 r'"
| working: "cr_reach r0 r \<Longrightarrow> set_working t n r = (x, r') \<Longrightarrow> cr_reach r0 r'"
| select: "cr_reach r0 r \<Longrightarrow> select_local_idle_worker t r = (z, r') \<Longrightarrow> cr_reach r0 r'"
| world: "cr_reach r0 r \<Longrightarrow> amb_from (w_amb (cr_world r)) w \<Longrightarrow> cr_reach r0 (r\<lparr>cr_world := w\<rparr>)"
| boxes: "cr_reach r0 r \<Longrightarrow> length bs = length (cr_boxes r) \<Longrightarrow> cr_reach r0 (r\<lparr>cr_boxes := bs\<rparr>)"

lemma router_inv_boxes:
  assumes "router_inv r" and "length bs = length (cr_boxes r)"
  shows "router_inv (r\<lparr>cr_boxes := bs\<rparr>)"
proof -
  let ?r = "r\<lparr>cr_boxes := bs\<rparr>"
  have "entry_workers ?r = entry_workers r" "dispatch_list ?r = dispatch_list r"
      "dispatcher_live ?r = dispatcher_live r"
    by (rule ext, simp add: entry_workers_def dispatch_list_def dispatcher_live_def)+
  moreover from this(1) have "worker_live ?r = worker_live r"
    using assms(2) by (intro ext) (simp add: worker_live_def)
  ultimately show ?thesis
    using assms(1)
    by (simp add: router_inv_def router_wf_def names_issued_def factory_ok_def
        del: map_of_eq_Some_iff)
qed

lemma keeps_step: "keeps I m \<Longrightarrow> I s \<Longrightarrow> m s = (x, s') \<Longrightarrow> I s'"
  using keepsD by fastforce

lemmas router_steps =
  cr_register_inv set_pipeline_inv create_worker_inv create_ephemeral_inv del_worker_inv
  del_workers_inv idle_inv

lemma reach_inv:
  assumes "cr_reach r0 r" and "router_inv r0"
  shows "router_inv r"
  using assms
  by (induction rule: cr_reach.induct)
    (auto intro: router_steps [THEN keeps_step] router_inv_set_world router_inv_boxes)

lemma init_inv:
  assumes "consumer_router_init w fac chn b None = (x, Some r)" and "uuid_shape (w_amb w)"
    and "\<And>t a. keeps (amb_from a) (fac t)"
  shows "router_inv r"
  using assms
  by (auto simp: consumer_router_init_def router_inv_def router_wf_def names_issued_def factory_ok_def
      entry_workers_def dispatch_list_def)



section \<open>Properties\<close>

text \<open>
  C3: however topics and workers are registered, created and deleted, each worker of the index
  runs its own task on its own inbox and is listed once under its own topic, the lists name
  no other worker, the dispatcher of a topic is given exactly the topic's workers, and a topic
  with workers has a running dispatcher.
\<close>

theorem router_tables_consistent:
  assumes "consumer_router_init w fac chn b None = (x, Some r0)" and "cr_reach r0 r"
    and "uuid_shape (w_amb w)" and "\<forall>t a. keeps (amb_from a) (fac t)"
  shows "router_wf r"
  using reach_inv [OF assms(2) init_inv [OF assms(1,3)]] assms(4) by (simp add: router_inv_def)

text \<open>
  In every reachable state \<^verbatim>\<open>get_workers\<close> returns exactly the workers of the topic, each
  once.
\<close>

theorem get_workers_exact:
  assumes "consumer_router_init w fac chn b None = (x, Some r0)" and "cr_reach r0 r"
    and "uuid_shape (w_amb w)" and "\<forall>t a. keeps (amb_from a) (fac t)"
  shows "\<exists>ws. get_workers t r = (Ret ws, r) \<and> distinct ws \<and>
     set ws = {wk. \<exists>n h. hm_get (cr_index r) n = Some (wk, h) \<and> wk_topic wk = t}"
proof -
  have wf: "router_wf r"
    using reach_inv [OF assms(2) init_inv [OF assms(1,3)]] assms(4) by (simp add: router_inv_def)
  note inv = router_wfD [OF wf]
  define f where "f = (\<lambda>n. map_option fst (hm_get (cr_index r) n))"
  have name: "f n = Some wk \<longleftrightarrow> (\<exists>h. hm_get (cr_index r) n = Some (wk, h))" for n wk
    by (auto simp: f_def)
  have get: "get_workers t r = (Ret (List.map_filter f (entry_workers r t)), r)"
    by (simp add: get_workers_def getA_def entry_workers_def f_def List.map_filter_def
        split: option.splits)
  have injf: "n = n'" if "f n = Some wk" "f n' = Some wk" for n n' wk
    using that inv(4) unfolding name worker_live_def by blast
  have "distinct (List.map_filter f ns)" if "distinct ns" for ns
    using that
  proof (induction ns)
    case (Cons n ns)
    then show ?case
      using injf by (auto simp: List.map_filter_def split: option.splits) metis
  qed (simp add: List.map_filter_def)
  then have "distinct (List.map_filter f (entry_workers r t))" using inv(6) .
  moreover have "set (List.map_filter f (entry_workers r t)) = {wk. \<exists>n h. hm_get (cr_index r) n = Some (wk, h) \<and> wk_topic wk = t}"
  proof -
    have "set (List.map_filter f ns) = {wk. \<exists>n \<in> set ns. f n = Some wk}" for ns
      by (induction ns) (auto simp: List.map_filter_def)
    moreover have "(\<exists>n \<in> set (entry_workers r t). f n = Some wk) \<longleftrightarrow>
        (\<exists>n h. hm_get (cr_index r) n = Some (wk, h) \<and> wk_topic wk = t)" for wk
      using inv(4,5) unfolding name worker_live_def by fastforce
    ultimately show ?thesis by simp
  qed
  ultimately show ?thesis using get by blast
qed



text \<open>A router over flume with one topic and one worker.\<close>

definition demo_world :: "(emessage list link, mem_wal) world" where
  "demo_world = (flume_world [] [] Host)\<lparr>w_amb :=
     \<lparr>uuid_src = (\<lambda>n. CHR ''b'' # replicate n CHR ''a''), uuid_next = 0, clock_src = (\<lambda>n. int n),
      clock_next = 0\<rparr>\<rparr>"

definition demo_factory :: "string \<Rightarrow> ((emessage list link, mem_wal) world,
    (emessage list link eproducer \<times> unit) result) act" where
  "demo_factory t = ret (Inr (flume_producer, ()))"

definition demo_router :: "(emessage list link, mem_wal, unit, emessage list) consumer_router" where
  "demo_router = the (snd (consumer_router_init demo_world demo_factory
     (\<lambda>_. Ret (open_list_link [])) None None))"

definition demo_handler :: "(emessage list link, mem_wal) world ehandler" where
  "demo_handler m = ret Ack"

lemma demo_init:
  "consumer_router_init demo_world demo_factory (\<lambda>_. Ret (open_list_link [])) None None =
     (Inr (), Some demo_router)"
  by (simp add: demo_router_def consumer_router_init_def)

lemma demo_shape: "uuid_shape (w_amb demo_world)"
proof -
  have "i = j" if s: "suffix (CHR ''b'' # replicate i CHR ''a'') (CHR ''b'' # replicate j CHR ''a'')" for i j
  proof -
    obtain zs where z: "CHR ''b'' # replicate j CHR ''a'' = zs @ CHR ''b'' # replicate i CHR ''a''"
      using s by (auto simp: suffix_def)
    show ?thesis
    proof (cases zs)
      case Nil
      with z show ?thesis by (simp add: replicate_eq_replicate)
    next
      case (Cons c cs)
      with z have "CHR ''b'' \<in> set (replicate j CHR ''a'')" by (metis append_Cons in_set_conv_decomp list.inject)
      then show ?thesis by simp
    qed
  qed
  then show ?thesis by (simp add: uuid_shape_def demo_world_def)
qed

lemma demo_factory_ok: "keeps (amb_from a) (demo_factory t)"
  unfolding demo_factory_def by (rule keeps_ret)

lemma demo_reach:
  "\<exists>r n wk h. cr_reach demo_router r \<and> hm_get (cr_index r) n = Some (wk, h) \<and> wk_topic wk = ''jobs''"
proof -
  let ?e = "\<lparr>te_producer = flume_producer, te_consumer_factory = (), te_handler = demo_handler,
    te_pipeline = None, te_workers = []\<rparr>"
  let ?r = "demo_router\<lparr>cr_topics := [(''jobs'', ?e)]\<rparr>" and ?p = "pipeline_new demo_handler"
  have "cr_register ''jobs'' demo_handler demo_router = (Ret (Inr ()), ?r)"
    by (simp add: cr_register_def demo_router_def consumer_router_init_def demo_factory_def in_world_def
        bindA_def bindQ_def outcome_simps)
  then have r: "cr_reach demo_router ?r" by (rule cr_reach.topic [OF cr_reach.start])
  have e: "hm_get (cr_topics ?r) ''jobs'' = Some ?e" by simp
  obtain wk w1 where wk: "worker_new ''jobs'' ?p (te_producer ?e) None
      (case None of Some x \<Rightarrow> x | None \<Rightarrow> from_millis 50) None (cr_world ?r) = (Ret wk, w1)"
      "wk_topic wk = ''jobs''"
    by (rule worker_new_eval [of "''jobs''" ?p "te_producer ?e" None
          "case None of Some x \<Rightarrow> x | None \<Rightarrow> from_millis 50" None "cr_world ?r"]) blast
  obtain x w2 where an: "announce_worker wk w1 = (x, w2)" by fastforce
  have ch: "cr_channel ?r (cr_batch ?r * 4) = Ret (open_list_link [])"
    by (simp add: demo_router_def consumer_router_init_def)
  let ?r2 = "added ''jobs'' ?e wk (open_list_link []) w2 ?r"
  have "cr_reach demo_router ?r2"
    using cr_reach.create [OF r create_worker_eval [OF e wk(1) ch an]] .
  moreover have "\<exists>h. hm_get (cr_index ?r2) (wk_name wk) = Some (wk, h)"
    using added_sel(4) [OF e refl, of wk "open_list_link []" w2 "wk_name wk"] by auto
  ultimately show ?thesis using wk(2) by blast
qed

theorem router_tables_consistent_witness:
  "\<exists>r n wk h. cr_reach demo_router r \<and> hm_get (cr_index r) n = Some (wk, h) \<and> router_wf r"
  using demo_reach router_tables_consistent [OF demo_init _ demo_shape] demo_factory_ok by blast

theorem get_workers_exact_witness:
  "\<exists>r ws. cr_reach demo_router r \<and> get_workers ''jobs'' r = (Ret ws, r) \<and> ws \<noteq> [] \<and> distinct ws"
proof -
  obtain r n wk h where r: "cr_reach demo_router r" "hm_get (cr_index r) n = Some (wk, h)"
      "wk_topic wk = ''jobs''" using demo_reach by blast
  then show ?thesis
    using get_workers_exact [OF demo_init r(1) demo_shape, of "''jobs''"] demo_factory_ok
    by fastforce
qed


text \<open>
  A name left in the idle pool by a deleted worker hides the workers behind it: the next
  selection takes that name, finds no worker and reports none, although idle workers remain.
\<close>

theorem stale_idle_name_selected:
  assumes "router_wf r" and "hm_get (cr_index r) n = Some (wk, h)"
    and "hm_get (cr_idle r) t = Some (ns @ [n])"
  shows "\<exists>r' r''. del_worker n r = (Ret (Inr ()), r') \<and>
     select_local_idle_worker t r' = (Ret None, r'') \<and> hm_get (cr_idle r'') t = Some ns"
proof -
  obtain r1 where d: "dropped {n} r r1" and e: "del_worker n r = (Ret (Inr ()), r1
      \<lparr>cr_topics := hm_map_values (\<lambda>e. e\<lparr>te_workers := filter (\<lambda>k. k \<noteq> n) (te_workers e)\<rparr>) (cr_topics r),
       cr_dispatch := hm_map_values (filter (\<lambda>k. k \<noteq> n)) (cr_dispatch r),
       cr_enabled := cr_enabled r, cr_generation := cr_generation r + 1\<rparr>)"
    using del_worker_eval [OF assms(2) router_wfD(2) [OF assms(1)]] by blast
  obtain ix ib ts where r1: "r1 = r\<lparr>cr_index := ix, cr_inboxes := ib, cr_tasks := ts\<rparr>"
      "\<And>k. hm_get ix k = (if k \<in> {n} then None else hm_get (cr_index r) k)"
    using d unfolding dropped_def by blast
  obtain c cs where cons: "ns @ [n] = c # cs" by (cases ns) auto
  have ends: "last (c # cs) = n" "butlast (c # cs) = ns" unfolding cons [symmetric] by simp_all
  show ?thesis
    unfolding e
    using assms(3) r1(2) [of n] ends
    by (simp add: r1(1) select_local_idle_worker_def bindA_def outcome_simps cons
        del: last.simps butlast.simps)
qed

theorem stale_idle_name_selected_witness:
  "\<exists>r n r' r''. cr_reach demo_router r \<and> del_worker n r = (Ret (Inr ()), r') \<and>
     select_local_idle_worker ''jobs'' r' = (Ret None, r'')"
proof -
  obtain r n wk h where r: "cr_reach demo_router r" "hm_get (cr_index r) n = Some (wk, h)"
    using demo_reach by blast
  obtain r2 where s: "set_idle ''jobs'' n r = (Ret (Inr ()), r2)"
      "hm_get (cr_idle r2) ''jobs'' = Some ((case hm_get (cr_idle r) ''jobs'' of None \<Rightarrow> [] | Some v \<Rightarrow> v) @ [n])"
      "hm_get (cr_index r2) n = Some (wk, h)"
    using r(2) by (simp add: set_idle_def bindA_def outcome_simps hm_simps)
  have r2: "cr_reach demo_router r2" using cr_reach.idle [OF r(1) s(1)] .
  have "router_wf r2"
    using reach_inv [OF r2 init_inv [OF demo_init demo_shape]] demo_factory_ok
    by (simp add: router_inv_def)
  with stale_idle_name_selected [OF _ s(3,2)] r2 show ?thesis by blast
qed

end
