(* ===== verification/Dispatcher.thy ===== *)
theory Dispatcher
  imports Router_Invariant
begin

text \<open>
  The two dispatch loops of \<^verbatim>\<open>event_base_core/src/queues/consumer_router.rs\<close>: the dispatcher of
  one topic (\<^verbatim>\<open>spawn_topic_dispatcher\<close>), which hands claimed messages to the inboxes of the
  topic's workers, and the main loop (\<^verbatim>\<open>recv\<close>). Each is modelled by one turn.

  A dispatcher's consumer and its topic's producer act on one state \<open>'f\<close>, as the handles of one
  queue do. The tables a turn reads (generation, worker names, inboxes) are arguments of the
  turn: other tasks change them between turns. Instants of the monotonic clock are arguments
  too. Pauses are not modelled.
\<close>

section \<open>The dispatcher of a topic\<close>

definition TOPIC_REAP_INTERVAL :: duration where
  "TOPIC_REAP_INTERVAL = from_secs 30"

definition TOPIC_REAP_MIN_IDLE :: duration where
  "TOPIC_REAP_MIN_IDLE = from_secs 120"

record ('f, 'q) dispatcher =
  ds_fabric :: 'f
  ds_boxes :: "'q link list"
  ds_cursor :: u64
  ds_seen :: u64
  ds_cache :: "(string \<times> nat) list"
  ds_node :: "string option"
  ds_reclaimed :: "(emessage \<times> string) list"
  ds_last_reap :: nat

definition dispatcher_new :: "'f \<Rightarrow> 'q link list \<Rightarrow> string option \<Rightarrow> nat \<Rightarrow> ('f, 'q) dispatcher" where
  "dispatcher_new f boxes node now =
     \<lparr>ds_fabric = f, ds_boxes = boxes, ds_cursor = 0, ds_seen = - 1, ds_cache = [], ds_node = node,
      ds_reclaimed = [], ds_last_reap = now\<rparr>"

definition on_queue :: "('f, 'a) act \<Rightarrow> (('f, 'q) dispatcher, 'a) act" where
  "on_queue m d = (case m (ds_fabric d) of (r, f) \<Rightarrow> (r, d\<lparr>ds_fabric := f\<rparr>))"

text \<open>The periodic sweep for abandoned claims.\<close>

definition dispatch_reap :: "'f econsumer \<Rightarrow> nat \<Rightarrow> nat \<Rightarrow> (('f, 'q) dispatcher, unit) act" where
  "dispatch_reap ops now now' =
     bindA (getA (\<lambda>d. TOPIC_REAP_INTERVAL \<le> now - ds_last_reap d)) (\<lambda>due.
     if due then
       bindA (putA (\<lambda>d. d\<lparr>ds_last_reap := now'\<rparr>)) (\<lambda>_.
       bindA (on_queue (ec_claim_stale ops TOPIC_REAP_MIN_IDLE)) (\<lambda>r. case r of
           Inr entries \<Rightarrow> putA (\<lambda>d. d\<lparr>ds_reclaimed := ds_reclaimed d @
             map (\<lambda>c. (cm_message c, cm_claim_id c)) entries\<rparr>)
         | Inl _ \<Rightarrow> ret ()))
     else ret ())"

definition next_claim ::
    "'f econsumer \<Rightarrow> (('f, 'q) dispatcher, (emessage \<times> string) option) act" where
  "next_claim ops =
     bindA (getA ds_reclaimed) (\<lambda>rs. case rs of
         p # ps \<Rightarrow> bindA (putA (\<lambda>d. d\<lparr>ds_reclaimed := ps\<rparr>)) (\<lambda>_. ret (Some p))
       | [] \<Rightarrow> bindA (on_queue (ec_claim ops)) (\<lambda>r. case r of
             Inr (Some c) \<Rightarrow> ret (Some (cm_message c, cm_claim_id c))
           | _ \<Rightarrow> ret None))"

definition dispatch_refresh :: "u64 \<Rightarrow> string list \<Rightarrow> (string, nat) hashmap
    \<Rightarrow> ('f, 'q) dispatcher \<Rightarrow> ('f, 'q) dispatcher" where
  "dispatch_refresh generation names inboxes d =
     (if generation \<noteq> ds_seen d \<or> ds_cache d = [] then
        let cache = List.map_filter (\<lambda>n. map_option (Pair n) (hm_get inboxes n)) names in
        d\<lparr>ds_cache := cache, ds_seen := generation,
          ds_cursor := (if cache \<noteq> [] then ds_cursor d mod of_nat (length cache) else ds_cursor d)\<rparr>
      else d)"

text \<open>\<^verbatim>\<open>Iterator::position\<close>.\<close>

fun position :: "('a \<Rightarrow> bool) \<Rightarrow> 'a list \<Rightarrow> nat option" where
  "position P [] = None"
| "position P (x # xs) = (if P x then Some 0 else map_option Suc (position P xs))"

definition names_worker :: "string option \<Rightarrow> string \<Rightarrow> string \<Rightarrow> bool" where
  "names_worker node target name \<longleftrightarrow>
     name = target \<or> (case node of Some n \<Rightarrow> name = n @ ''@'' @ target | None \<Rightarrow> False)"

definition local_match :: "string option \<Rightarrow> (string \<times> nat) list \<Rightarrow> emessage \<Rightarrow> nat option" where
  "local_match node cache msg =
     (case to_worker msg of
        None \<Rightarrow> None
      | Some target \<Rightarrow> position (\<lambda>(name, _). names_worker node target name) cache)"

definition box_try_send :: "nat \<Rightarrow> emessage \<Rightarrow> (('f, 'q) dispatcher, string + unit) act" where
  "box_try_send b msg d =
     (let l = ds_boxes d ! b in
      case ch_try_send (ln_chan l) msg (ln_q l) of
        (r, q) \<Rightarrow> (Ret r, d\<lparr>ds_boxes := (ds_boxes d)[b := l\<lparr>ln_q := q\<rparr>]\<rparr>))"

text \<open>Delivery to the inbox of one cached worker, then the acknowledgement.\<close>

definition hand_over :: "'f econsumer \<Rightarrow> nat \<Rightarrow> emessage \<Rightarrow> string \<Rightarrow> (('f, 'q) dispatcher, unit) act"
  where
  "hand_over ops index msg claim_id =
     bindA (getA (\<lambda>d. ds_cache d ! index)) (\<lambda>(target, box).
     bindA (box_try_send box (msg\<lparr>to_worker := Some target\<rparr>)) (\<lambda>r. case r of
         Inr _ \<Rightarrow> bindA (on_queue (ec_ack ops claim_id)) (\<lambda>_. ret ())
       | Inl _ \<Rightarrow>
           bindA (on_queue (ec_nack ops claim_id)) (\<lambda>_.
           putA (\<lambda>d. d\<lparr>ds_seen := - 1\<rparr>))))"

definition dispatch_one :: "'f econsumer \<Rightarrow> 'f eproducer \<Rightarrow> emessage \<Rightarrow> string
    \<Rightarrow> (('f, 'q) dispatcher, unit) act" where
  "dispatch_one ops producer msg claim_id =
     bindA (getA (\<lambda>d. (ds_cache d, local_match (ds_node d) (ds_cache d) msg))) (\<lambda>(cache, target).
     if cache = [] then bindA (on_queue (ec_nack ops claim_id)) (\<lambda>_. ret ())
     else case target of
         Some index \<Rightarrow> hand_over ops index msg claim_id
       | None \<Rightarrow>
           if to_worker msg \<noteq> None then
             if MAX_TARGETED_HOPS \<le> attempts msg then
               bindA (on_queue (ec_ack ops claim_id)) (\<lambda>_. ret ())
             else
               bindA (on_queue (ec_ack ops claim_id)) (\<lambda>_.
               bindA (on_queue (ep_send producer (msg\<lparr>attempts := attempts msg + 1\<rparr>))) (\<lambda>_. ret ()))
           else
             bindA (getA (\<lambda>d. unat (ds_cursor d mod of_nat (length cache)))) (\<lambda>index.
             bindA (putA (\<lambda>d. d\<lparr>ds_cursor := ds_cursor d + 1\<rparr>)) (\<lambda>_.
             hand_over ops index msg claim_id)))"

definition dispatch_turn :: "'f econsumer \<Rightarrow> 'f eproducer \<Rightarrow> u64 \<Rightarrow> string list \<Rightarrow> (string, nat) hashmap
    \<Rightarrow> nat \<Rightarrow> nat \<Rightarrow> (('f, 'q) dispatcher, unit) act" where
  "dispatch_turn ops producer generation names inboxes now now' =
     bindA (dispatch_reap ops now now') (\<lambda>_.
     bindA (next_claim ops) (\<lambda>claimed. case claimed of
         None \<Rightarrow> ret ()
       | Some (msg, claim_id) \<Rightarrow>
           bindA (putA (dispatch_refresh generation names inboxes)) (\<lambda>_.
           dispatch_one ops producer msg claim_id)))"


section \<open>The main loop\<close>

text \<open>
  One batch of \<^verbatim>\<open>recv\<close> over the router's tables, with the main consumer on the same queue state
  as the world's producers. The verdict on a claim is its place in the list to acknowledge or
  in the list to return.
\<close>

datatype verdict = ToAck string | ToNack string

definition on_main :: "('f, 'a) act \<Rightarrow> (('f, 'w, 'k, 'q) consumer_router, 'a) act" where
  "on_main m = in_world (on_fabric m)"

definition find_target :: "string \<Rightarrow> (('f, 'w, 'k, 'q) consumer_router,
    ('f, ('f, 'w) world) worker option) act" where
  "find_target target =
     getA (\<lambda>r. map_option fst (case hm_get (cr_index r) target of
         Some p \<Rightarrow> Some p
       | None \<Rightarrow> (case w_node_name (cr_world r) of
           Some node \<Rightarrow> hm_get (cr_index r) (node @ ''@'' @ target) | None \<Rightarrow> None)))"

definition recv_one :: "claimed_message \<Rightarrow> (('f, 'w, 'k, 'q) consumer_router, verdict) act" where
  "recv_one claimed =
     (let msg = cm_message claimed; claim_id = cm_claim_id claimed in
      bindA (getA (\<lambda>r. hm_get (cr_topics r) (msg_topic msg))) (\<lambda>entry. case entry of
          None \<Rightarrow> ret (ToNack claim_id)
        | Some e \<Rightarrow>
            bindA (case to_worker msg of
                Some target \<Rightarrow> find_target target
              | None \<Rightarrow> select_local_idle_worker (msg_topic msg)) (\<lambda>worker. case worker of
                Some w \<Rightarrow>
                  bindA (on_main (ep_send (wk_producer w) msg)) (\<lambda>r. ret (case r of
                      Inr _ \<Rightarrow> ToAck claim_id | Inl _ \<Rightarrow> ToNack claim_id))
              | None \<Rightarrow>
                  if to_worker msg \<noteq> None then
                    if MAX_TARGETED_HOPS \<le> attempts msg then ret (ToAck claim_id)
                    else
                      bindA (on_main (ep_send (te_producer e) (msg\<lparr>attempts := attempts msg + 1\<rparr>)))
                        (\<lambda>r. ret (case r of Inr _ \<Rightarrow> ToAck claim_id | Inl _ \<Rightarrow> ToNack claim_id))
                  else
                    bindA (create_ephemeral_worker (msg_topic msg) msg) (\<lambda>r. ret (case r of
                        Inr _ \<Rightarrow> ToAck claim_id | Inl _ \<Rightarrow> ToNack claim_id)))))"

fun recv_all :: "claimed_message list \<Rightarrow> (('f, 'w, 'k, 'q) consumer_router, verdict list) act" where
  "recv_all [] = ret []"
| "recv_all (c # cs) = bindA (recv_one c) (\<lambda>v. bindA (recv_all cs) (\<lambda>vs. ret (v # vs)))"

fun acks :: "verdict list \<Rightarrow> string list" where
  "acks [] = []"
| "acks (ToAck k # vs) = k # acks vs"
| "acks (ToNack k # vs) = acks vs"

fun nacks :: "verdict list \<Rightarrow> string list" where
  "nacks [] = []"
| "nacks (ToAck k # vs) = nacks vs"
| "nacks (ToNack k # vs) = k # nacks vs"

definition recv_turn :: "'f econsumer \<Rightarrow> (('f, 'w, 'k, 'q) consumer_router, unit) act" where
  "recv_turn ops =
     bindA (getA cr_batch) (\<lambda>n.
     bindA (on_main (ec_claim_batch ops (unat n))) (\<lambda>r. case r of
         Inl _ \<Rightarrow> ret ()
       | Inr batch \<Rightarrow>
           if batch = [] then ret ()
           else
             bindA (recv_all batch) (\<lambda>vs.
             bindA (forA (\<lambda>k. on_main (ec_ack ops k)) (acks vs)) (\<lambda>_.
             forA (\<lambda>k. on_main (ec_nack ops k)) (nacks vs)))))"



section \<open>Where the messages are\<close>

definition msg_ids :: "emessage list \<Rightarrow> string multiset" where
  "msg_ids ms = image_mset msg_id (mset ms)"

definition box_ids :: "'q link list \<Rightarrow> string multiset" where
  "box_ids bs = sum_list (map (\<lambda>l. msg_ids (link_items l)) bs)"

lemma msg_ids_simps [simp]:
  "msg_ids [] = {#}" "msg_ids (m # ms) = add_mset (msg_id m) (msg_ids ms)"
  "msg_ids (ms @ ns) = msg_ids ms + msg_ids ns"
  by (simp_all add: msg_ids_def)

lemma box_ids_update:
  "b < length bs \<Longrightarrow> msg_ids (link_items l) = N + msg_ids (link_items (bs ! b)) \<Longrightarrow>
   box_ids (bs[b := l]) = N + box_ids bs"
proof (induction bs arbitrary: b)
  case (Cons l' bs)
  then show ?case by (cases b) (simp_all add: box_ids_def)
qed simp

text \<open>The identifiers of all messages queued, claimed, or in an inbox.\<close>

definition carried :: "('f \<Rightarrow> emessage list) \<Rightarrow> ('f \<Rightarrow> (string, emessage) hashmap)
    \<Rightarrow> ('f, 'q) dispatcher \<Rightarrow> string multiset" where
  "carried queued inflight d =
     msg_ids (queued (ds_fabric d)) + msg_ids (hm_values (inflight (ds_fabric d))) +
     box_ids (ds_boxes d)"

definition disp_inv :: "('f \<Rightarrow> bool) \<Rightarrow> ('f \<Rightarrow> (string, emessage) hashmap) \<Rightarrow> ('f, 'q) dispatcher \<Rightarrow> bool"
  where
  "disp_inv qinv inflight d \<longleftrightarrow> qinv (ds_fabric d) \<and> (\<forall>l \<in> set (ds_boxes d). link_inv l) \<and>
     (\<forall>p \<in> set (ds_cache d). snd p < length (ds_boxes d)) \<and> length (ds_cache d) < 2 ^ 64 \<and>
     distinct (map snd (ds_reclaimed d)) \<and>
     (\<forall>(m, k) \<in> set (ds_reclaimed d). hm_get (inflight (ds_fabric d)) k = Some m)"

lemma position_bound: "position P xs = Some i \<Longrightarrow> i < length xs \<and> P (xs ! i)"
  by (induction xs arbitrary: i) (auto split: if_splits)

text \<open>The contract of a topic's queue towards its dispatcher.\<close>

locale dispatch_queue = claim_queue ops inv queued inflight
  for ops :: "'f econsumer" and inv queued inflight +
  fixes pdr :: "'f eproducer"
  assumes psend_inv: "keeps inv (ep_send pdr m)"
    and psend_ok: "inv f \<Longrightarrow> ep_send pdr m f = (Ret (Inr ()), f') \<Longrightarrow>
      queued f' = queued f @ [m] \<and> inflight f' = inflight f"
    and psend_other: "inv f \<Longrightarrow> ep_send pdr m f = (r, f') \<Longrightarrow> r \<noteq> Ret (Inr ()) \<Longrightarrow>
      queued f' = queued f \<and> inflight f' = inflight f"
    and stale_none: "ec_claim_stale ops i f = (Ret (Inr []), f)"
begin

lemma queue_ids:
  assumes "inv f" and "hm_get (inflight f) k = Some m"
  shows "msg_ids (hm_values (inflight f)) = add_mset (msg_id m) (msg_ids (hm_values (hm_remove k (inflight f))))"
  using hm_values_remove [OF inflight_wf [OF assms(1)] assms(2)] by (simp add: msg_ids_def)

text \<open>
  The claim \<open>k\<close> on the message \<open>m\<close>, which the dispatcher holds apart from its list of reclaimed
  messages.
\<close>

definition holds :: "emessage \<Rightarrow> string \<Rightarrow> ('f, 'q) dispatcher \<Rightarrow> bool" where
  "holds m k d \<longleftrightarrow> disp_inv inv inflight d \<and> hm_get (inflight (ds_fabric d)) k = Some m \<and>
     k \<notin> snd ` set (ds_reclaimed d)"

lemma ack_step:
  assumes "holds m k d"
  shows "\<exists>d'. on_queue (ec_ack ops k) d = (Ret (Inr ()), d') \<and> disp_inv inv inflight d' \<and>
    ds_boxes d' = ds_boxes d \<and> ds_cache d' = ds_cache d \<and>
    carried queued inflight d = add_mset (msg_id m) (carried queued inflight d')"
proof -
  have inv: "inv (ds_fabric d)" and m: "hm_get (inflight (ds_fabric d)) k = Some m"
    using assms by (simp_all add: holds_def disp_inv_def)
  obtain f where f: "ec_ack ops k (ds_fabric d) = (Ret (Inr ()), f)" "queued f = queued (ds_fabric d)"
      "inflight f = hm_remove k (inflight (ds_fabric d))"
    using ack_spec [OF inv] by blast
  have "inv f" using keepsD [OF ack_inv inv, of k] f(1) by simp
  with assms f(3) have "disp_inv inv inflight (d\<lparr>ds_fabric := f\<rparr>)"
    by (force simp: disp_inv_def holds_def)
  with f queue_ids [OF inv m] show ?thesis
    by (intro exI [of _ "d\<lparr>ds_fabric := f\<rparr>"]) (simp add: on_queue_def carried_def)
qed

lemma nack_step:
  assumes "holds m k d" and "on_queue (ec_nack ops k) d = (r, d')"
  shows "disp_inv inv inflight d' \<and> carried queued inflight d' = carried queued inflight d \<and>
    ds_boxes d' = ds_boxes d \<and> ds_cache d' = ds_cache d"
proof -
  have inv: "inv (ds_fabric d)" and m: "hm_get (inflight (ds_fabric d)) k = Some m"
    using assms(1) by (simp_all add: holds_def disp_inv_def)
  obtain f where f: "ec_nack ops k (ds_fabric d) = (r, f)" "d' = d\<lparr>ds_fabric := f\<rparr>"
    using assms(2) by (auto simp: on_queue_def split: prod.splits)
  have f': "inv f" using keepsD [OF nack_inv inv, of k] f(1) by simp
  show ?thesis
  proof (cases "r = Ret (Inr ())")
    case True
    then have q: "queued f = queued (ds_fabric d) @ [m]" "inflight f = hm_remove k (inflight (ds_fabric d))"
      using nack_ok [OF inv, of k f] f(1) m by auto
    have "disp_inv inv inflight d'"
      using assms(1) q(2) f' f(2) by (force simp: disp_inv_def holds_def)
    with q f(2) queue_ids [OF inv m] show ?thesis by (simp add: carried_def)
  next
    case False
    with nack_other [OF inv f(1)] assms(1) f f' show ?thesis
      by (simp add: carried_def disp_inv_def holds_def)
  qed
qed

lemma box_step:
  assumes "holds m k d" and "b < length (ds_boxes d)" and "msg_id m' = msg_id m"
    and "box_try_send b m' d = (Ret r, d')"
  shows "holds m k d' \<and> ds_cache d' = ds_cache d \<and> carried queued inflight d' =
    (if r = Inr () then {#msg_id m#} else {#}) + carried queued inflight d"
proof -
  define l where "l = ds_boxes d ! b"
  have l: "link_inv l" using assms(1,2) by (simp add: l_def holds_def disp_inv_def)
  obtain q where q: "ch_try_send (ln_chan l) m' (ln_q l) = (r, q)"
      "d' = d\<lparr>ds_boxes := (ds_boxes d)[b := l\<lparr>ln_q := q\<rparr>]\<rparr>"
    using assms(4) by (auto simp: box_try_send_def l_def Let_def split: prod.splits)
  have "link_items (l\<lparr>ln_q := q\<rparr>) = link_items l @ (if r = Inr () then [m'] else [])"
    using q(1) l chan_try_send_ok [of "ln_chan l" m' "ln_q l" q]
      chan_try_send_err [of "ln_chan l" m' "ln_q l" _ q]
    by (cases r) (simp_all add: link_inv_def link_items_def)
  then have "box_ids (ds_boxes d') = (if r = Inr () then {#msg_id m#} else {#}) + box_ids (ds_boxes d)"
    unfolding q(2) using assms(2,3) by (simp add: l_def box_ids_update)
  moreover have "holds m k d'"
    using assms(1) l by (auto simp: holds_def disp_inv_def q(2) set_update_subset_insert
        dest!: set_update_subset_insert [THEN subsetD])
  ultimately show ?thesis using q(2) by (simp add: carried_def ac_simps)
qed

lemma hand_over_step:
  assumes h: "holds m k d" and i: "index < length (ds_cache d)"
    and run: "hand_over ops index m k d = (r, d')"
  shows "disp_inv inv inflight d' \<and> carried queued inflight d' = carried queued inflight d"
proof -
  obtain target box where c: "ds_cache d ! index = (target, box)" by fastforce
  then have b: "box < length (ds_boxes d)"
    using h i nth_mem [OF i] by (fastforce simp: holds_def disp_inv_def)
  obtain x d1 where x: "box_try_send box (m\<lparr>to_worker := Some target\<rparr>) d = (Ret x, d1)"
    by (simp add: box_try_send_def Let_def split_def)
  note step = box_step [OF h b _ x]
  show ?thesis
  proof (cases x)
    case (Inl e)
    with step have h1: "holds m k d1" "carried queued inflight d1 = carried queued inflight d" by simp_all
    obtain y d2 where y: "on_queue (ec_nack ops k) d1 = (y, d2)" by fastforce
    from nack_step [OF h1(1) y] h1(2)
    have "disp_inv inv inflight d2 \<and> carried queued inflight d2 = carried queued inflight d" by simp
    moreover have "d' = d2 \<or> d' = d2\<lparr>ds_seen := - 1\<rparr>"
      using run c x Inl y by (auto simp: hand_over_def bindA_def outcome_simps split: outcome.splits)
    ultimately show ?thesis by (elim disjE) (simp_all add: disp_inv_def carried_def)
  next
    case (Inr u)
    with step have h1: "holds m k d1"
        "carried queued inflight d1 = add_mset (msg_id m) (carried queued inflight d)" by simp_all
    obtain d2 where "on_queue (ec_ack ops k) d1 = (Ret (Inr ()), d2)" "disp_inv inv inflight d2"
        "carried queued inflight d1 = add_mset (msg_id m) (carried queued inflight d2)"
      using ack_step [OF h1(1)] by blast
    with run c x Inr h1(2) show ?thesis
      by (auto simp: hand_over_def bindA_def outcome_simps)
  qed
qed

lemma relay_step:
  assumes h: "holds m k d" and id: "msg_id m' = msg_id m"
    and run: "bindA (on_queue (ec_ack ops k)) (\<lambda>_. bindA (on_queue (ep_send pdr m')) (\<lambda>_. ret ())) d = (r, d')"
  shows "disp_inv inv inflight d' \<and> (carried queued inflight d' = carried queued inflight d \<or>
     (\<exists>f x. inv f \<and> ep_send pdr m' f = (x, ds_fabric d') \<and> x \<noteq> Ret (Inr ())) \<and>
     carried queued inflight d = add_mset (msg_id m) (carried queued inflight d'))"
proof -
  obtain d1 where d1: "on_queue (ec_ack ops k) d = (Ret (Inr ()), d1)" "disp_inv inv inflight d1"
      "carried queued inflight d = add_mset (msg_id m) (carried queued inflight d1)"
    using ack_step [OF h] by blast
  have inv: "inv (ds_fabric d1)" using d1(2) by (simp add: disp_inv_def)
  obtain x f where x: "ep_send pdr m' (ds_fabric d1) = (x, f)" by fastforce
  then have d': "d' = d1\<lparr>ds_fabric := f\<rparr>"
    using run d1(1) by (auto simp: bindA_def on_queue_def outcome_simps split: outcome.splits)
  have f: "inv f" "inflight f = inflight (ds_fabric d1)"
    using keepsD [OF psend_inv inv, of m'] x psend_ok [OF inv, of m' f] psend_other [OF inv x] by auto
  then have "disp_inv inv inflight d'" using d1(2) by (simp add: disp_inv_def d')
  moreover have "carried queued inflight d' = carried queued inflight d" if "x = Ret (Inr ())"
    using psend_ok [OF inv, of m' f] x that d1(3) id by (simp add: carried_def d')
  moreover have "carried queued inflight d' = carried queued inflight d1" if "x \<noteq> Ret (Inr ())"
    using psend_other [OF inv x that] by (simp add: carried_def d')
  moreover have "ep_send pdr m' (ds_fabric d1) = (x, ds_fabric d')" using x d' by simp
  ultimately show ?thesis using d1(3) inv by (cases "x = Ret (Inr ())") auto
qed

lemma round_robin_index:
  "disp_inv inv inflight d \<Longrightarrow> ds_cache d \<noteq> [] \<Longrightarrow>
   unat (c mod of_nat (length (ds_cache d)) :: u64) < length (ds_cache d)"
proof -
  assume "disp_inv inv inflight d" "ds_cache d \<noteq> []"
  then have "unat (of_nat (length (ds_cache d)) :: u64) = length (ds_cache d)" "length (ds_cache d) \<noteq> 0"
    by (simp_all add: disp_inv_def unsigned_of_nat take_bit_nat_eq_self)
  then show ?thesis by (simp add: unat_mod_distrib)
qed

lemma dispatch_one_step:
  assumes h: "holds m k d" and run: "dispatch_one ops pdr m k d = (r, d')"
  shows "disp_inv inv inflight d' \<and> (carried queued inflight d' = carried queued inflight d \<or>
     to_worker m \<noteq> None \<and> local_match (ds_node d) (ds_cache d) m = None \<and>
     (64 \<le> attempts m \<or> (\<exists>f x. inv f \<and>
        ep_send pdr (m\<lparr>attempts := attempts m + 1\<rparr>) f = (x, ds_fabric d') \<and> x \<noteq> Ret (Inr ()))) \<and>
     carried queued inflight d = add_mset (msg_id m) (carried queued inflight d'))"
proof (cases "ds_cache d = []")
  case True
  obtain y d2 where y: "on_queue (ec_nack ops k) d = (y, d2)" by fastforce
  with nack_step [OF h y] run True show ?thesis
    by (auto simp: dispatch_one_def bindA_def outcome_simps split: outcome.splits)
next
  case ne: False
  show ?thesis
  proof (cases "local_match (ds_node d) (ds_cache d) m")
    case (Some index)
    then have "index < length (ds_cache d)"
      by (auto simp: local_match_def dest: position_bound split: option.splits)
    moreover have "hand_over ops index m k d = (r, d')"
      using run ne Some by (simp add: dispatch_one_def bindA_def outcome_simps)
    ultimately show ?thesis using hand_over_step [OF h] by blast
  next
    case miss: None
    show ?thesis
    proof (cases "to_worker m")
      case (Some t)
      show ?thesis
      proof (cases "64 \<le> attempts m")
        case True
        obtain d1 where "on_queue (ec_ack ops k) d = (Ret (Inr ()), d1)" "disp_inv inv inflight d1"
            "carried queued inflight d = add_mset (msg_id m) (carried queued inflight d1)"
          using ack_step [OF h] by blast
        with run ne miss Some True show ?thesis
          by (auto simp: dispatch_one_def MAX_TARGETED_HOPS_def bindA_def outcome_simps)
      next
        case False
        then have "bindA (on_queue (ec_ack ops k)) (\<lambda>_.
            bindA (on_queue (ep_send pdr (m\<lparr>attempts := attempts m + 1\<rparr>))) (\<lambda>_. ret ())) d = (r, d')"
          using run ne miss Some
          by (simp add: dispatch_one_def MAX_TARGETED_HOPS_def bindA_Ret getA_def)
        from relay_step [OF h _ this] miss Some show ?thesis by auto
      qed
    next
      case None
      let ?d = "d\<lparr>ds_cursor := ds_cursor d + 1\<rparr>"
      have "hand_over ops (unat (ds_cursor d mod of_nat (length (ds_cache d)))) m k ?d = (r, d')"
        using run ne miss None by (simp add: dispatch_one_def bindA_def outcome_simps)
      moreover have "holds m k ?d" using h by (simp add: holds_def disp_inv_def)
      ultimately have "disp_inv inv inflight d' \<and> carried queued inflight d' = carried queued inflight ?d"
        using h ne by (intro hand_over_step) (simp_all add: holds_def round_robin_index)
      then show ?thesis by (simp add: carried_def)
    qed
  qed
qed

lemma reap_step:
  assumes "disp_inv inv inflight d"
  shows "\<exists>d'. dispatch_reap ops now now' d = (Ret (), d') \<and> disp_inv inv inflight d' \<and>
    carried queued inflight d' = carried queued inflight d \<and> ds_cache d' = ds_cache d \<and>
    ds_boxes d' = ds_boxes d \<and> ds_node d' = ds_node d"
  using assms stale_none [of TOPIC_REAP_MIN_IDLE "ds_fabric d"]
  by (simp add: dispatch_reap_def bindA_def outcome_simps on_queue_def disp_inv_def carried_def)

lemma claim_step:
  assumes d: "disp_inv inv inflight d" and run: "next_claim ops d = (x, d')"
  shows "disp_inv inv inflight d' \<and> carried queued inflight d' = carried queued inflight d \<and>
    ds_boxes d' = ds_boxes d \<and> ds_cache d' = ds_cache d \<and> ds_node d' = ds_node d \<and>
    (case x of Ret (Some (m, k)) \<Rightarrow> holds m k d' | _ \<Rightarrow> True)"
proof (cases "ds_reclaimed d")
  case (Cons p ps)
  then have "x = Ret (Some p)" "d' = d\<lparr>ds_reclaimed := ps\<rparr>"
    using run by (simp_all add: next_claim_def bindA_def outcome_simps)
  with d Cons show ?thesis by (cases p) (force simp: holds_def disp_inv_def carried_def)
next
  case Nil
  have inv: "inv (ds_fabric d)" using d by (simp add: disp_inv_def)
  obtain y f where y: "ec_claim ops (ds_fabric d) = (y, f)" by fastforce
  then have d': "d' = d\<lparr>ds_fabric := f\<rparr>"
    using run Nil by (auto simp: next_claim_def bindA_def on_queue_def outcome_simps
        split: outcome.splits sum.splits option.splits)
  have f: "inv f" using keepsD [OF claim_inv inv] y by simp
  show ?thesis
  proof (cases "\<exists>cm. y = Ret (Inr (Some cm))")
    case True
    then obtain cm where cm: "y = Ret (Inr (Some cm))" by blast
    note c = claim_Some [OF inv y [unfolded cm]]
    have "msg_ids (hm_values (inflight f)) =
        add_mset (msg_id (cm_message cm)) (msg_ids (hm_values (inflight (ds_fabric d))))"
      using c hm_values_insert_fresh [of "inflight (ds_fabric d)" "cm_claim_id cm" "cm_message cm"]
      by (simp add: msg_ids_def)
    moreover have "x = Ret (Some (cm_message cm, cm_claim_id cm))"
      using run Nil y cm by (simp add: next_claim_def bindA_def on_queue_def outcome_simps)
    ultimately show ?thesis
      using d d' c f Nil by (auto simp: disp_inv_def holds_def carried_def)
  next
    case False
    then have same: "queued f = queued (ds_fabric d)" "inflight f = inflight (ds_fabric d)"
      using claim_other [OF inv y] by auto
    have "\<not> (\<exists>p. x = Ret (Some p))"
      using run Nil y False by (auto simp: next_claim_def bindA_def on_queue_def outcome_simps
          split: outcome.splits sum.splits option.splits)
    with same d d' f Nil show ?thesis
      by (auto simp: disp_inv_def carried_def split: outcome.splits option.splits)
  qed
qed

lemma refresh_step:
  assumes "length names < 2 ^ 64" and "\<And>n b. hm_get inboxes n = Some b \<Longrightarrow> b < length (ds_boxes d)"
  shows "holds m k d \<Longrightarrow> holds m k (dispatch_refresh g names inboxes d)"
    and "carried queued inflight (dispatch_refresh g names inboxes d) = carried queued inflight d"
proof -
  let ?c = "List.map_filter (\<lambda>n. map_option (Pair n) (hm_get inboxes n)) names"
  have len: "length ?c < 2 ^ 64"
    using assms(1) le_less_trans [OF length_filter_le] by (simp add: List.map_filter_def)
  have "\<forall>p \<in> set ?c. snd p < length (ds_boxes d)"
    using assms(2) by (auto simp: List.map_filter_def)
  with len show "holds m k d \<Longrightarrow> holds m k (dispatch_refresh g names inboxes d)"
    by (auto simp: dispatch_refresh_def Let_def holds_def disp_inv_def)
  show "carried queued inflight (dispatch_refresh g names inboxes d) = carried queued inflight d"
    by (simp add: dispatch_refresh_def Let_def carried_def)
qed

lemma turn_step:
  assumes d: "disp_inv inv inflight d" and names: "length names < 2 ^ 64"
    and boxes: "\<forall>n b. hm_get inboxes n = Some b \<longrightarrow> b < length (ds_boxes d)"
    and run: "dispatch_turn ops pdr g names inboxes now now' d = (r, d')"
  shows "disp_inv inv inflight d' \<and> (carried queued inflight d' = carried queued inflight d \<or>
     (\<exists>m. to_worker m \<noteq> None \<and>
       (64 \<le> attempts m \<or> (\<exists>f x. inv f \<and>
        ep_send pdr (m\<lparr>attempts := attempts m + 1\<rparr>) f = (x, ds_fabric d') \<and> x \<noteq> Ret (Inr ()))) \<and>
       carried queued inflight d = add_mset (msg_id m) (carried queued inflight d')))"
proof -
  obtain d1 where d1: "dispatch_reap ops now now' d = (Ret (), d1)" "disp_inv inv inflight d1"
      "carried queued inflight d1 = carried queued inflight d" "ds_boxes d1 = ds_boxes d"
    using reap_step [OF d] by blast
  obtain x d2 where d2: "next_claim ops d1 = (x, d2)" by fastforce
  note c = claim_step [OF d1(2) d2]
  show ?thesis
  proof (cases "\<exists>m k. x = Ret (Some (m, k))")
    case False
    then have "d' = d2"
      using run d1(1) d2 by (auto simp: dispatch_turn_def bindA_def outcome_simps
          split: outcome.splits option.splits)
    with c d1(3) show ?thesis by simp
  next
    case True
    then obtain m k where x: "x = Ret (Some (m, k))" by blast
    let ?d = "dispatch_refresh g names inboxes d2"
    have one: "dispatch_one ops pdr m k ?d = (r, d')"
      using run d1(1) d2 x by (simp add: dispatch_turn_def bindA_def outcome_simps)
    have h: "holds m k ?d"
      by (rule refresh_step(1) [OF names]) (use boxes c d1(4) x in simp_all)
    have "carried queued inflight ?d = carried queued inflight d"
      using refresh_step(2) [OF names, of inboxes d2 g] boxes c d1(3,4) by simp
    with dispatch_one_step [OF h one] show ?thesis by auto
  qed
qed

end


text \<open>A queue that takes every message.\<close>

locale open_dispatch_queue = dispatch_queue +
  assumes psend_accepts: "inv f \<Longrightarrow> \<exists>f'. ep_send pdr m f = (Ret (Inr ()), f')"
begin

lemma open_turn_step:
  assumes "disp_inv inv inflight d" and "length names < 2 ^ 64"
    and "\<forall>n b. hm_get inboxes n = Some b \<longrightarrow> b < length (ds_boxes d)"
    and "dispatch_turn ops pdr g names inboxes now now' d = (r, d')"
  shows "disp_inv inv inflight d' \<and> (carried queued inflight d' = carried queued inflight d \<or>
     (\<exists>m :: emessage. to_worker m \<noteq> None \<and> 64 \<le> attempts m \<and>
       carried queued inflight d = add_mset (msg_id m) (carried queued inflight d')))"
proof -
  have none: "(\<exists>f x. inv f \<and> ep_send pdr m f = (x, f') \<and> x \<noteq> Ret (Inr ())) \<longleftrightarrow> False" for m f'
    using psend_accepts [of _ m] by fastforce
  show ?thesis using turn_step [OF assms] unfolding none by simp
qed

end


section \<open>The flume queue\<close>

lemma mem_sends:
  "keeps mem_inv (flume_send m)"
  "flume_send m c = (r, c') \<Longrightarrow> mc_pending c' = mc_pending c"
  unfolding flume_send_def
  by (intro keeps_intros, simp) (auto simp: bindA_def on_q_def outcome_simps split: prod.splits outcome.splits sum.splits)

definition open_mem :: "'q mem_consumer \<Rightarrow> bool" where
  "open_mem c \<longleftrightarrow> mem_inv c \<and> chan_accepting (ln_chan c)"

lemma open_mem_keeps:
  assumes "keeps mem_inv m" and "\<And>c. ln_chan (snd (m c)) = ln_chan c"
  shows "keeps open_mem m"
  using assms by (simp add: keeps_def open_mem_def)

lemma flume_chan:
  "ln_chan (snd (flume_send m c)) = ln_chan c" "ln_chan (snd (flume_receive c)) = ln_chan c"
  "ln_chan (snd (flume_claim c)) = ln_chan c" "ln_chan (snd (flume_ack k c)) = ln_chan c"
  "ln_chan (snd (flume_nack k c)) = ln_chan c"
  by (auto simp: flume_send_def flume_receive_def flume_claim_def flume_ack_def flume_nack_def
      bindA_def on_q_def outcome_simps register_claim_app
      split: prod.splits outcome.splits sum.splits option.splits)

interpretation flume_dispatch: open_dispatch_queue flume_consumer open_mem link_items mc_pending
  flume_producer
proof unfold_locales
  fix c c' :: "'a mem_consumer" and k m cm and v :: "emessage option outcome"
    and r :: "claimed_message option result outcome" and u :: "unit result outcome" and i
  note ops = flume_consumer_def flume_producer_def
  show "keeps open_mem (ec_receive (flume_consumer :: 'a mem_consumer econsumer))"
    using flume_cons.receive_inv by (intro open_mem_keeps) (simp_all add: ops flume_chan)
  show "keeps open_mem (ec_claim (flume_consumer :: 'a mem_consumer econsumer))"
    using flume_cons.claim_inv by (intro open_mem_keeps) (simp_all add: ops flume_chan)
  show "keeps open_mem (ec_ack (flume_consumer :: 'a mem_consumer econsumer) k)"
    using flume_cons.ack_inv by (intro open_mem_keeps) (simp_all add: ops flume_chan)
  show "keeps open_mem (ec_nack (flume_consumer :: 'a mem_consumer econsumer) k)"
    using flume_cons.nack_inv by (intro open_mem_keeps) (simp_all add: ops flume_chan)
  show "keeps open_mem (ep_send (flume_producer :: 'a mem_consumer eproducer) m)"
    using mem_sends(1) by (intro open_mem_keeps) (simp_all add: ops flume_chan)
  show "ec_claim_stale flume_consumer i c = (Ret (Inr []), c)"
    by (simp add: ops default_claim_stale_def ret_def)
  assume "open_mem c"
  then have c: "mem_inv c" "link_inv c" "chan_accepting (ln_chan c)"
    by (simp_all add: open_mem_def mem_inv_def)
  show "hm_wf (mc_pending c)" using flume_cons.inflight_wf [OF c(1)] .
  show "ec_receive flume_consumer c = (Ret (Some m), c') \<Longrightarrow>
      link_items c = m # link_items c' \<and> mc_pending c' = mc_pending c"
    by (rule flume_cons.receive_Some [OF c(1)])
  show "ec_receive flume_consumer c = (v, c') \<Longrightarrow> (\<And>m. v \<noteq> Ret (Some m)) \<Longrightarrow>
      link_items c' = link_items c \<and> mc_pending c' = mc_pending c"
    by (rule flume_cons.receive_other [OF c(1)])
  show "ec_claim flume_consumer c = (Ret (Inr (Some cm)), c') \<Longrightarrow>
      link_items c = cm_message cm # link_items c' \<and> hm_get (mc_pending c) (cm_claim_id cm) = None \<and>
      mc_pending c' = hm_insert (cm_claim_id cm) (cm_message cm) (mc_pending c)"
    by (rule flume_cons.claim_Some [OF c(1)])
  show "ec_claim flume_consumer c = (r, c') \<Longrightarrow> (\<And>cm. r \<noteq> Ret (Inr (Some cm))) \<Longrightarrow>
      link_items c' = link_items c \<and> mc_pending c' = mc_pending c"
    by (rule flume_cons.claim_other [OF c(1)])
  show "\<exists>c'. ec_ack flume_consumer k c = (Ret (Inr ()), c')" by (rule flume_cons.ack_ok [OF c(1)])
  show "link_items (snd (ec_ack flume_consumer k c)) = link_items c \<and>
      mc_pending (snd (ec_ack flume_consumer k c)) = hm_remove k (mc_pending c)"
    by (rule flume_cons.ack_state [OF c(1)])
  show "ec_nack flume_consumer k c = (Ret (Inr ()), c') \<Longrightarrow> \<exists>m. hm_get (mc_pending c) k = Some m \<and>
      link_items c' = link_items c @ [m] \<and> mc_pending c' = hm_remove k (mc_pending c)"
    by (rule flume_cons.nack_ok [OF c(1)])
  show "ec_nack flume_consumer k c = (u, c') \<Longrightarrow> u \<noteq> Ret (Inr ()) \<Longrightarrow>
      link_items c' = link_items c \<and> mc_pending c' = mc_pending c"
    by (rule flume_cons.nack_other [OF c(1)])
  show "ep_send flume_producer m c = (Ret (Inr ()), c') \<Longrightarrow>
      link_items c' = link_items c @ [m] \<and> mc_pending c' = mc_pending c"
    using flume_prod.send_ok [OF c(2), of m c'] mem_sends(2) [of m c _ c'] by (simp add: ops)
  show "ep_send flume_producer m c = (u, c') \<Longrightarrow> u \<noteq> Ret (Inr ()) \<Longrightarrow>
      link_items c' = link_items c \<and> mc_pending c' = mc_pending c"
    using flume_prod.send_other [OF c(2), of m u c'] mem_sends(2) [of m c u c'] by (simp add: ops)
  show "\<exists>c'. ep_send flume_producer m c = (Ret (Inr ()), c')"
    using flume_open.send_accepts [of c m] c by (simp add: open_link_def)
qed



section \<open>Round robin\<close>

text \<open>The messages that worker \<open>j\<close> of \<open>k\<close> is given when the cursor starts at \<open>c\<close>.\<close>

fun rr_share :: "nat \<Rightarrow> nat \<Rightarrow> nat \<Rightarrow> 'a list \<Rightarrow> 'a list" where
  "rr_share k c j [] = []"
| "rr_share k c j (m # ms) = (if c mod k = j then m # rr_share k (Suc c) j ms else rr_share k (Suc c) j ms)"

fun dispatch_turns :: "nat \<Rightarrow> 'f econsumer \<Rightarrow> 'f eproducer \<Rightarrow> u64 \<Rightarrow> string list \<Rightarrow> (string, nat) hashmap
    \<Rightarrow> nat \<Rightarrow> nat \<Rightarrow> (('f, 'q) dispatcher, unit) act" where
  "dispatch_turns 0 ops producer generation names inboxes now now' = ret ()"
| "dispatch_turns (Suc n) ops producer generation names inboxes now now' =
     bindA (dispatch_turn ops producer generation names inboxes now now') (\<lambda>_.
     dispatch_turns n ops producer generation names inboxes now now')"

text \<open>A link that takes the next \<open>n\<close> messages.\<close>

fun takes :: "nat \<Rightarrow> 'q link \<Rightarrow> bool" where
  "takes 0 l = True"
| "takes (Suc n) l = (\<forall>m. case ch_try_send (ln_chan l) m (ln_q l) of
     (r, q) \<Rightarrow> r = Inr () \<and> takes n (l\<lparr>ln_q := q\<rparr>))"

lemma takes_SucE:
  assumes "takes (Suc n) l"
  obtains q where "ch_try_send (ln_chan l) m (ln_q l) = (Inr (), q)" "takes n (l\<lparr>ln_q := q\<rparr>)"
proof -
  obtain r q where s: "ch_try_send (ln_chan l) m (ln_q l) = (r, q)" by fastforce
  from assms have "case ch_try_send (ln_chan l) m (ln_q l) of (r, q) \<Rightarrow> r = Inr () \<and> takes n (l\<lparr>ln_q := q\<rparr>)"
    unfolding takes.simps by (rule spec)
  with s that show thesis by simp
qed

declare takes.simps(2) [simp del]

lemma takes_less: "takes (Suc n) l \<Longrightarrow> takes n l"
proof (induction n arbitrary: l)
  case (Suc n)
  show ?case unfolding takes.simps(2) [of n]
  proof (intro allI)
    fix m
    obtain q where "ch_try_send (ln_chan l) m (ln_q l) = (Inr (), q)" "takes (Suc n) (l\<lparr>ln_q := q\<rparr>)"
      by (rule takes_SucE [OF Suc.prems])
    with Suc.IH show "case ch_try_send (ln_chan l) m (ln_q l) of (r, q) \<Rightarrow> r = Inr () \<and> takes n (l\<lparr>ln_q := q\<rparr>)"
      by simp
  qed
qed simp

text \<open>
  A dispatcher between two turns, with a current cache of workers that have an inbox each, and
  inboxes that take \<open>n\<close> more messages.
\<close>

definition rr_ready :: "u64 \<Rightarrow> nat \<Rightarrow> ('q mem_consumer, 'p) dispatcher \<Rightarrow> bool" where
  "rr_ready g n d \<longleftrightarrow> disp_inv open_mem mc_pending d \<and> ds_cache d \<noteq> [] \<and> ds_seen d = g \<and>
     ds_reclaimed d = [] \<and> distinct (map snd (ds_cache d)) \<and> (\<forall>l \<in> set (ds_boxes d). takes n l)"

lemma rr_turn:
  assumes d: "rr_ready g (Suc k) d" and q: "link_items (ds_fabric d) = m # ms" and m: "to_worker m = None"
    and i: "i = unat (ds_cursor d) mod length (ds_cache d)" and nb: "ds_cache d ! i = (n, b)"
  shows "\<exists>d'. dispatch_turn flume_consumer pdr g names inboxes now now' d = (Ret (), d') \<and> rr_ready g k d' \<and>
    link_items (ds_fabric d') = ms \<and> ds_cache d' = ds_cache d \<and> ds_cursor d' = ds_cursor d + 1 \<and>
    map link_items (ds_boxes d') =
      (map link_items (ds_boxes d))[b := link_items (ds_boxes d ! b) @ [m\<lparr>to_worker := Some n\<rparr>]]"
proof -
  have inv: "disp_inv open_mem mc_pending d" and ne: "ds_cache d \<noteq> []"
      and boxes: "\<forall>l \<in> set (ds_boxes d). takes (Suc k) l"
    using d unfolding rr_ready_def by blast+
  have idx: "unat (ds_cursor d mod of_nat (length (ds_cache d))) = i" and "i < length (ds_cache d)"
    using inv ne by (simp_all add: disp_inv_def i unat_mod_distrib unsigned_of_nat take_bit_nat_eq_self)
  then have b: "b < length (ds_boxes d)"
    using inv nb nth_mem [of i "ds_cache d"] by (fastforce simp: disp_inv_def)
  define l where "l = ds_boxes d ! b"
  have l: "link_inv l" "takes (Suc k) l"
    using boxes b inv nth_mem [OF b] unfolding l_def disp_inv_def by blast+
  obtain q' where q': "ch_try_send (ln_chan l) (m\<lparr>to_worker := Some n\<rparr>) (ln_q l) = (Inr (), q')"
      "takes k (l\<lparr>ln_q := q'\<rparr>)"
    using takes_SucE [OF l(2)] by blast
  have items: "link_items (l\<lparr>ln_q := q'\<rparr>) = link_items l @ [m\<lparr>to_worker := Some n\<rparr>]"
    using chan_try_send_ok [OF _ q'(1)] l(1) by (simp add: link_inv_def link_items_def)
  have f: "mem_inv (ds_fabric d)" "open_mem (ds_fabric d)" using inv by (simp_all add: disp_inv_def open_mem_def)
  obtain q1 cm c1 where c1: "register_claim m ((ds_fabric d)\<lparr>ln_q := q1\<rparr>) = (Ret cm, c1)"
      "flume_claim (ds_fabric d) = (Ret (Inr (Some cm)), c1)" "link_items c1 = ms" "mem_inv c1"
    by (rule flume_claim_Cons [OF f(1) q]) blast
  have cm: "cm_message cm = m"
    using c1(1) by (auto simp: register_claim_app)
  let ?c2 = "c1\<lparr>mc_pending := hm_remove (cm_claim_id cm) (mc_pending c1)\<rparr>"
  have c2: "flume_ack (cm_claim_id cm) c1 = (Ret (Inr ()), ?c2)" "link_items ?c2 = ms" "open_mem ?c2"
    using c1(3,4) f(2) flume_chan(3) [of "ds_fabric d"] c1(2)
    by (simp_all add: flume_ack_def bindA_def outcome_simps open_mem_def mem_inv_remove)
  let ?d = "\<lambda>t. d\<lparr>ds_fabric := ?c2, ds_boxes := (ds_boxes d)[b := l\<lparr>ln_q := q'\<rparr>],
    ds_cursor := ds_cursor d + 1, ds_last_reap := t\<rparr>"
  have "\<exists>t. dispatch_turn flume_consumer pdr g names inboxes now now' d = (Ret (), ?d t)"
  proof -
    obtain t where reap: "dispatch_reap flume_consumer now now' d = (Ret (), d\<lparr>ds_last_reap := t\<rparr>)"
    proof (cases "TOPIC_REAP_INTERVAL \<le> now - ds_last_reap d")
      case True
      with that [of now'] show thesis
        by (simp add: dispatch_reap_def bindA_def outcome_simps on_queue_def flume_consumer_def
            default_claim_stale_def)
    next
      case False
      with that [of "ds_last_reap d"] show thesis
        by (simp add: dispatch_reap_def bindA_def outcome_simps)
    qed
    have "next_claim flume_consumer (d\<lparr>ds_last_reap := t\<rparr>) =
        (Ret (Some (m, cm_claim_id cm)), d\<lparr>ds_last_reap := t, ds_fabric := c1\<rparr>)"
      using d c1(2) cm
      by (simp add: rr_ready_def next_claim_def bindA_def outcome_simps on_queue_def flume_consumer_def)
    moreover have "dispatch_refresh g names inboxes (d\<lparr>ds_last_reap := t, ds_fabric := c1\<rparr>) =
        d\<lparr>ds_last_reap := t, ds_fabric := c1\<rparr>"
      using d ne by (simp add: dispatch_refresh_def rr_ready_def)
    moreover have "dispatch_one flume_consumer pdr m (cm_claim_id cm) (d\<lparr>ds_last_reap := t, ds_fabric := c1\<rparr>) =
        (Ret (), ?d t)"
      using ne m nb idx q'(1) c2(1)
      by (simp add: dispatch_one_def hand_over_def box_try_send_def local_match_def bindA_def
          outcome_simps on_queue_def flume_consumer_def Let_def l_def)
    ultimately show ?thesis
      using reap by (auto simp: dispatch_turn_def bindA_def outcome_simps)
  qed
  then obtain t where run: "dispatch_turn flume_consumer pdr g names inboxes now now' d = (Ret (), ?d t)" ..
  have "link_inv (l\<lparr>ln_q := q'\<rparr>)" using l(1) by (simp add: link_inv_def)
  moreover have "\<forall>l \<in> set (ds_boxes d). takes k l" using boxes takes_less by blast
  ultimately have "\<forall>l' \<in> set ((ds_boxes d)[b := l\<lparr>ln_q := q'\<rparr>]). link_inv l' \<and> takes k l'"
    using q'(2) inv set_update_subset_insert [of "ds_boxes d" b "l\<lparr>ln_q := q'\<rparr>"]
    unfolding disp_inv_def by blast
  with d c2(3) have "rr_ready g k (?d t)"
    by (simp add: rr_ready_def disp_inv_def)
  moreover have "map link_items (ds_boxes (?d t)) =
      (map link_items (ds_boxes d))[b := link_items (ds_boxes d ! b) @ [m\<lparr>to_worker := Some n\<rparr>]]"
    using items by (simp add: map_update l_def)
  ultimately show ?thesis using run c2(2) by (intro exI [of _ "?d t"]) simp
qed


lemma rr_turns:
  assumes "rr_ready g (length ms) d" and "link_items (ds_fabric d) = ms @ rest" and "\<forall>m \<in> set ms. to_worker m = None"
    and "unat (ds_cursor d) + length ms < 2 ^ 64"
  shows "\<exists>d'. dispatch_turns (length ms) flume_consumer pdr g names inboxes now now' d = (Ret (), d') \<and>
    rr_ready g 0 d' \<and> link_items (ds_fabric d') = rest \<and> ds_cache d' = ds_cache d \<and>
    (\<forall>j < length (ds_cache d). link_items (ds_boxes d' ! snd (ds_cache d ! j)) =
      link_items (ds_boxes d ! snd (ds_cache d ! j)) @
      map (\<lambda>m. m\<lparr>to_worker := Some (fst (ds_cache d ! j))\<rparr>)
        (rr_share (length (ds_cache d)) (unat (ds_cursor d)) j ms))"
  using assms
proof (induction ms arbitrary: d)
  case Nil
  then show ?case by (simp add: outcome_simps)
next
  case (Cons m ms)
  let ?k = "length (ds_cache d)" and ?i = "unat (ds_cursor d) mod length (ds_cache d)"
  obtain n b where nb: "ds_cache d ! ?i = (n, b)" by fastforce
  obtain d1 where d1: "dispatch_turn flume_consumer pdr g names inboxes now now' d = (Ret (), d1)"
      "rr_ready g (length ms) d1" "link_items (ds_fabric d1) = ms @ rest" "ds_cache d1 = ds_cache d"
      "ds_cursor d1 = ds_cursor d + 1"
    and boxes: "map link_items (ds_boxes d1) =
      (map link_items (ds_boxes d))[b := link_items (ds_boxes d ! b) @ [m\<lparr>to_worker := Some n\<rparr>]]"
    using rr_turn [OF Cons.prems(1) [unfolded list.size(4) add_Suc_right add_0_right] _ _ refl nb, where m = m and ms = "ms @ rest" and pdr = pdr and names = names and
        inboxes = inboxes and now = now and now' = now'] Cons.prems(2,3) by auto
  have cur: "unat (ds_cursor d1) = Suc (unat (ds_cursor d))"
    using Cons.prems(4) d1(5) by (simp add: unat_word_ariths)
  obtain d' where d': "dispatch_turns (length ms) flume_consumer pdr g names inboxes now now' d1 = (Ret (), d')"
      "rr_ready g 0 d'" "link_items (ds_fabric d') = rest" "ds_cache d' = ds_cache d"
      "\<And>j. j < ?k \<Longrightarrow> link_items (ds_boxes d' ! snd (ds_cache d ! j)) =
        link_items (ds_boxes d1 ! snd (ds_cache d ! j)) @
        map (\<lambda>m. m\<lparr>to_worker := Some (fst (ds_cache d ! j))\<rparr>) (rr_share ?k (Suc (unat (ds_cursor d))) j ms)"
    using Cons.IH [OF d1(2,3)] Cons.prems(3,4) cur d1(4) by fastforce
  have step: "link_items (ds_boxes d1 ! snd (ds_cache d ! j)) = link_items (ds_boxes d ! snd (ds_cache d ! j)) @
      (if ?i = j then [m\<lparr>to_worker := Some (fst (ds_cache d ! j))\<rparr>] else [])" if j: "j < ?k" for j
  proof -
    have bound: "snd (ds_cache d ! j) < length (ds_boxes d)" and i: "?i < ?k"
      using Cons.prems(1) j nth_mem [OF j] by (auto simp: rr_ready_def disp_inv_def)
    have "length (ds_boxes d1) = length (ds_boxes d)" using boxes by (metis length_list_update length_map)
    then have "link_items (ds_boxes d1 ! snd (ds_cache d ! j)) = map link_items (ds_boxes d1) ! snd (ds_cache d ! j)"
      using bound by simp
    also have "\<dots> = (if b = snd (ds_cache d ! j) then link_items (ds_boxes d ! b) @ [m\<lparr>to_worker := Some n\<rparr>]
        else link_items (ds_boxes d ! snd (ds_cache d ! j)))"
      unfolding boxes using bound by (simp add: nth_list_update)
    also have "b = snd (ds_cache d ! j) \<longleftrightarrow> ?i = j"
      using Cons.prems(1) nth_eq_iff_index_eq [of "map snd (ds_cache d)" ?i j] i j nb
      by (simp add: rr_ready_def)
    finally show ?thesis using nb by auto
  qed
  show ?case
    using d1(1) d' step by (intro exI [of _ d']) (simp add: bindA_def outcome_simps)
qed


section \<open>Properties\<close>

definition open_consumer :: "emessage list \<Rightarrow> emessage list mem_consumer" where
  "open_consumer ms = mem_consumer_new (open_list_link ms) unary_ambient"

lemma open_consumer_simps [simp]:
  "open_mem (open_consumer ms)" "link_items (open_consumer ms) = ms" "mc_pending (open_consumer ms) = []"
  using open_list_link_simps(1) [of ms]
  by (simp_all add: open_consumer_def open_mem_def mem_inv_new open_link_def)
    (simp_all add: mem_consumer_new_def link_items_def open_list_link_def open_chan_def)

text \<open>A topic queue with the messages \<open>ms\<close> and two workers whose inboxes hold \<open>cap\<close> messages.\<close>

definition demo_dispatcher :: "emessage list \<Rightarrow> nat \<Rightarrow> (emessage list mem_consumer, list_q) dispatcher" where
  "demo_dispatcher ms cap =
     (dispatcher_new (open_consumer ms) [list_link True (Some cap) [], list_link True (Some cap) []]
       (Some ''n1'') 0)\<lparr>ds_cache := [(''n1@a'', 0), (''n1@b'', 1)], ds_seen := 7\<rparr>"

lemma demo_dispatcher_sel [simp]:
  "ds_fabric (demo_dispatcher ms cap) = open_consumer ms" "ds_cursor (demo_dispatcher ms cap) = 0"
  "ds_cache (demo_dispatcher ms cap) = [(''n1@a'', 0), (''n1@b'', 1)]"
  "ds_boxes (demo_dispatcher ms cap) = [list_link True (Some cap) [], list_link True (Some cap) []]"
  by (simp_all add: demo_dispatcher_def dispatcher_new_def)

lemma demo_dispatcher_inv: "disp_inv open_mem mc_pending (demo_dispatcher ms cap)"
  by (simp add: disp_inv_def demo_dispatcher_def dispatcher_new_def)



text \<open>C8: the dispatcher shares untargeted messages out in turn. Over \<open>n\<close> turns with a current
  worker list and inboxes that have room, the first \<open>n\<close> messages of the queue leave it, and
  the \<open>j\<close>-th of the \<open>k\<close> workers gets exactly those at the places the cursor counts to \<open>j\<close>
  modulo \<open>k\<close>, in their order, each with its name stamped on it.\<close>

theorem dispatcher_round_robin:
  assumes "rr_ready generation (length ms) d" and "link_items (ds_fabric d) = ms @ rest"
    and "\<forall>m \<in> set ms. to_worker m = None" and "unat (ds_cursor d) + length ms < 2 ^ 64"
  shows "\<exists>d'. dispatch_turns (length ms) flume_consumer producer generation names inboxes now now' d = (Ret (), d') \<and>
    link_items (ds_fabric d') = rest \<and>
    (\<forall>j < length (ds_cache d). link_items (ds_boxes d' ! snd (ds_cache d ! j)) =
      link_items (ds_boxes d ! snd (ds_cache d ! j)) @
      map (\<lambda>m. m\<lparr>to_worker := Some (fst (ds_cache d ! j))\<rparr>)
        (rr_share (length (ds_cache d)) (unat (ds_cursor d)) j ms))"
  using rr_turns [OF assms] by blast

theorem dispatcher_round_robin_witness:
  "\<exists>d'. dispatch_turns 3 flume_consumer flume_producer 7 [] [] 0 0
      (demo_dispatcher [emessage_default 1, emessage_default 2, emessage_default 3] 4) = (Ret (), d') \<and>
    link_items (ds_fabric d') = [] \<and>
    link_items (ds_boxes d' ! 0) = [(emessage_default 1)\<lparr>to_worker := Some ''n1@a''\<rparr>,
      (emessage_default 3)\<lparr>to_worker := Some ''n1@a''\<rparr>] \<and>
    link_items (ds_boxes d' ! 1) = [(emessage_default 2)\<lparr>to_worker := Some ''n1@b''\<rparr>]"
proof -
  let ?ms = "[emessage_default 1, emessage_default 2, emessage_default 3]"
  have "takes 3 (list_link True (Some 4) [])"
    by (simp add: numeral_3_eq_3 takes.simps list_link_def list_chan_def lq_full_def)
  then have "rr_ready 7 (length ?ms) (demo_dispatcher ?ms 4)"
    using demo_dispatcher_inv [of ?ms 4]
    by (simp add: rr_ready_def) (simp add: demo_dispatcher_def dispatcher_new_def numeral_3_eq_3)
  then obtain d' where d': "dispatch_turns (length ?ms) flume_consumer flume_producer 7 [] [] 0 0
        (demo_dispatcher ?ms 4) = (Ret (), d')" "link_items (ds_fabric d') = []"
    and share: "\<forall>j < length (ds_cache (demo_dispatcher ?ms 4)).
      link_items (ds_boxes d' ! snd (ds_cache (demo_dispatcher ?ms 4) ! j)) =
      link_items (ds_boxes (demo_dispatcher ?ms 4) ! snd (ds_cache (demo_dispatcher ?ms 4) ! j)) @
      map (\<lambda>m. m\<lparr>to_worker := Some (fst (ds_cache (demo_dispatcher ?ms 4) ! j))\<rparr>)
        (rr_share (length (ds_cache (demo_dispatcher ?ms 4))) (unat (ds_cursor (demo_dispatcher ?ms 4))) j ?ms)"
    using dispatcher_round_robin [where generation = 7 and ms = ?ms and rest = "[]" and
        d = "demo_dispatcher ?ms 4" and producer = flume_producer and names = "[]" and inboxes = "[]" and
        now = 0 and now' = 0]
    by (auto simp: emessage_default_def)
  have "link_items (ds_boxes d' ! 0) = [(emessage_default 1)\<lparr>to_worker := Some ''n1@a''\<rparr>,
      (emessage_default 3)\<lparr>to_worker := Some ''n1@a''\<rparr>]"
    using share [rule_format, of 0] by (simp add: numeral_2_eq_2)
  moreover have "link_items (ds_boxes d' ! 1) = [(emessage_default 2)\<lparr>to_worker := Some ''n1@b''\<rparr>]"
    using share [rule_format, of 1] by (simp add: numeral_2_eq_2)
  ultimately show ?thesis using d' by (intro exI [of _ d']) (simp add: numeral_3_eq_3)
qed

end
