(* ===== verification/Audit_Log.thy ===== *)
theory Audit_Log
  imports Wire
begin

text \<open>
  The audit manager (\<^verbatim>\<open>event_base_core/src/audit.rs\<close>): a ring buffer of the most recent audit
  records and a list of writers. The ring buffer is the \<^verbatim>\<open>ringbuf\<close> crate's \<^verbatim>\<open>HeapRb\<close>, a parameter
  with its documented behaviour (\<open>ring_laws\<close>): it cannot be made with capacity zero, and a push
  to a full buffer overwrites the oldest element. A writer acts on the state \<open>'s\<close> of the sinks.
  The manager polls its writers with \<^verbatim>\<open>join_all\<close>; here they run in the order of the list.
\<close>

section \<open>State\<close>

record 'b ring =
  rb_new :: "u64 \<Rightarrow> 'b outcome"
  rb_push_overwrite :: "audit_record \<Rightarrow> 'b \<Rightarrow> 'b"
  rb_iter :: "'b \<Rightarrow> audit_record list"

type_synonym 's audit_writer = "audit_record \<Rightarrow> ('s, unit result) act"

record ('b, 's) audit_manager =
  am_buffer :: 'b
  am_writers :: "'s audit_writer list"

text \<open>The global cell with the state of the sinks.\<close>

record ('b, 's) audit_log =
  al_cell :: "('b, 's) audit_manager option"
  al_sinks :: 's


section \<open>Operations\<close>

definition audit_init :: "'b ring \<Rightarrow> u64 \<Rightarrow> (('b, 's) audit_log, unit result) act" where
  "audit_init ring capacity =
     bindA (\<lambda>s. (rb_new ring capacity, s)) (\<lambda>buffer.
     bindA (getA al_cell) (\<lambda>old. case old of
         Some _ \<Rightarrow> ret (Inl EAlreadyInitialized)
       | None \<Rightarrow>
           bindA (putA (\<lambda>s. s\<lparr>al_cell := Some \<lparr>am_buffer = buffer, am_writers = []\<rparr>\<rparr>))
             (\<lambda>_. ret (Inr ()))))"

text \<open>\<^verbatim>\<open>AuditManager::global()\<close>.\<close>

definition the_audit :: "(('b, 's) audit_log, ('b, 's) audit_manager) act" where
  "the_audit =
     bindA (getA al_cell) (\<lambda>a. case a of
         None \<Rightarrow> halt ''AuditManager not initialized'' | Some m \<Rightarrow> ret m)"

definition with_writers :: "'s audit_writer list \<Rightarrow> (('b, 's) audit_log, unit) act" where
  "with_writers ws =
     bindA the_audit (\<lambda>m. putA (\<lambda>s. s\<lparr>al_cell := Some (m\<lparr>am_writers := ws\<rparr>)\<rparr>))"

definition on_sinks :: "('s, 'a) act \<Rightarrow> (('b, 's) audit_log, 'a) act" where
  "on_sinks m s = (case m (al_sinks s) of (r, x) \<Rightarrow> (r, s\<lparr>al_sinks := x\<rparr>))"

definition record_audit :: "'b ring \<Rightarrow> audit_record \<Rightarrow> (('b, 's) audit_log, unit result) act" where
  "record_audit ring rec =
     bindA the_audit (\<lambda>m.
     bindA (putA (\<lambda>s. s\<lparr>al_cell := Some (m\<lparr>am_buffer := rb_push_overwrite ring rec (am_buffer m)\<rparr>)\<rparr>)) (\<lambda>_.
     bindA (forA (\<lambda>w. on_sinks (w rec)) (am_writers m)) (\<lambda>_. ret (Inr ()))))"

definition get_recent :: "'b ring \<Rightarrow> nat \<Rightarrow> (('b, 's) audit_log, audit_record list) act" where
  "get_recent ring n =
     bindA the_audit (\<lambda>m. ret (take n (rev (rb_iter ring (am_buffer m)))))"


section \<open>The ring buffer\<close>

definition ring_laws :: "'b ring \<Rightarrow> ('b \<Rightarrow> nat) \<Rightarrow> bool" where
  "ring_laws ring cap \<longleftrightarrow>
     (\<forall>c. c \<noteq> 0 \<longrightarrow> (\<exists>b. rb_new ring c = Ret b \<and> rb_iter ring b = [] \<and> cap b = unat c)) \<and>
     (\<forall>r b. cap (rb_push_overwrite ring r b) = cap b \<and>
       rb_iter ring (rb_push_overwrite ring r b) =
         (if length (rb_iter ring b) < cap b then rb_iter ring b else tl (rb_iter ring b)) @ [r])"

text \<open>The newest \<open>c\<close> elements of a list.\<close>

definition newest :: "nat \<Rightarrow> 'a list \<Rightarrow> 'a list" where
  "newest c xs = drop (length xs - c) xs"

lemma newest_snoc:
  assumes "0 < c"
  shows "newest c (xs @ [x]) = (if length (newest c xs) < c then newest c xs else tl (newest c xs)) @ [x]"
proof (cases "length xs < c")
  case True
  then show ?thesis by (simp add: newest_def)
next
  case False
  then have "Suc (length xs) - c = Suc (length xs - c)" using assms by simp
  with False assms show ?thesis
    by (simp add: newest_def drop_Suc tl_drop)
qed

lemma take_rev_newest: "take n (rev (newest c xs)) = take (min n c) (rev xs)"
  by (cases "c \<le> length xs") (auto simp: newest_def rev_drop min_def)

definition writers_return :: "'s audit_writer list \<Rightarrow> bool" where
  "writers_return ws \<longleftrightarrow> (\<forall>w \<in> set ws. \<forall>r s. \<exists>x s'. w r s = (Ret x, s'))"

lemma run_writers:
  "writers_return ws \<Longrightarrow> \<exists>s'. forA (\<lambda>w. on_sinks (w r)) ws s = (Ret (), s') \<and> al_cell s' = al_cell s"
proof (induction ws arbitrary: s)
  case (Cons w ws)
  then obtain x s1 where "w r (al_sinks s) = (Ret x, s1)" by (fastforce simp: writers_return_def)
  with Cons.IH [of "s\<lparr>al_sinks := s1\<rparr>"] Cons.prems show ?case
    by (auto simp: writers_return_def bindA_def on_sinks_def outcome_simps)
qed (simp add: outcome_simps)

definition holds_newest :: "'b ring \<Rightarrow> ('b \<Rightarrow> nat) \<Rightarrow> nat \<Rightarrow> 's audit_writer list \<Rightarrow> audit_record list
    \<Rightarrow> ('b, 's) audit_log \<Rightarrow> bool" where
  "holds_newest ring cap c ws rs s \<longleftrightarrow> (\<exists>m. al_cell s = Some m \<and> am_writers m = ws \<and>
     cap (am_buffer m) = c \<and> rb_iter ring (am_buffer m) = newest c rs)"

lemma record_step:
  assumes "ring_laws ring cap" and "0 < c" and "writers_return ws" and "holds_newest ring cap c ws rs s"
  shows "\<exists>s'. record_audit ring r s = (Ret (Inr ()), s') \<and> holds_newest ring cap c ws (rs @ [r]) s'"
proof -
  obtain m where m: "al_cell s = Some m" "am_writers m = ws" "cap (am_buffer m) = c"
      "rb_iter ring (am_buffer m) = newest c rs"
    using assms(4) by (auto simp: holds_newest_def)
  let ?m = "m\<lparr>am_buffer := rb_push_overwrite ring r (am_buffer m)\<rparr>"
  obtain s' where s': "forA (\<lambda>w. on_sinks (w r)) ws (s\<lparr>al_cell := Some ?m\<rparr>) = (Ret (), s')"
      "al_cell s' = Some ?m"
    using run_writers [OF assms(3), of r "s\<lparr>al_cell := Some ?m\<rparr>"] by auto
  have "cap (am_buffer ?m) = c" "rb_iter ring (am_buffer ?m) = newest c (rs @ [r])"
    using assms(1) m(3,4) newest_snoc [OF assms(2), of rs r] by (simp_all add: ring_laws_def)
  with s' m show ?thesis
    by (intro exI [of _ s'])
      (simp add: record_audit_def the_audit_def bindA_def outcome_simps holds_newest_def)
qed

lemma record_all:
  assumes "ring_laws ring cap" and "0 < c" and "writers_return ws" and "holds_newest ring cap c ws rs s"
  shows "\<exists>s'. forQ (record_audit ring) qs s = (Ret (Inr ()), s') \<and> holds_newest ring cap c ws (rs @ qs) s'"
  using assms(4)
proof (induction qs arbitrary: rs s)
  case (Cons q qs)
  obtain s1 where s1: "record_audit ring q s = (Ret (Inr ()), s1)" "holds_newest ring cap c ws (rs @ [q]) s1"
    using record_step [OF assms(1-3) Cons.prems] by blast
  with Cons.IH [OF s1(2)] show ?case by (auto simp: bindQ_def bindA_def outcome_simps)
qed (auto simp: outcome_simps)


section \<open>Properties\<close>

text \<open>
  C38: the audit manager keeps the newest records. After any number of records,
  \<^verbatim>\<open>get_recent\<close> returns the last ones, newest first, as many as asked for and as the buffer
  holds; and every record reports success, whatever the writers report.
\<close>

theorem audit_keeps_newest:
  assumes "ring_laws ring cap" and "capacity \<noteq> 0" and "writers_return ws" and "al_cell s = None"
  shows "\<exists>s'. bindQ (audit_init ring capacity) (\<lambda>_. bindA (with_writers ws) (\<lambda>_.
       forQ (record_audit ring) rs)) s = (Ret (Inr ()), s') \<and>
     get_recent ring n s' = (Ret (take (min n (unat capacity)) (rev rs)), s')"
proof -
  obtain b where b: "rb_new ring capacity = Ret b" "rb_iter ring b = []" "cap b = unat capacity"
    using assms(1,2) by (auto simp: ring_laws_def)
  let ?s = "s\<lparr>al_cell := Some \<lparr>am_buffer = b, am_writers = ws\<rparr>\<rparr>"
  have start: "holds_newest ring cap (unat capacity) ws [] ?s"
    using b by (simp add: holds_newest_def newest_def)
  have pos: "0 < unat capacity" using assms(2) by (simp add: unat_gt_0)
  obtain s' where s': "forQ (record_audit ring) rs ?s = (Ret (Inr ()), s')"
      "holds_newest ring cap (unat capacity) ws rs s'"
    using record_all [OF assms(1) pos assms(3) start, of rs] by auto
  from s'(2) have "get_recent ring n s' = (Ret (take (min n (unat capacity)) (rev rs)), s')"
    by (auto simp: holds_newest_def get_recent_def the_audit_def bindA_def outcome_simps take_rev_newest)
  with s'(1) b(1) assms(4) show ?thesis
    by (intro exI [of _ s'])
      (simp add: audit_init_def with_writers_def the_audit_def bindQ_def bindA_def outcome_simps)
qed

definition list_ring :: "(nat \<times> audit_record list) ring" where
  "list_ring =
     \<lparr>rb_new = (\<lambda>c. if c = 0 then Panic ''capacity must be nonzero'' else Ret (unat c, [])),
      rb_push_overwrite = (\<lambda>r (c, rs). (c, (if length rs < c then rs else tl rs) @ [r])),
      rb_iter = snd\<rparr>"

lemma list_ring_laws: "ring_laws list_ring fst"
  by (auto simp: ring_laws_def list_ring_def)

definition demo_audit :: "string \<Rightarrow> audit_record" where
  "demo_audit k =
     \<lparr>ar_message_id = k, ar_topic = ''t'', ar_event_type = Enqueued, ar_worker_id = None,
      ar_timestamp = 0, ar_result = StartResult, ar_error = None, ar_duration = None\<rparr>"

theorem audit_keeps_newest_witness:
  "\<exists>s'. bindQ (audit_init list_ring 2) (\<lambda>_. bindA (with_writers [\<lambda>_. ret (Inl (EOther ''disk full''))]) (\<lambda>_.
       forQ (record_audit list_ring) [demo_audit ''a'', demo_audit ''b'', demo_audit ''c'']))
       \<lparr>al_cell = None, al_sinks = ()\<rparr> = (Ret (Inr ()), s') \<and>
     get_recent list_ring 5 s' = (Ret [demo_audit ''c'', demo_audit ''b''], s')"
proof -
  have "writers_return [\<lambda>_. ret (Inl (EOther ''disk full'')) :: (unit, unit result) act]"
    by (simp add: writers_return_def ret_def)
  from audit_keeps_newest [OF list_ring_laws _ this, of 2 "\<lparr>al_cell = None, al_sinks = ()\<rparr>"
      "[demo_audit ''a'', demo_audit ''b'', demo_audit ''c'']" 5]
  show ?thesis by simp
qed

end
