(* ===== verification/Metrics.thy ===== *)
theory Metrics
  imports Consumer_Router
begin

text \<open>
  Metrics (\<^verbatim>\<open>event_base_core/src/metrics\<close>): the aggregator that counts audit records per topic
  (\<^verbatim>\<open>aggregator.rs\<close>), the manager and the store behind it (\<^verbatim>\<open>manager.rs\<close>, \<^verbatim>\<open>node_store.rs\<close>), and the
  collector task that publishes the state of a node (\<^verbatim>\<open>node.rs\<close>). Counters are 64-bit words; the
  sum of two durations panics above the largest duration. What the \<^verbatim>\<open>sysinfo\<close> crate measures is
  an argument of the collector.
\<close>

section \<open>The aggregator\<close>

record metrics_aggregator =
  ma_enqueued :: "(string, u64) hashmap"
  ma_completed :: "(string, u64) hashmap"
  ma_failed :: "(string, u64) hashmap"
  ma_retried :: "(string, u64) hashmap"
  ma_latency_sum :: "(string, u64 \<times> duration) hashmap"

definition no_metrics :: metrics_aggregator where
  "no_metrics = \<lparr>ma_enqueued = [], ma_completed = [], ma_failed = [], ma_retried = [], ma_latency_sum = []\<rparr>"

text \<open>\<^verbatim>\<open>*m.entry(topic).or_default() += 1\<close>, and \<^verbatim>\<open>Duration\<close>'s \<^verbatim>\<open>+=\<close> on the second half of an entry.\<close>

definition bump :: "string \<Rightarrow> (string, u64) hashmap \<Rightarrow> (string, u64) hashmap" where
  "bump = hm_entry_or 0 (\<lambda>n. n + 1)"

definition add_latency :: "string \<Rightarrow> duration \<Rightarrow> (metrics_aggregator, unit) act" where
  "add_latency topic d =
     bindA (putA (\<lambda>a. a\<lparr>ma_latency_sum :=
       hm_entry_or (0, 0) (\<lambda>(n, t). (n + 1, t)) topic (ma_latency_sum a)\<rparr>)) (\<lambda>_.
     bindA (getA (\<lambda>a. case hm_get (ma_latency_sum a) topic of Some (_, t) \<Rightarrow> t | None \<Rightarrow> 0)) (\<lambda>total.
     if total + d \<le> duration_max then
       putA (\<lambda>a. a\<lparr>ma_latency_sum := hm_modify (\<lambda>(n, t). (n, t + d)) topic (ma_latency_sum a)\<rparr>)
     else halt ''overflow when adding durations''))"

definition feed :: "audit_record \<Rightarrow> (metrics_aggregator, unit) act" where
  "feed rec =
     (case ar_event_type rec of
        Enqueued \<Rightarrow> putA (\<lambda>a. a\<lparr>ma_enqueued := bump (ar_topic rec) (ma_enqueued a)\<rparr>)
      | DeadLettered \<Rightarrow> putA (\<lambda>a. a\<lparr>ma_failed := bump (ar_topic rec) (ma_failed a)\<rparr>)
      | RetryEvent \<Rightarrow> putA (\<lambda>a. a\<lparr>ma_retried := bump (ar_topic rec) (ma_retried a)\<rparr>)
      | ProcessingCompleted \<Rightarrow>
          bindA (putA (\<lambda>a. a\<lparr>ma_completed := bump (ar_topic rec) (ma_completed a)\<rparr>)) (\<lambda>_.
          case ar_duration rec of
              Some d \<Rightarrow> add_latency (ar_topic rec) d
            | None \<Rightarrow> ret ())
      | ProcessingStarted \<Rightarrow> ret ())"


section \<open>The node store\<close>

definition store_init :: "(string, node_metrics) hashmap option
    \<Rightarrow> unit result \<times> (string, node_metrics) hashmap option" where
  "store_init cell = (case cell of Some m \<Rightarrow> (Inl EAlreadyInitialized, Some m) | None \<Rightarrow> (Inr (), Some []))"

definition store_update :: "node_metrics \<Rightarrow> (string, node_metrics) hashmap \<Rightarrow> (string, node_metrics) hashmap"
  where "store_update m nodes = hm_insert (nm_node_name m) m nodes"

definition get_all_nodes :: "(string, node_metrics) hashmap \<Rightarrow> node_metrics list" where
  "get_all_nodes nodes = hm_values nodes"

definition get_node :: "string \<Rightarrow> (string, node_metrics) hashmap \<Rightarrow> node_metrics option" where
  "get_node node_id nodes = hm_get nodes node_id"


section \<open>The manager\<close>

record metrics_state =
  mt_manager :: "metrics_aggregator option"
  mt_store :: "(string, node_metrics) hashmap option"

record metrics_snapshot =
  sn_business :: metrics_aggregator
  sn_nodes :: "node_metrics list"
  sn_timestamp :: time

definition metrics_init :: "(metrics_state, unit result) act" where
  "metrics_init =
     bindA (getA mt_manager) (\<lambda>old. case old of
         Some _ \<Rightarrow> ret (Inl EAlreadyInitialized)
       | None \<Rightarrow> bindA (putA (\<lambda>s. s\<lparr>mt_manager := Some no_metrics\<rparr>)) (\<lambda>_. ret (Inr ())))"

definition metrics_store_init :: "(metrics_state, unit result) act" where
  "metrics_store_init s = (case store_init (mt_store s) of (r, c) \<Rightarrow> (Ret r, s\<lparr>mt_store := c\<rparr>))"

definition feed_audit :: "audit_record \<Rightarrow> (metrics_state, unit) act" where
  "feed_audit rec s =
     (case mt_manager s of
        None \<Rightarrow> (Panic ''MetricsManager not initialized'', s)
      | Some a \<Rightarrow> (case feed rec a of (r, a') \<Rightarrow> (r, s\<lparr>mt_manager := Some a'\<rparr>)))"

definition metrics_store_update :: "node_metrics \<Rightarrow> (metrics_state, unit) act" where
  "metrics_store_update m s =
     (case mt_store s of
        None \<Rightarrow> (Panic ''MetricsStore not initialized'', s)
      | Some nodes \<Rightarrow> (Ret (), s\<lparr>mt_store := Some (store_update m nodes)\<rparr>))"

definition metrics_snapshot_at :: "time \<Rightarrow> (metrics_state, metrics_snapshot) act" where
  "metrics_snapshot_at now =
     bindA (getA mt_manager) (\<lambda>manager. case manager of
         None \<Rightarrow> halt ''MetricsManager not initialized''
       | Some business \<Rightarrow>
           bindA (getA mt_store) (\<lambda>store. case store of
               None \<Rightarrow> halt ''MetricsStore not initialized''
             | Some nodes \<Rightarrow> ret
                 \<lparr>sn_business = business, sn_nodes = get_all_nodes nodes, sn_timestamp = now\<rparr>))"


section \<open>The collector\<close>

text \<open>
  A sample holds the usage of each core and the percentage of memory in use, as the bits of
  the floating-point numbers the crate and the division yield.
\<close>

record sample =
  sm_cpus :: "u32 list"
  sm_memory :: u32

definition collect :: "sample \<Rightarrow> (('f, 'w, 'k, 'q) consumer_router, node_metrics) act" where
  "collect sm =
     bindA get_all_workers (\<lambda>workers.
     bindA (in_world get_node_name) (\<lambda>name.
     bindA (in_world get_node_type) (\<lambda>type.
     bindA (in_world time_now) (\<lambda>now.
     ret \<lparr>nm_node_name = name, nm_node_type = type, nm_cpu_percent = sm_cpus sm,
          nm_memory_percent = sm_memory sm, nm_worker_count = length workers,
          nm_update_time = now\<rparr>))))"

definition collector_turn :: "sample \<Rightarrow> (('f, 'w, 'k, 'q) consumer_router, unit result) act" where
  "collector_turn sm =
     bindA (collect sm) (\<lambda>metrics.
     bindQ (in_world (encode_with cc_metrics metrics)) (\<lambda>pl.
     bindA (in_world (make_message SYSTEM_TOPIC_METRICS pl Standard None)) (\<lambda>msg.
     in_world (topic_send SYSTEM_TOPIC_METRICS msg None None))))"

text \<open>The loop of \<^verbatim>\<open>start\<close> over the samples it takes: the first error ends the task.\<close>

definition collector_start :: "sample list \<Rightarrow> (('f, 'w, 'k, 'q) consumer_router, unit result) act" where
  "collector_start = forQ collector_turn"


section \<open>Counting\<close>

definition tally :: "(string, u64) hashmap \<Rightarrow> string \<Rightarrow> nat" where
  "tally m t = (case hm_get m t of None \<Rightarrow> 0 | Some n \<Rightarrow> unat n)"

definition happened :: "audit_event_type \<Rightarrow> string \<Rightarrow> audit_record list \<Rightarrow> nat" where
  "happened e t rs = length (filter (\<lambda>r. ar_event_type r = e \<and> ar_topic r = t) rs)"

definition latencies :: "string \<Rightarrow> audit_record list \<Rightarrow> duration list" where
  "latencies t rs =
     List.map_filter (\<lambda>r. if ar_event_type r = ProcessingCompleted \<and> ar_topic r = t then ar_duration r else None) rs"

definition latency_of :: "metrics_aggregator \<Rightarrow> string \<Rightarrow> nat \<times> duration" where
  "latency_of a t = (case hm_get (ma_latency_sum a) t of None \<Rightarrow> (0, 0) | Some (n, d) \<Rightarrow> (unat n, d))"

definition counts :: "audit_record list \<Rightarrow> metrics_aggregator \<Rightarrow> bool" where
  "counts rs a \<longleftrightarrow> (\<forall>t. tally (ma_enqueued a) t = happened Enqueued t rs \<and>
     tally (ma_completed a) t = happened ProcessingCompleted t rs \<and>
     tally (ma_failed a) t = happened DeadLettered t rs \<and>
     tally (ma_retried a) t = happened RetryEvent t rs \<and>
     latency_of a t = (length (latencies t rs), sum_list (latencies t rs)))"

lemma latency_of_upd [simp]:
  "latency_of (a\<lparr>ma_enqueued := m\<rparr>) t = latency_of a t"
  "latency_of (a\<lparr>ma_completed := m\<rparr>) t = latency_of a t"
  "latency_of (a\<lparr>ma_failed := m\<rparr>) t = latency_of a t"
  "latency_of (a\<lparr>ma_retried := m\<rparr>) t = latency_of a t"
  by (simp_all add: latency_of_def)

lemma happened_le: "happened e t rs \<le> length rs"
  by (simp add: happened_def)

lemma latencies_le: "length (latencies t rs) \<le> length rs"
  by (simp add: latencies_def List.map_filter_def)

lemma tally_bump:
  assumes "tally m t' < 2 ^ 64 - 1"
  shows "tally (bump t m) t' = tally m t' + (if t = t' then 1 else 0)"
  using assms by (auto simp: tally_def bump_def hm_get_entry_or unat_word_ariths split: option.splits)

lemma happened_snoc:
  "happened e t (rs @ [r]) = happened e t rs + (if ar_topic r = t then if ar_event_type r = e then 1 else 0 else 0)"
  by (simp add: happened_def)

lemma latencies_skip:
  "ar_event_type r \<noteq> ProcessingCompleted \<or> ar_duration r = None \<Longrightarrow> latencies t (rs @ [r]) = latencies t rs"
  by (auto simp: latencies_def List.map_filter_def)

lemma latencies_take:
  "ar_event_type r = ProcessingCompleted \<Longrightarrow> ar_duration r = Some d \<Longrightarrow>
   latencies t (rs @ [r]) = (if ar_topic r = t then latencies t rs @ [d] else latencies t rs)"
  by (simp add: latencies_def List.map_filter_def)

lemma add_latency_spec:
  assumes "snd (latency_of a t) + d \<le> duration_max" and "fst (latency_of a t) < 2 ^ 64 - 1"
  shows "\<exists>m. add_latency t d a = (Ret (), a\<lparr>ma_latency_sum := m\<rparr>) \<and>
    (\<forall>t'. latency_of (a\<lparr>ma_latency_sum := m\<rparr>) t' =
      (if t' = t then (fst (latency_of a t) + 1, snd (latency_of a t) + d) else latency_of a t'))"
proof (intro exI conjI)
  let ?m = "hm_modify (\<lambda>(n, y). (n, y + d)) t (hm_entry_or (0, 0) (\<lambda>(n, y). (n + 1, y)) t (ma_latency_sum a))"
  show "add_latency t d a = (Ret (), a\<lparr>ma_latency_sum := ?m\<rparr>)"
    using assms(1) by (auto simp: add_latency_def bindA_def outcome_simps latency_of_def hm_get_entry_or
        split: option.splits prod.splits)
  show "\<forall>t'. latency_of (a\<lparr>ma_latency_sum := ?m\<rparr>) t' =
      (if t' = t then (fst (latency_of a t) + 1, snd (latency_of a t) + d) else latency_of a t')"
    using assms(2) by (auto simp: latency_of_def hm_get_entry_or hm_get_modify unat_word_ariths
        split: option.splits)
qed

lemma feed_counts:
  assumes "counts rs a" and "length rs < 2 ^ 64 - 1"
    and "\<forall>t. sum_list (latencies t (rs @ [r])) \<le> duration_max"
  shows "\<exists>a'. feed r a = (Ret (), a') \<and> counts (rs @ [r]) a'"
proof -
  have small: "happened e t rs < 2 ^ 64 - 1" "length (latencies t rs) < 2 ^ 64 - 1" for e t
    using happened_le [of e t rs] latencies_le [of t rs] assms(2) by linarith+
  have c: "tally (ma_enqueued a) t = happened Enqueued t rs"
      "tally (ma_completed a) t = happened ProcessingCompleted t rs"
      "tally (ma_failed a) t = happened DeadLettered t rs" "tally (ma_retried a) t = happened RetryEvent t rs"
      "latency_of a t = (length (latencies t rs), sum_list (latencies t rs))" for t
    using assms(1) by (simp_all add: counts_def)
  have bump: "tally (bump t m) t' = happened e t' rs + (if t = t' then 1 else 0)"
    if "tally m t' = happened e t' rs" for m t t' e
    using tally_bump [of m t' t] small(1) [of e t'] that by metis
  have counted: "counts (rs @ [r]) a'"
    if "\<And>t. tally (ma_enqueued a') t = happened Enqueued t (rs @ [r])"
      "\<And>t. tally (ma_completed a') t = happened ProcessingCompleted t (rs @ [r])"
      "\<And>t. tally (ma_failed a') t = happened DeadLettered t (rs @ [r])"
      "\<And>t. tally (ma_retried a') t = happened RetryEvent t (rs @ [r])"
      "\<And>t. latency_of a' t = (length (latencies t (rs @ [r])), sum_list (latencies t (rs @ [r])))" for a'
    using that by (simp add: counts_def)
  note b = bump [OF c(1)] bump [OF c(2)] bump [OF c(3)] bump [OF c(4)] happened_snoc latencies_skip latencies_take c
  show ?thesis
  proof (cases "ar_event_type r")
    case ProcessingCompleted
    show ?thesis
    proof (cases "ar_duration r")
      case None
      with ProcessingCompleted show ?thesis
        by (intro exI [of _ "a\<lparr>ma_completed := bump (ar_topic r) (ma_completed a)\<rparr>"] conjI counted)
          (auto simp: feed_def bindA_def outcome_simps b)
    next
      case (Some d)
      let ?a = "a\<lparr>ma_completed := bump (ar_topic r) (ma_completed a)\<rparr>"
      have "snd (latency_of ?a (ar_topic r)) + d \<le> duration_max"
        using assms(3) [rule_format, of "ar_topic r"] ProcessingCompleted Some c
        by (simp add: latencies_take)
      then obtain m where m: "add_latency (ar_topic r) d ?a = (Ret (), ?a\<lparr>ma_latency_sum := m\<rparr>)"
          "\<forall>t'. latency_of (?a\<lparr>ma_latency_sum := m\<rparr>) t' = (if t' = ar_topic r
            then (fst (latency_of ?a (ar_topic r)) + 1, snd (latency_of ?a (ar_topic r)) + d) else latency_of ?a t')"
        using add_latency_spec [of ?a "ar_topic r" d] c small by auto
      have "counts (rs @ [r]) (?a\<lparr>ma_latency_sum := m\<rparr>)"
        using m(2) ProcessingCompleted Some by (intro counted) (auto simp: b)
      moreover have "feed r a = (Ret (), ?a\<lparr>ma_latency_sum := m\<rparr>)"
        using m(1) ProcessingCompleted Some by (simp add: feed_def bindA_def outcome_simps)
      ultimately show ?thesis by blast
    qed
  next
    case Enqueued
    then show ?thesis
      by (intro exI [of _ "a\<lparr>ma_enqueued := bump (ar_topic r) (ma_enqueued a)\<rparr>"] conjI counted)
        (auto simp: feed_def outcome_simps b)
  next
    case DeadLettered
    then show ?thesis
      by (intro exI [of _ "a\<lparr>ma_failed := bump (ar_topic r) (ma_failed a)\<rparr>"] conjI counted)
        (auto simp: feed_def outcome_simps b)
  next
    case RetryEvent
    then show ?thesis
      by (intro exI [of _ "a\<lparr>ma_retried := bump (ar_topic r) (ma_retried a)\<rparr>"] conjI counted)
        (auto simp: feed_def outcome_simps b)
  next
    case ProcessingStarted
    then show ?thesis
      by (intro exI [of _ a] conjI counted) (auto simp: feed_def outcome_simps b)
  qed
qed

lemma forA_append: "forA f (xs @ ys) s = bindA (forA f xs) (\<lambda>_. forA f ys) s"
  by (induction xs arbitrary: s) (auto simp: bindA_def outcome_simps split: prod.splits outcome.splits)

lemma sum_list_latencies_take: "sum_list (latencies t rs) \<le> sum_list (latencies t (rs @ qs))"
  by (simp add: latencies_def List.map_filter_def)

lemma feed_all_counts:
  assumes "length rs < 2 ^ 64" and "\<forall>t. sum_list (latencies t rs) \<le> duration_max"
  shows "\<exists>a. forA feed rs no_metrics = (Ret (), a) \<and> counts rs a"
  using assms
proof (induction rs rule: rev_induct)
  case Nil
  then show ?case
    by (simp add: outcome_simps counts_def no_metrics_def tally_def happened_def latency_of_def latencies_def
        List.map_filter_def)
next
  case (snoc r rs)
  have "\<forall>t. sum_list (latencies t rs) \<le> duration_max"
    using snoc.prems(2) order_trans [OF sum_list_latencies_take] by blast
  with snoc obtain a where a: "forA feed rs no_metrics = (Ret (), a)" "counts rs a" by auto
  obtain a' where "feed r a = (Ret (), a')" "counts (rs @ [r]) a'"
    using feed_counts [OF a(2) _ snoc.prems(2)] snoc.prems(1) by auto
  with a(1) show ?case by (auto simp: forA_append bindA_def outcome_simps)
qed


section \<open>Properties\<close>

text \<open>
  The aggregator counts. Fed fewer than two to the sixty-four audit records whose processing
  times add up to a representable duration, it returns, and for every topic its counters are
  the numbers of records enqueued, completed, dead-lettered and retried, and its latency entry
  the number and the sum of the processing times of the completed ones.
\<close>

theorem metrics_count_events:
  assumes "length rs < 2 ^ 64" and "\<forall>t. sum_list (latencies t rs) \<le> duration_max"
  shows "\<exists>a. forA feed rs no_metrics = (Ret (), a) \<and>
     (\<forall>t. tally (ma_enqueued a) t = happened Enqueued t rs \<and>
       tally (ma_completed a) t = happened ProcessingCompleted t rs \<and>
       tally (ma_failed a) t = happened DeadLettered t rs \<and>
       tally (ma_retried a) t = happened RetryEvent t rs \<and>
       latency_of a t = (length (latencies t rs), sum_list (latencies t rs)))"
  using feed_all_counts [OF assms] by (simp add: counts_def)

definition demo_event :: "audit_event_type \<Rightarrow> duration option \<Rightarrow> audit_record" where
  "demo_event e d =
     \<lparr>ar_message_id = ''m'', ar_topic = ''t'', ar_event_type = e, ar_worker_id = None,
      ar_timestamp = 0, ar_result = SuccessResult, ar_error = None, ar_duration = d\<rparr>"

theorem metrics_count_events_witness:
  "\<exists>a. forA feed [demo_event Enqueued None, demo_event ProcessingCompleted (Some 5),
       demo_event ProcessingCompleted (Some 7), demo_event RetryEvent None] no_metrics = (Ret (), a) \<and>
     tally (ma_completed a) ''t'' = 2 \<and> tally (ma_failed a) ''t'' = 0 \<and> latency_of a ''t'' = (2, 12)"
proof -
  let ?rs = "[demo_event Enqueued None, demo_event ProcessingCompleted (Some 5),
       demo_event ProcessingCompleted (Some 7), demo_event RetryEvent None]"
  have lat: "latencies t ?rs = (if t = ''t'' then [5, 7] else [])" for t
    by (simp add: latencies_def List.map_filter_def demo_event_def)
  have "\<forall>t. sum_list (latencies t ?rs) \<le> duration_max"
    by (simp add: lat duration_max_def nanos_per_sec_def)
  then obtain a where a: "forA feed ?rs no_metrics = (Ret (), a)"
      "\<forall>t. tally (ma_enqueued a) t = happened Enqueued t ?rs \<and>
       tally (ma_completed a) t = happened ProcessingCompleted t ?rs \<and>
       tally (ma_failed a) t = happened DeadLettered t ?rs \<and>
       tally (ma_retried a) t = happened RetryEvent t ?rs \<and>
       latency_of a t = (length (latencies t ?rs), sum_list (latencies t ?rs))"
    using metrics_count_events [of ?rs] by auto
  have "happened ProcessingCompleted ''t'' ?rs = 2" "happened DeadLettered ''t'' ?rs = 0"
    by (simp_all add: happened_def demo_event_def)
  with a lat [of "''t''"] show ?thesis by (intro exI [of _ a]) simp
qed

end
