(* ===== verification/Shutdown.thy ===== *)
theory Shutdown
  imports Router_Invariant Worker_Process
begin

text \<open>
  The shutdown strategies of \<^verbatim>\<open>event_base_core/src/shutdown/methods.rs\<close> over the consumer router's
  tables. What a strategy observes of the running workers is an argument: the statuses that
  \<^verbatim>\<open>Worker::shutdown\<close> reads while it waits (\<open>obs\<close>, by worker name), the status or the completion
  flags at each poll, and the time a poll finds elapsed. A list of observations that ends
  leaves the call waiting. Pauses are not modelled, nor is the broadcast channel of the two-stage
  strategy, to which no worker subscribes.
\<close>

section \<open>Strategies\<close>

type_synonym observed = "string \<Rightarrow> worker_status list"

text \<open>\<^verbatim>\<open>shutdown\<close> with zero durations, then \<^verbatim>\<open>del_worker\<close>, both results dropped.\<close>

definition retire :: "observed \<Rightarrow> ('f, ('f, 'w) world) worker
    \<Rightarrow> (('f, 'w, 'k, 'q) consumer_router, unit) act" where
  "retire obs wk =
     bindA (in_world (worker_shutdown wk (Some 0) (obs (wk_name wk)))) (\<lambda>_.
     bindA (del_worker (wk_name wk)) (\<lambda>_. ret ()))"

definition shutdown_force :: "observed \<Rightarrow> (('f, 'w, 'k, 'q) consumer_router, unit) act" where
  "shutdown_force obs = bindA get_all_workers (\<lambda>workers. forA (retire obs) workers)"

definition shutdown_timeout :: "observed \<Rightarrow> (('f, 'w, 'k, 'q) consumer_router, unit) act" where
  "shutdown_timeout obs = shutdown_force obs"

definition shutdown_idle_only :: "(string \<Rightarrow> worker_status) \<Rightarrow> observed
    \<Rightarrow> (('f, 'w, 'k, 'q) consumer_router, unit) act" where
  "shutdown_idle_only status obs =
     bindA get_all_workers (\<lambda>workers.
     forA (\<lambda>wk. if status (wk_name wk) = Idle then retire obs wk else ret ()) workers)"

text \<open>\<^verbatim>\<open>slice::chunks\<close>, which panics for the size zero.\<close>

function chunks :: "nat \<Rightarrow> 'a list \<Rightarrow> 'a list list" where
  "chunks n xs = (if xs = [] \<or> n = 0 then [] else take n xs # chunks n (drop n xs))"
  by pat_completeness auto
termination
  by (relation "measure (\<lambda>(n, xs). length xs)") auto

declare chunks.simps [simp del]

definition shutdown_batched :: "nat \<Rightarrow> observed \<Rightarrow> (('f, 'w, 'k, 'q) consumer_router, unit) act" where
  "shutdown_batched batch_size obs =
     bindA get_all_workers (\<lambda>workers.
     if batch_size = 0 then halt ''chunk size must be non-zero''
     else forA (\<lambda>chunk. forA (retire obs) chunk) (chunks batch_size workers))"

fun graceful_loop :: "('f, ('f, 'w) world) worker \<Rightarrow> observed \<Rightarrow> worker_status list
    \<Rightarrow> (('f, 'w, 'k, 'q) consumer_router, unit result) act" where
  "graceful_loop wk obs [] = (\<lambda>r. (Pending, r))"
| "graceful_loop wk obs (st # polls) =
     (if st = Idle then
        bindQ (in_world (worker_shutdown wk (Some 0) (obs (wk_name wk)))) (\<lambda>_.
        bindQ (del_worker (wk_name wk)) (\<lambda>_. ret (Inr ())))
      else graceful_loop wk obs polls)"

definition graceful_shutdown :: "string \<Rightarrow> observed \<Rightarrow> worker_status list
    \<Rightarrow> (('f, 'w, 'k, 'q) consumer_router, unit result) act" where
  "graceful_shutdown name obs polls = bindQ (get_worker name) (\<lambda>wk. graceful_loop wk obs polls)"

text \<open>The polling stage: whether it returns before the timeout.\<close>

fun two_stage_poll :: "duration \<Rightarrow> (duration \<times> (string \<Rightarrow> bool)) list
    \<Rightarrow> (('f, 'w, 'k, 'q) consumer_router, bool) act" where
  "two_stage_poll timeout [] = (\<lambda>r. (Pending, r))"
| "two_stage_poll timeout ((elapsed, complete) # polls) =
     (if elapsed < timeout then
        bindA get_all_workers (\<lambda>workers.
        if workers = [] then ret True
        else if \<forall>wk \<in> set workers. complete (wk_name wk) then
          bindA (forA (\<lambda>wk. del_worker (wk_name wk)) workers) (\<lambda>_. ret True)
        else two_stage_poll timeout polls)
      else ret False)"

definition shutdown_all_workers_two_stage :: "duration \<Rightarrow> observed \<Rightarrow> (duration \<times> (string \<Rightarrow> bool)) list
    \<Rightarrow> (('f, 'w, 'k, 'q) consumer_router, unit result) act" where
  "shutdown_all_workers_two_stage timeout obs polls =
     bindA (two_stage_poll timeout polls) (\<lambda>finished.
     if finished then ret (Inr ())
     else
       bindA get_all_workers (\<lambda>workers.
       forQ (\<lambda>wk.
         bindQ (in_world (worker_shutdown wk (Some 0) (obs (wk_name wk)))) (\<lambda>_.
         bindA (del_worker (wk_name wk)) (\<lambda>_. ret (Inr ())))) workers))"


section \<open>Removing workers\<close>

text \<open>The workers named in \<open>N\<close> are gone and their tasks stopped; nothing else has changed.\<close>

definition retired :: "string set \<Rightarrow> ('f, 'w, 'k, 'q) consumer_router \<Rightarrow> ('f, 'w, 'k, 'q) consumer_router
    \<Rightarrow> bool" where
  "retired N r r' \<longleftrightarrow> hm_wf (cr_index r') \<and>
     (\<forall>n. hm_get (cr_index r') n = (if n \<in> N then None else hm_get (cr_index r) n)) \<and>
     length (cr_tasks r') = length (cr_tasks r) \<and>
     (\<forall>h < length (cr_tasks r). snd (cr_tasks r' ! h) \<longleftrightarrow> snd (cr_tasks r ! h) \<and>
        \<not> (\<exists>n \<in> N. \<exists>wk. hm_get (cr_index r) n = Some (wk, h)))"

lemma retiredD:
  assumes "retired N r r'"
  shows "hm_get (cr_index r') n = (if n \<in> N then None else hm_get (cr_index r) n)"
    and "h < length (cr_tasks r) \<Longrightarrow> snd (cr_tasks r' ! h) \<longleftrightarrow> snd (cr_tasks r ! h) \<and>
      \<not> (\<exists>n \<in> N. \<exists>wk. hm_get (cr_index r) n = Some (wk, h))"
  using assms unfolding retired_def by blast+

lemma retired_refl: "hm_wf (cr_index r) \<Longrightarrow> retired {} r r"
  by (simp add: retired_def)

lemma retired_world: "retired N r (r'\<lparr>cr_world := w\<rparr>) = retired N r r'"
  by (simp add: retired_def)

lemma retired_del:
  assumes "retired N r r1"
  shows "\<exists>x r2. del_worker n r1 = (Ret x, r2) \<and> retired (insert n N) r r2 \<and> cr_world r2 = cr_world r1 \<and>
    (hm_get (cr_index r1) n \<noteq> None \<longrightarrow> x = Inr ())"
proof (cases "hm_get (cr_index r1) n")
  case None
  then have "del_worker n r1 = (Ret (Inl (EWorkerNotFound n)), r1)"
    by (simp add: del_worker_def bindA_def outcome_simps)
  moreover have "n \<in> N \<or> hm_get (cr_index r) n = None"
    using None assms by (auto simp: retired_def split: if_splits)
  then have "retired (insert n N) r r1"
    using assms unfolding retired_def by auto
  ultimately show ?thesis using None by auto
next
  case (Some p)
  obtain wk h where p: "p = (wk, h)" by (cases p)
  have wf: "hm_wf (cr_index r1)" and n: "n \<notin> N" "hm_get (cr_index r) n = Some (wk, h)"
    using assms Some p by (auto simp: retired_def split: if_splits)
  obtain r2 where r2: "dropped {n} r1 r2" and del: "del_worker n r1 = (Ret (Inr ()), r2
    \<lparr>cr_topics := hm_map_values (\<lambda>e. e\<lparr>te_workers := filter (\<lambda>k. k \<noteq> n) (te_workers e)\<rparr>) (cr_topics r1),
     cr_dispatch := hm_map_values (filter (\<lambda>k. k \<noteq> n)) (cr_dispatch r1),
     cr_enabled := cr_enabled r1, cr_generation := cr_generation r1 + 1\<rparr>)"
    using del_worker_eval [OF Some [unfolded p] wf] by blast
  obtain ix ib ts where d: "r2 = r1\<lparr>cr_index := ix, cr_inboxes := ib, cr_tasks := ts\<rparr>" "hm_wf ix"
      "\<forall>k. hm_get ix k = (if k = n then None else hm_get (cr_index r1) k)"
      "length ts = length (cr_tasks r1)"
      "\<forall>i < length ts. ts ! i = (if i = h then (fst (cr_tasks r1 ! i), False) else cr_tasks r1 ! i)"
    using r2 Some p unfolding dropped_def by auto
  have "retired (insert n N) r r2"
    using assms d n unfolding retired_def by auto
  then show ?thesis using del Some d(1)
    by (auto simp: retired_def)
qed

lemma first_idle:
  assumes "Idle \<in> set polls"
  obtains k sts where "polls = replicate k Working @ Idle # sts"
proof -
  obtain pre sts where pre: "polls = pre @ Idle # sts" "Idle \<notin> set pre"
    using split_list_first [OF assms] by blast
  have "\<forall>st \<in> set pre. st = Working"
  proof
    fix st assume "st \<in> set pre"
    with pre(2) show "st = Working" by (cases st) auto
  qed
  then have "pre = replicate (length pre) Working" by (simp add: replicate_eqI)
  with pre(1) that show thesis by metis
qed

lemma wait_idle:
  "Idle \<in> set obs \<Longrightarrow> \<exists>a. shutdown_wait t limit obs w = (Ret (), w\<lparr>w_amb := a\<rparr>)"
proof (induction obs arbitrary: w)
  case (Cons st obs)
  have same: "w = w\<lparr>w_amb := w_amb w\<rparr>" by simp
  show ?case
  proof (cases st)
    case Idle
    then show ?thesis by (intro exI [of _ "w_amb w"]) (simp add: outcome_simps)
  next
    case Working
    with Cons.prems have i: "Idle \<in> set obs" by auto
    obtain a where "shutdown_wait t limit obs w = (Ret (), w\<lparr>w_amb := a\<rparr>)" using Cons.IH [OF i] by blast
    moreover obtain b where "shutdown_wait t limit obs (w\<lparr>w_amb := snd (read_clock (w_amb w))\<rparr>) = (Ret (), w\<lparr>w_amb := b\<rparr>)"
      using Cons.IH [OF i, of "w\<lparr>w_amb := snd (read_clock (w_amb w))\<rparr>"] by auto
    ultimately show ?thesis
      using Working same by (auto simp: bindA_def outcome_simps Let_def split: option.splits)
  qed
qed simp

context open_router_env
begin

lemma calm_shutdown:
  assumes "Idle \<in> set obs"
  shows "total_in (calm pdr pinv ops winv) (\<lambda>_. True) (worker_shutdown wk limit obs)"
proof -
  have send: "total_in (calm pdr pinv ops winv) (\<lambda>_. True) (bindA (make_message t pl Standard None) (\<lambda>m.
      bindQ (topic_send t m None None) (\<lambda>_. ret (Inr ()))))" for t pl
    unfolding make_message_def bindA_assoc bindA_ret
    by (intro total_intros calm_uuid calm_time_now calm_send) (simp_all add: emessage_new_def)
  have wait: "total_in (calm pdr pinv ops winv) (\<lambda>_. True) (shutdown_wait t limit obs)" for t
  proof (rule total_inI)
    fix w assume c: "calm pdr pinv ops winv w"
    obtain a where "shutdown_wait t limit obs w = (Ret (), w\<lparr>w_amb := a\<rparr>)" using wait_idle [OF assms] by blast
    with calm_upd(3) [OF c] show "\<exists>x w'. shutdown_wait t limit obs w = (Ret x, w') \<and> True \<and> calm pdr pinv ops winv w'"
      by auto
  qed
  show ?thesis
    unfolding worker_shutdown_def
    by (intro total_bindA_any [OF calm_time_now] total_bindA_any [OF wait])
      (unfold bindQ_def [of "encode_with cc_shutdown_ack _"], intro total_bindA_any [OF calm_encode],
        auto intro: total_ret send split: sum.splits)
qed

lemma retire_step:
  assumes "retired N r r1" and "calm pdr pinv ops winv (cr_world r1)" and "Idle \<in> set (obs (wk_name wk))"
  shows "\<exists>r2. retire obs wk r1 = (Ret (), r2) \<and> retired (insert (wk_name wk) N) r r2 \<and>
    calm pdr pinv ops winv (cr_world r2)"
proof -
  obtain x w where w: "worker_shutdown wk (Some 0) (obs (wk_name wk)) (cr_world r1) = (Ret x, w)"
      "calm pdr pinv ops winv w"
    using calm_shutdown [OF assms(3)] assms(2) by (rule total_inE)
  obtain y r2 where r2: "del_worker (wk_name wk) (r1\<lparr>cr_world := w\<rparr>) = (Ret y, r2)"
      "retired (insert (wk_name wk) N) r r2" "cr_world r2 = w"
    using retired_del [of N r "r1\<lparr>cr_world := w\<rparr>" "wk_name wk"] assms(1) by (auto simp: retired_world)
  with w show ?thesis by (simp add: retire_def in_world_def bindA_def outcome_simps)
qed

lemma retire_all:
  assumes "retired N r r1" and "calm pdr pinv ops winv (cr_world r1)"
    and "\<forall>wk \<in> set wks. P wk \<longrightarrow> Idle \<in> set (obs (wk_name wk))"
  shows "\<exists>r2. forA (\<lambda>wk. if P wk then retire obs wk else ret ()) wks r1 = (Ret (), r2) \<and>
    retired (N \<union> wk_name ` {wk \<in> set wks. P wk}) r r2"
  using assms
proof (induction wks arbitrary: N r1)
  case (Cons wk wks)
  show ?case
  proof (cases "P wk")
    case True
    obtain r2 where r2: "retire obs wk r1 = (Ret (), r2)" "retired (insert (wk_name wk) N) r r2"
        "calm pdr pinv ops winv (cr_world r2)"
      using retire_step [OF Cons.prems(1,2), of obs wk] Cons.prems(3) True by auto
    have "insert (wk_name wk) N \<union> wk_name ` {wk \<in> set wks. P wk} =
        N \<union> wk_name ` {x \<in> set (wk # wks). P x}" using True by auto
    with Cons.IH [OF r2(2,3)] Cons.prems(3) r2(1) True show ?thesis
      by (auto simp: bindA_def outcome_simps)
  next
    case False
    have "{x. (x = wk \<or> x \<in> set wks) \<and> P x} = {x \<in> set wks. P x}" using False by auto
    with Cons.IH [OF Cons.prems(1,2)] Cons.prems(3) False show ?thesis
      by (simp add: bindA_def outcome_simps)
  qed
qed (simp add: outcome_simps)

end


lemma all_workers: "get_all_workers r = (Ret (map fst (hm_values (cr_index r))), r)"
  by (simp add: get_all_workers_def getA_def)

lemma index_workers:
  assumes "router_wf r"
  shows "wk \<in> set (map fst (hm_values (cr_index r))) \<longleftrightarrow> (\<exists>h. hm_get (cr_index r) (wk_name wk) = Some (wk, h))"
proof
  assume "wk \<in> set (map fst (hm_values (cr_index r)))"
  then obtain n h where "(n, (wk, h)) \<in> set (cr_index r)" by auto
  then have n: "hm_get (cr_index r) n = Some (wk, h)" using router_wfD(2) [OF assms] by simp
  with router_wfD(4) [OF assms n] show "\<exists>h. hm_get (cr_index r) (wk_name wk) = Some (wk, h)"
    by (auto simp: worker_live_def)
next
  assume "\<exists>h. hm_get (cr_index r) (wk_name wk) = Some (wk, h)"
  then show "wk \<in> set (map fst (hm_values (cr_index r)))" by (force dest: map_of_SomeD)
qed

lemma index_names:
  assumes "router_wf r"
  shows "wk_name ` {wk \<in> set (map fst (hm_values (cr_index r))). P (wk_name wk)} =
    {n. hm_get (cr_index r) n \<noteq> None \<and> P n}"
proof -
  have "wk_name wk = n" if "hm_get (cr_index r) n = Some (wk, h)" for n wk h
    using router_wfD(4) [OF assms that] by (simp add: worker_live_def)
  then have "n \<in> wk_name ` {wk \<in> set (map fst (hm_values (cr_index r))). P (wk_name wk)}"
    if "hm_get (cr_index r) n = Some (wk, h)" "P n" for n wk h
    using that index_workers [OF assms, of wk] by blast
  moreover have "hm_get (cr_index r) (wk_name wk) \<noteq> None" if "wk \<in> set (map fst (hm_values (cr_index r)))" for wk
    using that index_workers [OF assms, of wk] by blast
  ultimately show ?thesis by fast
qed

lemma chunks_concat: "0 < n \<Longrightarrow> concat (chunks n xs) = xs"
proof (induction n xs rule: chunks.induct)
  case (1 n xs)
  then show ?case by (subst chunks.simps) auto
qed

lemma forA_concat: "forA (forA f) xss s = forA f (concat xss) s"
proof (induction xss arbitrary: s)
  case (Cons xs xss)
  have "forA f (xs @ ys) t = bindA (forA f xs) (\<lambda>_. forA f ys) t" for ys t
    by (induction xs arbitrary: t)
      (auto simp: bindA_def outcome_simps split: prod.splits outcome.splits)
  with Cons show ?case by (auto simp: bindA_def split: prod.splits outcome.splits)
qed simp


lemma shutdown_succeeds:
  fixes w :: "('q link, mem_wal, 'z) world_scheme"
  assumes "calm flume_producer open_link memory_wal mw_inv w"
    and "\<forall>x. \<exists>b. cd_enc (cc_shutdown_ack (w_codecs w)) x = Inr b" and "Idle \<in> set obs"
  shows "\<exists>w'. worker_shutdown wk limit obs w = (Ret (Inr ()), w')"
proof -
  have sent: "\<exists>w'. bindQ (topic_send t (m\<lparr>delivery_mode := Standard, deliver_at := None\<rparr>) None None)
      (\<lambda>_. ret (Inr ())) (w\<lparr>w_amb := a\<rparr>) = (Ret (Inr ()), w')" for t m a
  proof -
    have "total_in (calm flume_producer open_link memory_wal mw_inv) is_ok
        (topic_send t (m\<lparr>delivery_mode := Standard, deliver_at := None\<rparr>) None None)"
      by (rule open_flume_memory.calm_send) simp
    then obtain x w' where "topic_send t (m\<lparr>delivery_mode := Standard, deliver_at := None\<rparr>) None None
        (w\<lparr>w_amb := a\<rparr>) = (Ret x, w')" "is_ok x"
      using calm_upd(3) [OF assms(1)] by (rule total_inE)
    then show ?thesis by (cases x) (auto simp: bindQ_def bindA_def is_ok_def outcome_simps)
  qed
  obtain a where a: "shutdown_wait (clock_src (w_amb w) (clock_next (w_amb w))) limit obs
      (w\<lparr>w_amb := snd (read_clock (w_amb w))\<rparr>) = (Ret (), w\<lparr>w_amb := a\<rparr>)"
    using wait_idle [OF assms(3), of _ limit "w\<lparr>w_amb := snd (read_clock (w_amb w))\<rparr>"] by fastforce
  obtain b where b: "cd_enc (cc_shutdown_ack (w_codecs w)) \<lparr>sa_worker_name = wk_name wk, sa_status = Completed,
      sa_timestamp = clock_src a (clock_next a), sa_error = None\<rparr> = Inr b"
    using assms(2) by blast
  have new: "emessage_new u t topic pl Standard None =
      (emessage_new u t topic pl Standard None)\<lparr>delivery_mode := Standard, deliver_at := None\<rparr>" for u t topic pl
    by (simp add: emessage_new_def)
  show ?thesis
    using a b sent [of SYSTEM_TOPIC_SHUTDOWN_ACK "emessage_new _ _ _ _ Standard None", folded new]
    by (simp add: worker_shutdown_def make_message_def encode_with_def bindA_def outcome_simps bindQ_def [of "getA _"])
qed


section \<open>Properties\<close>

text \<open>A router with two workers of one topic, and the codec of their acknowledgements.\<close>

definition pair_router :: "shutdown_ack codec \<Rightarrow> (emessage list link, mem_wal, unit, emessage list) consumer_router"
  where
  "pair_router codec =
     (let w1 = verdict_worker Ack; w2 = (verdict_worker Ack)\<lparr>wk_name := ''w2''\<rparr> in
      \<lparr>cr_world = calm_world\<lparr>w_codecs := (w_codecs calm_world)\<lparr>cc_shutdown_ack := codec\<rparr>\<rparr>,
       cr_factory = (\<lambda>t. ret (Inr (flume_producer, ()))), cr_channel = (\<lambda>_. Ret (open_list_link [])),
       cr_topics = [(''jobs'', \<lparr>te_producer = flume_producer, te_consumer_factory = (),
         te_handler = (\<lambda>m. ret Ack), te_pipeline = None, te_workers = [''w1'', ''w2'']\<rparr>)],
       cr_index = [(''w1'', (w1, 1)), (''w2'', (w2, 2))], cr_idle = [],
       cr_dispatch = [(''jobs'', [''w1'', ''w2''])], cr_enabled = [(''jobs'', True)],
       cr_inboxes = [(''w1'', 0), (''w2'', 1)], cr_generation = 2, cr_batch = 64,
       cr_boxes = [open_list_link [], open_list_link []],
       cr_tasks = [(TopicDispatcher ''jobs'' () flume_producer, True), (WorkerLoop w1 0, True),
         (WorkerLoop w2 1, True)]\<rparr>)"

lemma pair_router_wf: "router_wf (pair_router codec)"
  by (auto simp: router_wf_def pair_router_def Let_def worker_live_def dispatcher_live_def entry_workers_def
      dispatch_list_def verdict_worker_def numeral_2_eq_2 split: if_splits)

lemma pair_router_calm: "calm flume_producer open_link memory_wal mw_inv (cr_world (pair_router codec))"
  using calm_world_calm
  by (simp add: pair_router_def Let_def calm_def env_ready_def router_ready_def registry_ready_def encodable_def)

lemma pair_router_sel [simp]:
  "map fst (cr_index (pair_router codec)) = [''w1'', ''w2'']"
  "cc_shutdown_ack (w_codecs (cr_world (pair_router codec))) = codec"
  by (simp_all add: pair_router_def Let_def)

lemma force_removes:
  fixes r :: "('q link, mem_wal, 'k, 'p) consumer_router"
  assumes "router_wf r" and "calm flume_producer open_link memory_wal mw_inv (cr_world r)"
    and "\<forall>n. Idle \<in> set (obs n)"
  shows "\<exists>r'. shutdown_force obs r = (Ret (), r') \<and> (\<forall>n. hm_get (cr_index r') n = None) \<and>
    (\<forall>n wk h. hm_get (cr_index r) n = Some (wk, h) \<longrightarrow> snd (cr_tasks r' ! h) = False)"
proof -
  let ?wks = "map fst (hm_values (cr_index r))"
  obtain r' where r': "forA (\<lambda>wk. if True then retire obs wk else ret ()) ?wks r = (Ret (), r')"
      "retired ({} \<union> wk_name ` {wk \<in> set ?wks. True}) r r'"
    using open_flume_memory.retire_all [OF retired_refl [OF router_wfD(2) [OF assms(1)]] assms(2),
        where wks = ?wks and P = "\<lambda>_. True" and obs = obs] assms(3) by auto
  have ret: "retired {n. hm_get (cr_index r) n \<noteq> None} r r'"
    using r'(2) index_names [OF assms(1), of "\<lambda>_. True"] by simp
  have "snd (cr_tasks r' ! h) = False" if "hm_get (cr_index r) n = Some (wk, h)" for n wk h
  proof -
    have "h < length (cr_tasks r)" using router_wfD(4) [OF assms(1) that] by (simp add: worker_live_def)
    with retiredD(2) [OF ret] that show ?thesis by blast
  qed
  moreover have "\<forall>n. hm_get (cr_index r') n = None" using retiredD(1) [OF ret] by (metis (mono_tags, lifting) mem_Collect_eq)
  moreover have "shutdown_force obs r = (Ret (), r')"
    using r'(1) by (simp add: shutdown_force_def bindA_def all_workers)
  ultimately show ?thesis by blast
qed



text \<open>
  The idle-only shutdown removes exactly the workers it finds idle: they are gone with
  their tasks stopped, and every other worker stays in the index with its task as it was.
\<close>

theorem shutdown_idle_only_exact:
  fixes r :: "('q link, mem_wal, 'k, 'p) consumer_router"
  assumes "router_wf r" and "calm flume_producer open_link memory_wal mw_inv (cr_world r)"
    and "\<forall>n. status n = Idle \<longrightarrow> Idle \<in> set (obs n)"
  shows "\<exists>r'. shutdown_idle_only status obs r = (Ret (), r') \<and>
    (\<forall>n. hm_get (cr_index r') n = (if status n = Idle then None else hm_get (cr_index r) n)) \<and>
    (\<forall>n wk h. hm_get (cr_index r) n = Some (wk, h) \<longrightarrow>
      (snd (cr_tasks r' ! h) \<longleftrightarrow> snd (cr_tasks r ! h) \<and> status n \<noteq> Idle))"
proof -
  let ?wks = "map fst (hm_values (cr_index r))" and ?P = "\<lambda>wk. status (wk_name wk) = Idle"
  obtain r' where r': "forA (\<lambda>wk. if ?P wk then retire obs wk else ret ()) ?wks r = (Ret (), r')"
      "retired ({} \<union> wk_name ` {wk \<in> set ?wks. ?P wk}) r r'"
    using open_flume_memory.retire_all [OF retired_refl [OF router_wfD(2) [OF assms(1)]] assms(2),
        where wks = ?wks and P = ?P and obs = obs] assms(3) by auto
  have ret: "retired {n. hm_get (cr_index r) n \<noteq> None \<and> status n = Idle} r r'"
    using r'(2) index_names [OF assms(1), of "\<lambda>n. status n = Idle"] by simp
  have "snd (cr_tasks r' ! h) \<longleftrightarrow> snd (cr_tasks r ! h) \<and> status n \<noteq> Idle"
    if n: "hm_get (cr_index r) n = Some (wk, h)" for n wk h
  proof -
    have "n' = n" if "hm_get (cr_index r) n' = Some (wk', h)" for n' wk'
      using router_wfD(4) [OF assms(1) that] router_wfD(4) [OF assms(1) n] by (auto simp: worker_live_def)
    with n have "(\<exists>n \<in> {n. hm_get (cr_index r) n \<noteq> None \<and> status n = Idle}. \<exists>wk.
        hm_get (cr_index r) n = Some (wk, h)) \<longleftrightarrow> status n = Idle" by blast
    moreover have "h < length (cr_tasks r)" using router_wfD(4) [OF assms(1) n] by (simp add: worker_live_def)
    ultimately show ?thesis using retiredD(2) [OF ret, of h] by blast
  qed
  moreover have "\<forall>n. hm_get (cr_index r') n = (if status n = Idle then None else hm_get (cr_index r) n)"
    using retiredD(1) [OF ret] by (metis (mono_tags, lifting) mem_Collect_eq)
  moreover have "shutdown_idle_only status obs r = (Ret (), r')"
    using r'(1) by (simp add: shutdown_idle_only_def bindA_def all_workers)
  ultimately show ?thesis by blast
qed

theorem shutdown_idle_only_exact_witness:
  "\<exists>r'. shutdown_idle_only (\<lambda>n. if n = ''w1'' then Idle else Working) (\<lambda>_. [Idle]) (pair_router null_codec) =
      (Ret (), r') \<and> hm_get (cr_index r') ''w1'' = None \<and> hm_get (cr_index r') ''w2'' \<noteq> None"
proof -
  let ?st = "\<lambda>n. if n = ''w1'' then Idle else Working"
  have w2: "hm_get (cr_index (pair_router null_codec)) ''w2'' \<noteq> None"
    by (simp add: pair_router_def Let_def)
  have "\<forall>n. ?st n = Idle \<longrightarrow> Idle \<in> set [Idle]" by simp
  from shutdown_idle_only_exact [OF pair_router_wf pair_router_calm this, of null_codec]
  obtain r' where r': "shutdown_idle_only ?st (\<lambda>_. [Idle]) (pair_router null_codec) = (Ret (), r')"
      "\<forall>n. hm_get (cr_index r') n = (if ?st n = Idle then None else hm_get (cr_index (pair_router null_codec)) n)"
    by blast
  have "hm_get (cr_index r') ''w1'' = None" "hm_get (cr_index r') ''w2'' \<noteq> None"
    using r'(2) w2 by (simp_all del: map_of_eq_Some_iff)
  with r'(1) show ?thesis by blast
qed

text \<open>
  The batched shutdown does what the forced one does, whatever the size of the
  chunks; with the batch size zero it panics and removes no worker.
\<close>

theorem shutdown_batched_force:
  "shutdown_batched b obs r =
     (if b = 0 then (Panic ''chunk size must be non-zero'', r) else shutdown_force obs r)"
  by (simp add: shutdown_batched_def shutdown_force_def bindA_def all_workers forA_concat chunks_concat
      outcome_simps)


lemma graceful_waits:
  "graceful_loop wk obs (replicate k Working @ Idle # sts) = graceful_loop wk obs (Idle # sts)"
  by (induction k) simp_all

lemma graceful_stuck: "Idle \<notin> set polls \<Longrightarrow> graceful_loop wk obs polls r = (Pending, r)"
  by (induction polls) auto

text \<open>
  The graceful shutdown of a worker waits until it finds the worker idle: as long as every
  poll finds it working the call does not return and changes nothing; after the first poll that
  finds it idle it returns success with the worker removed and its task stopped, if the
  acknowledgement can be encoded. Asked for a worker that does not exist it fails at once.
\<close>

theorem graceful_shutdown_waits:
  fixes r :: "('q link, mem_wal, 'k, 'p) consumer_router"
  assumes "router_wf r" and "calm flume_producer open_link memory_wal mw_inv (cr_world r)"
    and "\<forall>n. Idle \<in> set (obs n)" and "\<forall>x. \<exists>b. cd_enc (cc_shutdown_ack (w_codecs (cr_world r))) x = Inr b"
  shows "(case hm_get (cr_index r) n of
      None \<Rightarrow> graceful_shutdown n obs polls r = (Ret (Inl (EWorkerNotFound n)), r)
    | Some (wk, h) \<Rightarrow>
        (Idle \<notin> set polls \<longrightarrow> graceful_shutdown n obs polls r = (Pending, r)) \<and>
        (Idle \<in> set polls \<longrightarrow> (\<exists>r'. graceful_shutdown n obs polls r = (Ret (Inr ()), r') \<and>
          hm_get (cr_index r') n = None \<and> snd (cr_tasks r' ! h) = False)))"
proof (cases "hm_get (cr_index r) n")
  case None
  then show ?thesis
    by (simp add: graceful_shutdown_def get_worker_def bindQ_def bindA_def outcome_simps)
next
  case (Some p)
  obtain wk h where p: "p = (wk, h)" by (cases p)
  have live: "worker_live r n wk h" using router_wfD(4) [OF assms(1)] Some p by simp
  have get: "graceful_shutdown n obs polls r = graceful_loop wk obs polls r"
    using Some p by (simp add: graceful_shutdown_def get_worker_def bindQ_def bindA_def outcome_simps)
  have "\<exists>r'. graceful_loop wk obs polls r = (Ret (Inr ()), r') \<and>
      hm_get (cr_index r') n = None \<and> snd (cr_tasks r' ! h) = False" if idle: "Idle \<in> set polls"
  proof -
    obtain k sts where polls: "polls = replicate k Working @ Idle # sts"
      using first_idle [OF idle] .
    obtain w where w: "worker_shutdown wk (Some 0) (obs (wk_name wk)) (cr_world r) = (Ret (Inr ()), w)"
      using shutdown_succeeds [OF assms(2,4)] assms(3) by blast
    obtain r' where r': "del_worker (wk_name wk) (r\<lparr>cr_world := w\<rparr>) = (Ret (Inr ()), r')"
        "retired {wk_name wk} r r'"
      using retired_del [of "{}" r "r\<lparr>cr_world := w\<rparr>" "wk_name wk"] retired_refl [OF router_wfD(2) [OF assms(1)]]
        Some p live by (auto simp: retired_world worker_live_def)
    have "snd (cr_tasks r' ! h) = False" "hm_get (cr_index r') n = None"
      using retiredD [OF r'(2)] live Some p by (auto simp: worker_live_def)
    with w r'(1) polls show ?thesis
      by (simp add: graceful_waits in_world_def bindQ_def bindA_def outcome_simps)
  qed
  with Some p get graceful_stuck [of polls wk obs r] show ?thesis by auto
qed

theorem graceful_shutdown_waits_witness:
  "graceful_shutdown ''w1'' (\<lambda>_. [Idle]) [Working, Working] (pair_router blank_codec) =
      (Pending, pair_router blank_codec) \<and>
   (\<exists>r'. graceful_shutdown ''w1'' (\<lambda>_. [Idle]) [Working, Idle] (pair_router blank_codec) = (Ret (Inr ()), r') \<and>
      hm_get (cr_index r') ''w1'' = None)"
proof -
  have w1: "hm_get (cr_index (pair_router blank_codec)) ''w1'' = Some (verdict_worker Ack, 1)"
    by (simp add: pair_router_def Let_def)
  have enc: "\<forall>x. \<exists>b. cd_enc (cc_shutdown_ack (w_codecs (cr_world (pair_router blank_codec)))) x = Inr b"
    by (simp add: blank_codec_def)
  from graceful_shutdown_waits [OF pair_router_wf pair_router_calm _ enc, of "\<lambda>_. [Idle]" "''w1''" "[Working, Working]"]
    graceful_shutdown_waits [OF pair_router_wf pair_router_calm _ enc, of "\<lambda>_. [Idle]" "''w1''" "[Working, Idle]"]
  show ?thesis by (auto simp: w1)
qed

text \<open>
  The two-stage shutdown gives up on the first worker whose acknowledgement cannot be sent:
  if the acknowledgement does not encode, the call reports the error once the timeout has
  passed, and every worker is still there.
\<close>

theorem two_stage_stops_at_error:
  assumes "cr_index r \<noteq> []" and "\<forall>n. obs n \<noteq> [] \<and> hd (obs n) = Idle"
    and "\<forall>x. cd_enc (cc_shutdown_ack (w_codecs (cr_world r))) x = Inl e"
  shows "\<exists>r'. shutdown_all_workers_two_stage timeout obs [(timeout, complete)] r =
      (Ret (Inl (ESerialize (SerializeError e))), r') \<and>
    cr_index r' = cr_index r \<and> cr_tasks r' = cr_tasks r"
proof -
  obtain wk wks where wks: "map fst (hm_values (cr_index r)) = wk # wks"
    using assms(1) by (cases "cr_index r") auto
  obtain sts where "obs (wk_name wk) = Idle # sts"
    using assms(2) by (metis list.collapse)
  then obtain w where "worker_shutdown wk (Some 0) (obs (wk_name wk)) (cr_world r) =
      (Ret (Inl (ESerialize (SerializeError e))), w)"
    using assms(3) by (simp add: worker_shutdown_def encode_with_def bindQ_def bindA_def outcome_simps)
  with wks show ?thesis
    by (simp add: shutdown_all_workers_two_stage_def all_workers in_world_def bindQ_def bindA_def outcome_simps)
qed

theorem two_stage_stops_at_error_witness:
  "\<exists>r'. shutdown_all_workers_two_stage 5 (\<lambda>_. [Idle]) [(5, \<lambda>_. False)] (pair_router null_codec) =
      (Ret (Inl (ESerialize (SerializeError ''unsupported''))), r') \<and>
    map fst (cr_index r') = [''w1'', ''w2'']"
proof -
  have "cr_index (pair_router null_codec) \<noteq> []" by (simp add: pair_router_def Let_def)
  moreover have "\<forall>x. cd_enc (cc_shutdown_ack (w_codecs (cr_world (pair_router null_codec)))) x = Inl ''unsupported''"
    by (simp add: null_codec_def)
  ultimately show ?thesis
    using two_stage_stops_at_error [of "pair_router null_codec" "\<lambda>_. [Idle]" "''unsupported''" 5 "\<lambda>_. False"]
      pair_router_sel(1) [of null_codec] by auto
qed

end
