(* ===== verification/Byte_Codec.thy ===== *)
theory Byte_Codec
  imports Wire
begin

text \<open>
  An executable byte codec for the system messages, an instance of the codec parameter: a value
  becomes a list of numbers, each number a run of ones ended by a zero. It shows that the
  round-trip guarantee asked of the codecs can hold.
\<close>

section \<open>Numbers\<close>

type_synonym 'a coder = "('a \<Rightarrow> nat list) \<times> (nat list \<Rightarrow> ('a \<times> nat list) option)"

definition coder_ok :: "'a coder \<Rightarrow> bool" where
  "coder_ok c \<longleftrightarrow> (\<forall>x ns. snd c (fst c x @ ns) = Some (x, ns))"

definition nat_coder :: "nat coder" where
  "nat_coder = (\<lambda>n. [n], \<lambda>ns. case ns of [] \<Rightarrow> None | n # ms \<Rightarrow> Some (n, ms))"

definition iso_coder :: "('a \<Rightarrow> 'b) \<Rightarrow> ('b \<Rightarrow> 'a) \<Rightarrow> 'b coder \<Rightarrow> 'a coder" where
  "iso_coder f g c = (\<lambda>x. fst c (f x), \<lambda>ns. map_option (\<lambda>(y, ms). (g y, ms)) (snd c ns))"

definition pair_coder :: "'a coder \<Rightarrow> 'b coder \<Rightarrow> ('a \<times> 'b) coder" where
  "pair_coder c d =
     (\<lambda>(x, y). fst c x @ fst d y,
      \<lambda>ns. case snd c ns of None \<Rightarrow> None
        | Some (x, ms) \<Rightarrow> map_option (\<lambda>(y, ks). ((x, y), ks)) (snd d ms))"

fun list_decode :: "'a coder \<Rightarrow> nat \<Rightarrow> nat list \<Rightarrow> ('a list \<times> nat list) option" where
  "list_decode c 0 ns = Some ([], ns)"
| "list_decode c (Suc k) ns =
     (case snd c ns of None \<Rightarrow> None
      | Some (x, ms) \<Rightarrow> map_option (\<lambda>(xs, ks). (x # xs, ks)) (list_decode c k ms))"

definition list_coder :: "'a coder \<Rightarrow> 'a list coder" where
  "list_coder c =
     (\<lambda>xs. length xs # concat (map (fst c) xs),
      \<lambda>ns. case ns of [] \<Rightarrow> None | k # ms \<Rightarrow> list_decode c k ms)"

lemma coder_ok_nat [simp]: "coder_ok nat_coder"
  by (simp add: coder_ok_def nat_coder_def)

lemma coder_ok_iso [simp]: "coder_ok c \<Longrightarrow> (\<And>x. g (f x) = x) \<Longrightarrow> coder_ok (iso_coder f g c)"
  by (simp add: coder_ok_def iso_coder_def)

lemma coder_ok_pair [simp]: "coder_ok c \<Longrightarrow> coder_ok d \<Longrightarrow> coder_ok (pair_coder c d)"
  by (simp add: coder_ok_def pair_coder_def)

lemma coder_ok_list [simp]:
  assumes "coder_ok c"
  shows "coder_ok (list_coder c)"
proof -
  have "list_decode c (length xs) (concat (map (fst c) xs) @ ns) = Some (xs, ns)" for xs ns
    using assms by (induction xs) (simp_all add: coder_ok_def)
  then show ?thesis by (simp add: coder_ok_def list_coder_def)
qed


section \<open>Bytes\<close>

fun to_bytes :: "nat list \<Rightarrow> u8 list" where
  "to_bytes [] = []"
| "to_bytes (n # ns) = replicate n 1 @ 0 # to_bytes ns"

fun of_bytes :: "nat \<Rightarrow> u8 list \<Rightarrow> nat list" where
  "of_bytes n [] = []"
| "of_bytes n (b # bs) = (if b = 0 then n # of_bytes 0 bs else of_bytes (Suc n) bs)"

definition codec_of :: "'a coder \<Rightarrow> 'a codec" where
  "codec_of c =
     \<lparr>cd_enc = (\<lambda>x. Inr (to_bytes (fst c x))),
      cd_dec = (\<lambda>b. case snd c (of_bytes 0 b) of Some (x, []) \<Rightarrow> Inr x | _ \<Rightarrow> Inl ''malformed'')\<rparr>"

lemma of_bytes_run: "of_bytes n (replicate k 1 @ bs) = of_bytes (n + k) bs"
  by (induction k arbitrary: n) simp_all

lemma of_to_bytes [simp]: "of_bytes 0 (to_bytes ns) = ns"
  by (induction ns) (simp_all add: of_bytes_run)

lemma codec_of_ok [simp]: "coder_ok c \<Longrightarrow> codec_ok (codec_of c)"
proof -
  assume "coder_ok c"
  then have "snd c (fst c x) = Some (x, [])" for x by (metis append_Nil2 coder_ok_def)
  then show ?thesis by (auto simp: codec_ok_def codec_of_def)
qed

lemma codec_of_enc [simp]: "cd_enc (codec_of c) x = Inr (to_bytes (fst c x))"
  by (simp add: codec_of_def)


section \<open>The system messages\<close>

definition string_coder :: "string coder" where
  "string_coder = list_coder (iso_coder of_char char_of nat_coder)"

definition time_coder :: "time coder" where
  "time_coder = iso_coder (\<lambda>t. if 0 \<le> t then (0, nat t) else (1, nat (- t)))
     (\<lambda>(s, n). if s = 0 then int n else - int n) (pair_coder nat_coder nat_coder)"

definition option_coder :: "'a coder \<Rightarrow> 'a option coder" where
  "option_coder c = iso_coder (\<lambda>x. case x of None \<Rightarrow> [] | Some y \<Rightarrow> [y])
     (\<lambda>ys. case ys of [] \<Rightarrow> None | y # _ \<Rightarrow> Some y) (list_coder c)"

definition state_coder :: "wal_record_state coder" where
  "state_coder = iso_coder (\<lambda>s. case s of WPending \<Rightarrow> 0 | WProcessing \<Rightarrow> 1 | WComplete \<Rightarrow> 2 | WFailed \<Rightarrow> 3)
     (\<lambda>n. if n = 0 then WPending else if n = 1 then WProcessing else if n = 2 then WComplete else WFailed)
     nat_coder"

lemma coder_ok_parts [simp]:
  "coder_ok string_coder" "coder_ok time_coder" "coder_ok c \<Longrightarrow> coder_ok (option_coder c)" "coder_ok state_coder"
  by (simp_all add: string_coder_def time_coder_def option_coder_def state_coder_def
      split: option.splits wal_record_state.splits)

definition sync_coder :: "wal_sync_message coder" where
  "sync_coder = iso_coder
     (\<lambda>m. (ws_message_id m, ws_topic m, ws_worker_id m, ws_status m, unat (ws_attempts m), ws_last_attempt_at m,
       ws_error m, ws_timestamp m))
     (\<lambda>(i, t, w, s, a, l, e, c). \<lparr>ws_message_id = i, ws_topic = t, ws_worker_id = w, ws_status = s,
       ws_attempts = of_nat a, ws_last_attempt_at = l, ws_error = e, ws_timestamp = c\<rparr>)
     (pair_coder string_coder (pair_coder string_coder (pair_coder string_coder (pair_coder state_coder
       (pair_coder nat_coder (pair_coder time_coder (pair_coder (option_coder string_coder) time_coder)))))))"

definition discovery_coder :: "worker_discovery_message coder" where
  "discovery_coder = iso_coder (\<lambda>m. (wd_worker_name m, wd_topic m, wd_started_at m))
     (\<lambda>(n, t, s). \<lparr>wd_worker_name = n, wd_topic = t, wd_started_at = s\<rparr>)
     (pair_coder string_coder (pair_coder string_coder time_coder))"

definition heartbeat_coder :: "worker_heartbeat_message coder" where
  "heartbeat_coder = iso_coder (\<lambda>m. (hb_worker_name m, hb_timestamp m))
     (\<lambda>(n, t). \<lparr>hb_worker_name = n, hb_timestamp = t\<rparr>) (pair_coder string_coder time_coder)"

definition topics_coder :: "topic_sync_message coder" where
  "topics_coder = iso_coder sync_topics (\<lambda>ts. \<lparr>sync_topics = ts\<rparr>) (list_coder string_coder)"

definition has_topics_coder :: "topic_discovery_message coder" where
  "has_topics_coder = iso_coder has_topics (\<lambda>ts. \<lparr>has_topics = ts\<rparr>) (list_coder string_coder)"

lemma coder_ok_messages [simp]:
  "coder_ok sync_coder" "coder_ok discovery_coder" "coder_ok heartbeat_coder" "coder_ok topics_coder"
  "coder_ok has_topics_coder"
  by (simp_all add: sync_coder_def discovery_coder_def heartbeat_coder_def topics_coder_def has_topics_coder_def)

definition byte_codecs :: codecs where
  "byte_codecs = null_codecs\<lparr>cc_sync := codec_of sync_coder, cc_discovery := codec_of discovery_coder,
     cc_heartbeat := codec_of heartbeat_coder, cc_topic_sync := codec_of topics_coder,
     cc_topic_discovery := codec_of has_topics_coder\<rparr>"

lemma byte_codecs_sel [simp]:
  "cc_sync byte_codecs = codec_of sync_coder" "cc_discovery byte_codecs = codec_of discovery_coder"
  "cc_heartbeat byte_codecs = codec_of heartbeat_coder" "cc_topic_sync byte_codecs = codec_of topics_coder"
  "cc_topic_discovery byte_codecs = codec_of has_topics_coder"
  by (simp_all add: byte_codecs_def)

end
