(* ===== verification/System_Handlers.thy ===== *)
theory System_Handlers
  imports Audit_Log Metrics Shutdown Byte_Codec
begin

text \<open>
  The handlers of the system topics (\<^verbatim>\<open>event_base_core/src/system_handlers\<close>) and the heartbeat and
  cleanup tasks of \<^verbatim>\<open>worker.rs\<close> there. Handlers that reach only the topic router, the registry or the log
  act on the process-wide state; those of audit records, metrics and shutdown commands act on
  the record \<open>node\<close>, which joins the consumer router with the audit and metrics globals. A message
  that the system topics carry is decoded with the codec that encoded it, a parameter.
\<close>

section \<open>Handlers over the process-wide state\<close>

definition decode_with :: "(codecs \<Rightarrow> 'a codec) \<Rightarrow> u8 list \<Rightarrow> (('f, 'w, 'z) world_scheme, string + 'a) act" where
  "decode_with c bytes = getA (\<lambda>w. cd_dec (c (w_codecs w)) bytes)"

definition worker_discovery_handler :: "emessage \<Rightarrow> (('f, 'w, 'z) world_scheme, ack) act" where
  "worker_discovery_handler msg =
     bindA (decode_with cc_discovery (payload msg)) (\<lambda>d. case d of
         Inl _ \<Rightarrow> ret Ack
       | Inr info \<Rightarrow>
           bindA time_now (\<lambda>now.
           bindA (registry_register \<lparr>wi_name = wd_worker_name info, wi_topic = wd_topic info,
             last_heartbeat = now\<rparr>) (\<lambda>_. ret Ack)))"

definition worker_heartbeat_handler :: "emessage \<Rightarrow> (('f, 'w, 'z) world_scheme, ack) act" where
  "worker_heartbeat_handler msg =
     bindA (decode_with cc_heartbeat (payload msg)) (\<lambda>d. case d of
         Inl _ \<Rightarrow> ret Ack
       | Inr hb \<Rightarrow> bindA (registry_heartbeat (hb_worker_name hb)) (\<lambda>_. ret Ack))"

definition shutdown_ack_handler :: "emessage \<Rightarrow> (('f, 'w, 'z) world_scheme, ack) act" where
  "shutdown_ack_handler msg =
     bindA (decode_with cc_shutdown_ack (payload msg)) (\<lambda>d. case d of
         Inl _ \<Rightarrow> ret Ack
       | Inr a \<Rightarrow> bindA (registry_unregister (sa_worker_name a)) (\<lambda>_. ret Ack))"

text \<open>
  The log is a field of the handler. An update may make a placeholder message, for which the
  identifier and the time are drawn here.
\<close>

definition wal_sync_handler :: "'w wal_ops \<Rightarrow> emessage \<Rightarrow> (('f, 'w, 'z) world_scheme, ack) act" where
  "wal_sync_handler ops msg =
     bindA (decode_with cc_sync (payload msg)) (\<lambda>d. case d of
         Inl _ \<Rightarrow> ret Ack
       | Inr sync \<Rightarrow>
           bindA uuid_v4 (\<lambda>u. bindA time_now (\<lambda>t.
           bindA (on_wal (wal_update_state ops u t (ws_message_id sync) (ws_status sync))) (\<lambda>_.
           bindA (on_wal (wal_flush ops)) (\<lambda>_. ret Ack)))))"

text \<open>The loop that registers the topics missing from a list read before it.\<close>

definition register_missing :: "string list \<Rightarrow> string list \<Rightarrow> (('f, 'w, 'z) world_scheme, unit) act" where
  "register_missing known items =
     forA (\<lambda>item. if item \<notin> set known then register_topic item else ret ()) items"

definition topic_discovery_handler :: "emessage \<Rightarrow> (('f, 'w, 'z) world_scheme, ack) act" where
  "topic_discovery_handler msg =
     bindA (decode_with cc_topic_discovery (payload msg)) (\<lambda>d. case d of
         Inl _ \<Rightarrow> ret Ack
       | Inr topics \<Rightarrow>
           bindA list_topics (\<lambda>topic_list.
           bindA (register_missing topic_list (has_topics topics)) (\<lambda>_.
           bindA list_topics (\<lambda>updated.
           bindA (encode_with cc_topic_sync \<lparr>sync_topics = updated\<rparr>) (\<lambda>pl.
           bindA (make_message SYSTEM_TOPIC_TOPIC_SYNC (case pl of Inr b \<Rightarrow> b | Inl _ \<Rightarrow> []) Standard None) (\<lambda>m.
           bindA (topic_send SYSTEM_TOPIC_TOPIC_SYNC m None None) (\<lambda>_. ret Ack)))))))"

definition topic_sync_handler :: "emessage \<Rightarrow> (('f, 'w, 'z) world_scheme, ack) act" where
  "topic_sync_handler msg =
     bindA get_node_type (\<lambda>nt.
     if nt = Host then ret Ack
     else
       bindA (decode_with cc_topic_sync (payload msg)) (\<lambda>d. case d of
           Inl _ \<Rightarrow> ret Ack
         | Inr topics \<Rightarrow>
             bindA list_topics (\<lambda>topic_list.
             bindA (register_missing topic_list (sync_topics topics)) (\<lambda>_. ret Ack))))"


text \<open>
  Trace records and the collectors they are handed to. The values of the fields are those of the
  JSON library, a parameter type. A collector's failure is only logged.
\<close>

datatype trace_level = TraceTrace | TraceDebug | TraceInfo | TraceWarn | TraceError

record 'j trace_record =
  tc_trace_id :: "string option"
  tc_span_id :: string
  tc_parent_span_id :: "string option"
  tc_name :: string
  tc_target :: string
  tc_level :: trace_level
  tc_fields :: "(string, 'j) hashmap"
  tc_started_at :: "time option"
  tc_finished_at :: "time option"
  tc_duration :: "duration option"
  tc_message_id :: "string option"
  tc_worker_id :: "string option"
  tc_topic :: "string option"

definition system_trace_handler :: "'j trace_record codec \<Rightarrow> ('j trace_record \<Rightarrow> ('s, unit result) act) list
    \<Rightarrow> emessage \<Rightarrow> ('s, ack) act" where
  "system_trace_handler json collectors msg =
     (case cd_dec json (payload msg) of
        Inl _ \<Rightarrow> ret Ack
      | Inr rec \<Rightarrow> bindA (forA (\<lambda>collector. collector rec) collectors) (\<lambda>_. ret Ack))"


section \<open>Heartbeats\<close>

definition WORKER_HEARTBEAT_INTERVAL :: duration where
  "WORKER_HEARTBEAT_INTERVAL = from_secs 15"

definition WORKER_CLEANUP_INTERVAL :: duration where
  "WORKER_CLEANUP_INTERVAL = from_secs 30"

definition WORKER_STALE_TIMEOUT :: duration where
  "WORKER_STALE_TIMEOUT = from_secs 90"

definition DISCOVERY_REANNOUNCE_EVERY :: u64 where
  "DISCOVERY_REANNOUNCE_EVERY = 10"

definition heartbeat_message :: "string \<Rightarrow> string option \<Rightarrow> (('f, 'w, 'z) world_scheme, emessage) act" where
  "heartbeat_message name node =
     bindA time_now (\<lambda>t.
     bindA (encode_with cc_heartbeat \<lparr>hb_worker_name = name, hb_timestamp = t\<rparr>) (\<lambda>pl.
     bindA (make_message SYSTEM_TOPIC_WORKER_HEARTBEAT (case pl of Inr b \<Rightarrow> b | Inl _ \<Rightarrow> []) Standard None)
       (\<lambda>msg. ret (msg\<lparr>metadata := (metadata msg)\<lparr>msg_source := node\<rparr>\<rparr>))))"

text \<open>One worker's turn in the loop of \<^verbatim>\<open>heartbeat_once\<close>; a failed send is only logged.\<close>

definition heartbeat_worker :: "bool \<Rightarrow> string list \<Rightarrow> string option \<Rightarrow> string \<times> string
    \<Rightarrow> (('f, 'w, 'z) world_scheme, unit) act" where
  "heartbeat_worker reannounce missing node = (\<lambda>(name, topic).
     bindA (if reannounce \<and> name \<in> set missing then
              bindA (discovery_message name topic node) (\<lambda>msg.
              bindA (send_system msg (Some True) None) (\<lambda>_. ret ()))
            else ret ()) (\<lambda>_.
     bindA (heartbeat_message name node) (\<lambda>msg.
     bindA (send_system msg (Some True) None) (\<lambda>_. ret ()))))"

definition missing_workers :: "bool \<Rightarrow> (string \<times> string) list \<Rightarrow> (('f, 'w, 'z) world_scheme, string list) act" where
  "missing_workers reannounce workers =
     (if reannounce then
        bindA registry_get_all_workers (\<lambda>l.
        let registered = (case l of Inr infos \<Rightarrow> map wi_name infos | Inl _ \<Rightarrow> []) in
        ret (filter (\<lambda>n. n \<notin> set registered) (map fst workers)))
      else ret [])"

definition local_workers :: "('f, 'w, 'k, 'q) consumer_router \<Rightarrow> (string \<times> string) list" where
  "local_workers r =
     map (\<lambda>wk. (wk_name wk, wk_topic wk))
       (filter (\<lambda>wk. \<not> starts_with (wk_topic wk) ''_system.'') (map fst (hm_values (cr_index r))))"

definition heartbeat_once :: "bool \<Rightarrow> (('f, 'w, 'k, 'q) consumer_router, unit) act" where
  "heartbeat_once reannounce =
     bindA (getA (\<lambda>r. w_router (cr_world r))) (\<lambda>router. case router of
         None \<Rightarrow> ret ()
       | Some _ \<Rightarrow>
           bindA (getA local_workers) (\<lambda>workers.
           in_world (
             bindA (missing_workers reannounce workers) (\<lambda>missing.
             bindA try_get_node_name (\<lambda>node.
             forA (heartbeat_worker reannounce missing node) workers)))))"

text \<open>\<open>n\<close> turns of \<^verbatim>\<open>run_worker_heartbeat_loop\<close>, whose cycle counter is a word.\<close>

fun run_worker_heartbeat_loop :: "nat \<Rightarrow> u64 \<Rightarrow> (('f, 'w, 'k, 'q) consumer_router, unit) act" where
  "run_worker_heartbeat_loop 0 cycle = ret ()"
| "run_worker_heartbeat_loop (Suc n) cycle =
     bindA (heartbeat_once ((cycle + 1) mod DISCOVERY_REANNOUNCE_EVERY = 0)) (\<lambda>_.
     run_worker_heartbeat_loop n (cycle + 1))"

fun run_registry_cleanup_loop :: "nat \<Rightarrow> (('f, 'w, 'z) world_scheme, unit) act" where
  "run_registry_cleanup_loop 0 = ret ()"
| "run_registry_cleanup_loop (Suc n) =
     bindA (registry_cleanup_stale WORKER_STALE_TIMEOUT) (\<lambda>_. run_registry_cleanup_loop n)"


section \<open>Handlers over the node\<close>

record ('f, 'w, 'k, 'q, 'b, 's) node =
  nd_router :: "('f, 'w, 'k, 'q) consumer_router"
  nd_audit :: "('b, 's) audit_log"
  nd_metrics :: metrics_state
  nd_collectors :: nat

definition on_router :: "(('f, 'w, 'k, 'q) consumer_router, 'a) act
    \<Rightarrow> (('f, 'w, 'k, 'q, 'b, 's) node, 'a) act" where
  "on_router m n = (case m (nd_router n) of (x, r) \<Rightarrow> (x, n\<lparr>nd_router := r\<rparr>))"

definition on_audit :: "(('b, 's) audit_log, 'a) act \<Rightarrow> (('f, 'w, 'k, 'q, 'b, 's) node, 'a) act" where
  "on_audit m n = (case m (nd_audit n) of (x, a) \<Rightarrow> (x, n\<lparr>nd_audit := a\<rparr>))"

definition on_metrics :: "(metrics_state, 'a) act \<Rightarrow> (('f, 'w, 'k, 'q, 'b, 's) node, 'a) act" where
  "on_metrics m n = (case m (nd_metrics n) of (x, s) \<Rightarrow> (x, n\<lparr>nd_metrics := s\<rparr>))"

definition audit_handler :: "'b ring \<Rightarrow> emessage \<Rightarrow> (('f, 'w, 'k, 'q, 'b, 's) node, ack) act" where
  "audit_handler ring msg =
     bindA (on_router (in_world (decode_with cc_audit (payload msg)))) (\<lambda>d. case d of
         Inl _ \<Rightarrow> ret Ack
       | Inr rec \<Rightarrow> bindA (on_audit (record_audit ring rec)) (\<lambda>_. ret Ack))"

definition metrics_handler :: "emessage \<Rightarrow> (('f, 'w, 'k, 'q, 'b, 's) node, ack) act" where
  "metrics_handler msg =
     bindA (on_router (in_world (decode_with cc_metrics (payload msg)))) (\<lambda>d. case d of
         Inl _ \<Rightarrow> ret Ack
       | Inr info \<Rightarrow> bindA (on_metrics (metrics_store_update info)) (\<lambda>_. ret Ack))"

text \<open>
  What a shutdown command observes of the workers. The command holds its strategy only; its
  payload is the strategy's encoding here.
\<close>

record sightings =
  sg_status :: "string \<Rightarrow> worker_status"
  sg_waits :: observed
  sg_polls :: "worker_status list"
  sg_stages :: "(duration \<times> (string \<Rightarrow> bool)) list"

definition shutdown_handler :: "sightings \<Rightarrow> emessage \<Rightarrow> (('f, 'w, 'k, 'q) consumer_router, ack) act" where
  "shutdown_handler sg msg =
     bindA (in_world (decode_with cc_shutdown (payload msg))) (\<lambda>d. case d of
         Inl _ \<Rightarrow> ret Ack
       | Inr strategy \<Rightarrow> (case strategy of
             TwoStage poll_interval_ms force_timeout_secs \<Rightarrow>
               bindA (shutdown_all_workers_two_stage (from_secs (unat force_timeout_secs))
                 (sg_waits sg) (sg_stages sg)) (\<lambda>_. ret Ack)
           | Graceful worker_name poll_interval_ms \<Rightarrow>
               bindA (graceful_shutdown worker_name (sg_waits sg) (sg_polls sg)) (\<lambda>_. ret Ack)
           | TimeoutStrategy total_timeout_secs \<Rightarrow> bindA (shutdown_timeout (sg_waits sg)) (\<lambda>_. ret Ack)
           | Force \<Rightarrow> bindA (shutdown_force (sg_waits sg)) (\<lambda>_. ret Ack)
           | StateBasedIdle \<Rightarrow> bindA (shutdown_idle_only (sg_status sg) (sg_waits sg)) (\<lambda>_. ret Ack)
           | Batched batch_size interval_ms \<Rightarrow>
               bindA (shutdown_batched batch_size (sg_waits sg)) (\<lambda>_. ret Ack)))"

section \<open>End to end through the system topics\<close>

lemma decode_encoded:
  assumes "codec_ok (c (w_codecs w))" and "cd_enc (c (w_codecs w)) x = Inr b"
  shows "decode_with c b w = (Ret (Inr x), w)"
  using assms by (simp add: decode_with_def getA_def codec_ok_def)

lemma sync_sent:
  fixes w :: "('q link, mem_wal, 'z) world_scheme"
  assumes "calm flume_producer open_link memory_wal mw_inv w"
  shows "\<exists>w' x b u. sync_status c mid topic status att err w = (Ret (Inr ()), w') \<and>
    link_items (w_fabric w') = link_items (w_fabric w) @ [(wc_template c)\<lparr>payload := b, msg_id := u\<rparr>] \<and>
    cd_enc (cc_sync (w_codecs w)) x = Inr b \<and> ws_message_id x = mid \<and> ws_status x = status"
proof -
  let ?w1 = "w\<lparr>w_amb := snd (read_clock (snd (read_clock (w_amb w))))\<rparr>"
  let ?x = "\<lparr>ws_message_id = mid, ws_topic = topic, ws_worker_id = wc_worker_id c, ws_status = status,
    ws_attempts = att, ws_last_attempt_at = clock_src (w_amb w) (clock_next (w_amb w)), ws_error = err,
    ws_timestamp = clock_src (snd (read_clock (w_amb w))) (clock_next (snd (read_clock (w_amb w))))\<rparr>"
  obtain b where b: "cd_enc (cc_sync (w_codecs w)) ?x = Inr b"
  proof -
    have "is_ok (cd_enc (cc_sync (w_codecs w)) ?x)" using assms by (simp add: calm_def encodable_def)
    with that show thesis by (cases "cd_enc (cc_sync (w_codecs w)) ?x") (auto simp: is_ok_def)
  qed
  let ?w2 = "w\<lparr>w_amb := snd (new_uuid (snd (read_clock (snd (read_clock (w_amb w))))))\<rparr>"
  let ?m = "(wc_template c)\<lparr>payload := b, msg_id := uuid_src (w_amb ?w1) (uuid_next (w_amb ?w1))\<rparr>"
  have c2: "calm flume_producer open_link memory_wal mw_inv ?w2" using calm_upd(3) [OF assms] .
  obtain f where f: "emit ?m None None ?w2 = (Ret (Inr ()), ?w2\<lparr>w_fabric := f\<rparr>)"
      "link_items f = link_items (w_fabric w) @ [?m]"
    using open_flume_memory.emit_open [OF calm_ready(1,2) [OF c2], of ?m None None] by auto
  have "sync_status c mid topic status att err w = (Ret (Inr ()), ?w2\<lparr>w_fabric := f\<rparr>)"
    using b f(1) by (simp add: sync_status_def send_system_def encode_with_def bindA_def bindQ_def outcome_simps)
  with f(2) b show ?thesis by (intro exI [of _ "?w2\<lparr>w_fabric := f\<rparr>"] exI [of _ ?x] exI [of _ b] exI) auto
qed

lemma sync_handled:
  fixes w :: "('f, mem_wal, 'z) world_scheme"
  assumes "codec_ok (cc_sync (w_codecs w))" and "cd_enc (cc_sync (w_codecs w)) x = Inr b"
    and "mw_inv (w_wal w)" and "mw_recs (w_wal w) (ws_message_id x) = Some r"
  shows "\<exists>w'. wal_sync_handler memory_wal (m\<lparr>payload := b\<rparr>) w = (Ret Ack, w') \<and>
    mw_recs (w_wal w') = (mw_recs (w_wal w))(ws_message_id x \<mapsto> r\<lparr>wr_status := ws_status x\<rparr>)"
proof -
  have "\<forall>u t. \<exists>y. wal_update_state memory_wal u t (ws_message_id x) (ws_status x) (w_wal w) = (Ret (Inr ()), y) \<and>
      mw_recs y = (mw_recs (w_wal w))(ws_message_id x \<mapsto> r\<lparr>wr_status := ws_status x\<rparr>)"
    using mem_wal.update_law [OF assms(3,4)] by blast
  then obtain v where v: "wal_update_state memory_wal u t (ws_message_id x) (ws_status x) (w_wal w) = (Ret (Inr ()), v u t) \<and>
      mw_recs (v u t) = (mw_recs (w_wal w))(ws_message_id x \<mapsto> r\<lparr>wr_status := ws_status x\<rparr>)" for u t
    by metis
  have fl: "wal_flush memory_wal y = (Ret (Inr ()), y)" for y
    by (simp add: memory_wal_def mem_flush_def ret_def)
  show ?thesis
    using v decode_encoded [of cc_sync, OF assms(1,2)]
    by (simp add: wal_sync_handler_def on_wal_def bindA_def outcome_simps fl)
qed

text \<open>A system message emitted with \<^verbatim>\<open>try_send\<close>.\<close>

lemma announced:
  fixes w :: "('q link, mem_wal, 'z) world_scheme"
  assumes "calm flume_producer open_link memory_wal mw_inv w"
  shows "\<exists>f. send_system m b d w = (Ret (Inr ()), w\<lparr>w_fabric := f\<rparr>) \<and>
    calm flume_producer open_link memory_wal mw_inv (w\<lparr>w_fabric := f\<rparr>) \<and>
    link_items f = link_items (w_fabric w) @ [m]"
  using open_flume_memory.emit_open [OF calm_ready(1,2) [OF assms], of m b d] calm_upd(1) [OF assms]
  by (auto simp: send_system_def)

lemma discovery_message_eval:
  assumes "\<forall>x. is_ok (cd_enc (cc_discovery (w_codecs w)) x)"
  shows "\<exists>m a x. discovery_message n t node w = (Ret m, w\<lparr>w_amb := a\<rparr>) \<and>
    msg_topic m = SYSTEM_TOPIC_WORKER_DISCOVERY \<and> cd_enc (cc_discovery (w_codecs w)) x = Inr (payload m) \<and>
    wd_worker_name x = n \<and> wd_topic x = t"
proof -
  let ?x = "\<lparr>wd_worker_name = n, wd_topic = t, wd_started_at = clock_src (w_amb w) (clock_next (w_amb w))\<rparr>"
  obtain b where b: "cd_enc (cc_discovery (w_codecs w)) ?x = Inr b"
    using assms [rule_format, of ?x] by (cases "cd_enc (cc_discovery (w_codecs w)) ?x") (auto simp: is_ok_def)
  then show ?thesis
    by (auto simp: discovery_message_def encode_with_def make_message_def bindA_def outcome_simps
        emessage_new_def intro!: exI [of _ ?x])
qed

lemma heartbeat_message_eval:
  assumes "\<forall>x. is_ok (cd_enc (cc_heartbeat (w_codecs w)) x)"
  shows "\<exists>m a x. heartbeat_message n node w = (Ret m, w\<lparr>w_amb := a\<rparr>) \<and>
    msg_topic m = SYSTEM_TOPIC_WORKER_HEARTBEAT \<and> cd_enc (cc_heartbeat (w_codecs w)) x = Inr (payload m) \<and>
    hb_worker_name x = n"
proof -
  let ?x = "\<lparr>hb_worker_name = n, hb_timestamp = clock_src (w_amb w) (clock_next (w_amb w))\<rparr>"
  obtain b where b: "cd_enc (cc_heartbeat (w_codecs w)) ?x = Inr b"
    using assms [rule_format, of ?x] by (cases "cd_enc (cc_heartbeat (w_codecs w)) ?x") (auto simp: is_ok_def)
  then show ?thesis
    by (auto simp: heartbeat_message_def encode_with_def make_message_def bindA_def outcome_simps
        emessage_new_def intro!: exI [of _ ?x])
qed

section \<open>Topics\<close>

definition router_topics :: "('f, 'w, 'z) world_scheme \<Rightarrow> string list" where
  "router_topics w = (case w_router w of None \<Rightarrow> [] | Some tr \<Rightarrow> tr_topics tr)"

definition with_topics :: "string list \<Rightarrow> ('f, 'w, 'z) world_scheme \<Rightarrow> ('f, 'w, 'z) world_scheme" where
  "with_topics ts w = w\<lparr>w_router := map_option (\<lambda>r. r\<lparr>tr_topics := ts\<rparr>) (w_router w)\<rparr>"

lemma with_topics_simps [simp]:
  "w_router w \<noteq> None \<Longrightarrow> router_topics (with_topics ts w) = ts"
  "with_topics ts (with_topics us w) = with_topics ts w"
  "(w_router (with_topics ts w) = None) = (w_router w = None)"
  "w_codecs (with_topics ts w) = w_codecs w" "w_fabric (with_topics ts w) = w_fabric w"
  "w_node_type (with_topics ts w) = w_node_type w"
  "w_router w \<noteq> None \<Longrightarrow> with_topics (router_topics w) w = w"
  by (auto simp: with_topics_def router_topics_def option.map_comp comp_def split: option.splits)

lemma list_topics_eval: "w_router w \<noteq> None \<Longrightarrow> list_topics w = (Ret (router_topics w), w)"
  by (auto simp: list_topics_def the_router_def router_topics_def bindA_def outcome_simps)

lemma register_topic_eval:
  "w_router w \<noteq> None \<Longrightarrow> register_topic t w =
     (Ret (), with_topics (if t \<in> set (router_topics w) then router_topics w else router_topics w @ [t]) w)"
  by (auto simp: register_topic_def the_router_def router_topics_def with_topics_def bindA_def outcome_simps)

lemma register_missing_eval:
  assumes "w_router w \<noteq> None"
  shows "\<exists>ts. register_missing known items w = (Ret (), with_topics ts w) \<and>
    set ts = set (router_topics w) \<union> (set items - set known) \<and>
    (distinct (router_topics w) \<longrightarrow> distinct ts)"
  using assms
proof (induction items arbitrary: w)
  case Nil
  then show ?case
    by (intro exI [of _ "router_topics w"]) (simp add: register_missing_def outcome_simps)
next
  case (Cons i items)
  let ?us = "if i \<in> set known \<or> i \<in> set (router_topics w) then router_topics w else router_topics w @ [i]"
  let ?w = "with_topics ?us w"
  have step: "(if i \<notin> set known then register_topic i else ret ()) w = (Ret (), ?w)"
    using Cons.prems by (simp add: register_topic_eval outcome_simps)
  have us: "router_topics ?w = ?us" and r: "w_router ?w \<noteq> None" using Cons.prems by simp_all
  obtain ts where "register_missing known items ?w = (Ret (), with_topics ts ?w)"
      "set ts = set ?us \<union> (set items - set known)" "distinct ?us \<longrightarrow> distinct ts"
    using Cons.IH [OF r] unfolding us by blast
  moreover have "register_missing known (i # items) w = register_missing known items ?w"
    using step by (simp add: register_missing_def bindA_def)
  ultimately show ?case by (intro exI [of _ ts]) auto
qed

lemma discovery_reply:
  fixes h :: "('q link, mem_wal, 'z) world_scheme"
  assumes "calm flume_producer open_link memory_wal mw_inv h"
    and "cd_dec (cc_topic_discovery (w_codecs h)) (payload msg) = Inr q"
    and "\<forall>x. is_ok (cd_enc (cc_topic_sync (w_codecs h)) x)"
  shows "\<exists>h' reply. topic_discovery_handler msg h = (Ret Ack, h') \<and>
    set (router_topics h') = set (router_topics h) \<union> set (has_topics q) \<and>
    link_items (w_fabric h') = link_items (w_fabric h) @ [reply] \<and> msg_topic reply = SYSTEM_TOPIC_TOPIC_SYNC \<and>
    cd_enc (cc_topic_sync (w_codecs h)) \<lparr>sync_topics = router_topics h'\<rparr> = Inr (payload reply) \<and>
    (distinct (router_topics h) \<longrightarrow> distinct (router_topics h'))"
proof -
  have r: "w_router h \<noteq> None"
    using calm_ready(1) [OF assms(1)] by (auto simp: router_ready_def split: option.splits)
  obtain ts where ts: "register_missing (router_topics h) (has_topics q) h = (Ret (), with_topics ts h)"
      "set ts = set (router_topics h) \<union> set (has_topics q)" "distinct (router_topics h) \<longrightarrow> distinct ts"
    using register_missing_eval [OF r, of "router_topics h" "has_topics q"] by auto
  let ?h = "with_topics ts h"
  have c: "calm flume_producer open_link memory_wal mw_inv ?h"
    using assms(1) by (auto simp: calm_def env_ready_def router_ready_def registry_ready_def encodable_def
        with_topics_def split: option.splits)
  obtain b where b: "cd_enc (cc_topic_sync (w_codecs h)) \<lparr>sync_topics = ts\<rparr> = Inr b"
    using assms(3) [rule_format, of "\<lparr>sync_topics = ts\<rparr>"]
    by (cases "cd_enc (cc_topic_sync (w_codecs h)) \<lparr>sync_topics = ts\<rparr>") (auto simp: is_ok_def)
  obtain m a where m: "make_message SYSTEM_TOPIC_TOPIC_SYNC b Standard None ?h = (Ret m, ?h\<lparr>w_amb := a\<rparr>)"
      "msg_topic m = SYSTEM_TOPIC_TOPIC_SYNC" "payload m = b" "deliver_at m = None" "delivery_mode m = Standard"
    by (auto simp: make_message_def bindA_def outcome_simps emessage_new_def)
  obtain f where f: "emit m None None (?h\<lparr>w_amb := a\<rparr>) = (Ret (Inr ()), ?h\<lparr>w_amb := a, w_fabric := f\<rparr>)"
      "link_items f = link_items (w_fabric h) @ [m]"
    using open_flume_memory.emit_open [OF calm_ready(1,2) [OF calm_upd(3) [OF c, of a]], of m None None] by auto
  have send: "topic_send SYSTEM_TOPIC_TOPIC_SYNC m None None (?h\<lparr>w_amb := a\<rparr>) =
      (Ret (Inr ()), ?h\<lparr>w_amb := a, w_fabric := f\<rparr>)"
  proof -
    have same: "m\<lparr>msg_topic := msg_topic m\<rparr> = m" by simp
    show ?thesis using f(1) by (simp add: send_plain m(4,5) same [unfolded m(2)])
  qed
  have "topic_discovery_handler msg h = (Ret Ack, ?h\<lparr>w_amb := a, w_fabric := f\<rparr>)"
    using assms(2) ts(1) b m(1) send r
    by (simp add: topic_discovery_handler_def decode_with_def encode_with_def list_topics_eval bindA_def outcome_simps)
  moreover have "router_topics (?h\<lparr>w_amb := a, w_fabric := f\<rparr>) = ts"
    using r with_topics_simps(1) [OF r, of ts] by (simp add: router_topics_def)
  ultimately show ?thesis
    using f(2) m(2,3) b ts(2,3)
    by (intro exI [of _ "?h\<lparr>w_amb := a, w_fabric := f\<rparr>"] exI [of _ m]) simp
qed

section \<open>The messages of a heartbeat pass\<close>

text \<open>The kind of a system message and the worker it names.\<close>

definition beat_of :: "codecs \<Rightarrow> emessage \<Rightarrow> string \<times> string option" where
  "beat_of cs m = (msg_topic m,
     if msg_topic m = SYSTEM_TOPIC_WORKER_DISCOVERY
     then (case cd_dec (cc_discovery cs) (payload m) of Inr d \<Rightarrow> Some (wd_worker_name d) | Inl _ \<Rightarrow> None)
     else (case cd_dec (cc_heartbeat cs) (payload m) of Inr h \<Rightarrow> Some (hb_worker_name h) | Inl _ \<Rightarrow> None))"

definition beats :: "bool \<Rightarrow> string list \<Rightarrow> string \<Rightarrow> (string \<times> string option) list" where
  "beats reannounce missing n =
     (if reannounce \<and> n \<in> set missing then [(SYSTEM_TOPIC_WORKER_DISCOVERY, Some n)] else []) @
     [(SYSTEM_TOPIC_WORKER_HEARTBEAT, Some n)]"

definition beat_codecs :: "codecs \<Rightarrow> bool" where
  "beat_codecs cs \<longleftrightarrow> codec_ok (cc_discovery cs) \<and> codec_ok (cc_heartbeat cs) \<and>
     (\<forall>x. is_ok (cd_enc (cc_discovery cs) x)) \<and> (\<forall>x. is_ok (cd_enc (cc_heartbeat cs) x))"

definition beaten :: "('q link, mem_wal, 'z) world_scheme \<Rightarrow> (string \<times> string option) list
    \<Rightarrow> ('q link, mem_wal, 'z) world_scheme \<Rightarrow> bool" where
  "beaten w bs w' \<longleftrightarrow> calm flume_producer open_link memory_wal mw_inv w' \<and> w_codecs w' = w_codecs w \<and>
     (\<exists>ms. link_items (w_fabric w') = link_items (w_fabric w) @ ms \<and> map (beat_of (w_codecs w)) ms = bs)"

lemma beaten_trans: "beaten w bs w1 \<Longrightarrow> beaten w1 cs w2 \<Longrightarrow> beaten w (bs @ cs) w2"
  by (auto simp: beaten_def)

lemma system_topics_differ: "SYSTEM_TOPIC_WORKER_HEARTBEAT \<noteq> SYSTEM_TOPIC_WORKER_DISCOVERY"
  by (simp add: SYSTEM_TOPIC_WORKER_HEARTBEAT_def SYSTEM_TOPIC_WORKER_DISCOVERY_def)

lemma beat_sent:
  assumes "calm flume_producer open_link memory_wal mw_inv w" and "mk w = (Ret m, w\<lparr>w_amb := a\<rparr>)"
  shows "\<exists>w'. bindA mk (\<lambda>msg. bindA (send_system msg (Some True) None) (\<lambda>_. ret ())) w = (Ret (), w') \<and>
    beaten w [beat_of (w_codecs w) m] w'"
proof -
  obtain f where "send_system m (Some True) None (w\<lparr>w_amb := a\<rparr>) = (Ret (Inr ()), w\<lparr>w_amb := a, w_fabric := f\<rparr>)"
      "calm flume_producer open_link memory_wal mw_inv (w\<lparr>w_amb := a, w_fabric := f\<rparr>)"
      "link_items f = link_items (w_fabric w) @ [m]"
    using announced [OF calm_upd(3) [OF assms(1), of a], of m "Some True" None] by auto
  with assms(2) show ?thesis
    by (intro exI [of _ "w\<lparr>w_amb := a, w_fabric := f\<rparr>"]) (simp add: bindA_def outcome_simps beaten_def)
qed

lemma heartbeat_worker_beats:
  assumes "calm flume_producer open_link memory_wal mw_inv w" and "beat_codecs (w_codecs w)"
  shows "\<exists>w'. heartbeat_worker re missing node (n, t) w = (Ret (), w') \<and> beaten w (beats re missing n) w'"
proof -
  let ?again = "re \<and> n \<in> set missing"
  let ?d = "if ?again then bindA (discovery_message n t node) (\<lambda>msg.
      bindA (send_system msg (Some True) None) (\<lambda>_. ret ())) else ret ()"
  have "\<exists>w1. ?d w = (Ret (), w1) \<and>
      beaten w (if ?again then [(SYSTEM_TOPIC_WORKER_DISCOVERY, Some n)] else []) w1"
  proof (cases ?again)
    case True
    obtain m a x where m: "discovery_message n t node w = (Ret m, w\<lparr>w_amb := a\<rparr>)"
        "msg_topic m = SYSTEM_TOPIC_WORKER_DISCOVERY" "cd_enc (cc_discovery (w_codecs w)) x = Inr (payload m)"
        "wd_worker_name x = n"
      using discovery_message_eval [of w n t node] assms(2) by (auto simp: beat_codecs_def)
    have "beat_of (w_codecs w) m = (SYSTEM_TOPIC_WORKER_DISCOVERY, Some n)"
      using m(2-4) assms(2) by (simp add: beat_of_def beat_codecs_def codec_ok_def)
    with beat_sent [where mk = "discovery_message n t node", OF assms(1) m(1)] True show ?thesis by simp
  next
    case False
    then show ?thesis using assms(1)
      by (intro exI [of _ w]) (auto simp: outcome_simps beaten_def)
  qed
  then obtain w1 where w1: "?d w = (Ret (), w1)"
      "beaten w (if ?again then [(SYSTEM_TOPIC_WORKER_DISCOVERY, Some n)] else []) w1" by blast
  obtain m a x where m: "heartbeat_message n node w1 = (Ret m, w1\<lparr>w_amb := a\<rparr>)"
      "msg_topic m = SYSTEM_TOPIC_WORKER_HEARTBEAT" "cd_enc (cc_heartbeat (w_codecs w1)) x = Inr (payload m)"
      "hb_worker_name x = n"
    using heartbeat_message_eval [of w1 n node] w1(2) assms(2) by (auto simp: beaten_def beat_codecs_def)
  have "beat_of (w_codecs w1) m = (SYSTEM_TOPIC_WORKER_HEARTBEAT, Some n)"
    using m(2-4) assms(2) w1(2) system_topics_differ
    by (simp add: beat_of_def beat_codecs_def codec_ok_def beaten_def)
  with beat_sent [where mk = "heartbeat_message n node", OF _ m(1)] w1(2) obtain w2 where w2:
      "bindA (heartbeat_message n node) (\<lambda>msg. bindA (send_system msg (Some True) None) (\<lambda>_. ret ())) w1 = (Ret (), w2)"
      "beaten w1 [(SYSTEM_TOPIC_WORKER_HEARTBEAT, Some n)] w2"
    by (auto simp: beaten_def)
  have "heartbeat_worker re missing node (n, t) w = (Ret (), w2)"
    using w1(1) w2(1) unfolding heartbeat_worker_def by (simp only: case_prod_conv bindA_Ret)
  with beaten_trans [OF w1(2) w2(2)] show ?thesis by (auto simp: beats_def)
qed

lemma heartbeat_all:
  assumes "calm flume_producer open_link memory_wal mw_inv w" and "beat_codecs (w_codecs w)"
  shows "\<exists>w'. forA (heartbeat_worker re missing node) wks w = (Ret (), w') \<and>
    beaten w (concat (map (\<lambda>p. beats re missing (fst p)) wks)) w'"
  using assms
proof (induction wks arbitrary: w)
  case Nil
  then show ?case by (simp add: outcome_simps beaten_def)
next
  case (Cons p wks)
  obtain w1 where w1: "heartbeat_worker re missing node p w = (Ret (), w1)" "beaten w (beats re missing (fst p)) w1"
    using heartbeat_worker_beats [OF Cons.prems, of re missing node "fst p" "snd p"] by auto
  then have "calm flume_producer open_link memory_wal mw_inv w1" "beat_codecs (w_codecs w1)"
    using Cons.prems(2) by (simp_all add: beaten_def)
  from Cons.IH [OF this] obtain w2 where "forA (heartbeat_worker re missing node) wks w1 = (Ret (), w2)"
      "beaten w1 (concat (map (\<lambda>p. beats re missing (fst p)) wks)) w2" by blast
  with w1 beaten_trans [OF w1(2)] show ?case by (auto simp: bindA_def)
qed

section \<open>Properties\<close>

text \<open>A quiet world with the byte codec, and a message to a system topic.\<close>

definition byte_world :: "string list \<Rightarrow> (emessage list link, mem_wal) world" where
  "byte_world ts = with_topics ts (calm_world\<lparr>w_codecs := byte_codecs\<rparr>)"

lemma byte_world_calm: "calm flume_producer open_link memory_wal mw_inv (byte_world ts)"
  using calm_world_calm
  by (auto simp: byte_world_def with_topics_def calm_def env_ready_def router_ready_def registry_ready_def
      encodable_def is_ok_def split: option.splits)

lemma byte_world_sel [simp]:
  "w_codecs (byte_world ts) = byte_codecs" "link_items (w_fabric (byte_world ts)) = []"
  "router_topics (byte_world ts) = ts" "w_router (byte_world ts) \<noteq> None"
  "world_workers (byte_world ts) = []" "w_wal (byte_world ts) = mem_wal_new"
  by (simp_all add: byte_world_def calm_world_def flume_world_def router_topics_def with_topics_def world_workers_def)

text \<open>
  A state a worker reports reaches the log. Over a queue that accepts messages the report
  always succeeds and puts exactly one message on the queue, and whenever that message is handled,
  in whatever state the system is by then, the handler acknowledges it and the record of the
  message it names gets the reported state, all other records unchanged; for a byte codec that
  round-trips.
\<close>

theorem reported_state_reaches_log:
  fixes w :: "('q link, mem_wal, 'z) world_scheme" and v :: "('g, mem_wal, 'y) world_scheme"
  assumes "calm flume_producer open_link memory_wal mw_inv w" and "codec_ok (cc_sync (w_codecs w))"
    and "w_codecs v = w_codecs w" and "mw_inv (w_wal v)" and "mw_recs (w_wal v) mid = Some r"
  shows "\<exists>w' msg v'. sync_status c mid topic status att err w = (Ret (Inr ()), w') \<and>
    link_items (w_fabric w') = link_items (w_fabric w) @ [msg] \<and> msg_topic msg = msg_topic (wc_template c) \<and>
    wal_sync_handler memory_wal msg v = (Ret Ack, v') \<and>
    mw_recs (w_wal v') = (mw_recs (w_wal v))(mid \<mapsto> r\<lparr>wr_status := status\<rparr>)"
proof -
  obtain w' x b u where s: "sync_status c mid topic status att err w = (Ret (Inr ()), w')"
      "link_items (w_fabric w') = link_items (w_fabric w) @ [(wc_template c)\<lparr>payload := b, msg_id := u\<rparr>]"
      "cd_enc (cc_sync (w_codecs w)) x = Inr b" "ws_message_id x = mid" "ws_status x = status"
    using sync_sent [OF assms(1), of c mid topic status att err] by blast
  obtain v' where "wal_sync_handler memory_wal (((wc_template c)\<lparr>msg_id := u\<rparr>)\<lparr>payload := b\<rparr>) v = (Ret Ack, v')"
      "mw_recs (w_wal v') = (mw_recs (w_wal v))(mid \<mapsto> r\<lparr>wr_status := status\<rparr>)"
    using sync_handled [of v x b r "(wc_template c)\<lparr>msg_id := u\<rparr>"] s(3-5) assms(2-5) by auto
  moreover have "((wc_template c)\<lparr>msg_id := u\<rparr>)\<lparr>payload := b\<rparr> = (wc_template c)\<lparr>payload := b, msg_id := u\<rparr>" by simp
  ultimately show ?thesis using s(1,2)
    by (intro exI [of _ w'] exI [of _ "(wc_template c)\<lparr>payload := b, msg_id := u\<rparr>"] exI [of _ v']) simp
qed

theorem reported_state_reaches_log_witness:
  "\<exists>w' msg v'. mark_complete (wk_wal (verdict_worker Ack)) ''m'' ''jobs'' 1 (byte_world []) = (Ret (Inr ()), w') \<and>
    link_items (w_fabric w') = [msg] \<and> wal_sync_handler memory_wal msg
      ((byte_world [])\<lparr>w_wal := mem_wal_new\<lparr>mw_records := [(''m'', wal_record_from_msg job)]\<rparr>\<rparr>) = (Ret Ack, v') \<and>
    map_option wr_status (mw_recs (w_wal v') ''m'') = Some WComplete"
proof -
  let ?v = "(byte_world [])\<lparr>w_wal := mem_wal_new\<lparr>mw_records := [(''m'', wal_record_from_msg job)]\<rparr>\<rparr>"
  have "mw_inv (w_wal ?v)" "mw_recs (w_wal ?v) ''m'' = Some (wal_record_from_msg job)" "w_codecs ?v = w_codecs (byte_world [])"
      "codec_ok (cc_sync (w_codecs (byte_world [])))"
    by (simp_all add: mw_inv_def mem_wal_new_def)
  from reported_state_reaches_log [OF byte_world_calm this(4,3,1,2), of "wk_wal (verdict_worker Ack)" "''jobs''"
      WComplete 1 None]
  obtain w' msg v' where "sync_status (wk_wal (verdict_worker Ack)) ''m'' ''jobs'' WComplete 1 None (byte_world []) = (Ret (Inr ()), w')"
      "link_items (w_fabric w') = [msg]" "wal_sync_handler memory_wal msg ?v = (Ret Ack, v')"
      "mw_recs (w_wal v') = (mw_recs (w_wal ?v))(''m'' \<mapsto> (wal_record_from_msg job)\<lparr>wr_status := WComplete\<rparr>)"
    unfolding byte_world_sel(2) append_Nil by blast
  then show ?thesis
    unfolding mark_complete_def by (intro exI conjI) (assumption | simp)+
qed

text \<open>
  C37: a worker that is announced gets registered. Over a queue that accepts messages the
  announcement of a user worker puts exactly one message on the queue, and whenever that message is
  handled the registry files the worker under its name with its topic, keeps every other
  worker, and has saved itself to the log; for a byte codec that round-trips.
\<close>

theorem announced_worker_registered:
  fixes w :: "('q link, mem_wal, 'z) world_scheme" and v :: "('g, mem_wal, 'y) world_scheme"
  assumes "calm flume_producer open_link memory_wal mw_inv w" and "\<not> starts_with (wk_topic wk) ''_system.''"
    and "codec_ok (cc_discovery (w_codecs w))" and "\<forall>x. is_ok (cd_enc (cc_discovery (w_codecs w)) x)"
    and "w_codecs v = w_codecs w" and "registry_ready memory_wal v" and "mw_inv (w_wal v)"
  shows "\<exists>w' msg now v'. announce_worker wk w = (Ret (), w') \<and>
    link_items (w_fabric w') = link_items (w_fabric w) @ [msg] \<and>
    worker_discovery_handler msg v = (Ret Ack, v') \<and> registry_saved memory_wal mw_inv mw_registry v' \<and>
    hm_get (world_workers v') = (hm_get (world_workers v))
      (wk_name wk \<mapsto> \<lparr>wi_name = wk_name wk, wi_topic = wk_topic wk, last_heartbeat = now\<rparr>)"
proof -
  obtain m a x where m: "discovery_message (wk_name wk) (wk_topic wk) (w_node_name w) w = (Ret m, w\<lparr>w_amb := a\<rparr>)"
      "cd_enc (cc_discovery (w_codecs w)) x = Inr (payload m)" "wd_worker_name x = wk_name wk" "wd_topic x = wk_topic wk"
    using discovery_message_eval [OF assms(4)] by metis
  obtain f where f: "send_system m (Some True) None (w\<lparr>w_amb := a\<rparr>) = (Ret (Inr ()), w\<lparr>w_amb := a, w_fabric := f\<rparr>)"
      "link_items f = link_items (w_fabric w) @ [m]"
    using announced [OF calm_upd(3) [OF assms(1), of a], of m "Some True" None] by auto
  obtain tr where "w_router w = Some tr"
    using calm_ready(1) [OF assms(1)] by (auto simp: router_ready_def split: option.splits)
  then have an: "announce_worker wk w = (Ret (), w\<lparr>w_amb := a, w_fabric := f\<rparr>)"
    using assms(2) m(1) f(1)
    by (simp add: announce_worker_def try_get_node_name_def bindA_def outcome_simps)
  let ?now = "clock_src (w_amb v) (clock_next (w_amb v))"
  let ?i = "\<lparr>wi_name = wk_name wk, wi_topic = wk_topic wk, last_heartbeat = ?now\<rparr>"
  obtain v' where v': "registry_register ?i (v\<lparr>w_amb := snd (read_clock (w_amb v))\<rparr>) = (Ret (Inr ()), v')"
      "registry_saved memory_wal mw_inv mw_registry v'"
      "hm_get (world_workers v') = (hm_get (world_workers v))(wk_name wk \<mapsto> ?i)"
    using mem_wal.register_spec [of "v\<lparr>w_amb := snd (read_clock (w_amb v))\<rparr>" ?i] assms(6,7) by auto
  have "decode_with cc_discovery (payload m) v = (Ret (Inr x), v)"
    using decode_encoded [of cc_discovery v x] assms(3,5) m(2) by simp
  then have "worker_discovery_handler m v = (Ret Ack, v')"
    using v'(1) m(3,4) by (simp add: worker_discovery_handler_def bindA_def outcome_simps)
  with an f(2) v'(2,3) show ?thesis by auto
qed

theorem announced_worker_registered_witness:
  "\<exists>w' msg v'. announce_worker (verdict_worker Ack) (byte_world []) = (Ret (), w') \<and>
    link_items (w_fabric w') = [msg] \<and> worker_discovery_handler msg (byte_world []) = (Ret Ack, v') \<and>
    map_option wi_topic (hm_get (world_workers v') ''w1'') = Some ''jobs''"
proof -
  have c: "codec_ok (cc_discovery (w_codecs (byte_world [])))" "\<forall>x. is_ok (cd_enc (cc_discovery (w_codecs (byte_world []))) x)"
    by (simp_all add: is_ok_def)
  have v: "registry_ready memory_wal (byte_world [])" "mw_inv (w_wal (byte_world []))"
    using calm_ready(3) [OF byte_world_calm] by (simp_all add: env_ready_def)
  from announced_worker_registered [OF byte_world_calm verdict_worker_wf(2) c refl v, of Ack]
  obtain w' msg now v' where "announce_worker (verdict_worker Ack) (byte_world []) = (Ret (), w')"
      "link_items (w_fabric w') = [msg]" "worker_discovery_handler msg (byte_world []) = (Ret Ack, v')"
      "hm_get (world_workers v') = (hm_get (world_workers (byte_world []))) (wk_name (verdict_worker Ack) \<mapsto>
        \<lparr>wi_name = wk_name (verdict_worker Ack), wi_topic = wk_topic (verdict_worker Ack), last_heartbeat = now\<rparr>)"
    unfolding byte_world_sel(2) append_Nil by blast
  then show ?thesis
    by (intro exI conjI) (assumption | simp add: verdict_worker_def)+
qed

text \<open>
  Topic discovery makes the lists meet. When a host handles the topics a worker node knows,
  it ends with the topics of both and replies with exactly one message; when the worker node
  handles that reply, it too ends with the topics of both, and no list gets a topic twice.
\<close>

theorem topic_lists_meet:
  fixes h :: "('q link, mem_wal, 'z) world_scheme" and v :: "('g, 'w, 'y) world_scheme"
  assumes "calm flume_producer open_link memory_wal mw_inv h"
    and "cd_dec (cc_topic_discovery (w_codecs h)) (payload msg) = Inr \<lparr>has_topics = router_topics v\<rparr>"
    and "\<forall>x. is_ok (cd_enc (cc_topic_sync (w_codecs h)) x)" and "codec_ok (cc_topic_sync (w_codecs h))"
    and "w_codecs v = w_codecs h" and "w_router v \<noteq> None" and "w_node_type v = Some WorkerNode"
    and "distinct (router_topics h)" and "distinct (router_topics v)"
  shows "\<exists>h' reply v'. topic_discovery_handler msg h = (Ret Ack, h') \<and>
    link_items (w_fabric h') = link_items (w_fabric h) @ [reply] \<and>
    topic_sync_handler reply v = (Ret Ack, v') \<and>
    set (router_topics h') = set (router_topics h) \<union> set (router_topics v) \<and>
    set (router_topics v') = set (router_topics h') \<and>
    distinct (router_topics h') \<and> distinct (router_topics v')"
proof -
  obtain h' reply where h': "topic_discovery_handler msg h = (Ret Ack, h')"
      "set (router_topics h') = set (router_topics h) \<union> set (router_topics v)"
      "link_items (w_fabric h') = link_items (w_fabric h) @ [reply]"
      "cd_enc (cc_topic_sync (w_codecs h)) \<lparr>sync_topics = router_topics h'\<rparr> = Inr (payload reply)"
      "distinct (router_topics h')"
    using discovery_reply [OF assms(1-3)] assms(8) by auto
  obtain ts where ts: "register_missing (router_topics v) (router_topics h') v = (Ret (), with_topics ts v)"
      "set ts = set (router_topics v) \<union> set (router_topics h')" "distinct ts"
    using register_missing_eval [OF assms(6), of "router_topics v" "router_topics h'"] assms(9) by auto
  have "decode_with cc_topic_sync (payload reply) v = (Ret (Inr \<lparr>sync_topics = router_topics h'\<rparr>), v)"
    using decode_encoded [of cc_topic_sync v] assms(4,5) h'(4) by simp
  then have "topic_sync_handler reply v = (Ret Ack, with_topics ts v)"
    using assms(6,7) ts(1)
    by (simp add: topic_sync_handler_def get_node_type_def list_topics_eval bindA_def outcome_simps)
  with h' ts assms(6) show ?thesis
    by (intro exI [of _ h'] exI [of _ reply] exI [of _ "with_topics ts v"]) auto
qed

theorem topic_lists_meet_witness:
  "\<exists>h' reply v'. topic_discovery_handler ((emessage_default 0)\<lparr>payload :=
      to_bytes (fst has_topics_coder \<lparr>has_topics = [''b'']\<rparr>)\<rparr>) (byte_world [''a'']) = (Ret Ack, h') \<and>
    topic_sync_handler reply ((byte_world [''b''])\<lparr>w_node_type := Some WorkerNode\<rparr>) = (Ret Ack, v') \<and>
    set (router_topics h') = {''a'', ''b''} \<and> set (router_topics v') = {''a'', ''b''}"
proof -
  let ?msg = "(emessage_default 0)\<lparr>payload := to_bytes (fst has_topics_coder \<lparr>has_topics = [''b'']\<rparr>)\<rparr>"
  let ?v = "(byte_world [''b''])\<lparr>w_node_type := Some WorkerNode\<rparr>"
  have v: "router_topics ?v = [''b'']" "w_router ?v \<noteq> None" "w_node_type ?v = Some WorkerNode" "w_codecs ?v = byte_codecs"
    using byte_world_sel(3) [of "[''b'']"] by (simp_all add: router_topics_def)
  have "cd_dec (codec_of has_topics_coder) (to_bytes (fst has_topics_coder \<lparr>has_topics = [''b'']\<rparr>)) =
      Inr \<lparr>has_topics = [''b'']\<rparr>"
    using codec_of_ok [of has_topics_coder] unfolding codec_ok_def by simp
  then have q: "cd_dec (cc_topic_discovery (w_codecs (byte_world [''a'']))) (payload ?msg) = Inr \<lparr>has_topics = router_topics ?v\<rparr>"
    by (simp add: v(1))
  have c: "\<forall>x. is_ok (cd_enc (cc_topic_sync (w_codecs (byte_world [''a'']))) x)"
      "codec_ok (cc_topic_sync (w_codecs (byte_world [''a''])))" "w_codecs ?v = w_codecs (byte_world [''a''])"
      "distinct (router_topics (byte_world [''a'']))" "distinct (router_topics ?v)"
    using v by (simp_all add: is_ok_def)
  from topic_lists_meet [OF byte_world_calm q c(1-3) v(2,3) c(4,5)]
  obtain h' reply v' where "topic_discovery_handler ?msg (byte_world [''a'']) = (Ret Ack, h')"
      "topic_sync_handler reply ?v = (Ret Ack, v')"
      "set (router_topics h') = set (router_topics (byte_world [''a''])) \<union> set (router_topics ?v)"
      "set (router_topics v') = set (router_topics h')" by blast
  then show ?thesis
    unfolding v(1) by (intro exI conjI) (assumption | simp add: insert_commute)+
qed

text \<open>
  One heartbeat pass sends one heartbeat per local user worker, in the order of the index,
  and, on a re-announcing pass, before it one discovery message for each worker that the registry
  does not have; nothing else is sent and system workers are left out.
\<close>

theorem heartbeat_once_exact:
  fixes r :: "('q link, mem_wal, 'k, 'p) consumer_router"
  assumes "calm flume_producer open_link memory_wal mw_inv (cr_world r)"
    and "beat_codecs (w_codecs (cr_world r))"
  shows "\<exists>r' ms. heartbeat_once re r = (Ret (), r') \<and>
    link_items (w_fabric (cr_world r')) = link_items (w_fabric (cr_world r)) @ ms \<and>
    map (beat_of (w_codecs (cr_world r))) ms = concat (map (\<lambda>(n, t).
      (if re \<and> n \<notin> wi_name ` set (hm_values (world_workers (cr_world r)))
       then [(SYSTEM_TOPIC_WORKER_DISCOVERY, Some n)] else []) @
      [(SYSTEM_TOPIC_WORKER_HEARTBEAT, Some n)]) (local_workers r))"
proof -
  let ?w = "cr_world r" and ?reg = "map wi_name (hm_values (world_workers (cr_world r)))"
  let ?missing = "if re then filter (\<lambda>n. n \<notin> set ?reg) (map fst (local_workers r)) else []"
  obtain wr where wr: "w_registry ?w = Some wr" "world_workers ?w = wr_workers wr"
    using calm_ready(3) [OF assms(1)] by (auto simp: env_ready_def elim: registry_ready_obtain)
  have missing: "missing_workers re (local_workers r) ?w = (Ret ?missing, ?w)"
    using wr by (simp add: missing_workers_def registry_get_all_workers_def the_registry_def bindA_def outcome_simps Let_def image_image)
  obtain tr where tr: "w_router ?w = Some tr"
    using calm_ready(1) [OF assms(1)] by (auto simp: router_ready_def split: option.splits)
  obtain w' where w': "forA (heartbeat_worker re ?missing (w_node_name ?w)) (local_workers r) ?w = (Ret (), w')"
      "beaten ?w (concat (map (\<lambda>p. beats re ?missing (fst p)) (local_workers r))) w'"
    using heartbeat_all [OF assms] by blast
  have "heartbeat_once re r = (Ret (), r\<lparr>cr_world := w'\<rparr>)"
    using tr missing w'(1)
    by (simp add: heartbeat_once_def in_world_def try_get_node_name_def bindA_def outcome_simps)
  moreover have eq: "map (\<lambda>p. beats re ?missing (fst p)) (local_workers r) = map (\<lambda>(n, t).
      (if re \<and> n \<notin> wi_name ` set (hm_values (world_workers ?w))
       then [(SYSTEM_TOPIC_WORKER_DISCOVERY, Some n)] else []) @
      [(SYSTEM_TOPIC_WORKER_HEARTBEAT, Some n)]) (local_workers r)"
    by (rule map_cong [OF refl]) (force simp: beats_def image_image)
  moreover obtain ms where "link_items (w_fabric w') = link_items (w_fabric ?w) @ ms"
      "map (beat_of (w_codecs ?w)) ms = concat (map (\<lambda>p. beats re ?missing (fst p)) (local_workers r))"
    using w'(2) unfolding beaten_def by blast
  ultimately show ?thesis
    unfolding eq by (intro exI [of _ "r\<lparr>cr_world := w'\<rparr>"] exI [of _ ms]) simp
qed

theorem heartbeat_once_exact_witness:
  "\<exists>r' ms. heartbeat_once True ((pair_router null_codec)\<lparr>cr_world := byte_world []\<rparr>) = (Ret (), r') \<and>
    link_items (w_fabric (cr_world r')) = ms \<and>
    map (beat_of byte_codecs) ms =
      [(SYSTEM_TOPIC_WORKER_DISCOVERY, Some ''w1''), (SYSTEM_TOPIC_WORKER_HEARTBEAT, Some ''w1''),
       (SYSTEM_TOPIC_WORKER_DISCOVERY, Some ''w2''), (SYSTEM_TOPIC_WORKER_HEARTBEAT, Some ''w2'')]"
proof -
  let ?r = "(pair_router null_codec)\<lparr>cr_world := byte_world []\<rparr>"
  have l: "local_workers ?r = [(''w1'', ''jobs''), (''w2'', ''jobs'')]"
    by (simp add: local_workers_def pair_router_def Let_def verdict_worker_def)
  have "calm flume_producer open_link memory_wal mw_inv (cr_world ?r)" "beat_codecs (w_codecs (cr_world ?r))"
    using byte_world_calm by (simp_all add: beat_codecs_def is_ok_def)
  from heartbeat_once_exact [OF this, of True] show ?thesis by (simp add: l)
qed

end
