(* ===== verification/Control_Plane.thy ===== *)
theory Control_Plane
  imports System_Handlers
begin

unbundle bit_operations_syntax

text \<open>
  The gRPC control plane (\<^verbatim>\<open>event_base_grpc/src/lib.rs\<close>, \<^verbatim>\<open>server.rs\<close>): the token check of the server,
  the client's side of it, and the remote procedures over the state of a node. The transport, the
  reflection and health services and the generated message types belong to the tonic library;
  request metadata is a map from names to header values, read as text where they are text, and
  which texts a header value may hold is a parameter. A string stands for its bytes.
\<close>

section \<open>Tokens\<close>

datatype code = InvalidArgument | NotFoundCode | FailedPrecondition | Internal | Unauthenticated

text \<open>A status's message: a literal, or what the source's format string puts into one.\<close>

datatype status_text =
    Literal string
  | NoMetricsFor string
  | ShutdownFailed core_error
  | PublishFailed core_error

type_synonym status = "code \<times> status_text"

definition as_bytes :: "string \<Rightarrow> u8 list" where
  "as_bytes = map (\<lambda>c. of_nat (of_char c))"

fun diff_bytes :: "u8 \<Rightarrow> (u8 \<times> u8) list \<Rightarrow> u8" where
  "diff_bytes diff [] = diff"
| "diff_bytes diff ((x, y) # ps) = diff_bytes (diff OR (x XOR y)) ps"

definition constant_time_eq :: "u8 list \<Rightarrow> u8 list \<Rightarrow> bool" where
  "constant_time_eq a b = (if length a \<noteq> length b then False else diff_bytes 0 (zip a b) = 0)"

definition check_token :: "(string, string) hashmap \<Rightarrow> string \<Rightarrow> status + unit" where
  "check_token meta token =
     (case hm_get meta ''authorization'' of
        None \<Rightarrow> Inl (Unauthenticated, Literal ''missing authorization metadata'')
      | Some provided \<Rightarrow>
          let provided' = (case strip_prefix ''Bearer '' provided of Some p \<Rightarrow> p | None \<Rightarrow> provided) in
          if constant_time_eq (as_bytes provided') (as_bytes token) then Inr ()
          else Inl (Unauthenticated, Literal ''invalid token''))"

record serve_config =
  sc_addr :: string
  sc_token :: "string option"
  sc_tls :: "(u8 list \<times> u8 list) option"
  sc_reflection :: bool
  sc_health :: bool

definition serve_config_new :: "string \<Rightarrow> serve_config" where
  "serve_config_new addr =
     \<lparr>sc_addr = addr, sc_token = None, sc_tls = None, sc_reflection = True, sc_health = True\<rparr>"

definition with_token :: "string \<Rightarrow> serve_config \<Rightarrow> serve_config" where
  "with_token token c = c\<lparr>sc_token := Some token\<rparr>"

definition with_reflection :: "bool \<Rightarrow> serve_config \<Rightarrow> serve_config" where
  "with_reflection on c = c\<lparr>sc_reflection := on\<rparr>"

definition with_health :: "bool \<Rightarrow> serve_config \<Rightarrow> serve_config" where
  "with_health on c = c\<lparr>sc_health := on\<rparr>"

definition with_tls :: "u8 list \<Rightarrow> u8 list \<Rightarrow> serve_config \<Rightarrow> serve_config" where
  "with_tls cert key c = c\<lparr>sc_tls := Some (cert, key)\<rparr>"

text \<open>The layer that \<^verbatim>\<open>serve\<close> puts before every service, on the request's metadata.\<close>

definition intercept :: "serve_config \<Rightarrow> (string, string) hashmap \<Rightarrow> status + (string, string) hashmap" where
  "intercept c meta =
     (case sc_token c of
        None \<Rightarrow> Inr meta
      | Some token \<Rightarrow> (case check_token meta token of Inl s \<Rightarrow> Inl s | Inr _ \<Rightarrow> Inr meta))"


section \<open>The client\<close>

definition http_uri :: "string \<Rightarrow> string" where
  "http_uri addr = (if sublist ''://'' addr then addr else ''http://'' @ addr)"

definition attach_token :: "(string \<Rightarrow> bool) \<Rightarrow> string \<Rightarrow> (string, string) hashmap \<Rightarrow> (string, string) hashmap" where
  "attach_token legal token meta =
     (if legal (''Bearer '' @ token) then hm_insert ''authorization'' (''Bearer '' @ token) meta else meta)"

text \<open>\<^verbatim>\<open>AuthInterceptor::call\<close>.\<close>

definition auth_call :: "(string \<Rightarrow> bool) \<Rightarrow> string \<Rightarrow> (string, string) hashmap \<Rightarrow> (string, string) hashmap" where
  "auth_call legal token meta = (if token \<noteq> [] then attach_token legal token meta else meta)"


section \<open>Remote procedures\<close>

text \<open>\<^verbatim>\<open>t.duration_since(UNIX_EPOCH).unwrap().as_secs()\<close>.\<close>

definition epoch_secs :: "time \<Rightarrow> ('s, u64) act" where
  "epoch_secs t =
     (case duration_since t 0 of
        Inl _ \<Rightarrow> halt ''called `Result::unwrap()` on an `Err` value''
      | Inr d \<Rightarrow> ret (of_nat (d div nanos_per_sec)))"

record proto_metrics =
  pm_node_name :: string
  pm_node_type :: nat
  pm_cpu_percent :: "u32 list"
  pm_memory_percent :: u32
  pm_worker_count :: u64
  pm_update_time :: u64

definition type_number :: "node_type \<Rightarrow> nat" where
  "type_number t = (case t of Host \<Rightarrow> 0 | WorkerNode \<Rightarrow> 1)"

definition proto_node_metrics :: "node_metrics \<Rightarrow> ('s, proto_metrics) act" where
  "proto_node_metrics m =
     bindA (epoch_secs (nm_update_time m)) (\<lambda>t. ret
       \<lparr>pm_node_name = nm_node_name m, pm_node_type = type_number (nm_node_type m),
        pm_cpu_percent = nm_cpu_percent m, pm_memory_percent = nm_memory_percent m,
        pm_worker_count = of_nat (nm_worker_count m), pm_update_time = t\<rparr>)"

fun mapA :: "('a \<Rightarrow> ('s, 'b) act) \<Rightarrow> 'a list \<Rightarrow> ('s, 'b list) act" where
  "mapA f [] = ret []"
| "mapA f (x # xs) = bindA (f x) (\<lambda>y. bindA (mapA f xs) (\<lambda>ys. ret (y # ys)))"

definition the_store :: "(metrics_state, (string, node_metrics) hashmap) act" where
  "the_store =
     bindA (getA mt_store) (\<lambda>s. case s of
         None \<Rightarrow> halt ''MetricsStore not initialized'' | Some nodes \<Rightarrow> ret nodes)"

definition get_node_metrics :: "string \<Rightarrow> (('f, 'w, 'k, 'q, 'b, 's) node, status + proto_metrics) act" where
  "get_node_metrics name =
     bindA (on_metrics the_store) (\<lambda>nodes. case get_node name nodes of
         Some m \<Rightarrow> bindA (proto_node_metrics m) (\<lambda>p. ret (Inr p))
       | None \<Rightarrow> ret (Inl (NotFoundCode, NoMetricsFor name)))"

record worker_row =
  rw_name :: string
  rw_topic :: string
  rw_heartbeat :: u64

definition list_workers :: "string \<Rightarrow> (('f, 'w, 'z) world_scheme, status + (worker_row list \<times> u32)) act" where
  "list_workers topic =
     bindA get_node_type (\<lambda>nt.
     if nt = WorkerNode then
       ret (Inl (FailedPrecondition, Literal ''ListWorkers is a Host-only RPC; this node is a Worker''))
     else
       bindA (registry_get_workers topic) (\<lambda>r. case r of
           Inl _ \<Rightarrow> ret (Inl (Internal, Literal ''worker registry read failed''))
         | Inr workers \<Rightarrow>
             bindA (mapA (\<lambda>i. bindA (epoch_secs (last_heartbeat i)) (\<lambda>t.
               ret \<lparr>rw_name = wi_name i, rw_topic = wi_topic i, rw_heartbeat = t\<rparr>)) workers) (\<lambda>rows.
             ret (Inr (rows, of_nat (length workers))))))"

definition rpc_list_topics :: "(('f, 'w, 'z) world_scheme, status + (string list \<times> u32)) act" where
  "rpc_list_topics = bindA list_topics (\<lambda>ts. ret (Inr (ts, of_nat (length ts))))"

record topic_info =
  ti_enqueued :: "(string, u64) hashmap"
  ti_completed :: "(string, u64) hashmap"
  ti_failed :: "(string, u64) hashmap"
  ti_retried :: "(string, u64) hashmap"
  ti_latency_sum :: "(string, u64 \<times> u64) hashmap"

definition get_topic_stats :: "(('f, 'w, 'k, 'q, 'b, 's) node, status + topic_info) act" where
  "get_topic_stats =
     bindA (on_router (in_world time_now)) (\<lambda>now.
     bindA (on_metrics (metrics_snapshot_at now)) (\<lambda>snap.
     let a = sn_business snap in
     ret (Inr \<lparr>ti_enqueued = ma_enqueued a, ti_completed = ma_completed a, ti_failed = ma_failed a,
       ti_retried = ma_retried a,
       ti_latency_sum = map (\<lambda>(t, n, d). (t, n, of_nat d)) (ma_latency_sum a)\<rparr>)))"

text \<open>
  The request's strategy, the one-of field of the protocol file, and the command that the match
  makes of it; \<^verbatim>\<open>usize\<close> has 64 bits.
\<close>

datatype strategy =
    PTwoStage u64 u64
  | PGraceful string u64
  | PForce
  | PTimeout u64
  | PStateBasedIdle
  | PBatched u64 u64

fun shutdown_msg :: "strategy \<Rightarrow> shutdown_strategy option" where
  "shutdown_msg (PTwoStage poll_interval_ms force_timeout_secs) =
     Some (TwoStage poll_interval_ms force_timeout_secs)"
| "shutdown_msg (PGraceful worker_name poll_interval_ms) = Some (Graceful worker_name poll_interval_ms)"
| "shutdown_msg PForce = Some Force"
| "shutdown_msg PStateBasedIdle = Some StateBasedIdle"
| "shutdown_msg (PBatched batch_size interval_ms) = Some (Batched (unat batch_size) interval_ms)"
| "shutdown_msg (PTimeout _) = None"

definition rpc_shutdown :: "strategy option \<Rightarrow> (('f, 'w, 'z) world_scheme, status + unit) act" where
  "rpc_shutdown request =
     (case request of
        None \<Rightarrow> ret (Inl (InvalidArgument, Literal ''No shutdown requested''))
      | Some strategy \<Rightarrow> (case shutdown_msg strategy of
            None \<Rightarrow> ret (Inl (InvalidArgument, Literal ''Invalid strategy''))
          | Some command \<Rightarrow>
              bindA (encode_with cc_shutdown command) (\<lambda>pl. case pl of
                  Inl _ \<Rightarrow> halt ''called `Result::unwrap()` on an `Err` value''
                | Inr b \<Rightarrow>
                    bindA (make_message SYSTEM_TOPIC_SHUTDOWN b Standard None) (\<lambda>msg.
                    bindA (topic_send SYSTEM_TOPIC_SHUTDOWN msg None None) (\<lambda>r. ret (case r of
                        Inl e \<Rightarrow> Inl (Internal, ShutdownFailed e) | Inr _ \<Rightarrow> Inr ()))))))"

definition resp_check :: "(('f, 'w, 'z) world_scheme, status + u64) act" where
  "resp_check = bindA time_now (\<lambda>t. bindA (epoch_secs t) (\<lambda>s. ret (Inr s)))"

record publish_request =
  pr_topic :: string
  pr_payload :: "u8 list"
  pr_broadcast :: bool
  pr_to_worker :: string

definition publish :: "publish_request \<Rightarrow> (('f, 'w, 'z) world_scheme, status + string) act" where
  "publish req =
     (if pr_topic req = [] then ret (Inl (InvalidArgument, Literal ''topic must not be empty''))
      else if starts_with (pr_topic req) ''_'' then
        ret (Inl (InvalidArgument,
          Literal (''Publish cannot target system topics (leading '' @ [CHR 0x27, CHR 0x5F, CHR 0x27] @ ''); use the dedicated RPCs'')))
      else
        bindA (make_message (pr_topic req) (pr_payload req) (if pr_broadcast req then Broadcast else Standard)
          (if pr_to_worker req \<noteq> [] then Some (pr_to_worker req) else None)) (\<lambda>msg.
        bindA (topic_send (pr_topic req) msg None None) (\<lambda>r. ret (case r of
            Inl e \<Rightarrow> Inl (Internal, PublishFailed e) | Inr _ \<Rightarrow> Inr (msg_id msg)))))"

record node_status =
  ns_ready :: bool
  ns_node_name :: string
  ns_node_type :: nat
  ns_topic_count :: u32
  ns_worker_count :: u32
  ns_fleet :: "proto_metrics list"
  ns_timestamp :: u64

definition get_node_status :: "(('f, 'w, 'k, 'q, 'b, 's) node, status + node_status) act" where
  "get_node_status =
     bindA (on_router (in_world get_node_name)) (\<lambda>name.
     bindA (on_router (in_world get_node_type)) (\<lambda>nt.
     bindA (on_router (in_world list_topics)) (\<lambda>topics.
     bindA (on_router (in_world registry_get_all_workers)) (\<lambda>workers.
     bindA (if nt \<noteq> WorkerNode then
              bindA (on_metrics the_store) (\<lambda>nodes. mapA proto_node_metrics (get_all_nodes nodes))
            else ret []) (\<lambda>fleet.
     bindA (on_router (in_world time_now)) (\<lambda>now.
     bindA (epoch_secs now) (\<lambda>t.
     ret (Inr \<lparr>ns_ready = True, ns_node_name = name, ns_node_type = type_number nt,
       ns_topic_count = of_nat (length topics),
       ns_worker_count = (case workers of Inr ws \<Rightarrow> of_nat (length ws) | Inl _ \<Rightarrow> 0),
       ns_fleet = fleet, ns_timestamp = t\<rparr>))))))))"


section \<open>Tokens, checked\<close>

lemma xor_zero: "x XOR y = 0 \<longleftrightarrow> x = y" for x y :: u8
proof
  assume "x XOR y = 0"
  then have "(x XOR y) XOR y = 0 XOR y" by simp
  then show "x = y" by (simp add: xor.assoc)
qed simp

lemma diff_bytes_zero: "diff_bytes d ps = 0 \<longleftrightarrow> d = 0 \<and> (\<forall>(x, y) \<in> set ps. x = y)"
proof (induction ps arbitrary: d)
  case (Cons p ps)
  then show ?case by (cases p) (auto simp: or_eq_0_iff xor_zero)
qed simp

lemma constant_time_eq_iff [simp]: "constant_time_eq a b \<longleftrightarrow> a = b"
proof (cases "length a = length b")
  case True
  then show ?thesis
    by (induction a b rule: list_induct2) (auto simp: constant_time_eq_def diff_bytes_zero xor_zero)
qed (auto simp: constant_time_eq_def)

lemma as_bytes_inject [simp]: "as_bytes a = as_bytes b \<longleftrightarrow> a = b"
proof -
  have "inj (\<lambda>c. of_nat (of_char c) :: u8)"
  proof (rule injI)
    fix c d assume "(of_nat (of_char c) :: u8) = of_nat (of_char d)"
    then have "unat (of_nat (of_char c) :: u8) = unat (of_nat (of_char d) :: u8)" by (rule arg_cong)
    then have "(of_char c :: nat) mod 256 = of_char d mod 256"
      by (simp only: unat_of_nat len_of_numeral_defs len_num0 len_bit0 len_num1) simp
    then have "(of_char c :: nat) = of_char d"
      unfolding mod_less [OF nat_of_char_less_256] .
    then show "c = d" by (metis char_of_char)
  qed
  then show ?thesis unfolding as_bytes_def by (rule inj_map_eq_map)
qed

lemma strip_prefix_iff: "strip_prefix p v = Some t \<longleftrightarrow> v = p @ t"
  by (auto simp: strip_prefix_def prefix_def)

lemma strip_prefix_None: "strip_prefix p v = None \<longleftrightarrow> \<not> starts_with v p"
  by (simp add: strip_prefix_def)

lemma check_token_ok:
  "check_token meta token = Inr () \<longleftrightarrow> (\<exists>v. hm_get meta ''authorization'' = Some v \<and>
     (if starts_with v ''Bearer '' then v = ''Bearer '' @ token else v = token))"
proof (cases "hm_get meta ''authorization''")
  case (Some v)
  show ?thesis
  proof (cases "strip_prefix ''Bearer '' v")
    case None
    moreover from None have "\<not> starts_with v ''Bearer ''" by (simp add: strip_prefix_None)
    ultimately show ?thesis using Some by (simp add: check_token_def)
  next
    case (Some t)
    then have "v = ''Bearer '' @ t" by (simp only: strip_prefix_iff)
    then show ?thesis using Some \<open>hm_get meta ''authorization'' = Some v\<close> by (simp add: check_token_def)
  qed
qed (simp add: check_token_def)


section \<open>Sends\<close>

lemma emits_open:
  fixes w :: "('q link, mem_wal, 'z) world_scheme"
  assumes "env_ready flume_producer open_link memory_wal mw_inv w"
  shows "\<exists>f. forQ (\<lambda>x. emit (g x) b d) xs w = (Ret (Inr ()), w\<lparr>w_fabric := f\<rparr>) \<and>
    link_items f = link_items (w_fabric w) @ map g xs"
  using assms
proof (induction xs arbitrary: w)
  case Nil
  then show ?case by (intro exI [of _ "w_fabric w"]) (simp add: outcome_simps)
next
  case (Cons x xs)
  have r: "router_ready flume_producer w" "open_link (w_fabric w)" using Cons.prems by (simp_all add: env_ready_def)
  obtain f where f: "emit (g x) b d w = (Ret (Inr ()), w\<lparr>w_fabric := f\<rparr>)" "open_link f"
      "link_items f = link_items (w_fabric w) @ [g x]"
    using open_flume_memory.emit_open [OF r, of "g x" b d] by blast
  have "env_ready flume_producer open_link memory_wal mw_inv (w\<lparr>w_fabric := f\<rparr>)"
    using Cons.prems f(2) by simp
  from Cons.IH [OF this] f show ?case by (auto simp: bindQ_Inr)
qed

lemma make_message_eval:
  obtains u c a where "make_message t b mode target w = (Ret (emessage_new u c t b mode target), w\<lparr>w_amb := a\<rparr>)"
  by (simp add: make_message_def bindA_def outcome_simps)

text \<open>The message a procedure makes and sends over a queue that accepts messages.\<close>

lemma made_and_sent:
  fixes w :: "('q link, mem_wal, 'z) world_scheme"
  assumes "env_ready flume_producer open_link memory_wal mw_inv w"
  shows "\<exists>m w'. bindA (make_message t b Standard target) (\<lambda>m. bindA (topic_send t m None None) (\<lambda>r. k m r)) w =
      k m (Inr ()) w' \<and> link_items (w_fabric w') = link_items (w_fabric w) @ [m] \<and> msg_topic m = t \<and>
    payload m = b \<and> to_worker m = target \<and> delivery_mode m = Standard \<and>
    (\<exists>a f. w' = w\<lparr>w_amb := a, w_fabric := f\<rparr> \<and> open_link f)"
proof -
  obtain u c a where mk: "make_message t b Standard target w = (Ret (emessage_new u c t b Standard target), w\<lparr>w_amb := a\<rparr>)"
    by (rule make_message_eval)
  define m where "m = emessage_new u c t b Standard target"
  have m: "make_message t b Standard target w = (Ret m, w\<lparr>w_amb := a\<rparr>)" "msg_topic m = t" "payload m = b"
      "to_worker m = target" "deliver_at m = None" "delivery_mode m = Standard"
    using mk by (simp_all add: m_def emessage_new_def)
  have e: "env_ready flume_producer open_link memory_wal mw_inv (w\<lparr>w_amb := a\<rparr>)" using assms by simp
  then have r: "router_ready flume_producer (w\<lparr>w_amb := a\<rparr>)" "open_link (w_fabric (w\<lparr>w_amb := a\<rparr>))"
    by (simp_all add: env_ready_def)
  obtain f where f: "emit m None None (w\<lparr>w_amb := a\<rparr>) = (Ret (Inr ()), w\<lparr>w_amb := a, w_fabric := f\<rparr>)"
      "open_link f" "link_items f = link_items (w_fabric w) @ [m]"
    using open_flume_memory.emit_open [OF r, of m None None] by auto
  have same: "m\<lparr>msg_topic := msg_topic m\<rparr> = m" by simp
  have "topic_send t m None None (w\<lparr>w_amb := a\<rparr>) = (Ret (Inr ()), w\<lparr>w_amb := a, w_fabric := f\<rparr>)"
    using f(1) by (simp add: send_plain m(5,6) same [unfolded m(2)])
  then have "bindA (make_message t b Standard target) (\<lambda>m. bindA (topic_send t m None None) (\<lambda>r. k m r)) w =
      k m (Inr ()) (w\<lparr>w_amb := a, w_fabric := f\<rparr>)"
    by (simp only: bindA_def m(1) prod.case outcome.case)
  moreover have "link_items (w_fabric (w\<lparr>w_amb := a, w_fabric := f\<rparr>)) = link_items (w_fabric w) @ [m]"
    using f(3) by simp
  ultimately show ?thesis using m(2,3,4,6) f(2) by blast
qed


text \<open>The publication itself, past the two checks of the topic.\<close>

lemma publish_open:
  assumes "pr_topic req \<noteq> []" and "\<not> starts_with (pr_topic req) ''_''"
    and "mode = (if pr_broadcast req then Broadcast else Standard)"
    and "target = (if pr_to_worker req \<noteq> [] then Some (pr_to_worker req) else None)"
  shows "publish req = bindA (make_message (pr_topic req) (pr_payload req) mode target)
    (\<lambda>m. bindA (topic_send (pr_topic req) m None None) (\<lambda>r. ret (case r of
        Inl e \<Rightarrow> Inl (Internal, PublishFailed e) | Inr _ \<Rightarrow> Inr (msg_id m))))"
  using assms(1,2) unfolding assms(3,4) publish_def by simp

lemma publish_single:
  fixes w :: "('q link, mem_wal, 'z) world_scheme"
  assumes "env_ready flume_producer open_link memory_wal mw_inv w"
    and "pr_topic req \<noteq> []" and "\<not> starts_with (pr_topic req) ''_''" and "\<not> pr_broadcast req"
  shows "\<exists>m w'. publish req w = (Ret (Inr (msg_id m)), w') \<and>
    link_items (w_fabric w') = link_items (w_fabric w) @ [m] \<and> msg_topic m = pr_topic req \<and>
    payload m = pr_payload req \<and> to_worker m = (if pr_to_worker req \<noteq> [] then Some (pr_to_worker req) else None)"
proof -
  have p: "publish req = bindA (make_message (pr_topic req) (pr_payload req) Standard
      (if pr_to_worker req \<noteq> [] then Some (pr_to_worker req) else None))
    (\<lambda>m. bindA (topic_send (pr_topic req) m None None) (\<lambda>r. ret (case r of
        Inl e \<Rightarrow> Inl (Internal, PublishFailed e) | Inr _ \<Rightarrow> Inr (msg_id m))))"
    using assms(4) by (intro publish_open [OF assms(2,3)]) simp_all
  show ?thesis
    using made_and_sent [OF assms(1), where k = "\<lambda>m r. ret (case r of
        Inl e \<Rightarrow> Inl (Internal, PublishFailed e) | Inr _ \<Rightarrow> Inr (msg_id m))"]
    unfolding p ret_def sum.case by blast
qed

lemma publish_broadcast:
  fixes w :: "('q link, mem_wal, 'z) world_scheme"
  assumes "env_ready flume_producer open_link memory_wal mw_inv w" and "w_node_type w = Some nt"
    and "pr_topic req \<noteq> []" and "\<not> starts_with (pr_topic req) ''_''" and "pr_broadcast req"
  shows "\<exists>m res w'. publish req w = (Ret res, w') \<and> msg_topic m = pr_topic req \<and> payload m = pr_payload req \<and>
    (if nt = WorkerNode then (\<exists>e. res = Inl (Internal, PublishFailed e)) \<and> w_fabric w' = w_fabric w
     else res = Inr (msg_id m) \<and> link_items (w_fabric w') = link_items (w_fabric w) @ map (broadcast_copy m)
         (filter (\<lambda>i. wi_topic i = pr_topic req) (hm_values (world_workers w))))"
proof -
  define target where "target = (if pr_to_worker req \<noteq> [] then Some (pr_to_worker req) else None)"
  have mode: "Broadcast = (if pr_broadcast req then Broadcast else Standard)" using assms(5) by simp
  obtain u c a where mk: "make_message (pr_topic req) (pr_payload req) Broadcast target w =
      (Ret (emessage_new u c (pr_topic req) (pr_payload req) Broadcast target), w\<lparr>w_amb := a\<rparr>)"
    by (rule make_message_eval)
  define m where "m = emessage_new u c (pr_topic req) (pr_payload req) Broadcast target"
  have m: "deliver_at m = None" "delivery_mode m = Broadcast" "msg_topic m = pr_topic req" "payload m = pr_payload req"
    by (simp_all add: m_def emessage_new_def)
  let ?w = "w\<lparr>w_amb := a\<rparr>" and ?ws = "filter (\<lambda>i. wi_topic i = pr_topic req) (hm_values (world_workers w))"
  have eq: "publish req w = bindA (topic_send (pr_topic req) m None None) (\<lambda>r. ret (case r of
        Inl e \<Rightarrow> Inl (Internal, PublishFailed e) | Inr _ \<Rightarrow> Inr (msg_id m))) ?w"
    unfolding publish_open [OF assms(3,4) mode target_def] by (simp only: bindA_def [of "make_message _ _ _ _"] mk prod.case outcome.case m_def)
  show ?thesis
  proof (cases nt)
    case WorkerNode
    then have "w_node_type ?w = Some WorkerNode" using assms(2) by simp
    then have "publish req w = (Ret (Inl (Internal, PublishFailed
        (EUnsupported ''Unsupported node type, send broadcast message must host''))), ?w)"
      unfolding eq by (simp add: bindA_Ret [OF send_broadcast_worker [OF m(1,2)]] ret_def)
    moreover have "w_fabric ?w = w_fabric w" by simp
    ultimately show ?thesis using m(3,4) WorkerNode by metis
  next
    case Host
    have e: "env_ready flume_producer open_link memory_wal mw_inv ?w" and r: "registry_ready memory_wal ?w"
      using assms(1) by (simp_all add: env_ready_def registry_ready_def)
    have h: "w_node_type ?w = Some Host" using Host assms(2) by simp
    have ws: "world_workers ?w = world_workers w" by (simp add: world_workers_def)
    obtain f where f: "forQ (\<lambda>i. emit (broadcast_copy m i) None None) ?ws ?w = (Ret (Inr ()), ?w\<lparr>w_fabric := f\<rparr>)"
        "link_items f = link_items (w_fabric ?w) @ map (broadcast_copy m) ?ws"
      using emits_open [OF e] by blast
    have "topic_send (pr_topic req) m None None ?w = (Ret (Inr ()), ?w\<lparr>w_fabric := f\<rparr>)"
      using f(1) send_broadcast_host [OF m(1,2) h r, of "pr_topic req" None None] unfolding ws by simp
    then have "publish req w = (Ret (Inr (msg_id m)), ?w\<lparr>w_fabric := f\<rparr>)"
      unfolding eq by (simp add: bindA_Ret ret_def)
    moreover have "link_items (w_fabric (?w\<lparr>w_fabric := f\<rparr>)) = link_items (w_fabric w) @ map (broadcast_copy m) ?ws"
      using f(2) by simp
    ultimately show ?thesis using m(3,4) Host by (metis node_type.distinct(1))
  qed
qed


lemma router_wf_world: "router_wf r \<Longrightarrow> router_wf (r\<lparr>cr_world := w\<rparr>)"
  by (rule router_wf_irrelevant [where bs = "[]" and ts = "[]" and r = r])
    (simp_all add: entry_workers_def router_wfD(1))

section \<open>Properties\<close>



text \<open>
  C35: what \<^verbatim>\<open>Publish\<close> does on every branch, over a queue that accepts messages. An empty topic or a system
  topic is refused and nothing changes. A single delivery puts exactly one message on the queue,
  with the topic, payload and target of the request, and answers its identifier. A broadcast on
  a host puts one copy per worker registered for the topic, whatever target was asked for, and answers an
  identifier that the identifiers of the copies extend; on a worker node it fails and sends nothing.
\<close>

theorem publish_exact:
  fixes w :: "('q link, mem_wal, 'z) world_scheme"
  assumes "env_ready flume_producer open_link memory_wal mw_inv w" and "w_node_type w = Some nt"
  shows "\<exists>res w'. publish req w = (Ret res, w') \<and>
    (if pr_topic req = [] \<or> starts_with (pr_topic req) ''_'' then (\<exists>s. res = Inl (InvalidArgument, s)) \<and> w' = w
     else if \<not> pr_broadcast req then (\<exists>m. res = Inr (msg_id m) \<and>
       link_items (w_fabric w') = link_items (w_fabric w) @ [m] \<and> msg_topic m = pr_topic req \<and>
       payload m = pr_payload req \<and>
       to_worker m = (if pr_to_worker req \<noteq> [] then Some (pr_to_worker req) else None))
     else if nt = WorkerNode then (\<exists>e. res = Inl (Internal, PublishFailed e)) \<and> w_fabric w' = w_fabric w
     else (\<exists>m. res = Inr (msg_id m) \<and> msg_topic m = pr_topic req \<and> payload m = pr_payload req \<and>
       link_items (w_fabric w') = link_items (w_fabric w) @ map (broadcast_copy m)
         (filter (\<lambda>i. wi_topic i = pr_topic req) (hm_values (world_workers w)))))"
proof (cases "pr_topic req = [] \<or> starts_with (pr_topic req) ''_''")
  case True
  then have "\<exists>s. publish req w = (Ret (Inl (InvalidArgument, s)), w)"
    by (auto simp: publish_def ret_def)
  with True show ?thesis by auto
next
  case False
  then have t: "pr_topic req \<noteq> []" "\<not> starts_with (pr_topic req) ''_''" by blast+
  show ?thesis
  proof (cases "pr_broadcast req")
    case False
    with publish_single [OF assms(1) t False] t show ?thesis by metis
  next
    case True
    with publish_broadcast [OF assms t True] t show ?thesis by metis
  qed
qed

theorem publish_exact_witness:
  "\<exists>m w'. publish \<lparr>pr_topic = ''jobs'', pr_payload = [7], pr_broadcast = False, pr_to_worker = ''w1''\<rparr>
      (flume_world [] [] Host) = (Ret (Inr (msg_id m)), w') \<and>
    link_items (w_fabric w') = [m] \<and> payload m = [7] \<and> to_worker m = Some ''w1''"
proof -
  have "env_ready flume_producer open_link memory_wal mw_inv (flume_world [] [] Host)"
    by (rule flume_world_ready) auto
  from publish_exact [OF this flume_world_sel(2),
      of "\<lparr>pr_topic = ''jobs'', pr_payload = [7], pr_broadcast = False, pr_to_worker = ''w1''\<rparr>"]
  show ?thesis by auto
qed


text \<open>A byte codec for shutdown commands.\<close>

definition strategy_coder :: "shutdown_strategy coder" where
  "strategy_coder = iso_coder
     (\<lambda>s. case s of TwoStage p f \<Rightarrow> (0, unat p, unat f, []) | Graceful n p \<Rightarrow> (1, unat p, 0, n) | Force \<Rightarrow> (2, 0, 0, [])
        | TimeoutStrategy t \<Rightarrow> (3, unat t, 0, []) | StateBasedIdle \<Rightarrow> (4, 0, 0, []) | Batched k i \<Rightarrow> (5, k, unat i, []))
     (\<lambda>(tag, a, b, n). if tag = 0 then TwoStage (of_nat a) (of_nat b) else if tag = 1 then Graceful n (of_nat a)
        else if tag = 2 then Force else if tag = 3 then TimeoutStrategy (of_nat a) else if tag = 4 then StateBasedIdle
        else Batched a (of_nat b))
     (pair_coder nat_coder (pair_coder nat_coder (pair_coder nat_coder string_coder)))"

lemma strategy_coder_ok: "coder_ok strategy_coder"
  by (auto simp: strategy_coder_def intro!: coder_ok_iso split: shutdown_strategy.splits)


text \<open>
  \<^verbatim>\<open>ListWorkers\<close> on a host answers exactly the workers registered for the topic, in seconds since the
  epoch, with their number modulo the width of the answer's field, and changes nothing; a single
  heartbeat before the epoch panics the call instead, and a worker node refuses it.
\<close>

theorem list_workers_exact:
  fixes w :: "('f, 'w, 'z) world_scheme"
  assumes "w_registry w = Some wr" and "w_node_type w = Some nt"
    and "ws = filter (\<lambda>i. wi_topic i = topic) (hm_values (wr_workers wr))"
  shows "list_workers topic w =
    (if nt = WorkerNode then Ret (Inl (FailedPrecondition, Literal ''ListWorkers is a Host-only RPC; this node is a Worker''))
     else if \<exists>i \<in> set ws. last_heartbeat i < 0 then Panic ''called `Result::unwrap()` on an `Err` value''
     else Ret (Inr (map (\<lambda>i. \<lparr>rw_name = wi_name i, rw_topic = topic,
       rw_heartbeat = of_nat (nat (last_heartbeat i) div nanos_per_sec)\<rparr>) ws, of_nat (length ws mod 2 ^ 32))), w)"
proof (cases nt)
  case WorkerNode
  then show ?thesis using assms(2) by (simp add: list_workers_def get_node_type_def bindA_def outcome_simps)
next
  case Host
  define f :: "worker_info \<Rightarrow> (('f, 'w, 'z) world_scheme, worker_row) act"
    where "f = (\<lambda>i. bindA (epoch_secs (last_heartbeat i)) (\<lambda>t.
      ret \<lparr>rw_name = wi_name i, rw_topic = wi_topic i, rw_heartbeat = t\<rparr>))"
  have rows: "mapA f ws w = (if \<exists>i \<in> set ws. last_heartbeat i < 0 then Panic ''called `Result::unwrap()` on an `Err` value''
     else Ret (map (\<lambda>i. \<lparr>rw_name = wi_name i, rw_topic = wi_topic i,
       rw_heartbeat = of_nat (nat (last_heartbeat i) div nanos_per_sec)\<rparr>) ws), w)" for ws
    by (induction ws) (auto simp: f_def epoch_secs_def duration_since_def bindA_def outcome_simps)
  have topics: "map (\<lambda>i. \<lparr>rw_name = wi_name i, rw_topic = wi_topic i,
       rw_heartbeat = of_nat (nat (last_heartbeat i) div nanos_per_sec)\<rparr>) ws =
     map (\<lambda>i. \<lparr>rw_name = wi_name i, rw_topic = topic,
       rw_heartbeat = of_nat (nat (last_heartbeat i) div nanos_per_sec)\<rparr>) ws"
    unfolding assms(3) by simp
  have len: "(of_nat (length ws) :: u32) = of_nat (length ws mod 2 ^ 32)"
    by (simp add: word_unat_eq_iff unat_of_nat)
  have reg: "registry_get_workers topic w = (Ret (Inr ws), w)"
    using assms(1) unfolding assms(3) by (simp add: registry_get_workers_def the_registry_def bindA_def outcome_simps)
  have nt: "get_node_type w = (Ret Host, w)" using assms(2) Host by (simp add: get_node_type_def bindA_def outcome_simps)
  have "list_workers topic w = bindA (mapA f ws) (\<lambda>rows. ret (Inr (rows, of_nat (length ws)))) w"
    unfolding list_workers_def f_def [symmetric] using reg nt
    by (simp add: bindA_def [of get_node_type] bindA_def [of "registry_get_workers topic"])
  then show ?thesis using Host by (simp add: bindA_def rows topics len ret_def)
qed

theorem list_workers_exact_witness:
  "list_workers ''t'' (registry_world memory_wal mem_wal_new
      [(''a'', \<lparr>wi_name = ''a'', wi_topic = ''t'', last_heartbeat = 2500000000\<rparr>)]) =
    (Ret (Inr ([\<lparr>rw_name = ''a'', rw_topic = ''t'', rw_heartbeat = 2\<rparr>], 1)), registry_world memory_wal mem_wal_new
      [(''a'', \<lparr>wi_name = ''a'', wi_topic = ''t'', last_heartbeat = 2500000000\<rparr>)])"
proof -
  let ?w = "registry_world memory_wal mem_wal_new [(''a'', \<lparr>wi_name = ''a'', wi_topic = ''t'', last_heartbeat = 2500000000\<rparr>)]"
  have "w_registry ?w = Some \<lparr>wr_workers = [(''a'', \<lparr>wi_name = ''a'', wi_topic = ''t'', last_heartbeat = 2500000000\<rparr>)],
      wr_wal = Some memory_wal\<rparr>" "w_node_type ?w = Some Host"
    by (simp_all add: registry_world_def)
  from list_workers_exact [OF this refl, of "''t''"] show ?thesis by (simp add: nanos_per_sec_def)
qed

end
