(* ===== verification/Startup.thy ===== *)
theory Startup
  imports Control_Plane
begin

text \<open>
  Starting a node: the configuration (\<^verbatim>\<open>src/src/config.rs\<close>), the registration of the system handlers
  (\<^verbatim>\<open>event_base_core/src/system_handlers/system.rs\<close>) and of the user's (\<^verbatim>\<open>registry.rs\<close>), the start
  routine (\<^verbatim>\<open>event_base_macro_func/src/start_system.rs\<close>) and \<^verbatim>\<open>Bootstrap::start\<close>
  (\<^verbatim>\<open>src/src/bootstrap.rs\<close>). A handler object is named by its constructor and arguments; what it
  does when called is a parameter here, since the handlers of \<open>System_Handlers\<close> act on different
  parts of the node. The queue factory, the registration functions of the user's handlers,
  and the backends a configuration names are parameters.
\<close>

section \<open>Configuration\<close>

datatype queue_backend = QMemory | QRedis

datatype wal_backend = WMemory | WPersistent | WRedis

datatype role = RHost | RWorker

record node_section =
  ns_name :: string
  ns_role :: role

record queue_section =
  qs_backend :: queue_backend
  qs_capacity :: u64
  qs_url :: string
  qs_prefix :: string
  qs_block_ms :: u64
  qs_node :: string

record wal_section =
  wls_backend :: wal_backend
  wls_path :: string
  wls_url :: string
  wls_prefix :: string

record grpc_section =
  gs_addr :: string
  gs_token :: string
  gs_tls_cert :: string
  gs_tls_key :: string
  gs_reflection :: bool
  gs_health :: bool

record node_config =
  nc_node :: node_section
  nc_queue :: queue_section
  nc_wal :: wal_section
  nc_grpc :: "grpc_section option"
  nc_audit_buf_capacity :: u64

text \<open>The environment variables that a process sees.\<close>

type_synonym env = "string \<Rightarrow> string option"

definition default_host_name :: "env \<Rightarrow> string" where
  "default_host_name env =
     (case env ''HOSTNAME'' of Some h \<Rightarrow> h
      | None \<Rightarrow> (case env ''COMPUTERNAME'' of Some h \<Rightarrow> h | None \<Rightarrow> ''node''))"

definition node_section_default :: "env \<Rightarrow> node_section" where
  "node_section_default env = \<lparr>ns_name = default_host_name env, ns_role = RHost\<rparr>"

definition queue_section_default :: queue_section where
  "queue_section_default =
     \<lparr>qs_backend = QMemory, qs_capacity = 100000, qs_url = [], qs_prefix = ''event_base'',
      qs_block_ms = 2000, qs_node = []\<rparr>"

definition wal_section_default :: wal_section where
  "wal_section_default =
     \<lparr>wls_backend = WMemory, wls_path = ''event_base.wal'', wls_url = [], wls_prefix = ''event_base''\<rparr>"

definition grpc_section_default :: grpc_section where
  "grpc_section_default =
     \<lparr>gs_addr = ''0.0.0.0:50051'', gs_token = [], gs_tls_cert = [], gs_tls_key = [],
      gs_reflection = True, gs_health = True\<rparr>"

definition node_config_default :: "env \<Rightarrow> node_config" where
  "node_config_default env =
     \<lparr>nc_node = node_section_default env, nc_queue = queue_section_default, nc_wal = wal_section_default,
      nc_grpc = None, nc_audit_buf_capacity = 0\<rparr>"

definition redis_node_id :: "node_config \<Rightarrow> string" where
  "redis_node_id c = (if qs_node (nc_queue c) = [] then ns_name (nc_node c) else qs_node (nc_queue c))"

definition wal_redis_url :: "node_config \<Rightarrow> string" where
  "wal_redis_url c = (if wls_url (nc_wal c) = [] then qs_url (nc_queue c) else wls_url (nc_wal c))"

definition audit_capacity :: "node_config \<Rightarrow> u64" where
  "audit_capacity c = (if nc_audit_buf_capacity c = 0 then 1024 else nc_audit_buf_capacity c)"


section \<open>System handlers\<close>

datatype ('w, 'c, 'x) sys_handler =
    ShutdownHandler 'x
  | TopicSync
  | MetricsHandler
  | AuditHandler
  | SystemTraceHandler "'c list"
  | WorkerDiscoveryHandler
  | WorkerHeartbeatHandler
  | WalSyncHandler "'w wal_ops"
  | ShutdownAckHandler
  | TopicDiscovery

record ('w, 'c, 'x) system_handler_builder =
  sb_trace_collectors :: "'c list"
  sb_wal :: "'w wal_ops"
  sb_shutdown_handler :: 'x
  sb_audit_buf_capacity :: u64

definition builder_new :: "'w wal_ops \<Rightarrow> 'x \<Rightarrow> u64 \<Rightarrow> ('w, 'c, 'x) system_handler_builder" where
  "builder_new wal shutdown_sender audit_buf_capacity =
     \<lparr>sb_trace_collectors = [], sb_wal = wal, sb_shutdown_handler = shutdown_sender,
      sb_audit_buf_capacity = audit_buf_capacity\<rparr>"

definition with_trace_collector :: "'c \<Rightarrow> ('w, 'c, 'x) system_handler_builder
    \<Rightarrow> ('w, 'c, 'x) system_handler_builder" where
  "with_trace_collector c b = b\<lparr>sb_trace_collectors := sb_trace_collectors b @ [c]\<rparr>"

definition SYSTEM_WORKER_COUNT :: nat where
  "SYSTEM_WORKER_COUNT = 32"

definition spawn_system_workers :: "string \<Rightarrow> nat \<Rightarrow> (('f, 'w, 'k, 'q) consumer_router, unit result) act" where
  "spawn_system_workers topic worker_count =
     bindA (get_handler topic) (\<lambda>h. case h of
         None \<Rightarrow> ret (Inl (EOther (''handler for '' @ topic @ '' not found'')))
       | Some handler \<Rightarrow>
           forQ (\<lambda>_. bindQ (create_worker topic (pipeline_from_arc handler) None None None) (\<lambda>_. ret (Inr ())))
             [0..<worker_count])"

definition register_and_spawn :: "string \<Rightarrow> ('f, 'w) world ehandler
    \<Rightarrow> (('f, 'w, 'k, 'q) consumer_router, unit result) act" where
  "register_and_spawn topic h =
     bindQ (cr_register topic h) (\<lambda>_. spawn_system_workers topic SYSTEM_WORKER_COUNT)"

text \<open>The two halves of a host's registration, before and after it spawns the node collector.\<close>

definition register_host :: "(('w, 'c, 'x) sys_handler \<Rightarrow> ('f, 'w) world ehandler)
    \<Rightarrow> ('w, 'c, 'x) system_handler_builder \<Rightarrow> bool \<Rightarrow> (('f, 'w, 'k, 'q) consumer_router, unit result) act" where
  "register_host hs b writers =
     bindQ (if writers then register_and_spawn SYSTEM_TOPIC_AUDIT (hs AuditHandler) else ret (Inr ())) (\<lambda>_.
     bindQ (if sb_trace_collectors b \<noteq> [] then
         register_and_spawn SYSTEM_TOPIC_TRACE (hs (SystemTraceHandler (sb_trace_collectors b)))
       else ret (Inr ())) (\<lambda>_.
     bindQ (register_and_spawn SYSTEM_TOPIC_WORKER_DISCOVERY (hs WorkerDiscoveryHandler)) (\<lambda>_.
     bindQ (register_and_spawn SYSTEM_TOPIC_WORKER_HEARTBEAT (hs WorkerHeartbeatHandler)) (\<lambda>_.
     bindQ (register_and_spawn SYSTEM_TOPIC_WAL_SYNC (hs (WalSyncHandler (sb_wal b)))) (\<lambda>_.
     bindQ (cr_register SYSTEM_TOPIC_SHUTDOWN (hs (ShutdownHandler (sb_shutdown_handler b)))) (\<lambda>_.
     bindQ (cr_register SYSTEM_TOPIC_SHUTDOWN_ACK (hs ShutdownAckHandler)) (\<lambda>_.
     bindQ (cr_register SYSTEM_TOPIC_TOPIC_DISCOVERY (hs TopicDiscovery)) (\<lambda>_.
     cr_register SYSTEM_TOPIC_TOPIC_SYNC (hs TopicSync)))))))))"

definition spawn_host :: "(('f, 'w, 'k, 'q) consumer_router, unit result) act" where
  "spawn_host =
     bindQ (spawn_system_workers SYSTEM_TOPIC_SHUTDOWN SYSTEM_WORKER_COUNT) (\<lambda>_.
     bindQ (spawn_system_workers SYSTEM_TOPIC_SHUTDOWN_ACK SYSTEM_WORKER_COUNT) (\<lambda>_.
     bindQ (spawn_system_workers SYSTEM_TOPIC_TOPIC_DISCOVERY SYSTEM_WORKER_COUNT) (\<lambda>_.
     spawn_system_workers SYSTEM_TOPIC_TOPIC_SYNC SYSTEM_WORKER_COUNT)))"

definition register_worker_node :: "(('w, 'c, 'x) sys_handler \<Rightarrow> ('f, 'w) world ehandler)
    \<Rightarrow> ('w, 'c, 'x) system_handler_builder \<Rightarrow> (('f, 'w, 'k, 'q) consumer_router, unit result) act" where
  "register_worker_node hs b =
     bindQ (cr_register SYSTEM_TOPIC_SHUTDOWN (hs (ShutdownHandler (sb_shutdown_handler b)))) (\<lambda>_.
     bindQ (cr_register SYSTEM_TOPIC_TOPIC_SYNC (hs TopicSync)) (\<lambda>_.
     bindQ (cr_register SYSTEM_TOPIC_METRICS (hs MetricsHandler)) (\<lambda>_.
     bindQ (spawn_system_workers SYSTEM_TOPIC_SHUTDOWN SYSTEM_WORKER_COUNT) (\<lambda>_.
     bindQ (spawn_system_workers SYSTEM_TOPIC_TOPIC_SYNC SYSTEM_WORKER_COUNT) (\<lambda>_.
     spawn_system_workers SYSTEM_TOPIC_METRICS SYSTEM_WORKER_COUNT)))))"

text \<open>The collector's task is counted.\<close>

definition spawn_collector :: "(('f, 'w, 'k, 'q, 'b, 's) node, unit) act" where
  "spawn_collector = putA (\<lambda>n. n\<lparr>nd_collectors := nd_collectors n + 1\<rparr>)"

definition register_all :: "'b ring \<Rightarrow> (('w, 'c, 'x) sys_handler \<Rightarrow> ('f, 'w) world ehandler)
    \<Rightarrow> ('w, 'c, 'x) system_handler_builder \<Rightarrow> (('f, 'w, 'k, 'q, 'b, 's) node, unit result) act" where
  "register_all ring hs b =
     bindQ (on_audit (audit_init ring (sb_audit_buf_capacity b))) (\<lambda>_.
     bindQ (on_metrics metrics_init) (\<lambda>_.
     bindQ (on_metrics metrics_store_init) (\<lambda>_.
     bindA (on_router (in_world get_node_type)) (\<lambda>nt.
     if nt = WorkerNode then
       bindQ (on_router (register_worker_node hs b)) (\<lambda>_.
       bindA spawn_collector (\<lambda>_. ret (Inr ())))
     else
       bindA (on_audit the_audit) (\<lambda>m.
       bindQ (on_router (register_host hs b (am_writers m \<noteq> []))) (\<lambda>_.
       bindA spawn_collector (\<lambda>_.
       on_router spawn_host)))))))"


section \<open>The start routine\<close>

text \<open>\<^verbatim>\<open>registry.rs\<close>: the registration functions of the user's handlers, each given the shutdown sender.\<close>

definition register_all_handlers :: "('x \<Rightarrow> ('s, unit result) act) list \<Rightarrow> 'x \<Rightarrow> ('s, unit result) act" where
  "register_all_handlers entries shutdown_tx = forQ (\<lambda>register_fn. register_fn shutdown_tx) entries"

definition send_msg_impl :: "emessage \<Rightarrow> bool option \<Rightarrow> duration option
    \<Rightarrow> (('f, 'w, 'z) world_scheme, unit result) act" where
  "send_msg_impl msg try_send time_out =
     bindQ (topic_send (msg_topic msg) msg try_send time_out) (\<lambda>_. ret (Inr ()))"

record ('f, 'w, 'k, 'm) queue_factory =
  qf_global_producer :: "(('f, 'w) world, 'f eproducer result) act"
  qf_main_consumer :: "(('f, 'w) world, 'm result) act"
  qf_create_queue :: "string \<Rightarrow> (('f, 'w) world, ('f eproducer \<times> 'k) result) act"

datatype background = RecvLoop | DelayScheduler | RegistryCleanup | WorkerHeartbeat

text \<open>A node that is starting or has started, with the tasks spawned for it.\<close>

record ('f, 'w, 'k, 'q, 'b, 's) running =
  rn_node :: "('f, 'w, 'k, 'q, 'b, 's) node"
  rn_tasks :: "background list"

definition on_node :: "(('f, 'w, 'k, 'q, 'b, 's) node, 'a) act \<Rightarrow> (('f, 'w, 'k, 'q, 'b, 's) running, 'a) act" where
  "on_node m r = (case m (rn_node r) of (x, n) \<Rightarrow> (x, r\<lparr>rn_node := n\<rparr>))"

definition background :: "background list \<Rightarrow> (('f, 'w, 'k, 'q, 'b, 's) running, unit) act" where
  "background ts = putA (\<lambda>r. r\<lparr>rn_tasks := rn_tasks r @ ts\<rparr>)"

text \<open>Before the consumer router exists, and after.\<close>

datatype ('f, 'w, 'k, 'q, 'b, 's) process =
    Unstarted "('f, 'w) world" "('b, 's) audit_log" metrics_state
  | Started "('f, 'w, 'k, 'q, 'b, 's) running"

definition boot_world :: "node_type \<Rightarrow> ('f, 'w, 'k, 'm) queue_factory \<Rightarrow> (('f, 'w) world, 'm result) act" where
  "boot_world nt factory =
     bindA (set_node_type nt) (\<lambda>_.
     bindQ (qf_global_producer factory) (\<lambda>global_producer.
     bindQ (router_init global_producer) (\<lambda>_.
     qf_main_consumer factory)))"

definition announce_topics :: "(('f, 'w, 'z) world_scheme, unit) act" where
  "announce_topics =
     bindA list_topics (\<lambda>ts.
     bindA (encode_with cc_topic_discovery \<lparr>has_topics = ts\<rparr>) (\<lambda>pl.
     bindA (make_message SYSTEM_TOPIC_TOPIC_DISCOVERY (case pl of Inr b \<Rightarrow> b | Inl _ \<Rightarrow> []) Standard None) (\<lambda>msg.
     bindA (topic_send SYSTEM_TOPIC_TOPIC_DISCOVERY msg None None) (\<lambda>_. ret ()))))"

text \<open>
  The routine from \<^verbatim>\<open>WorkerRegistry::init\<close> on. The layer that publishes traces is installed between
  the two spawns and changes nothing here.
\<close>

definition boot_node :: "node_type \<Rightarrow> 'w wal_ops \<Rightarrow> 'b ring \<Rightarrow> (('w, 'c, 'x) sys_handler \<Rightarrow> ('f, 'w) world ehandler)
    \<Rightarrow> ('w, 'c, 'x) system_handler_builder \<Rightarrow> ('x \<Rightarrow> (('f, 'w, 'k, 'q) consumer_router, unit result) act) list
    \<Rightarrow> (('f, 'w, 'k, 'q, 'b, 's) running, 'x result) act" where
  "boot_node nt wal ring hs b entries =
     bindQ (on_node (on_router (in_world (registry_init (Some wal))))) (\<lambda>_.
     let shutdown_tx = sb_shutdown_handler b in
     bindQ (on_node (register_all ring hs b)) (\<lambda>_.
     bindQ (on_node (on_router (register_all_handlers entries shutdown_tx))) (\<lambda>_.
     bindA (background [RecvLoop]) (\<lambda>_.
     bindA (on_node (on_router (in_world announce_topics))) (\<lambda>_.
     bindA (if nt = Host then background [DelayScheduler, RegistryCleanup] else ret ()) (\<lambda>_.
     bindA (background [WorkerHeartbeat]) (\<lambda>_.
     ret (Inr shutdown_tx))))))))"

text \<open>
  What \<^verbatim>\<open>ConsumerRouter::init\<close> stores in the empty cell. The main consumer, which the router keeps
  for \<^verbatim>\<open>recv\<close>, is an argument of that loop in \<open>Dispatcher\<close>.
\<close>

definition fresh_router :: "('f, 'w) world \<Rightarrow> (string \<Rightarrow> (('f, 'w) world, ('f eproducer \<times> 'k) result) act)
    \<Rightarrow> (u64 \<Rightarrow> 'q link outcome) \<Rightarrow> ('f, 'w, 'k, 'q) consumer_router" where
  "fresh_router w create channel = the (snd (consumer_router_init w create channel None None))"

definition start_system_impl :: "(u64 \<Rightarrow> 'q link outcome) \<Rightarrow> 'b ring \<Rightarrow> (('w, 'c, 'x) sys_handler \<Rightarrow> ('f, 'w) world ehandler)
    \<Rightarrow> ('x \<Rightarrow> (('f, 'w, 'k, 'q) consumer_router, unit result) act) list
    \<Rightarrow> node_type \<Rightarrow> ('f, 'w, 'k, 'm) queue_factory \<Rightarrow> 'w wal_ops \<Rightarrow> ('w, 'c, 'x) system_handler_builder
    \<Rightarrow> (('f, 'w, 'k, 'q, 'b, 's) process, 'x result) act" where
  "start_system_impl channel ring hs entries nt factory wal b p =
     (case p of
        Unstarted w au mt \<Rightarrow>
          (case boot_world nt factory w of
             (Ret (Inr _), w') \<Rightarrow>
               (case boot_node nt wal ring hs b entries
                   \<lparr>rn_node = \<lparr>nd_router = fresh_router w' (qf_create_queue factory) channel, nd_audit = au,
                      nd_metrics = mt, nd_collectors = 0\<rparr>, rn_tasks = []\<rparr> of
                  (x, r) \<Rightarrow> (x, Started r))
           | (Ret (Inl e), w') \<Rightarrow> (Ret (Inl e), Unstarted w' au mt)
           | (Pending, w') \<Rightarrow> (Pending, Unstarted w' au mt)
           | (Blocked, w') \<Rightarrow> (Blocked, Unstarted w' au mt)
           | (Panic e, w') \<Rightarrow> (Panic e, Unstarted w' au mt))
      | Started r \<Rightarrow>
          (case on_node (on_router (in_world (boot_world nt factory))) r of
             (x, r') \<Rightarrow> (map_outcome (\<lambda>y. case y of Inl e \<Rightarrow> Inl e | Inr _ \<Rightarrow> Inl EAlreadyInitialized) x, Started r')))"


section \<open>Bootstrap\<close>

datatype boot_error = BootError string | BootCore core_error | BadAddr string string | ReadFailed string string

text \<open>
  The control plane that a configuration asks for, with the TLS feature: how an address parses
  and what reading a file gives are arguments.
\<close>

definition grpc_config :: "(string \<Rightarrow> string + string) \<Rightarrow> (string \<Rightarrow> string + u8 list) \<Rightarrow> grpc_section
    \<Rightarrow> boot_error + serve_config" where
  "grpc_config parse read g =
     (case parse (gs_addr g) of
        Inl e \<Rightarrow> Inl (BadAddr (gs_addr g) e)
      | Inr addr \<Rightarrow>
          let c = with_health (gs_health g) (with_reflection (gs_reflection g) (serve_config_new addr));
              c' = (if gs_token g \<noteq> [] then with_token (gs_token g) c else c) in
          if gs_tls_cert g \<noteq> [] \<and> gs_tls_key g \<noteq> [] then
            (case read (gs_tls_cert g) of
               Inl e \<Rightarrow> Inl (ReadFailed (gs_tls_cert g) e)
             | Inr cert \<Rightarrow> (case read (gs_tls_key g) of
                 Inl e \<Rightarrow> Inl (ReadFailed (gs_tls_key g) e)
               | Inr key \<Rightarrow> Inr (with_tls cert key c')))
          else if gs_tls_cert g \<noteq> [] \<or> gs_tls_key g \<noteq> [] then
            Inl (BootError ''grpc TLS needs BOTH tls_cert and tls_key set'')
          else Inr c')"

record 'x running_node =
  ru_node_name :: string
  ru_shutdown_tx :: 'x
  ru_grpc :: "serve_config option"

definition role_type :: "role \<Rightarrow> node_type" where
  "role_type r = (case r of RHost \<Rightarrow> Host | RWorker \<Rightarrow> WorkerNode)"

definition bootstrap_host :: "env \<Rightarrow> string \<Rightarrow> node_config" where
  "bootstrap_host env name =
     (node_config_default env)\<lparr>nc_node := (node_section_default env)\<lparr>ns_name := name, ns_role := RHost\<rparr>\<rparr>"

definition bootstrap_worker :: "env \<Rightarrow> string \<Rightarrow> node_config" where
  "bootstrap_worker env name =
     (node_config_default env)\<lparr>nc_node := (node_section_default env)\<lparr>ns_name := name, ns_role := RWorker\<rparr>\<rparr>"

definition in_process :: "(('f, 'w) world, 'a) act \<Rightarrow> (('f, 'w, 'k, 'q, 'b, 's) process, 'a) act" where
  "in_process m p =
     (case p of
        Unstarted w au mt \<Rightarrow> (case m w of (x, w') \<Rightarrow> (x, Unstarted w' au mt))
      | Started r \<Rightarrow> (case on_node (on_router (in_world m)) r of (x, r') \<Rightarrow> (x, Started r')))"

text \<open>
  \<^verbatim>\<open>Bootstrap::start\<close>: the constructors of the configured queue factory and of the two log handles
  are arguments, and so is the start routine with the other parameters of the node filled in.
\<close>

definition bootstrap_start :: "env \<Rightarrow> (string \<Rightarrow> string + string) \<Rightarrow> (string \<Rightarrow> string + u8 list)
    \<Rightarrow> (node_config \<Rightarrow> boot_error + 'qf) \<Rightarrow> (node_config \<Rightarrow> boot_error + ('w wal_ops \<times> 'w wal_ops)) \<Rightarrow> 'x
    \<Rightarrow> (node_type \<Rightarrow> 'qf \<Rightarrow> 'w wal_ops \<Rightarrow> ('w, 'c, 'x) system_handler_builder
        \<Rightarrow> (('f, 'w, 'k, 'q, 'b, 's) process, 'x result) act)
    \<Rightarrow> node_config \<Rightarrow> (('f, 'w, 'k, 'q, 'b, 's) process, boot_error + 'x running_node) act" where
  "bootstrap_start env parse read build_factory build_wal shutdown_tx start c =
     (let node_name = (if ns_name (nc_node c) = [] then default_host_name env else ns_name (nc_node c)) in
     bindA (in_process (try_set_node_name node_name)) (\<lambda>_.
     case build_factory c of
       Inl e \<Rightarrow> ret (Inl e)
     | Inr factory \<Rightarrow> (case build_wal c of
         Inl e \<Rightarrow> ret (Inl e)
       | Inr (reg_wal, builder_wal) \<Rightarrow>
           bindA (start (role_type (ns_role (nc_node c))) factory reg_wal
             (builder_new builder_wal shutdown_tx (audit_capacity c))) (\<lambda>r. case r of
               Inl e \<Rightarrow> ret (Inl (BootCore e))
             | Inr final_tx \<Rightarrow> (case nc_grpc c of
                 None \<Rightarrow> ret (Inr \<lparr>ru_node_name = node_name, ru_shutdown_tx = final_tx, ru_grpc = None\<rparr>)
               | Some g \<Rightarrow> ret (case grpc_config parse read g of
                   Inl e \<Rightarrow> Inl e
                 | Inr sc \<Rightarrow> Inr \<lparr>ru_node_name = node_name, ru_shutdown_tx = final_tx, ru_grpc = Some sc\<rparr>))))))"


section \<open>The tables grow\<close>

text \<open>A topic's handler and the number of its workers.\<close>

definition topic_load :: "('f, 'w, 'k, 'q) consumer_router \<Rightarrow> string \<rightharpoonup> (('f, 'w) world ehandler \<times> nat)" where
  "topic_load r t = map_option (\<lambda>e. (te_handler e, length (te_workers e))) (hm_get (cr_topics r) t)"

text \<open>
  Queues and inboxes can be made, and making one changes only the state of the queues and keeps
  what \<open>P\<close> says of it.
\<close>

definition open_factory :: "('f \<Rightarrow> bool) \<Rightarrow> ('f, 'w, 'k, 'q) consumer_router \<Rightarrow> bool" where
  "open_factory P r \<longleftrightarrow> (\<forall>t w. \<exists>p k f. cr_factory r t w = (Ret (Inr (p, k)), w\<lparr>w_fabric := f\<rparr>) \<and>
       (P (w_fabric w) \<longrightarrow> P f)) \<and>
     (\<exists>ch. cr_channel r (cr_batch r * 4) = Ret ch)"

definition grown :: "('f \<Rightarrow> bool) \<Rightarrow> ('f, 'w, 'k, 'q) consumer_router \<Rightarrow> (string \<rightharpoonup> (('f, 'w) world ehandler \<times> nat))
    \<Rightarrow> ('f, 'w, 'k, 'q) consumer_router \<Rightarrow> bool" where
  "grown P r0 L r \<longleftrightarrow> topic_load r = L \<and> open_factory P r \<and>
     cr_world r = (cr_world r0)\<lparr>w_amb := w_amb (cr_world r), w_fabric := w_fabric (cr_world r)\<rparr> \<and>
     (P (w_fabric (cr_world r0)) \<longrightarrow> P (w_fabric (cr_world r)))"

definition grows :: "('f \<Rightarrow> bool) \<Rightarrow> ('f, 'w, 'k, 'q) consumer_router \<Rightarrow> (string \<rightharpoonup> (('f, 'w) world ehandler \<times> nat))
    \<Rightarrow> (string \<rightharpoonup> (('f, 'w) world ehandler \<times> nat)) \<Rightarrow> (('f, 'w, 'k, 'q) consumer_router, unit result) act \<Rightarrow> bool" where
  "grows P r0 L M m \<longleftrightarrow> (\<forall>r. grown P r0 L r \<longrightarrow> (\<exists>r'. m r = (Ret (Inr ()), r') \<and> grown P r0 M r'))"

lemma grows_bindQ:
  assumes "grows P r0 L M m" and "grows P r0 M N k"
  shows "grows P r0 L N (bindQ m (\<lambda>_. k))"
  using assms unfolding grows_def by (metis bindQ_Inr)

lemma grows_ret: "grows P r0 L L (ret (Inr ()))"
  by (simp add: grows_def ret_def)

lemma grows_register:
  assumes "L t = None"
  shows "grows P r0 L (L(t \<mapsto> (h, 0))) (cr_register t h)"
  unfolding grows_def
proof (intro allI impI)
  fix r :: "('a, 'b, 'c, 'd) consumer_router" assume g: "grown P r0 L r"
  then have none: "hm_get (cr_topics r) t = None" using assms by (auto simp: grown_def topic_load_def)
  obtain p k f where q: "cr_factory r t (cr_world r) = (Ret (Inr (p, k)), (cr_world r)\<lparr>w_fabric := f\<rparr>)"
      "P (w_fabric (cr_world r)) \<longrightarrow> P f"
    using g unfolding grown_def open_factory_def by blast
  let ?r = "r\<lparr>cr_world := (cr_world r)\<lparr>w_fabric := f\<rparr>, cr_topics := hm_insert t
    \<lparr>te_producer = p, te_consumer_factory = k, te_handler = h, te_pipeline = None, te_workers = []\<rparr> (cr_topics r)\<rparr>"
  have "cr_register t h r = (Ret (Inr ()), ?r)"
    using q(1) none by (simp add: cr_register_def in_world_def bindA_def bindQ_def outcome_simps)
  moreover have "topic_load ?r = L(t \<mapsto> (h, 0))"
    using g by (auto simp: grown_def topic_load_def hm_simps)
  moreover have "open_factory P ?r" using g by (simp add: grown_def open_factory_def)
  moreover have "cr_world ?r = (cr_world r0)\<lparr>w_amb := w_amb (cr_world ?r), w_fabric := w_fabric (cr_world ?r)\<rparr>"
    using g unfolding grown_def by (cases "cr_world r"; cases "cr_world r0") simp
  moreover have "P (w_fabric (cr_world r0)) \<longrightarrow> P (w_fabric (cr_world ?r))" using g q(2) by (simp add: grown_def)
  ultimately show "\<exists>r'. cr_register t h r = (Ret (Inr ()), r') \<and> grown P r0 (L(t \<mapsto> (h, 0))) r'"
    by (auto simp: grown_def)
qed

lemma worker_new_world: "\<exists>a. snd (worker_new t p q d i s w) = w\<lparr>w_amb := a\<rparr>"
  by (auto simp add: worker_new_def wal_client_new_def make_message_def bindA_def outcome_simps
      try_get_node_name_def Let_def split: option.splits)

lemma grows_create:
  assumes "L t = Some (h, n)" and "is_system_topic t"
  shows "grows P r0 L (L(t \<mapsto> (h, Suc n))) (bindQ (create_worker t p None None None) (\<lambda>_. ret (Inr ())))"
  unfolding grows_def
proof (intro allI impI)
  fix r :: "('a, 'b, 'c, 'd) consumer_router" assume g: "grown P r0 L r"
  obtain e where e: "hm_get (cr_topics r) t = Some e" "te_handler e = h" "length (te_workers e) = n"
    using g assms(1) by (auto simp: grown_def topic_load_def)
  obtain ch where ch: "cr_channel r (cr_batch r * 4) = Ret ch" using g by (auto simp: grown_def open_factory_def)
  obtain wk w1 where wk: "worker_new t p (te_producer e) None
      (case None of Some x \<Rightarrow> x | None \<Rightarrow> from_millis 50) None (cr_world r) = (Ret wk, w1)" "wk_topic wk = t"
    by (rule worker_new_eval) blast
  obtain a where a: "w1 = (cr_world r)\<lparr>w_amb := a\<rparr>"
    using worker_new_world [of t p "te_producer e" None _ None "cr_world r"] wk(1) by (metis snd_conv)
  have an: "announce_worker wk w1 = (Ret (), w1)"
    using assms(2) wk(2) by (simp add: announce_worker_def is_system_topic_def ret_def)
  let ?r = "added t e wk ch w1 r"
  have "create_worker t p None None None r = (Ret (Inr (wk_name wk)), ?r)"
    using create_worker_eval [OF e(1) wk(1) ch an] by simp
  then have "bindQ (create_worker t p None None None) (\<lambda>_. ret (Inr ())) r = (Ret (Inr ()), ?r)"
    by (simp add: bindQ_Inr ret_def)
  moreover have "topic_load ?r = L(t \<mapsto> (h, Suc n))"
    using g e by (auto simp: grown_def topic_load_def added_def Let_def hm_simps)
  moreover have "open_factory P ?r" using g by (simp add: grown_def open_factory_def added_def Let_def)
  moreover have "cr_world ?r = (cr_world r0)\<lparr>w_amb := w_amb (cr_world ?r), w_fabric := w_fabric (cr_world ?r)\<rparr>"
    using g a unfolding grown_def by (cases "cr_world r"; cases "cr_world r0") (simp add: added_def Let_def)
  moreover have "P (w_fabric (cr_world r0)) \<longrightarrow> P (w_fabric (cr_world ?r))"
    using g a by (simp add: grown_def added_def Let_def)
  ultimately show "\<exists>r'. bindQ (create_worker t p None None None) (\<lambda>_. ret (Inr ())) r = (Ret (Inr ()), r') \<and>
      grown P r0 (L(t \<mapsto> (h, Suc n))) r'"
    by (auto simp: grown_def)
qed

lemma grows_spawn:
  assumes "L t = Some (h, 0)" and "is_system_topic t"
  shows "grows P r0 L (L(t \<mapsto> (h, c))) (spawn_system_workers t c)"
proof -
  let ?m = "bindQ (create_worker t (pipeline_from_arc h) None None None) (\<lambda>_. ret (Inr ()))"
  have loop: "grows P r0 (L(t \<mapsto> (h, n))) (L(t \<mapsto> (h, n + length xs))) (forQ (\<lambda>_. ?m) xs)" for xs :: "nat list" and n
  proof (induction xs arbitrary: n)
    case Nil
    then show ?case by (simp add: grows_ret)
  next
    case (Cons x xs)
    have "grows P r0 (L(t \<mapsto> (h, n))) (L(t \<mapsto> (h, Suc n))) ?m"
      using grows_create [of "L(t \<mapsto> (h, n))" t h n] assms(2) by simp
    from grows_bindQ [OF this Cons.IH [of "Suc n"]] show ?case by (simp only: forQ.simps list.size add_Suc_right add_Suc add_0_right)
  qed
  have "L(t \<mapsto> (h, 0)) = L" using assms(1) by auto
  then have "grows P r0 L (L(t \<mapsto> (h, c))) (forQ (\<lambda>_. ?m) [0..<c])" using loop [of 0 "[0..<c]"] by simp
  moreover have "spawn_system_workers t c r = forQ (\<lambda>_. ?m) [0..<c] r" if "grown P r0 L r" for r
    using that assms(1)
    by (auto simp: grown_def topic_load_def spawn_system_workers_def get_handler_def bindA_def outcome_simps)
  ultimately show ?thesis by (simp add: grows_def)
qed

lemma grows_both:
  assumes "L t = None" and "is_system_topic t"
  shows "grows P r0 L (L(t \<mapsto> (h, SYSTEM_WORKER_COUNT))) (register_and_spawn t h)"
  unfolding register_and_spawn_def
  using grows_bindQ [OF grows_register [of L t, OF assms(1)] grows_spawn [of "L(t \<mapsto> (h, 0))" t h]] assms(2) by simp


section \<open>Registration of the system handlers\<close>

text \<open>The system topics that a role serves, each with its handler.\<close>

definition early_topics :: "('w, 'c, 'x) system_handler_builder \<Rightarrow> (string \<times> ('w, 'c, 'x) sys_handler) list" where
  "early_topics b =
     (if sb_trace_collectors b = [] then []
      else [(SYSTEM_TOPIC_TRACE, SystemTraceHandler (sb_trace_collectors b))]) @
     [(SYSTEM_TOPIC_WORKER_DISCOVERY, WorkerDiscoveryHandler), (SYSTEM_TOPIC_WORKER_HEARTBEAT, WorkerHeartbeatHandler),
      (SYSTEM_TOPIC_WAL_SYNC, WalSyncHandler (sb_wal b))]"

definition late_topics :: "('w, 'c, 'x) system_handler_builder \<Rightarrow> (string \<times> ('w, 'c, 'x) sys_handler) list" where
  "late_topics b =
     [(SYSTEM_TOPIC_SHUTDOWN, ShutdownHandler (sb_shutdown_handler b)), (SYSTEM_TOPIC_SHUTDOWN_ACK, ShutdownAckHandler),
      (SYSTEM_TOPIC_TOPIC_DISCOVERY, TopicDiscovery), (SYSTEM_TOPIC_TOPIC_SYNC, TopicSync)]"

definition worker_topics :: "('w, 'c, 'x) system_handler_builder \<Rightarrow> (string \<times> ('w, 'c, 'x) sys_handler) list" where
  "worker_topics b =
     [(SYSTEM_TOPIC_SHUTDOWN, ShutdownHandler (sb_shutdown_handler b)), (SYSTEM_TOPIC_TOPIC_SYNC, TopicSync),
      (SYSTEM_TOPIC_METRICS, MetricsHandler)]"

definition role_topics :: "node_type \<Rightarrow> ('w, 'c, 'x) system_handler_builder
    \<Rightarrow> (string \<times> ('w, 'c, 'x) sys_handler) list" where
  "role_topics nt b = (if nt = WorkerNode then worker_topics b else early_topics b @ late_topics b)"

definition loads :: "(('w, 'c, 'x) sys_handler \<Rightarrow> ('f, 'w) world ehandler) \<Rightarrow> nat
    \<Rightarrow> (string \<times> ('w, 'c, 'x) sys_handler) list \<Rightarrow> string \<rightharpoonup> (('f, 'w) world ehandler \<times> nat)" where
  "loads hs c ts = map_option (\<lambda>h. (hs h, c)) \<circ> map_of ts"

lemma system_topics_sys:
  "is_system_topic SYSTEM_TOPIC_TRACE" "is_system_topic SYSTEM_TOPIC_SHUTDOWN"
  "is_system_topic SYSTEM_TOPIC_SHUTDOWN_ACK" "is_system_topic SYSTEM_TOPIC_WAL_SYNC"
  "is_system_topic SYSTEM_TOPIC_WORKER_DISCOVERY" "is_system_topic SYSTEM_TOPIC_WORKER_HEARTBEAT"
  "is_system_topic SYSTEM_TOPIC_METRICS" "is_system_topic SYSTEM_TOPIC_TOPIC_DISCOVERY"
  "is_system_topic SYSTEM_TOPIC_TOPIC_SYNC"
  by (simp_all add: is_system_topic_def system_topic_defs prefix_def)


lemma bindQ_assoc: "bindQ (bindQ m k) l = bindQ m (\<lambda>x. bindQ (k x) l)"
  by (rule ext) (auto simp: bindQ_def bindA_def ret_def split: prod.splits outcome.splits sum.splits)

lemma loads_Cons:
  assumes "t \<notin> fst ` set ts"
  shows "L ++ loads hs c ((t, h) # ts) = L(t \<mapsto> (hs h, c)) ++ loads hs c ts"
proof (rule ext)
  fix x
  have "map_of ts t = None" using assms by (simp only: map_of_eq_None_iff not_False_eq_True)
  then show "(L ++ loads hs c ((t, h) # ts)) x = (L(t \<mapsto> (hs h, c)) ++ loads hs c ts) x"
    by (cases "x = t"; cases "map_of ts x") (simp_all add: loads_def map_add_def)
qed

text \<open>A step per topic, over distinct topics that each meet the condition of the step.\<close>

lemma grows_list:
  assumes "\<And>L t h. Q L t h \<Longrightarrow> grows P r0 L (L(t \<mapsto> (hs h, c))) (f t h)"
    and "\<And>L t h t' x. Q L t h \<Longrightarrow> t' \<noteq> t \<Longrightarrow> Q (L(t' \<mapsto> x)) t h"
    and "distinct (map fst ts)" and "\<forall>(t, h) \<in> set ts. Q L t h"
  shows "grows P r0 L (L ++ loads hs c ts) (forQ (\<lambda>(t, h). f t h) ts)"
  using assms(3,4)
proof (induction ts arbitrary: L)
  case Nil
  then show ?case by (simp add: grows_ret loads_def)
next
  case (Cons p ts)
  obtain t h where p: "p = (t, h)" by (cases p)
  have nt: "t \<notin> fst ` set ts" and d: "distinct (map fst ts)" using Cons.prems(1) p by simp_all
  have first: "Q L t h" using Cons.prems(2) p by simp
  have rest: "\<forall>(t', h') \<in> set ts. Q (L(t \<mapsto> (hs h, c))) t' h'"
  proof (rule ballI, clarify)
    fix t' h' assume q: "(t', h') \<in> set ts"
    then have "t \<noteq> t'" using nt by force
    with q show "Q (L(t \<mapsto> (hs h, c))) t' h'" using Cons.prems(2) assms(2) by fastforce
  qed
  show ?case
    unfolding p loads_Cons [OF nt] forQ.simps prod.case
    by (rule grows_bindQ [OF assms(1) [OF first] Cons.IH [OF d rest]])
qed

lemma host_steps:
  "register_host hs b False =
     bindQ (forQ (\<lambda>(t, h). register_and_spawn t (hs h)) (early_topics b)) (\<lambda>_.
     forQ (\<lambda>(t, h). cr_register t (hs h)) (late_topics b))"
  "spawn_host = forQ (\<lambda>(t, h). spawn_system_workers t SYSTEM_WORKER_COUNT) (late_topics b)"
  "register_worker_node hs b =
     bindQ (forQ (\<lambda>(t, h). cr_register t (hs h)) (worker_topics b)) (\<lambda>_.
     forQ (\<lambda>(t, h). spawn_system_workers t SYSTEM_WORKER_COUNT) (worker_topics b))"
  by (simp_all add: register_host_def spawn_host_def register_worker_node_def early_topics_def late_topics_def
      worker_topics_def bindQ_assoc bindQ_unit bindQ_ret_Inr)

lemma topics_wf:
  "distinct (map fst (early_topics b @ late_topics b))" "distinct (map fst (worker_topics b))"
  "\<forall>(t, h) \<in> set (early_topics b @ late_topics b @ worker_topics b). is_system_topic t"
  by (simp_all add: early_topics_def late_topics_def worker_topics_def system_topics_sys) (simp_all add: system_topic_defs)

lemma register_list:
  assumes "distinct (map fst ts)" and "\<forall>(t, h) \<in> set ts. L t = None"
  shows "grows P r0 L (L ++ loads hs 0 ts) (forQ (\<lambda>(t, h). cr_register t (hs h)) ts)"
  by (rule grows_list [where Q = "\<lambda>L t h. L t = None"]) (use assms in \<open>auto intro: grows_register\<close>)

lemma both_list:
  assumes "distinct (map fst ts)" and "\<forall>(t, h) \<in> set ts. L t = None \<and> is_system_topic t"
  shows "grows P r0 L (L ++ loads hs SYSTEM_WORKER_COUNT ts) (forQ (\<lambda>(t, h). register_and_spawn t (hs h)) ts)"
  by (rule grows_list [where Q = "\<lambda>L t h. L t = None \<and> is_system_topic t"])
    (use assms in \<open>auto intro: grows_both\<close>)

lemma spawn_list:
  assumes "distinct (map fst ts)" and "\<forall>(t, h) \<in> set ts. is_system_topic t"
  shows "grows P r0 (L ++ loads hs 0 ts) (L ++ loads hs SYSTEM_WORKER_COUNT ts)
    (forQ (\<lambda>(t, h). spawn_system_workers t SYSTEM_WORKER_COUNT) ts)"
proof -
  have "(L ++ loads hs 0 ts) t = Some (hs h, 0)" if "(t, h) \<in> set ts" for t h
    using map_of_is_SomeI [OF assms(1) that] by (simp add: loads_def map_add_def)
  then have "grows P r0 (L ++ loads hs 0 ts) ((L ++ loads hs 0 ts) ++ loads hs SYSTEM_WORKER_COUNT ts)
    (forQ (\<lambda>(t, h). spawn_system_workers t SYSTEM_WORKER_COUNT) ts)"
    by (intro grows_list [where Q = "\<lambda>L t h. L t = Some (hs h, 0) \<and> is_system_topic t"])
      (use assms in \<open>auto intro: grows_spawn\<close>)
  moreover have "(L ++ loads hs 0 ts) ++ loads hs SYSTEM_WORKER_COUNT ts = L ++ loads hs SYSTEM_WORKER_COUNT ts"
    by (rule ext) (simp add: loads_def map_add_def split: option.splits)
  ultimately show ?thesis by simp
qed

lemma loads_append:
  assumes "distinct (map fst (xs @ ys))"
  shows "loads hs c xs ++ loads hs c ys = loads hs c (xs @ ys)"
proof (rule ext)
  fix x
  show "(loads hs c xs ++ loads hs c ys) x = loads hs c (xs @ ys) x"
  proof (cases "x \<in> fst ` set ys")
    case True
    then have "x \<notin> fst ` set xs" using assms by auto
    then have "map_of xs x = None" by (simp only: map_of_eq_None_iff not_False_eq_True)
    then show ?thesis by (cases "map_of ys x") (simp_all add: loads_def map_add_def)
  next
    case False
    then have "map_of ys x = None" by (simp only: map_of_eq_None_iff not_False_eq_True)
    then show ?thesis by (cases "map_of xs x") (simp_all add: loads_def map_add_def)
  qed
qed


lemma host_grows:
  "grows P r0 Map.empty (loads hs SYSTEM_WORKER_COUNT (early_topics b) ++ loads hs 0 (late_topics b)) (register_host hs b False)"
  "grows P r0 (loads hs SYSTEM_WORKER_COUNT (early_topics b) ++ loads hs 0 (late_topics b))
     (loads hs SYSTEM_WORKER_COUNT (role_topics Host b)) spawn_host"
proof -
  have late: "distinct (map fst (late_topics b))" "\<forall>(t, h) \<in> set (late_topics b). is_system_topic t"
    and early: "distinct (map fst (early_topics b))" "\<forall>(t, h) \<in> set (early_topics b). is_system_topic t"
    using topics_wf [of b] by auto
  have free: "\<forall>(t, h) \<in> set (late_topics b). loads hs SYSTEM_WORKER_COUNT (early_topics b) t = None"
  proof (rule ballI, clarify)
    fix t h assume "(t, h) \<in> set (late_topics b)"
    then have "t \<notin> fst ` set (early_topics b)" using topics_wf(1) [of b] by force
    then have "map_of (early_topics b) t = None" by (simp only: map_of_eq_None_iff not_False_eq_True)
    then show "loads hs SYSTEM_WORKER_COUNT (early_topics b) t = None" by (simp add: loads_def)
  qed
  have "grows P r0 Map.empty (Map.empty ++ loads hs SYSTEM_WORKER_COUNT (early_topics b))
      (forQ (\<lambda>(t, h). register_and_spawn t (hs h)) (early_topics b))"
    using early by (intro both_list) auto
  from grows_bindQ [OF this, unfolded empty_map_add, OF register_list [OF late(1) free]]
  show "grows P r0 Map.empty (loads hs SYSTEM_WORKER_COUNT (early_topics b) ++ loads hs 0 (late_topics b)) (register_host hs b False)"
    unfolding host_steps(1) .
  show "grows P r0 (loads hs SYSTEM_WORKER_COUNT (early_topics b) ++ loads hs 0 (late_topics b))
     (loads hs SYSTEM_WORKER_COUNT (role_topics Host b)) spawn_host"
    using spawn_list [OF late, of P r0 "loads hs SYSTEM_WORKER_COUNT (early_topics b)" hs]
    unfolding host_steps(2) [of b] loads_append [OF topics_wf(1)] by (simp add: role_topics_def)
qed

lemma worker_grows:
  "grows P r0 Map.empty (loads hs SYSTEM_WORKER_COUNT (role_topics WorkerNode b)) (register_worker_node hs b)"
proof -
  have w: "distinct (map fst (worker_topics b))" "\<forall>(t, h) \<in> set (worker_topics b). is_system_topic t"
    using topics_wf [of b] by auto
  have "grows P r0 Map.empty (Map.empty ++ loads hs 0 (worker_topics b))
      (forQ (\<lambda>(t, h). cr_register t (hs h)) (worker_topics b))"
    using w(1) by (intro register_list) auto
  from grows_bindQ [OF this spawn_list [OF w]] show ?thesis
    by (simp add: host_steps(3) role_topics_def)
qed


lemma on_router_grows:
  assumes "grows P r0 L M m" and "grown P r0 L (nd_router n)"
  shows "\<exists>r. on_router m n = (Ret (Inr ()), n\<lparr>nd_router := r\<rparr>) \<and> grown P r0 M r"
  using assms by (fastforce simp: grows_def on_router_def)

lemma inits_eval:
  assumes "al_cell (nd_audit n) = None" and "nd_metrics n = \<lparr>mt_manager = None, mt_store = None\<rparr>"
    and "rb_new ring c = Ret buf"
  shows "bindQ (on_audit (audit_init ring c)) (\<lambda>_. bindQ (on_metrics metrics_init) (\<lambda>_.
      bindQ (on_metrics metrics_store_init) k)) n =
    k () (n\<lparr>nd_audit := (nd_audit n)\<lparr>al_cell := Some \<lparr>am_buffer = buf, am_writers = []\<rparr>\<rparr>,
      nd_metrics := \<lparr>mt_manager = Some no_metrics, mt_store = Some []\<rparr>\<rparr>)"
  using assms by (simp add: on_audit_def on_metrics_def audit_init_def metrics_init_def metrics_store_init_def
      store_init_def bindQ_def bindA_def outcome_simps)

lemma register_all_eval:
  assumes "al_cell (nd_audit n) = None" and "nd_metrics n = \<lparr>mt_manager = None, mt_store = None\<rparr>"
    and "rb_new ring (sb_audit_buf_capacity b) = Ret buf"
    and "w_node_type (cr_world (nd_router n)) = Some nt" and "cr_topics (nd_router n) = []"
    and "open_factory P (nd_router n)"
  shows "\<exists>r. register_all ring hs b n = (Ret (Inr ()), n
      \<lparr>nd_router := r, nd_audit := (nd_audit n)\<lparr>al_cell := Some \<lparr>am_buffer = buf, am_writers = []\<rparr>\<rparr>,
       nd_metrics := \<lparr>mt_manager = Some no_metrics, mt_store = Some []\<rparr>, nd_collectors := nd_collectors n + 1\<rparr>) \<and>
    grown P (nd_router n) (loads hs SYSTEM_WORKER_COUNT (role_topics nt b)) r"
proof -
  let ?r0 = "nd_router n"
  define n1 where "n1 = n\<lparr>nd_audit := (nd_audit n)\<lparr>al_cell := Some \<lparr>am_buffer = buf, am_writers = []\<rparr>\<rparr>,
      nd_metrics := \<lparr>mt_manager = Some no_metrics, mt_store = Some []\<rparr>\<rparr>"
  have g: "grown P ?r0 Map.empty (nd_router n1)"
    using assms(5,6) by (simp add: n1_def grown_def topic_load_def fun_eq_iff)
  have nt: "on_router (in_world get_node_type) n1 = (Ret nt, n1)"
    using assms(4) by (simp add: n1_def on_router_def in_world_def get_node_type_def bindA_def outcome_simps)
  note start = inits_eval [OF assms(1-3), folded n1_def]
  show ?thesis
  proof (cases nt)
    case WorkerNode
    obtain r where r: "on_router (register_worker_node hs b) n1 = (Ret (Inr ()), n1\<lparr>nd_router := r\<rparr>)"
        "grown P ?r0 (loads hs SYSTEM_WORKER_COUNT (role_topics WorkerNode b)) r"
      using on_router_grows [OF worker_grows g] by blast
    have "register_all ring hs b n = (Ret (Inr ()), n1\<lparr>nd_router := r, nd_collectors := nd_collectors n1 + 1\<rparr>)"
      unfolding register_all_def start using nt r(1) WorkerNode
      by (simp add: bindA_def [of "on_router _"] bindQ_Inr spawn_collector_def bindA_def outcome_simps)
    with r(2) WorkerNode show ?thesis by (intro exI [of _ r]) (simp add: n1_def)
  next
    case Host
    obtain r where r: "on_router (register_host hs b False) n1 = (Ret (Inr ()), n1\<lparr>nd_router := r\<rparr>)"
        "grown P ?r0 (loads hs SYSTEM_WORKER_COUNT (early_topics b) ++ loads hs 0 (late_topics b)) r"
      using on_router_grows [OF host_grows(1) g] by blast
    let ?n2 = "n1\<lparr>nd_router := r, nd_collectors := nd_collectors n1 + 1\<rparr>"
    have r2: "grown P ?r0 (loads hs SYSTEM_WORKER_COUNT (early_topics b) ++ loads hs 0 (late_topics b)) (nd_router ?n2)"
      using r(2) by simp
    obtain r' where r': "on_router spawn_host ?n2 = (Ret (Inr ()), ?n2\<lparr>nd_router := r'\<rparr>)"
        "grown P ?r0 (loads hs SYSTEM_WORKER_COUNT (role_topics Host b)) r'"
      using on_router_grows [OF host_grows(2) r2] by blast
    have m: "on_audit the_audit n1 = (Ret \<lparr>am_buffer = buf, am_writers = []\<rparr>, n1)"
      by (simp add: n1_def on_audit_def the_audit_def bindA_def outcome_simps)
    have "spawn_collector (n1\<lparr>nd_router := r\<rparr>) = (Ret (), ?n2)" by (simp add: spawn_collector_def putA_def)
    then have "register_all ring hs b n = (Ret (Inr ()), ?n2\<lparr>nd_router := r'\<rparr>)"
      unfolding register_all_def start using nt m r(1) r'(1) Host
      by (simp add: bindA_def [of "on_router _"] bindA_def [of "on_audit _"] bindQ_Inr bindA_def [of spawn_collector])
    with r'(2) Host show ?thesis by (intro exI [of _ r']) (simp add: n1_def)
  qed
qed


section \<open>Properties\<close>

text \<open>
  C26: which system topics a fresh node serves. The registration succeeds and each role ends with
  exactly its topics, each with its own handler and thirty-two workers, one collector task, an
  empty audit buffer with no writers and an empty metrics store. So the audit topic is served by no
  role, since the audit manager that the registration itself creates has no writers yet, and the
  metrics topic by no host. A second registration fails and changes nothing.
\<close>

theorem register_all_exact:
  assumes "al_cell (nd_audit n) = None" and "nd_metrics n = \<lparr>mt_manager = None, mt_store = None\<rparr>"
    and "rb_new ring (sb_audit_buf_capacity b) = Ret buf"
    and "w_node_type (cr_world (nd_router n)) = Some nt" and "cr_topics (nd_router n) = []"
    and "open_factory P (nd_router n)"
  shows "\<exists>n'. register_all ring hs b n = (Ret (Inr ()), n') \<and>
    (\<forall>t. topic_load (nd_router n') t = map_option (\<lambda>h. (hs h, 32)) (map_of (role_topics nt b) t)) \<and>
    topic_load (nd_router n') SYSTEM_TOPIC_AUDIT = None \<and>
    (nt = Host \<longrightarrow> topic_load (nd_router n') SYSTEM_TOPIC_METRICS = None) \<and>
    al_cell (nd_audit n') = Some \<lparr>am_buffer = buf, am_writers = []\<rparr> \<and>
    nd_metrics n' = \<lparr>mt_manager = Some no_metrics, mt_store = Some []\<rparr> \<and>
    nd_collectors n' = nd_collectors n + 1 \<and>
    register_all ring hs b n' = (Ret (Inl EAlreadyInitialized), n')"
proof -
  obtain r where r: "register_all ring hs b n = (Ret (Inr ()), n
      \<lparr>nd_router := r, nd_audit := (nd_audit n)\<lparr>al_cell := Some \<lparr>am_buffer = buf, am_writers = []\<rparr>\<rparr>,
       nd_metrics := \<lparr>mt_manager = Some no_metrics, mt_store = Some []\<rparr>, nd_collectors := nd_collectors n + 1\<rparr>)"
      (is "_ = (_, ?n)") and g: "grown P (nd_router n) (loads hs SYSTEM_WORKER_COUNT (role_topics nt b)) r"
    using register_all_eval [OF assms] by blast
  have load: "topic_load r = loads hs SYSTEM_WORKER_COUNT (role_topics nt b)" using g by (simp add: grown_def)
  have unserved: "map_of (role_topics nt b) SYSTEM_TOPIC_AUDIT = None"
      "map_of (role_topics Host b) SYSTEM_TOPIC_METRICS = None"
    by (auto simp: role_topics_def early_topics_def late_topics_def worker_topics_def system_topic_defs)
  have "register_all ring hs b ?n = (Ret (Inl EAlreadyInitialized), ?n)"
    using assms(3) by (simp add: register_all_def on_audit_def audit_init_def bindQ_def bindA_def outcome_simps)
  with r show ?thesis
    by (intro exI [of _ ?n]) (simp add: load loads_def SYSTEM_WORKER_COUNT_def unserved)
qed

definition fresh_node :: "(emessage list link, mem_wal) world
    \<Rightarrow> (emessage list link, mem_wal, unit, emessage list, audit_record list, unit) node" where
  "fresh_node w =
     \<lparr>nd_router = fresh_router w demo_factory (\<lambda>_. Ret (open_list_link [])),
      nd_audit = \<lparr>al_cell = None, al_sinks = ()\<rparr>, nd_metrics = \<lparr>mt_manager = None, mt_store = None\<rparr>,
      nd_collectors = 0\<rparr>"

lemma fresh_node_sel [simp]:
  "al_cell (nd_audit (fresh_node w)) = None" "nd_metrics (fresh_node w) = \<lparr>mt_manager = None, mt_store = None\<rparr>"
  "cr_world (nd_router (fresh_node w)) = w" "cr_topics (nd_router (fresh_node w)) = []"
  "open_factory P (nd_router (fresh_node w))"
proof -
  have "\<exists>p k f. demo_factory t w = (Ret (Inr (p, k)), w\<lparr>w_fabric := f\<rparr>) \<and> (P (w_fabric w) \<longrightarrow> P f)" for t w
    by (intro exI [of _ flume_producer] exI [of _ "()"] exI [of _ "w_fabric w"])
      (cases w; simp add: demo_factory_def ret_def)
  then show "open_factory P (nd_router (fresh_node w))"
    by (simp add: open_factory_def fresh_node_def fresh_router_def consumer_router_init_def)
qed (simp_all add: fresh_node_def fresh_router_def consumer_router_init_def)

definition log_ring :: "audit_record list ring" where
  "log_ring = \<lparr>rb_new = (\<lambda>_. Ret []), rb_push_overwrite = (\<lambda>r b. b @ [r]), rb_iter = (\<lambda>b. b)\<rparr>"

theorem register_all_exact_witness:
  "\<exists>n'. register_all log_ring (\<lambda>_ _. ret Ack) (builder_new memory_wal () 8 :: (mem_wal, unit, unit) system_handler_builder)
       (fresh_node demo_world) = (Ret (Inr ()), n') \<and>
     map_option snd (topic_load (nd_router n') SYSTEM_TOPIC_WAL_SYNC) = Some 32 \<and>
     topic_load (nd_router n') SYSTEM_TOPIC_AUDIT = None"
proof -
  let ?b = "builder_new memory_wal () 8 :: (mem_wal, unit, unit) system_handler_builder"
  have "rb_new log_ring (sb_audit_buf_capacity ?b) = Ret []" "w_node_type (cr_world (nd_router (fresh_node demo_world))) = Some Host"
    by (simp_all add: log_ring_def demo_world_def)
  from register_all_exact [OF fresh_node_sel(1,2) this fresh_node_sel(4,5), of "\<lambda>_ _. ret Ack"]
  obtain n' where "register_all log_ring (\<lambda>_ _. ret Ack) ?b (fresh_node demo_world) = (Ret (Inr ()), n')"
      "\<forall>t. topic_load (nd_router n') t = map_option (\<lambda>h. (\<lambda>_. ret Ack, 32)) (map_of (role_topics Host ?b) t)"
      "topic_load (nd_router n') SYSTEM_TOPIC_AUDIT = None" by blast
  then show ?thesis
    by (intro exI [of _ n'])
      (simp add: role_topics_def early_topics_def late_topics_def builder_new_def system_topic_defs)
qed

lemma boot_world_eval:
  assumes "qf_global_producer fac (w\<lparr>w_node_type := Some nt\<rparr>) = (Ret (Inr p), w\<lparr>w_node_type := Some nt\<rparr>)"
    and "w_router w = None"
    and "w' = w\<lparr>w_node_type := Some nt, w_router := Some \<lparr>tr_topics = [], tr_producer = p, tr_default_timeout = None\<rparr>\<rparr>"
  shows "boot_world nt fac w = qf_main_consumer fac w'"
  using assms by (simp add: boot_world_def set_node_type_def router_init_def bindA_def bindQ_def outcome_simps)

lemma announce_topics_eval:
  fixes w :: "('q link, mem_wal, 'z) world_scheme"
  assumes "env_ready flume_producer open_link memory_wal mw_inv w"
  shows "\<exists>m w'. announce_topics w = (Ret (), w') \<and> link_items (w_fabric w') = link_items (w_fabric w) @ [m] \<and>
    msg_topic m = SYSTEM_TOPIC_TOPIC_DISCOVERY \<and> w_node_type w' = w_node_type w \<and> w_router w' = w_router w"
proof -
  have r: "w_router w \<noteq> None" using assms by (auto simp: env_ready_def router_ready_def split: option.splits)
  obtain x where x: "encode_with cc_topic_discovery \<lparr>has_topics = router_topics w\<rparr> w = (Ret x, w)"
    by (simp add: encode_with_def getA_def)
  define b where "b = (case x of Inr b \<Rightarrow> b | Inl _ \<Rightarrow> [])"
  obtain m w' a f where m: "bindA (make_message SYSTEM_TOPIC_TOPIC_DISCOVERY b Standard None) (\<lambda>m.
        bindA (topic_send SYSTEM_TOPIC_TOPIC_DISCOVERY m None None) (\<lambda>_. ret ())) w = ret () w'"
      "link_items (w_fabric w') = link_items (w_fabric w) @ [m]" "msg_topic m = SYSTEM_TOPIC_TOPIC_DISCOVERY"
      "w' = w\<lparr>w_amb := a, w_fabric := f\<rparr>"
    using made_and_sent [OF assms, of SYSTEM_TOPIC_TOPIC_DISCOVERY b None "\<lambda>_ _. ret ()"] by blast
  have "announce_topics w = (Ret (), w')"
    using m(1) list_topics_eval [OF r] x
    by (simp add: announce_topics_def b_def bindA_def [of list_topics] bindA_def [of "encode_with _ _"] ret_def)
  with m(2-4) show ?thesis by (intro exI [of _ m] exI [of _ w']) simp
qed



text \<open>
  What the registration of the user's handlers does on a router that serves no topic but those of
  the system: it adds the handlers and workers \<open>U\<close> and leaves the topics of the system alone.
\<close>

definition entries_ok :: "(string \<rightharpoonup> (('q link, mem_wal) world ehandler \<times> nat))
    \<Rightarrow> ('x \<Rightarrow> (('q link, mem_wal, 'k, 'p) consumer_router, unit result) act) list \<Rightarrow> 'x \<Rightarrow> bool" where
  "entries_ok U entries x \<longleftrightarrow> (\<forall>r. env_ready flume_producer open_link memory_wal mw_inv (cr_world r) \<and>
       open_factory open_link r \<and> (\<forall>t. \<not> is_system_topic t \<longrightarrow> topic_load r t = None) \<longrightarrow>
     (\<exists>r'. register_all_handlers entries x r = (Ret (Inr ()), r') \<and>
       env_ready flume_producer open_link memory_wal mw_inv (cr_world r') \<and>
       (\<forall>t. topic_load r' t = (if is_system_topic t then topic_load r t else U t))))"

lemma loads_user:
  assumes "\<not> is_system_topic t"
  shows "loads hs c (role_topics nt b) t = None"
proof -
  have "is_system_topic s" if "(s, h) \<in> set (role_topics nt b)" for s h
    using that system_topics_sys
    by (auto simp: role_topics_def worker_topics_def early_topics_def late_topics_def split: if_splits)
  with assms show ?thesis by (auto simp: loads_def map_of_eq_None_iff)
qed

lemma boot_node_eval:
  fixes n :: "('q link, mem_wal, 'k, 'p, 'b, 's) node"
  assumes reg: "w_registry (cr_world (nd_router n)) = None" and wal: "w_wal (cr_world (nd_router n)) = mem_wal_new"
    and router: "router_ready flume_producer (cr_world (nd_router n))" "open_link (w_fabric (cr_world (nd_router n)))"
    and fresh: "al_cell (nd_audit n) = None" "nd_metrics n = \<lparr>mt_manager = None, mt_store = None\<rparr>"
      "rb_new ring (sb_audit_buf_capacity b) = Ret buf" "w_node_type (cr_world (nd_router n)) = Some nt"
      "cr_topics (nd_router n) = []" "open_factory open_link (nd_router n)"
    and entries: "entries_ok U entries (sb_shutdown_handler b)"
  shows "\<exists>n' m ms. boot_node nt memory_wal ring hs b entries \<lparr>rn_node = n, rn_tasks = []\<rparr> =
      (Ret (Inr (sb_shutdown_handler b)), \<lparr>rn_node = n', rn_tasks =
        RecvLoop # (if nt = Host then [DelayScheduler, RegistryCleanup] else []) @ [WorkerHeartbeat]\<rparr>) \<and>
    (\<forall>t. topic_load (nd_router n') t =
       (if is_system_topic t then loads hs SYSTEM_WORKER_COUNT (role_topics nt b) t else U t)) \<and>
    link_items (w_fabric (cr_world (nd_router n'))) = ms @ [m] \<and> msg_topic m = SYSTEM_TOPIC_TOPIC_DISCOVERY"
proof -
  let ?w = "cr_world (nd_router n)"
  define w1 where "w1 = ?w\<lparr>w_registry := Some \<lparr>wr_workers = [], wr_wal = Some memory_wal\<rparr>\<rparr>"
  define n1 where "n1 = n\<lparr>nd_router := (nd_router n)\<lparr>cr_world := w1\<rparr>\<rparr>"
  have init: "on_node (on_router (in_world (registry_init (Some memory_wal)))) \<lparr>rn_node = n, rn_tasks = []\<rparr> =
      (Ret (Inr ()), \<lparr>rn_node = n1, rn_tasks = []\<rparr>)"
    using reg wal by (cases n; cases "nd_router n"; cases ?w)
      (simp add: on_node_def on_router_def in_world_def registry_init_def on_wal_def memory_wal_def mem_load_law
        mem_wal_new_def w1_def n1_def bindQ_def bindA_def outcome_simps)
  have f1: "al_cell (nd_audit n1) = None" "nd_metrics n1 = \<lparr>mt_manager = None, mt_store = None\<rparr>"
      "rb_new ring (sb_audit_buf_capacity b) = Ret buf" "w_node_type (cr_world (nd_router n1)) = Some nt"
      "cr_topics (nd_router n1) = []" "open_factory open_link (nd_router n1)"
    using fresh by (simp_all add: n1_def w1_def open_factory_def)
  obtain n2 where n2: "register_all ring hs b n1 = (Ret (Inr ()), n2)"
      "grown open_link (nd_router n1) (loads hs SYSTEM_WORKER_COUNT (role_topics nt b)) (nd_router n2)"
    using register_all_eval [OF f1, of hs] by fastforce
  have e2: "env_ready flume_producer open_link memory_wal mw_inv (cr_world (nd_router n2))"
    using n2(2) router wal unfolding grown_def
    by (cases "cr_world (nd_router n2)")
      (simp add: n1_def w1_def env_ready_def router_ready_def registry_ready_def mw_inv_def mem_wal_new_def)
  obtain r3 where r3: "register_all_handlers entries (sb_shutdown_handler b) (nd_router n2) = (Ret (Inr ()), r3)"
      "env_ready flume_producer open_link memory_wal mw_inv (cr_world r3)"
      "\<forall>t. topic_load r3 t = (if is_system_topic t then topic_load (nd_router n2) t else U t)"
    using entries e2 n2(2) loads_user [of _ hs _ nt b] unfolding entries_ok_def grown_def by metis
  obtain m w4 where w4: "announce_topics (cr_world r3) = (Ret (), w4)"
      "link_items (w_fabric w4) = link_items (w_fabric (cr_world r3)) @ [m]" "msg_topic m = SYSTEM_TOPIC_TOPIC_DISCOVERY"
    using announce_topics_eval [OF r3(2)] by blast
  let ?n = "n2\<lparr>nd_router := r3\<lparr>cr_world := w4\<rparr>\<rparr>"
  have "boot_node nt memory_wal ring hs b entries \<lparr>rn_node = n, rn_tasks = []\<rparr> =
      (Ret (Inr (sb_shutdown_handler b)), \<lparr>rn_node = ?n, rn_tasks =
        RecvLoop # (if nt = Host then [DelayScheduler, RegistryCleanup] else []) @ [WorkerHeartbeat]\<rparr>)"
    using init n2(1) r3(1) w4(1)
    by (simp add: boot_node_def Let_def bindQ_Inr on_node_def [of "register_all _ _ _"] on_node_def [of "on_router _"]
        on_router_def in_world_def background_def bindA_def outcome_simps)
  moreover have "topic_load (nd_router ?n) t =
      (if is_system_topic t then loads hs SYSTEM_WORKER_COUNT (role_topics nt b) t else U t)" for t
  proof -
    have "topic_load (nd_router ?n) t = topic_load r3 t" by (simp add: topic_load_def)
    with r3(3) n2(2) show ?thesis by (simp add: grown_def)
  qed
  ultimately show ?thesis using w4(2,3) by (intro exI [of _ ?n] exI [of _ m]) simp
qed


text \<open>
  A fresh process starts. The routine returns the builder's own shutdown sender, every system
  topic of the role is served by its handler with thirty-two workers and no other system topic is,
  the other topics are those of the user's handlers, the background tasks are those of the role, and
  the last message on the queue announces the node's topics; over a queue that accepts
  messages and with a new in-memory log.
\<close>

theorem start_system_exact:
  fixes w :: "('q link, mem_wal) world"
  assumes "w_router w = None" and "w_registry w = None" and "w_wal w = mem_wal_new" and "open_link (w_fabric w)"
    and "\<forall>w. qf_global_producer fac w = (Ret (Inr flume_producer), w)"
    and "\<forall>w. qf_main_consumer fac w = (Ret (Inr main), w)"
    and "open_factory open_link (fresh_router w (qf_create_queue fac) channel)"
    and "rb_new ring (sb_audit_buf_capacity b) = Ret buf"
    and "entries_ok U entries (sb_shutdown_handler b)"
  shows "\<exists>n m ms. start_system_impl channel ring hs entries nt fac memory_wal b
      (Unstarted w \<lparr>al_cell = None, al_sinks = s\<rparr> \<lparr>mt_manager = None, mt_store = None\<rparr>) =
      (Ret (Inr (sb_shutdown_handler b)), Started \<lparr>rn_node = n, rn_tasks =
        RecvLoop # (if nt = Host then [DelayScheduler, RegistryCleanup] else []) @ [WorkerHeartbeat]\<rparr>) \<and>
    (\<forall>t. topic_load (nd_router n) t =
       (if is_system_topic t then map_option (\<lambda>h. (hs h, 32)) (map_of (role_topics nt b) t) else U t)) \<and>
    link_items (w_fabric (cr_world (nd_router n))) = ms @ [m] \<and> msg_topic m = SYSTEM_TOPIC_TOPIC_DISCOVERY"
proof -
  let ?w = "w\<lparr>w_node_type := Some nt, w_router := Some \<lparr>tr_topics = [], tr_producer = flume_producer, tr_default_timeout = None\<rparr>\<rparr>"
  have "boot_world nt fac w = qf_main_consumer fac ?w"
    using assms(1,5) by (intro boot_world_eval) simp_all
  then have boot: "boot_world nt fac w = (Ret (Inr main), ?w)" using assms(6) by simp
  let ?n = "\<lparr>nd_router = fresh_router ?w (qf_create_queue fac) channel, nd_audit = \<lparr>al_cell = None, al_sinks = s\<rparr>,
    nd_metrics = \<lparr>mt_manager = None, mt_store = None\<rparr>, nd_collectors = 0\<rparr>"
  have sel: "cr_world (nd_router ?n) = ?w" "cr_topics (nd_router ?n) = []" "open_factory open_link (nd_router ?n)"
    using assms(7) by (simp_all add: fresh_router_def consumer_router_init_def open_factory_def)
  obtain n' m ms where "boot_node nt memory_wal ring hs b entries \<lparr>rn_node = ?n, rn_tasks = []\<rparr> =
      (Ret (Inr (sb_shutdown_handler b)), \<lparr>rn_node = n', rn_tasks =
        RecvLoop # (if nt = Host then [DelayScheduler, RegistryCleanup] else []) @ [WorkerHeartbeat]\<rparr>)"
      "\<forall>t. topic_load (nd_router n') t =
        (if is_system_topic t then loads hs SYSTEM_WORKER_COUNT (role_topics nt b) t else U t)"
      "link_items (w_fabric (cr_world (nd_router n'))) = ms @ [m]" "msg_topic m = SYSTEM_TOPIC_TOPIC_DISCOVERY"
    using boot_node_eval [of ?n ring b buf nt U entries hs] assms(2-4,8,9) sel by (auto simp: router_ready_def)
  with boot show ?thesis
    by (intro exI [of _ n'] exI [of _ m] exI [of _ ms])
      (simp add: start_system_impl_def loads_def SYSTEM_WORKER_COUNT_def)
qed

definition demo_queues :: "(emessage list link, mem_wal, unit, unit) queue_factory" where
  "demo_queues = \<lparr>qf_global_producer = ret (Inr flume_producer), qf_main_consumer = ret (Inr ()), qf_create_queue = demo_factory\<rparr>"

theorem start_system_exact_witness:
  "\<exists>n. start_system_impl (\<lambda>_. Ret (open_list_link [])) log_ring (\<lambda>_ _. ret Ack) [] WorkerNode demo_queues memory_wal
      (builder_new memory_wal () 8 :: (mem_wal, unit, unit) system_handler_builder)
      (Unstarted (demo_world\<lparr>w_router := None, w_registry := None\<rparr>)
        \<lparr>al_cell = None, al_sinks = ()\<rparr> \<lparr>mt_manager = None, mt_store = None\<rparr>) =
      (Ret (Inr ()), Started \<lparr>rn_node = n, rn_tasks = [RecvLoop, WorkerHeartbeat]\<rparr>) \<and>
    map_option snd (topic_load (nd_router n) SYSTEM_TOPIC_METRICS) = Some 32"
proof -
  let ?w = "demo_world\<lparr>w_router := None, w_registry := None\<rparr>"
  let ?b = "builder_new memory_wal () 8 :: (mem_wal, unit, unit) system_handler_builder"
  have r: "w_router ?w = None" "w_registry ?w = None" "w_wal ?w = mem_wal_new" "open_link (w_fabric ?w)"
    by (simp_all add: demo_world_def)
  have q: "\<forall>w. qf_global_producer demo_queues w = (Ret (Inr flume_producer), w)"
      "\<forall>w. qf_main_consumer demo_queues w = (Ret (Inr ()), w)" by (simp_all add: demo_queues_def ret_def)
  have o: "open_factory open_link (fresh_router ?w (qf_create_queue demo_queues) (\<lambda>_. Ret (open_list_link [])))"
    using fresh_node_sel(5) [of open_link ?w] by (simp add: fresh_node_def demo_queues_def)
  have l: "rb_new log_ring (sb_audit_buf_capacity ?b) = Ret []" by (simp add: log_ring_def)
  have e: "entries_ok Map.empty [] (sb_shutdown_handler ?b)" by (simp add: entries_ok_def register_all_handlers_def ret_def)
  from start_system_exact [OF r q o l e, of "\<lambda>_ _. ret Ack" WorkerNode "()"] obtain n where
    "start_system_impl (\<lambda>_. Ret (open_list_link [])) log_ring (\<lambda>_ _. ret Ack) [] WorkerNode demo_queues memory_wal ?b
      (Unstarted ?w \<lparr>al_cell = None, al_sinks = ()\<rparr> \<lparr>mt_manager = None, mt_store = None\<rparr>) =
      (Ret (Inr (sb_shutdown_handler ?b)), Started \<lparr>rn_node = n, rn_tasks = [RecvLoop, WorkerHeartbeat]\<rparr>)"
    "topic_load (nd_router n) SYSTEM_TOPIC_METRICS =
      map_option (\<lambda>h. (\<lambda>_. ret Ack, 32)) (map_of (role_topics WorkerNode ?b) SYSTEM_TOPIC_METRICS)"
    using system_topics_sys(7) by auto
  then show ?thesis
    by (intro exI [of _ n]) (simp add: role_topics_def worker_topics_def system_topic_defs builder_new_def)
qed

text \<open>
  A second start in a process is refused, with the error of a router already initialised, yet
  it has changed the node's role to the one it asked for; nothing else has changed.
\<close>

theorem restart_refused_role_changed:
  assumes "w_router (cr_world (nd_router (rn_node r))) = Some tr"
    and "\<forall>w. qf_global_producer fac w = (Ret (Inr p), w)"
  shows "start_system_impl channel ring hs entries nt fac wal b (Started r) =
    (Ret (Inl EAlreadyInitialized), Started (r\<lparr>rn_node := (rn_node r)\<lparr>nd_router := (nd_router (rn_node r))
      \<lparr>cr_world := (cr_world (nd_router (rn_node r)))\<lparr>w_node_type := Some nt\<rparr>\<rparr>\<rparr>\<rparr>))"
proof -
  have "boot_world nt fac (cr_world (nd_router (rn_node r))) =
      (Ret (Inl EAlreadyInitialized), (cr_world (nd_router (rn_node r)))\<lparr>w_node_type := Some nt\<rparr>)"
    using assms by (simp add: boot_world_def set_node_type_def router_init_def bindA_def bindQ_def outcome_simps)
  then show ?thesis by (simp add: start_system_impl_def on_node_def on_router_def in_world_def)
qed

theorem restart_refused_role_changed_witness:
  "start_system_impl (\<lambda>_. Ret (open_list_link [])) log_ring (\<lambda>_ _. ret Ack) [] WorkerNode demo_queues memory_wal
      (builder_new memory_wal () 8 :: (mem_wal, unit, unit) system_handler_builder)
      (Started \<lparr>rn_node = fresh_node demo_world, rn_tasks = []\<rparr>) =
    (Ret (Inl EAlreadyInitialized), Started \<lparr>rn_node = fresh_node (demo_world\<lparr>w_node_type := Some WorkerNode\<rparr>), rn_tasks = []\<rparr>)"
proof -
  have "w_router (cr_world (nd_router (rn_node \<lparr>rn_node = fresh_node demo_world, rn_tasks = []\<rparr>))) =
      Some \<lparr>tr_topics = [], tr_producer = flume_producer, tr_default_timeout = None\<rparr>"
    by (simp add: demo_world_def flume_world_def)
  moreover have "\<forall>w. qf_global_producer demo_queues w = (Ret (Inr flume_producer), w)" by (simp add: demo_queues_def ret_def)
  ultimately show ?thesis
    by (subst restart_refused_role_changed) (simp_all add: fresh_node_def fresh_router_def consumer_router_init_def)
qed

lemma try_set_name_returns: "\<exists>x. in_process (try_set_node_name n) p = (Ret x, snd (in_process (try_set_node_name n) p))"
  by (cases p) (auto simp: in_process_def on_node_def on_router_def in_world_def try_set_node_name_def bindA_def
      outcome_simps split: option.splits)

lemma grpc_config_ok:
  assumes "grpc_config parse read g = Inr sc"
  shows "sc_token sc = (if gs_token g = [] then None else Some (gs_token g))"
    "sc_tls sc \<noteq> None \<longleftrightarrow> gs_tls_cert g \<noteq> [] \<and> gs_tls_key g \<noteq> []"
    "(gs_tls_cert g = []) = (gs_tls_key g = [])" "parse (gs_addr g) = Inr (sc_addr sc)"
    "sc_reflection sc = gs_reflection g" "sc_health sc = gs_health g"
  using assms
  by (auto simp: grpc_config_def Let_def with_token_def with_tls_def with_reflection_def with_health_def
      serve_config_new_def split: sum.splits if_splits)

text \<open>
  The control plane that a configuration yields. If it can be built, the bound address is the
  configured one as parsed, a call without metadata passes its guard exactly when no token is
  configured, TLS is used exactly when certificate and key are set, and never is only one of them
  set. If it cannot be built the node has already started by then: the bootstrap answers the
  error and leaves the process running.
\<close>

theorem bootstrap_control_plane:
  assumes "nc_grpc c = Some g" and "build_factory c = Inr qf" and "build_wal c = Inr (w1, w2)"
    and "start (role_type (ns_role (nc_node c))) qf w1 (builder_new w2 tx (audit_capacity c)) (snd (in_process
        (try_set_node_name (if ns_name (nc_node c) = [] then default_host_name env else ns_name (nc_node c))) p)) =
      (Ret (Inr tx'), p')"
  shows "\<exists>res. bootstrap_start env parse read build_factory build_wal tx start c p = (Ret res, p') \<and>
    (case grpc_config parse read g of
       Inl e \<Rightarrow> res = Inl e
     | Inr sc \<Rightarrow> (\<exists>ru. res = Inr ru \<and> ru_grpc ru = Some sc \<and> ru_shutdown_tx ru = tx') \<and>
         (intercept sc [] = Inr [] \<longleftrightarrow> gs_token g = []) \<and>
         (sc_tls sc \<noteq> None \<longleftrightarrow> gs_tls_cert g \<noteq> [] \<and> gs_tls_key g \<noteq> []) \<and>
         ((gs_tls_cert g = []) = (gs_tls_key g = [])) \<and> parse (gs_addr g) = Inr (sc_addr sc))"
proof -
  define name where "name = (if ns_name (nc_node c) = [] then default_host_name env else ns_name (nc_node c))"
  let ?res = "case grpc_config parse read g of Inl e \<Rightarrow> Inl e
    | Inr sc \<Rightarrow> Inr \<lparr>ru_node_name = name, ru_shutdown_tx = tx', ru_grpc = Some sc\<rparr>"
  obtain x where x: "in_process (try_set_node_name name) p = (Ret x, snd (in_process (try_set_node_name name) p))"
    using try_set_name_returns by blast
  have run: "bootstrap_start env parse read build_factory build_wal tx start c p = (Ret ?res, p')"
    unfolding bootstrap_start_def Let_def assms(1-3) sum.case prod.case option.case name_def [symmetric]
    by (subst bindA_def, subst x)
      (simp add: bindA_def assms(4) [folded name_def] ret_def)
  have guard: "intercept sc [] = Inr [] \<longleftrightarrow> gs_token g = []" if "grpc_config parse read g = Inr sc" for sc
    using grpc_config_ok(1) [OF that] by (simp add: intercept_def check_token_def)
  show ?thesis
  proof (cases "grpc_config parse read g")
    case (Inl e)
    with run show ?thesis by simp
  next
    case (Inr sc)
    with run guard [OF Inr] grpc_config_ok(2-4) [OF Inr] show ?thesis by auto
  qed
qed

theorem bootstrap_control_plane_witness:
  "bootstrap_start (\<lambda>_. None) Inr (\<lambda>_. Inl ''no such file'') (\<lambda>_. Inr ()) (\<lambda>_. Inr (memory_wal, memory_wal)) ()
      (\<lambda>nt qf w b. ret (Inr ()) :: ((emessage list link, mem_wal, unit, emessage list, audit_record list, unit) process, unit result) act)
      ((bootstrap_host (\<lambda>_. None) ''h'')\<lparr>nc_grpc := Some (grpc_section_default\<lparr>gs_tls_cert := ''c''\<rparr>)\<rparr>)
      (Unstarted (demo_world\<lparr>w_node_name := Some ''h''\<rparr>) \<lparr>al_cell = None, al_sinks = ()\<rparr> \<lparr>mt_manager = None, mt_store = None\<rparr>) =
    (Ret (Inl (BootError ''grpc TLS needs BOTH tls_cert and tls_key set'')),
     Unstarted (demo_world\<lparr>w_node_name := Some ''h''\<rparr>) \<lparr>al_cell = None, al_sinks = ()\<rparr> \<lparr>mt_manager = None, mt_store = None\<rparr>)"
proof -
  let ?p = "Unstarted (demo_world\<lparr>w_node_name := Some ''h''\<rparr>) \<lparr>al_cell = None, al_sinks = ()\<rparr> \<lparr>mt_manager = None, mt_store = None\<rparr>
    :: (emessage list link, mem_wal, unit, emessage list, audit_record list, unit) process"
  let ?g = "grpc_section_default\<lparr>gs_tls_cert := ''c''\<rparr>"
  let ?c = "(bootstrap_host (\<lambda>_. None) ''h'')\<lparr>nc_grpc := Some ?g\<rparr>"
  have p: "snd (in_process (try_set_node_name n) ?p) = ?p" for n
    by (simp add: in_process_def try_set_node_name_def bindA_def outcome_simps)
  have g: "grpc_config Inr (\<lambda>_. Inl ''no such file'') ?g = Inl (BootError ''grpc TLS needs BOTH tls_cert and tls_key set'')"
    by (simp add: grpc_config_def grpc_section_default_def)
  show ?thesis
    using bootstrap_control_plane [where c = ?c and g = ?g and build_factory = "\<lambda>_. Inr ()" and qf = "()"
        and build_wal = "\<lambda>_. Inr (memory_wal, memory_wal)" and tx = "()" and env = "\<lambda>_. None" and p = ?p
        and start = "\<lambda>nt qf w b. ret (Inr ())" and tx' = "()" and p' = ?p and parse = Inr and read = "\<lambda>_. Inl ''no such file''"]
    by (simp add: p g ret_def)
qed

end
