(* ===== verification/Ebctl.thy ===== *)
theory Ebctl
  imports Control_Plane "HOL-Library.Char_ord" "HOL-Library.List_Lexorder"
begin

text \<open>
  The two ends of the control plane: how a server is assembled and a client connects
  (\<^verbatim>\<open>event_base_grpc/src/lib.rs\<close>), and the command line client (\<^verbatim>\<open>ebctl/src/main.rs\<close>) over the remote
  procedures of \<open>Control_Plane\<close>. What tonic does for them, setting up TLS and reflection, listening
  and opening a channel, is a parameter. Each \<^verbatim>\<open>println!\<close> is a constructor of \<open>line\<close> with the values
  it formats; the parsing of the arguments by clap is left out, so a run starts with a parsed \<open>cli\<close>.
\<close>

section \<open>Assembling a server\<close>

datatype serve_error = TransportError string | SetupError string

definition serve_error_text :: "serve_error \<Rightarrow> string" where
  "serve_error_text e = (case e of
       TransportError t \<Rightarrow> ''transport error: '' @ t
     | SetupError m \<Rightarrow> ''server setup error: '' @ m)"

datatype service = EventBaseRpc | ReflectionRpc | HealthRpc

text \<open>What is handed to the transport: the services, and the layer before all of them.\<close>

record grpc_server =
  gs_layer :: "(string, string) hashmap \<Rightarrow> status + (string, string) hashmap"
  gs_services :: "service list"
  gs_tls :: "(u8 list \<times> u8 list) option"

record transport =
  tp_tls_config :: "u8 list \<times> u8 list \<Rightarrow> string + unit"
  tp_reflection :: "string + unit"
  tp_serve :: "string \<Rightarrow> grpc_server \<Rightarrow> string + unit"

definition config_serve :: "transport \<Rightarrow> serve_config \<Rightarrow> serve_error + unit" where
  "config_serve tp c =
     (case (case sc_tls c of None \<Rightarrow> Inr () | Some pem \<Rightarrow> tp_tls_config tp pem) of
        Inl e \<Rightarrow> Inl (SetupError (''tls config: '' @ e))
      | Inr _ \<Rightarrow>
          (case (if sc_reflection c then tp_reflection tp else Inr ()) of
             Inl e \<Rightarrow> Inl (SetupError (''reflection: '' @ e))
           | Inr _ \<Rightarrow>
               (case tp_serve tp (sc_addr c)
                   \<lparr>gs_layer = intercept c,
                    gs_services = EventBaseRpc # (if sc_reflection c then [ReflectionRpc] else []) @
                      (if sc_health c then [HealthRpc] else []),
                    gs_tls = sc_tls c\<rparr> of
                  Inl e \<Rightarrow> Inl (TransportError e)
                | Inr _ \<Rightarrow> Inr ())))"

definition serve :: "transport \<Rightarrow> string \<Rightarrow> string + unit" where
  "serve tp addr = (case config_serve tp (serve_config_new addr) of
       Inl e \<Rightarrow> Inl (serve_error_text e)
     | Inr _ \<Rightarrow> Inr ())"

definition token_layer :: "string option \<Rightarrow> (string, string) hashmap \<Rightarrow> status + (string, string) hashmap" where
  "token_layer token meta = (case token of
       None \<Rightarrow> Inr meta
     | Some t \<Rightarrow> (case check_token meta t of Inl s \<Rightarrow> Inl s | Inr _ \<Rightarrow> Inr meta))"

definition serve_with_token :: "transport \<Rightarrow> string \<Rightarrow> string \<Rightarrow> string + unit" where
  "serve_with_token tp addr token =
     tp_serve tp addr \<lparr>gs_layer = token_layer (Some token), gs_services = [EventBaseRpc], gs_tls = None\<rparr>"

definition serve_tls :: "transport \<Rightarrow> string \<Rightarrow> u8 list \<Rightarrow> u8 list \<Rightarrow> string option \<Rightarrow> string + unit" where
  "serve_tls tp addr cert key token =
     (case tp_tls_config tp (cert, key) of
        Inl e \<Rightarrow> Inl e
      | Inr _ \<Rightarrow> tp_serve tp addr
          \<lparr>gs_layer = token_layer token, gs_services = [EventBaseRpc], gs_tls = Some (cert, key)\<rparr>)"


section \<open>Connecting\<close>

text \<open>
  \<open>open_channel uri ca\<close> is the outcome of \<^verbatim>\<open>Endpoint::from_shared\<close>, the TLS settings if a
  certificate is given, and \<^verbatim>\<open>connect\<close>. A client is the token its interceptor holds.
\<close>

definition connect :: "(string \<Rightarrow> u8 list option \<Rightarrow> string + unit) \<Rightarrow> string \<Rightarrow> string + unit" where
  "connect open_channel addr = open_channel (http_uri addr) None"

definition connect_with_token :: "(string \<Rightarrow> u8 list option \<Rightarrow> string + unit) \<Rightarrow> string \<Rightarrow> string
    \<Rightarrow> string + string" where
  "connect_with_token open_channel addr token =
     (case open_channel (http_uri addr) None of Inl e \<Rightarrow> Inl e | Inr _ \<Rightarrow> Inr token)"

definition connect_tls :: "(string \<Rightarrow> u8 list option \<Rightarrow> string + unit) \<Rightarrow> string \<Rightarrow> u8 list \<Rightarrow> string option
    \<Rightarrow> string + string" where
  "connect_tls open_channel addr ca token =
     (let uri = (if sublist ''://'' addr then addr else ''https://'' @ addr) in
      case open_channel uri (Some ca) of
        Inl e \<Rightarrow> Inl e
      | Inr _ \<Rightarrow> Inr (case token of Some t \<Rightarrow> t | None \<Rightarrow> []))"


section \<open>The command line client\<close>

datatype cli_strategy =
    CliForce
  | CliGraceful string u64
  | CliIdle
  | CliTwoStage u64 u64
  | CliTimeout u64
  | CliBatched u64 u64

datatype cli_command =
    CmdPing
  | CmdStatus
  | CmdTopics
  | CmdWorkers "string option"
  | CmdMetrics
  | CmdNodeMetrics string
  | CmdPublish string string bool "string option"
  | CmdShutdown cli_strategy

record cli =
  cli_addr :: string
  cli_token :: string
  cli_command :: cli_command

datatype line =
    LineReady bool u64
  | LineNode string string
  | LineNodeReady bool
  | LineTopicCount u32
  | LineWorkerCount u32
  | LineFleet nat
  | LineFleetNode string nat u64 u32 "u32 list"
  | LineTopics u32
  | LineTopic string
  | LineWorkers string u32
  | LineWorker string u64
  | LineNoMetrics
  | LineEmptyStats
  | LineStats string u64 u64 u64 u64
  | LineNodeMetrics string nat u64 u32
  | LinePublished string string
  | LineShutdown bool

datatype cli_error = CliTransport string | CliStatus status | CliIo string

text \<open>What the client runs against: the node, what has been printed, and its surroundings.\<close>

record 'n session =
  ss_node :: 'n
  ss_out :: "line list"

record surroundings =
  su_server :: serve_config
  su_legal :: "string \<Rightarrow> bool"
  su_open :: "string \<Rightarrow> u8 list option \<Rightarrow> string + unit"
  su_stdin :: "string + u8 list"

definition println :: "line \<Rightarrow> (('n, 'z) session_scheme, unit) act" where
  "println l = putA (\<lambda>s. s\<lparr>ss_out := ss_out s @ [l]\<rparr>)"

text \<open>A call: the client's interceptor, the server's layer, and the procedure on the node.\<close>

definition remote_call :: "surroundings \<Rightarrow> string \<Rightarrow> ('n, status + 'a) act
    \<Rightarrow> (('n, 'z) session_scheme, cli_error + 'a) act" where
  "remote_call su client rpc s =
     (case intercept (su_server su) (auth_call (su_legal su) client []) of
        Inl st \<Rightarrow> (Ret (Inl (CliStatus st)), s)
      | Inr _ \<Rightarrow> (case rpc (ss_node s) of (r, n) \<Rightarrow>
          ((case r of
              Ret (Inl st) \<Rightarrow> Ret (Inl (CliStatus st))
            | Ret (Inr y) \<Rightarrow> Ret (Inr y)
            | Pending \<Rightarrow> Pending | Blocked \<Rightarrow> Blocked | Panic e \<Rightarrow> Panic e), s\<lparr>ss_node := n\<rparr>)))"

definition wire_strategy :: "cli_strategy \<Rightarrow> strategy" where
  "wire_strategy s = (case s of
       CliForce \<Rightarrow> PForce
     | CliIdle \<Rightarrow> PStateBasedIdle
     | CliGraceful worker poll_interval_ms \<Rightarrow> PGraceful worker poll_interval_ms
     | CliTwoStage poll_interval_ms force_timeout_secs \<Rightarrow> PTwoStage poll_interval_ms force_timeout_secs
     | CliTimeout total_timeout_secs \<Rightarrow> PTimeout total_timeout_secs
     | CliBatched batch_size interval_ms \<Rightarrow> PBatched batch_size interval_ms)"

text \<open>\<^verbatim>\<open>BTreeSet\<close> keeps its strings in lexicographic order.\<close>

definition collect_keys :: "(string, u64) hashmap list \<Rightarrow> string list" where
  "collect_keys maps = sort (remdups (concat (map hm_keys maps)))"

definition cell :: "(string, u64) hashmap \<Rightarrow> string \<Rightarrow> u64" where
  "cell m topic = (case hm_get m topic of None \<Rightarrow> 0 | Some n \<Rightarrow> n)"

definition print_fleet_node :: "proto_metrics \<Rightarrow> (('n, 'z) session_scheme, unit) act" where
  "print_fleet_node n = println (LineFleetNode (pm_node_name n) (pm_node_type n) (pm_worker_count n)
     (pm_memory_percent n) (pm_cpu_percent n))"

definition print_status :: "node_status \<Rightarrow> (('n, 'z) session_scheme, unit) act" where
  "print_status st =
     bindA (println (LineNode (ns_node_name st) (if ns_node_type st = 0 then ''Host'' else ''Worker''))) (\<lambda>_.
     bindA (println (LineNodeReady (ns_ready st))) (\<lambda>_.
     bindA (println (LineTopicCount (ns_topic_count st))) (\<lambda>_.
     bindA (println (LineWorkerCount (ns_worker_count st))) (\<lambda>_.
     if ns_fleet st \<noteq> [] then
       bindA (println (LineFleet (length (ns_fleet st)))) (\<lambda>_. forA print_fleet_node (ns_fleet st))
     else ret ()))))"

definition print_workers :: "string \<Rightarrow> worker_row list \<times> u32 \<Rightarrow> (('n, 'z) session_scheme, unit) act" where
  "print_workers topic w =
     bindA (println (LineWorkers topic (snd w))) (\<lambda>_.
     forA (\<lambda>row. println (LineWorker (rw_name row) (rw_heartbeat row))) (fst w))"

definition print_stats :: "topic_info option \<Rightarrow> (('n, 'z) session_scheme, unit) act" where
  "print_stats info = (case info of
       None \<Rightarrow> println LineNoMetrics
     | Some info \<Rightarrow>
         let keys = collect_keys [ti_enqueued info, ti_completed info, ti_failed info, ti_retried info] in
         bindA (if keys = [] then println LineEmptyStats else ret ()) (\<lambda>_.
         forA (\<lambda>topic. println (LineStats topic (cell (ti_enqueued info) topic) (cell (ti_completed info) topic)
           (cell (ti_failed info) topic) (cell (ti_retried info) topic))) keys))"

definition publish_payload :: "surroundings \<Rightarrow> string \<Rightarrow> cli_error + u8 list" where
  "publish_payload su text =
     (if text = ''-'' then (case su_stdin su of Inl e \<Rightarrow> Inl (CliIo e) | Inr b \<Rightarrow> Inr b)
      else Inr (as_bytes text))"

text \<open>The loop over the topics of \<^verbatim>\<open>ebctl workers\<close> without a topic.\<close>

definition workers_of_topic :: "surroundings \<Rightarrow> string \<Rightarrow> string
    \<Rightarrow> ((('f, 'w, 'k, 'q, 'b, 's) node, 'z) session_scheme, cli_error + unit) act" where
  "workers_of_topic su client topic =
     bindQ (remote_call su client (on_router (in_world (list_workers topic)))) (\<lambda>w.
     bindA (if fst w \<noteq> [] then print_workers topic w else ret ()) (\<lambda>_. ret (Inr ())))"

definition run_command :: "surroundings \<Rightarrow> string \<Rightarrow> cli_command
    \<Rightarrow> ((('f, 'w, 'k, 'q, 'b, 's) node, 'z) session_scheme, cli_error + unit) act" where
  "run_command su client cmd =
     (let fin = (\<lambda>m. bindA m (\<lambda>_. ret (Inr ()))) in
      case cmd of
        CmdPing \<Rightarrow> bindQ (remote_call su client (on_router (in_world resp_check))) (\<lambda>t. fin (println (LineReady True t)))
      | CmdStatus \<Rightarrow> bindQ (remote_call su client get_node_status) (\<lambda>st. fin (print_status st))
      | CmdTopics \<Rightarrow>
          bindQ (remote_call su client (on_router (in_world rpc_list_topics))) (\<lambda>t.
          fin (bindA (println (LineTopics (snd t))) (\<lambda>_. forA (\<lambda>x. println (LineTopic x)) (fst t))))
      | CmdWorkers None \<Rightarrow>
          bindQ (remote_call su client (on_router (in_world rpc_list_topics))) (\<lambda>t.
          forQ (workers_of_topic su client) (fst t))
      | CmdWorkers (Some topic) \<Rightarrow>
          bindQ (remote_call su client (on_router (in_world (list_workers topic)))) (\<lambda>w. fin (print_workers topic w))
      | CmdMetrics \<Rightarrow> bindQ (remote_call su client get_topic_stats) (\<lambda>info. fin (print_stats (Some info)))
      | CmdNodeMetrics name \<Rightarrow>
          bindQ (remote_call su client (get_node_metrics name)) (\<lambda>n.
          fin (println (LineNodeMetrics (pm_node_name n) (pm_node_type n) (pm_worker_count n) (pm_memory_percent n))))
      | CmdPublish topic text broadcast target \<Rightarrow>
          bindQ (ret (publish_payload su text)) (\<lambda>bytes.
          bindQ (remote_call su client (on_router (in_world (publish \<lparr>pr_topic = topic, pr_payload = bytes,
            pr_broadcast = broadcast, pr_to_worker = (case target of None \<Rightarrow> [] | Some w \<Rightarrow> w)\<rparr>)))) (\<lambda>i.
          fin (println (LinePublished topic i))))
      | CmdShutdown strategy \<Rightarrow>
          bindQ (remote_call su client (on_router (in_world (rpc_shutdown (Some (wire_strategy strategy)))))) (\<lambda>_.
          fin (println (LineShutdown True))))"

definition ebctl_main :: "surroundings \<Rightarrow> cli
    \<Rightarrow> ((('f, 'w, 'k, 'q, 'b, 's) node, 'z) session_scheme, cli_error + unit) act" where
  "ebctl_main su c =
     (case connect_with_token (su_open su) (cli_addr c) (cli_token c) of
        Inl e \<Rightarrow> ret (Inl (CliTransport e))
      | Inr client \<Rightarrow> run_command su client (cli_command c))"


section \<open>Calls\<close>

lemma remote_refused:
  assumes "intercept (su_server su) (auth_call (su_legal su) client []) = Inl st"
  shows "remote_call su client rpc s = (Ret (Inl (CliStatus st)), s)"
  using assms by (simp add: remote_call_def)

lemma remote_accepted:
  assumes "is_ok (intercept (su_server su) (auth_call (su_legal su) client []))"
    and "rpc (ss_node s) = (Ret (Inr y), n)"
  shows "remote_call su client rpc s = (Ret (Inr y), s\<lparr>ss_node := n\<rparr>)"
  using assms by (cases "intercept (su_server su) (auth_call (su_legal su) client [])") (simp_all add: remote_call_def)

lemma remote_answered_error:
  assumes "is_ok (intercept (su_server su) (auth_call (su_legal su) client []))"
    and "rpc (ss_node s) = (Ret (Inl st), n)"
  shows "remote_call su client rpc s = (Ret (Inl (CliStatus st)), s\<lparr>ss_node := n\<rparr>)"
  using assms by (cases "intercept (su_server su) (auth_call (su_legal su) client [])") (simp_all add: remote_call_def)

text \<open>Without the server's token a client is turned away.\<close>

lemma intercept_wrong_token:
  assumes "sc_token c = Some token" and "client \<noteq> token"
  shows "\<exists>t. intercept c (auth_call legal client []) = Inl (Unauthenticated, t)"
proof -
  have "check_token (auth_call legal client []) token \<noteq> Inr ()"
    unfolding check_token_ok using assms(2) by (auto simp: auth_call_def attach_token_def)
  moreover have "check_token m token = Inr () \<or> (\<exists>t. check_token m token = Inl (Unauthenticated, t))" for m
    by (auto simp: check_token_def Let_def split: option.splits)
  ultimately obtain t where "check_token (auth_call legal client []) token = Inl (Unauthenticated, t)" by blast
  with assms(1) show ?thesis by (simp add: intercept_def)
qed

lemma intercept_right_token:
  assumes "sc_token c = None \<or> sc_token c = Some client \<and> client \<noteq> [] \<and> legal (''Bearer '' @ client)"
  shows "is_ok (intercept c (auth_call legal client []))"
proof (cases "sc_token c")
  case (Some token)
  with assms have c: "token = client" "client \<noteq> []" "legal (''Bearer '' @ client)" by simp_all
  then have "check_token (auth_call legal client []) client = Inr ()"
    unfolding check_token_ok by (simp add: auth_call_def attach_token_def)
  with Some c(1) show ?thesis by (simp add: intercept_def)
qed (simp add: intercept_def)

lemma collect_keys_spec:
  "set (collect_keys maps) = (\<Union>m \<in> set maps. dom (hm_get m))" "distinct (collect_keys maps)" "sorted (collect_keys maps)"
  by (simp_all add: collect_keys_def dom_map_of_conv_image_fst)


section \<open>Serving\<close>

text \<open>
  A server assembled from a configuration puts its token before every service, the reflection and
  health services included; the older entry points offer neither of those.
\<close>

lemma config_serve_layers:
  assumes "config_serve tp c = Inr ()"
  shows "\<exists>srv. tp_serve tp (sc_addr c) srv = Inr () \<and> gs_layer srv = token_layer (sc_token c) \<and>
    gs_tls srv = sc_tls c \<and> set (gs_services srv) = {EventBaseRpc} \<union> (if sc_reflection c then {ReflectionRpc} else {}) \<union>
      (if sc_health c then {HealthRpc} else {})"
proof -
  have "intercept c = token_layer (sc_token c)" by (rule ext) (simp add: intercept_def token_layer_def)
  with assms show ?thesis
    by (auto simp: config_serve_def split: sum.splits option.splits if_splits intro!: exI)
qed

lemma serve_with_token_services:
  "serve_with_token tp addr token = tp_serve tp addr
     \<lparr>gs_layer = intercept (with_token token (serve_config_new addr)), gs_services = [EventBaseRpc], gs_tls = None\<rparr>"
proof -
  have "intercept (with_token token (serve_config_new addr)) = token_layer (Some token)"
    by (rule ext) (simp add: intercept_def token_layer_def with_token_def)
  then show ?thesis by (simp add: serve_with_token_def)
qed


section \<open>Properties\<close>

text \<open>C33: the command line client can do nothing to a node whose token it does not have. Whatever
  command it is given, whatever standard input holds and whatever the node's state, a run with
  another token than the server's ends with an error, the node is unchanged and nothing
  has been printed.\<close>

theorem ebctl_wrong_token_inert:
  assumes "sc_token (su_server su) = Some token" and "cli_token c \<noteq> token"
  shows "\<exists>e. ebctl_main su c s = (Ret (Inl e), s)"
proof (cases "su_open su (http_uri (cli_addr c)) None")
  case (Inl e)
  then show ?thesis by (simp add: ebctl_main_def connect_with_token_def ret_def)
next
  case (Inr u)
  obtain t where "intercept (su_server su) (auth_call (su_legal su) (cli_token c) []) = Inl (Unauthenticated, t)"
    using intercept_wrong_token [OF assms] by blast
  note refused = remote_refused [OF this]
  have "\<exists>e. run_command su (cli_token c) cmd s = (Ret (Inl e), s)" for cmd
  proof (cases cmd)
    case (CmdWorkers topic)
    then show ?thesis by (cases topic) (simp_all add: run_command_def bindQ_Inl [OF refused])
  next
    case (CmdPublish topic body broadcast target)
    then show ?thesis
      by (cases "publish_payload su body")
        (simp_all add: run_command_def bindQ_ret_Inl bindQ_ret_Inr bindQ_Inl [OF refused] ret_app)
  qed (simp_all add: run_command_def bindQ_Inl [OF refused])
  with Inr show ?thesis by (simp add: ebctl_main_def connect_with_token_def)
qed

text \<open>A host with two workers that reads shutdown commands, and the surroundings of a run.\<close>

definition pair_node :: "(emessage list link, mem_wal, unit, emessage list, audit_record list, unit) node" where
  "pair_node =
     \<lparr>nd_router = (pair_router null_codec)\<lparr>cr_world :=
        calm_world\<lparr>w_codecs := (w_codecs calm_world)\<lparr>cc_shutdown := codec_of strategy_coder\<rparr>\<rparr>\<rparr>,
      nd_audit = \<lparr>al_cell = None, al_sinks = ()\<rparr>, nd_metrics = \<lparr>mt_manager = None, mt_store = None\<rparr>,
      nd_collectors = 0\<rparr>"

definition door :: "string option \<Rightarrow> surroundings" where
  "door token = \<lparr>su_server = (serve_config_new ''127.0.0.1:50051'')\<lparr>sc_token := token\<rparr>, su_legal = (\<lambda>_. True),
     su_open = (\<lambda>_ _. Inr ()), su_stdin = Inr [104, 105]\<rparr>"

theorem ebctl_wrong_token_inert_witness:
  "\<exists>e. ebctl_main (door (Some ''secret'')) \<lparr>cli_addr = ''127.0.0.1:50051'', cli_token = ''guess'',
      cli_command = CmdPublish ''jobs'' ''-'' False None\<rparr> \<lparr>ss_node = pair_node, ss_out = []\<rparr> =
    (Ret (Inl e), \<lparr>ss_node = pair_node, ss_out = []\<rparr>)"
proof (rule ebctl_wrong_token_inert)
  show "sc_token (su_server (door (Some ''secret''))) = Some ''secret''" by (simp add: door_def)
qed simp

text \<open>What each subcommand of \<^verbatim>\<open>ebctl shutdown\<close> asks the fleet for.\<close>

fun asked_for :: "cli_strategy \<Rightarrow> shutdown_strategy" where
  "asked_for CliForce = Force"
| "asked_for (CliGraceful worker ms) = Graceful worker ms"
| "asked_for CliIdle = StateBasedIdle"
| "asked_for (CliTwoStage ms secs) = TwoStage ms secs"
| "asked_for (CliTimeout secs) = TimeoutStrategy secs"
| "asked_for (CliBatched workers ms) = Batched (unat workers) ms"

lemma wire_strategy_sent: "shutdown_msg (wire_strategy st) = (case st of CliTimeout _ \<Rightarrow> None | _ \<Rightarrow> Some (asked_for st))"
  by (cases st) (simp_all add: wire_strategy_def)

lemma rpc_shutdown_sent:
  fixes w :: "('q link, mem_wal, 'z) world_scheme"
  assumes "env_ready flume_producer open_link memory_wal mw_inv w" and "shutdown_msg req = Some command"
    and "cd_enc (cc_shutdown (w_codecs w)) command = Inr b"
  obtains m w' where "rpc_shutdown (Some req) w = (Ret (Inr ()), w')"
    "link_items (w_fabric w') = link_items (w_fabric w) @ [m]" "msg_topic m = SYSTEM_TOPIC_SHUTDOWN" "payload m = b"
proof -
  let ?k = "\<lambda>m r. ret (case r of Inl e \<Rightarrow> Inl (Internal, ShutdownFailed e) | Inr _ \<Rightarrow> Inr ())"
  obtain m w' where m: "bindA (make_message SYSTEM_TOPIC_SHUTDOWN b Standard None)
        (\<lambda>m. bindA (topic_send SYSTEM_TOPIC_SHUTDOWN m None None) (?k m)) w = ?k m (Inr ()) w'"
      "link_items (w_fabric w') = link_items (w_fabric w) @ [m]" "msg_topic m = SYSTEM_TOPIC_SHUTDOWN" "payload m = b"
    using made_and_sent [OF assms(1), of SYSTEM_TOPIC_SHUTDOWN b None ?k] by blast
  have "encode_with cc_shutdown command w = (Ret (Inr b), w)" using assms(3) by (simp add: encode_with_def outcome_simps)
  then have "rpc_shutdown (Some req) w = (Ret (Inr ()), w')"
    using m(1) assms(2) by (simp add: rpc_shutdown_def bindA_def [of "encode_with _ _"] ret_def)
  then show ?thesis using m(2-) by (rule that)
qed

text \<open>C34: what an operator types is what the fleet is told. With the node's token, or against a node
  without one, every \<^verbatim>\<open>ebctl shutdown\<close> but the total timeout reports acceptance and leaves exactly
  one more message on the node's queue, on the shutdown topic, that decodes to the strategy asked
  for with its numbers unchanged; \<^verbatim>\<open>ebctl shutdown timeout\<close>, which the client offers, is always
  refused by the server as an invalid strategy, with the node as it was.\<close>

theorem ebctl_shutdown_sends_strategy:
  fixes s :: "('q link, mem_wal, 'k, 'p, 'b, 's) node session"
  assumes "su_open su (http_uri (cli_addr c)) None = Inr ()"
    and "sc_token (su_server su) = None \<or>
      sc_token (su_server su) = Some (cli_token c) \<and> cli_token c \<noteq> [] \<and> su_legal su (''Bearer '' @ cli_token c)"
    and "cli_command c = CmdShutdown st"
    and "env_ready flume_producer open_link memory_wal mw_inv (cr_world (nd_router (ss_node s)))"
    and "codec = cc_shutdown (w_codecs (cr_world (nd_router (ss_node s))))"
    and "codec_ok codec" and "is_ok (cd_enc codec (asked_for st))"
  shows "if \<exists>t. st = CliTimeout t
    then ebctl_main su c s = (Ret (Inl (CliStatus (InvalidArgument, Literal ''Invalid strategy''))), s)
    else \<exists>m s'. ebctl_main su c s = (Ret (Inr ()), s') \<and> ss_out s' = ss_out s @ [LineShutdown True] \<and>
      link_items (w_fabric (cr_world (nd_router (ss_node s')))) =
        link_items (w_fabric (cr_world (nd_router (ss_node s)))) @ [m] \<and>
      msg_topic m = SYSTEM_TOPIC_SHUTDOWN \<and> cd_dec codec (payload m) = Inr (asked_for st)"
proof -
  let ?rpc = "on_router (in_world (rpc_shutdown (Some (wire_strategy st))))"
  have run: "ebctl_main su c s = bindQ (remote_call su (cli_token c) ?rpc) (\<lambda>_.
      bindA (println (LineShutdown True)) (\<lambda>_. ret (Inr ()))) s"
    using assms(1,3) by (simp add: ebctl_main_def connect_with_token_def run_command_def)
  note ok = intercept_right_token [where legal = "su_legal su", OF assms(2)]
  show ?thesis
  proof (cases "\<exists>t. st = CliTimeout t")
    case True
    then have "shutdown_msg (wire_strategy st) = None" by (auto simp: wire_strategy_sent)
    then have "?rpc (ss_node s) = (Ret (Inl (InvalidArgument, Literal ''Invalid strategy'')), ss_node s)"
      by (simp add: on_router_def in_world_def rpc_shutdown_def ret_def)
    from bindQ_Inl [where m = "remote_call su (cli_token c) ?rpc" and s = s, OF remote_answered_error [where rpc = ?rpc and s = s, OF ok this]] True show ?thesis by (simp add: run)
  next
    case False
    then have sm: "shutdown_msg (wire_strategy st) = Some (asked_for st)"
      by (auto simp: wire_strategy_sent split: cli_strategy.split)
    obtain b where b: "cd_enc codec (asked_for st) = Inr b"
      using assms(7) by (cases "cd_enc codec (asked_for st)") (auto simp: is_ok_def)
    obtain m w where m: "rpc_shutdown (Some (wire_strategy st)) (cr_world (nd_router (ss_node s))) = (Ret (Inr ()), w)"
        "link_items (w_fabric w) = link_items (w_fabric (cr_world (nd_router (ss_node s)))) @ [m]"
        "msg_topic m = SYSTEM_TOPIC_SHUTDOWN" "payload m = b"
      using rpc_shutdown_sent [OF assms(4) sm] b assms(5) by metis
    define n where "n = (ss_node s)\<lparr>nd_router := (nd_router (ss_node s))\<lparr>cr_world := w\<rparr>\<rparr>"
    have "?rpc (ss_node s) = (Ret (Inr ()), n)" using m(1) by (simp add: on_router_def in_world_def n_def)
    note called = bindQ_Inr [where m = "remote_call su (cli_token c) ?rpc" and s = s, OF remote_accepted [where rpc = ?rpc and s = s, OF ok this]]
    have "ebctl_main su c s = (Ret (Inr ()), s\<lparr>ss_node := n, ss_out := ss_out s @ [LineShutdown True]\<rparr>)"
      by (simp add: run println_def bindA_def putA_def ret_def called)
    moreover have "cd_dec codec (payload m) = Inr (asked_for st)" using assms(6) b m(4) by (simp add: codec_ok_def)
    ultimately show ?thesis using False m(2,3) by (simp add: n_def)
  qed
qed

theorem ebctl_shutdown_sends_strategy_witness:
  "\<exists>m s'. ebctl_main (door (Some ''secret'')) \<lparr>cli_addr = ''127.0.0.1:50051'', cli_token = ''secret'',
      cli_command = CmdShutdown (CliBatched 4 500)\<rparr> \<lparr>ss_node = pair_node, ss_out = []\<rparr> = (Ret (Inr ()), s') \<and>
    ss_out s' = [LineShutdown True] \<and> link_items (w_fabric (cr_world (nd_router (ss_node s')))) =
      link_items (w_fabric calm_world) @ [m] \<and>
    cd_dec (codec_of strategy_coder) (payload m) = Inr (Batched 4 500)"
proof -
  let ?c = "\<lparr>cli_addr = ''127.0.0.1:50051'', cli_token = ''secret'', cli_command = CmdShutdown (CliBatched 4 500)\<rparr>"
  let ?s = "\<lparr>ss_node = pair_node, ss_out = []\<rparr>"
  have e: "env_ready flume_producer open_link memory_wal mw_inv (cr_world (nd_router (ss_node ?s)))"
    using calm_world_calm by (simp add: pair_node_def calm_def env_ready_def router_ready_def registry_ready_def)
  have "if \<exists>t. CliBatched 4 500 = CliTimeout t
    then ebctl_main (door (Some ''secret'')) ?c ?s = (Ret (Inl (CliStatus (InvalidArgument, Literal ''Invalid strategy''))), ?s)
    else \<exists>m s'. ebctl_main (door (Some ''secret'')) ?c ?s = (Ret (Inr ()), s') \<and>
      ss_out s' = ss_out ?s @ [LineShutdown True] \<and>
      link_items (w_fabric (cr_world (nd_router (ss_node s')))) =
        link_items (w_fabric (cr_world (nd_router (ss_node ?s)))) @ [m] \<and>
      msg_topic m = SYSTEM_TOPIC_SHUTDOWN \<and>
      cd_dec (codec_of strategy_coder) (payload m) = Inr (asked_for (CliBatched 4 500))"
    by (rule ebctl_shutdown_sends_strategy [OF _ _ _ e])
      (simp_all add: door_def pair_node_def strategy_coder_ok is_ok_def)
  then show ?thesis by (auto simp: pair_node_def)
qed

end
