(* ===== verification/Handler_Macro.thy ===== *)
theory Handler_Macro
  imports Startup "HOL-Library.Char_ord"
begin

text \<open>
  The attribute \<^verbatim>\<open>#[handler(...)]\<close> (\<^verbatim>\<open>event_base_macro_attr/src/handler.rs\<close>): the parser of its arguments,
  and the registration function it generates, as an operation of the consumer router that
  \<open>register_all_handlers\<close> of \<open>Startup\<close> runs when the node starts.

  The parser is written over the \<^verbatim>\<open>syn\<close> crate, whose elementary parsers are the parameter \<open>syn\<close>; what
  the parser relies on of them is \<open>syn_laws\<close>, by the tokens a stream still holds. An error is its
  message, without the position in the source. An expression of the attribute is evaluated where
  the generated code runs, by the argument \<open>eval\<close>. Identifiers are of ASCII letters.
\<close>

section \<open>Parsing the arguments\<close>

datatype token = TIdent string | TEq | TComma | TStr string | TInt string | TOther string

record ('i, 'e) syn =
  sy_is_empty :: "'i \<Rightarrow> bool"
  sy_ident :: "'i \<Rightarrow> string + string \<times> 'i"
  sy_eq :: "'i \<Rightarrow> string + unit \<times> 'i"
  sy_lit_str :: "'i \<Rightarrow> string + string \<times> 'i"
  sy_lit_int :: "'i \<Rightarrow> string + string \<times> 'i"
  sy_expr :: "'i \<Rightarrow> string + 'e \<times> 'i"
  sy_peek_comma :: "'i \<Rightarrow> bool"
  sy_comma :: "'i \<Rightarrow> string + unit \<times> 'i"
  sy_array :: "'e \<Rightarrow> 'e list option"

record 'e handler_args =
  ha_topic :: string
  ha_workers :: u64
  ha_timeout :: "u64 option"
  ha_shutdown_timeout :: "u64 option"
  ha_shutdown_check_interval :: "u64 option"
  ha_middleware :: "'e option"

text \<open>The variables of the loop: those of the result, the topic still optional.\<close>

record 'e parsed =
  pa_topic :: "string option"
  pa_workers :: u64
  pa_timeout :: "u64 option"
  pa_shutdown_timeout :: "u64 option"
  pa_shutdown_check_interval :: "u64 option"
  pa_middleware :: "'e option"

definition parsed_start :: "'e parsed" where
  "parsed_start = \<lparr>pa_topic = None, pa_workers = 1, pa_timeout = None, pa_shutdown_timeout = None,
     pa_shutdown_check_interval = None, pa_middleware = None\<rparr>"

text \<open>\<^verbatim>\<open>base10_parse\<close> at 64 bits of the decimal digits of a literal.\<close>

fun digits_value :: "nat \<Rightarrow> string \<Rightarrow> nat" where
  "digits_value n [] = n"
| "digits_value n (c # cs) = digits_value (10 * n + (of_char c - 48)) cs"

definition base10_parse :: "string \<Rightarrow> string + u64" where
  "base10_parse ds =
     (if ds = [] then Inl ''cannot parse integer from empty string''
      else if \<not> list_all (\<lambda>c. CHR ''0'' \<le> c \<and> c \<le> CHR ''9'') ds then Inl ''invalid digit found in string''
      else if digits_value 0 ds < 2 ^ 64 then Inr (of_nat (digits_value 0 ds))
      else Inl ''number too large to fit in target type'')"

definition parse_int :: "('i, 'e) syn \<Rightarrow> 'i \<Rightarrow> string + u64 \<times> 'i" where
  "parse_int sy i = (case sy_lit_int sy i of
       Inl e \<Rightarrow> Inl e
     | Inr (lit, i') \<Rightarrow> (case base10_parse lit of Inl e \<Rightarrow> Inl e | Inr n \<Rightarrow> Inr (n, i')))"

text \<open>What an argument's value does to the variables, by the argument's name.\<close>

definition parse_value :: "('i, 'e) syn \<Rightarrow> string \<Rightarrow> 'e parsed \<Rightarrow> 'i \<Rightarrow> string + 'e parsed \<times> 'i" where
  "parse_value sy name st i =
     (if name = ''topic'' then map_sum id (\<lambda>(lit, i'). (st\<lparr>pa_topic := Some lit\<rparr>, i')) (sy_lit_str sy i)
      else if name = ''workers'' then map_sum id (\<lambda>(n, i'). (st\<lparr>pa_workers := n\<rparr>, i')) (parse_int sy i)
      else if name = ''timeout'' then map_sum id (\<lambda>(n, i'). (st\<lparr>pa_timeout := Some n\<rparr>, i')) (parse_int sy i)
      else if name = ''shutdown_timeout'' then
        map_sum id (\<lambda>(n, i'). (st\<lparr>pa_shutdown_timeout := Some n\<rparr>, i')) (parse_int sy i)
      else if name = ''shutdown_check_interval'' then
        map_sum id (\<lambda>(n, i'). (st\<lparr>pa_shutdown_check_interval := Some n\<rparr>, i')) (parse_int sy i)
      else if name = ''middleware'' then
        map_sum id (\<lambda>(mw, i'). (st\<lparr>pa_middleware := Some mw\<rparr>, i')) (sy_expr sy i)
      else Inl (''unknown argument: '' @ name))"

definition parse_argument :: "('i, 'e) syn \<Rightarrow> 'e parsed \<Rightarrow> 'i \<Rightarrow> string + 'e parsed \<times> 'i" where
  "parse_argument sy st i =
     (case sy_ident sy i of
        Inl e \<Rightarrow> Inl e
      | Inr (name, i1) \<Rightarrow>
          (case sy_eq sy i1 of
             Inl e \<Rightarrow> Inl e
           | Inr (_, i2) \<Rightarrow>
               (case parse_value sy name st i2 of
                  Inl e \<Rightarrow> Inl e
                | Inr (st', i3) \<Rightarrow>
                    if sy_peek_comma sy i3 then map_sum id (\<lambda>(_, i4). (st', i4)) (sy_comma sy i3)
                    else Inr (st', i3))))"

partial_function (option) parse_arguments :: "('i, 'e) syn \<Rightarrow> 'e parsed \<Rightarrow> 'i \<Rightarrow> (string + 'e parsed) option" where
  "parse_arguments sy st i =
     (if sy_is_empty sy i then Some (Inr st)
      else case parse_argument sy st i of
        Inl e \<Rightarrow> Some (Inl e)
      | Inr (st', i') \<Rightarrow> parse_arguments sy st' i')"

declare parse_arguments.simps [code]

definition finish_args :: "'e parsed \<Rightarrow> string + 'e handler_args" where
  "finish_args st = (case pa_topic st of
       None \<Rightarrow> Inl ''required argument `topic` is missing''
     | Some topic \<Rightarrow> Inr \<lparr>ha_topic = topic, ha_workers = pa_workers st, ha_timeout = pa_timeout st,
         ha_shutdown_timeout = pa_shutdown_timeout st,
         ha_shutdown_check_interval = pa_shutdown_check_interval st, ha_middleware = pa_middleware st\<rparr>)"

definition parse_handler_args :: "('i, 'e) syn \<Rightarrow> 'i \<Rightarrow> (string + 'e handler_args) option" where
  "parse_handler_args sy i =
     map_option (\<lambda>r. case r of Inl e \<Rightarrow> Inl e | Inr st \<Rightarrow> finish_args st) (parse_arguments sy parsed_start i)"


section \<open>The generated code\<close>

definition pipeline_code :: "('i, 'e) syn \<Rightarrow> ('e \<Rightarrow> 's middleware) \<Rightarrow> 'e option \<Rightarrow> 's ehandler \<Rightarrow> 's pipeline" where
  "pipeline_code sy eval mw h = (case mw of
       None \<Rightarrow> pipeline_new h
     | Some mw_expr \<Rightarrow> (case sy_array sy mw_expr of
         Some elems \<Rightarrow> fold (\<lambda>elem p. pipeline_with (eval elem) p) elems (pipeline_new h)
       | None \<Rightarrow> pipeline_with (eval mw_expr) (pipeline_new h)))"

definition handler_worker :: "('i, 'e) syn \<Rightarrow> ('e \<Rightarrow> ('f, 'w) world middleware) \<Rightarrow> 'e handler_args
    \<Rightarrow> ('f, 'w) world ehandler \<Rightarrow> (('f, 'w, 'k, 'q) consumer_router, unit result) act" where
  "handler_worker sy eval args h =
     bindQ (create_worker (ha_topic args) (pipeline_code sy eval (ha_middleware args) h)
       (map_option (\<lambda>t. from_secs (unat t)) (ha_timeout args))
       (map_option (\<lambda>t. from_secs (unat t)) (ha_shutdown_timeout args))
       (map_option (\<lambda>t. from_millis (unat t)) (ha_shutdown_check_interval args))) (\<lambda>_. ret (Inr ()))"

definition register_handler :: "('i, 'e) syn \<Rightarrow> ('e \<Rightarrow> ('f, 'w) world middleware) \<Rightarrow> 'e handler_args
    \<Rightarrow> ('f, 'w) world ehandler \<Rightarrow> 'x \<Rightarrow> (('f, 'w, 'k, 'q) consumer_router, unit result) act" where
  "register_handler sy eval args h shutdown_tx =
     bindQ (cr_register (ha_topic args) h) (\<lambda>_.
     bindA (in_world (register_topic (ha_topic args))) (\<lambda>_.
     forQ (\<lambda>_. handler_worker sy eval args h) [0..<unat (ha_workers args)]))"

text \<open>The items that the attribute leaves beside the function.\<close>

record ('x, 's) expansion =
  ex_entry :: string
  ex_register :: string
  ex_struct :: string
  ex_topic :: string
  ex_register_fn :: "'x \<Rightarrow> ('s, unit result) act"

definition to_uppercase :: "string \<Rightarrow> string" where
  "to_uppercase = map (\<lambda>c. if CHR ''a'' \<le> c \<and> c \<le> CHR ''z'' then char_of (of_char c - 32 :: nat) else c)"

definition handler_impl :: "('i, 'e) syn \<Rightarrow> ('e \<Rightarrow> ('f, 'w) world middleware) \<Rightarrow> 'i \<Rightarrow> string
    \<Rightarrow> ('f, 'w) world ehandler \<Rightarrow> (string + ('x, ('f, 'w, 'k, 'q) consumer_router) expansion) option" where
  "handler_impl sy eval args fn_name fn =
     map_option (map_sum id (\<lambda>a.
       \<lparr>ex_entry = ''_ENTRY_'' @ fn_name, ex_register = ''_register_'' @ fn_name,
        ex_struct = to_uppercase fn_name @ ''Handler'', ex_topic = ha_topic a,
        ex_register_fn = register_handler sy eval a fn\<rparr>)) (parse_handler_args sy args)"


section \<open>The parser\<close>

text \<open>
  What the parser relies on of \<^verbatim>\<open>syn\<close>: a parser of one token takes that token from the front of the
  stream or fails, and the parser of expressions reads an expression that is followed by
  a comma or by nothing back as it was written, taking at least one token when it succeeds.
\<close>

definition takes :: "('i \<Rightarrow> token list) \<Rightarrow> (token \<Rightarrow> 'a option) \<Rightarrow> ('i \<Rightarrow> string + 'a \<times> 'i) \<Rightarrow> bool" where
  "takes toks get p \<longleftrightarrow> (\<forall>i. case toks i of
       [] \<Rightarrow> \<not> is_ok (p i)
     | t # ts \<Rightarrow> (case get t of None \<Rightarrow> \<not> is_ok (p i) | Some x \<Rightarrow> \<exists>i'. p i = Inr (x, i') \<and> toks i' = ts))"

definition get_ident :: "token \<Rightarrow> string option" where "get_ident t = (case t of TIdent n \<Rightarrow> Some n | _ \<Rightarrow> None)"
definition get_str :: "token \<Rightarrow> string option" where "get_str t = (case t of TStr n \<Rightarrow> Some n | _ \<Rightarrow> None)"
definition get_int :: "token \<Rightarrow> string option" where "get_int t = (case t of TInt n \<Rightarrow> Some n | _ \<Rightarrow> None)"
definition get_eq :: "token \<Rightarrow> unit option" where "get_eq t = (case t of TEq \<Rightarrow> Some () | _ \<Rightarrow> None)"
definition get_comma :: "token \<Rightarrow> unit option" where "get_comma t = (case t of TComma \<Rightarrow> Some () | _ \<Rightarrow> None)"

lemmas get_simps [simp] = get_ident_def get_str_def get_int_def get_eq_def get_comma_def

definition syn_laws :: "('i, 'e) syn \<Rightarrow> ('i \<Rightarrow> token list) \<Rightarrow> ('e \<Rightarrow> token list) \<Rightarrow> bool" where
  "syn_laws sy toks spell \<longleftrightarrow>
     (\<forall>i. sy_is_empty sy i = (toks i = [])) \<and> (\<forall>i. sy_peek_comma sy i = (\<exists>ts. toks i = TComma # ts)) \<and>
     takes toks get_ident (sy_ident sy) \<and> takes toks get_eq (sy_eq sy) \<and> takes toks get_str (sy_lit_str sy) \<and>
     takes toks get_int (sy_lit_int sy) \<and> takes toks get_comma (sy_comma sy) \<and>
     (\<forall>i e i'. sy_expr sy i = Inr (e, i') \<longrightarrow> length (toks i') < length (toks i)) \<and>
     (\<forall>i e ts. toks i = spell e @ ts \<and> (ts = [] \<or> (\<exists>us. ts = TComma # us)) \<longrightarrow>
        (\<exists>i'. sy_expr sy i = Inr (e, i') \<and> toks i' = ts))"

lemma takes_shorter:
  assumes "takes toks get p" and "p i = Inr (x, i')"
  shows "length (toks i') < length (toks i)"
proof (cases "toks i")
  case Nil
  with assms show ?thesis unfolding takes_def is_ok_def by (auto dest: spec [of _ i])
next
  case (Cons t ts)
  with assms show ?thesis
    unfolding takes_def is_ok_def by (cases "get t") (auto dest: spec [of _ i])
qed

lemma takes_next:
  assumes "takes toks get p" and "toks i = t # ts" and "get t = Some x"
  shows "\<exists>i'. p i = Inr (x, i') \<and> toks i' = ts"
  using assms unfolding takes_def by (auto dest: spec [of _ i])

lemma syn_lawsD:
  assumes "syn_laws sy toks spell"
  shows "sy_is_empty sy i = (toks i = [])" "sy_peek_comma sy i = (\<exists>ts. toks i = TComma # ts)"
    "takes toks get_ident (sy_ident sy)" "takes toks get_eq (sy_eq sy)" "takes toks get_str (sy_lit_str sy)"
    "takes toks get_int (sy_lit_int sy)" "takes toks get_comma (sy_comma sy)"
    "sy_expr sy i = Inr (e, i') \<Longrightarrow> length (toks i') < length (toks i)"
  using assms unfolding syn_laws_def by blast+

lemma parse_int_shorter:
  assumes "syn_laws sy toks spell" and "parse_int sy i = Inr (n, i')"
  shows "length (toks i') < length (toks i)"
  using assms(2) takes_shorter [OF syn_lawsD(6) [OF assms(1)]]
  by (auto simp: parse_int_def split: sum.splits prod.splits)

lemma map_sum_Inr: "map_sum id (\<lambda>(x, i'). (f x, i')) y = Inr (a, b) \<longleftrightarrow> (\<exists>x. y = Inr (x, b) \<and> a = f x)"
  by (cases y) auto

lemma parse_value_shorter:
  assumes "syn_laws sy toks spell" and "parse_value sy name st i = Inr (st', i')"
  shows "length (toks i') < length (toks i)"
proof -
  note shorter = takes_shorter [OF syn_lawsD(5) [OF assms(1)]] parse_int_shorter [OF assms(1)]
    syn_lawsD(8) [OF assms(1)]
  show ?thesis
    using assms(2) unfolding parse_value_def by (auto simp: map_sum_Inr split: if_splits dest: shorter)
qed

lemma parse_argument_shorter:
  assumes "syn_laws sy toks spell" and "parse_argument sy st i = Inr (st', i')"
  shows "length (toks i') < length (toks i)"
proof -
  obtain name i1 i2 i3 where s: "sy_ident sy i = Inr (name, i1)" "sy_eq sy i1 = Inr ((), i2)"
      "parse_value sy name st i2 = Inr (st', i3)" "i' = i3 \<or> sy_comma sy i3 = Inr ((), i')"
    using assms(2) unfolding parse_argument_def
    by (auto simp: map_sum_Inr split: sum.splits prod.splits if_splits)
  have "length (toks i3) < length (toks i)"
    using takes_shorter [OF syn_lawsD(3) [OF assms(1)] s(1)] takes_shorter [OF syn_lawsD(4) [OF assms(1)] s(2)]
      parse_value_shorter [OF assms(1) s(3)] by simp
  with s(4) takes_shorter [OF syn_lawsD(7) [OF assms(1)], of i3 "()" i'] show ?thesis by auto
qed

lemma parse_arguments_ends:
  assumes "syn_laws sy toks spell"
  shows "\<exists>y. parse_arguments sy st i = Some y"
proof (induction "length (toks i)" arbitrary: st i rule: less_induct)
  case less
  show ?case
  proof (cases "sy_is_empty sy i \<or> \<not> is_ok (parse_argument sy st i)")
    case True
    then show ?thesis
      by (subst parse_arguments.simps) (auto simp: is_ok_def split: sum.splits)
  next
    case False
    then obtain st' i' where a: "parse_argument sy st i = Inr (st', i')"
      by (cases "parse_argument sy st i") (auto simp: is_ok_def)
    with False less [OF parse_argument_shorter [OF assms a], of st'] show ?thesis
      by (subst parse_arguments.simps) simp
  qed
qed

text \<open>Arguments as they are written in a program: in any order, repeated or not, each with or without a comma.\<close>

datatype 'e arg =
    ArgTopic string
  | ArgWorkers u64
  | ArgTimeout u64
  | ArgShutdownTimeout u64
  | ArgCheckInterval u64
  | ArgMiddleware 'e

fun arg_tokens :: "('e \<Rightarrow> token list) \<Rightarrow> 'e arg \<Rightarrow> token list" where
  "arg_tokens spell (ArgTopic t) = [TIdent ''topic'', TEq, TStr t]"
| "arg_tokens spell (ArgWorkers n) = [TIdent ''workers'', TEq, TInt (show_nat (unat n))]"
| "arg_tokens spell (ArgTimeout n) = [TIdent ''timeout'', TEq, TInt (show_nat (unat n))]"
| "arg_tokens spell (ArgShutdownTimeout n) = [TIdent ''shutdown_timeout'', TEq, TInt (show_nat (unat n))]"
| "arg_tokens spell (ArgCheckInterval n) = [TIdent ''shutdown_check_interval'', TEq, TInt (show_nat (unat n))]"
| "arg_tokens spell (ArgMiddleware e) = TIdent ''middleware'' # TEq # spell e"

fun written :: "('e \<Rightarrow> token list) \<Rightarrow> ('e arg \<times> bool) list \<Rightarrow> token list" where
  "written spell [] = []"
| "written spell ((a, comma) # as) = arg_tokens spell a @ (if comma then [TComma] else []) @ written spell as"

text \<open>An expression ends at a comma or at the end.\<close>

fun separated :: "('e arg \<times> bool) list \<Rightarrow> bool" where
  "separated [] \<longleftrightarrow> True"
| "separated ((a, comma) # as) \<longleftrightarrow> (comma \<or> as = [] \<or> (\<nexists>e. a = ArgMiddleware e)) \<and> separated as"

fun put_arg :: "'e arg \<Rightarrow> 'e parsed \<Rightarrow> 'e parsed" where
  "put_arg (ArgTopic t) st = st\<lparr>pa_topic := Some t\<rparr>"
| "put_arg (ArgWorkers n) st = st\<lparr>pa_workers := n\<rparr>"
| "put_arg (ArgTimeout n) st = st\<lparr>pa_timeout := Some n\<rparr>"
| "put_arg (ArgShutdownTimeout n) st = st\<lparr>pa_shutdown_timeout := Some n\<rparr>"
| "put_arg (ArgCheckInterval n) st = st\<lparr>pa_shutdown_check_interval := Some n\<rparr>"
| "put_arg (ArgMiddleware e) st = st\<lparr>pa_middleware := Some e\<rparr>"

lemma digits_value_snoc: "digits_value n (ds @ [c]) = 10 * digits_value n ds + (of_char c - 48)"
  by (induction ds arbitrary: n) simp_all

lemma show_nat_digits: "show_nat n \<noteq> []" "list_all (\<lambda>c. CHR ''0'' \<le> c \<and> c \<le> CHR ''9'') (show_nat n)"
  "digits_value 0 (show_nat n) = n"
proof (induction n rule: show_nat.induct)
  case (1 n)
  have d: "of_char (char_of (48 + k) :: char) = 48 + k" if "k < 10" for k :: nat
    using that by (simp add: of_char_of)
  { case 1 show ?case by (subst show_nat.simps) simp }
  { case 2 show ?case using 1(2) by (subst show_nat.simps) (auto simp: less_eq_char_def d) }
  { case 3 show ?case using 1(3) by (subst show_nat.simps) (auto simp: digits_value_snoc d) }
qed

lemma base10_show_nat: "base10_parse (show_nat (unat n)) = Inr (n :: u64)"
proof -
  have "unat n < 2 ^ 64" using unsigned_less [of n] by simp
  then show ?thesis by (simp add: base10_parse_def show_nat_digits)
qed

lemma parse_int_next:
  assumes "syn_laws sy toks spell" and "toks i = TInt (show_nat (unat n)) # ts"
  shows "\<exists>i'. parse_int sy i = Inr (n, i') \<and> toks i' = ts"
  using takes_next [OF syn_lawsD(6) [OF assms(1)] assms(2)] by (auto simp: parse_int_def base10_show_nat)

lemma parse_value_next:
  assumes "syn_laws sy toks spell" and "TIdent name # TEq # toks i = arg_tokens spell a @ ts"
    and "(\<nexists>e. a = ArgMiddleware e) \<or> ts = [] \<or> (\<exists>us. ts = TComma # us)"
  shows "\<exists>i'. parse_value sy name st i = Inr (put_arg a st, i') \<and> toks i' = ts"
proof (cases a)
  case (ArgTopic t)
  with assms(2) takes_next [OF syn_lawsD(5) [OF assms(1)], of i "TStr t" ts] show ?thesis
    by (auto simp: parse_value_def)
next
  case (ArgMiddleware e)
  have "\<exists>i'. sy_expr sy i = Inr (e, i') \<and> toks i' = ts"
    using assms ArgMiddleware unfolding syn_laws_def by simp
  with assms(2) ArgMiddleware show ?thesis by (auto simp: parse_value_def)
qed (use assms(2) in \<open>auto simp: parse_value_def dest!: parse_int_next [OF assms(1)]\<close>)

lemma parse_argument_next:
  assumes laws: "syn_laws sy toks spell" and i: "toks i = arg_tokens spell a @ (if comma then [TComma] else []) @ ts"
    and sep: "comma \<or> ts = [] \<or> (\<nexists>e. a = ArgMiddleware e)" and "\<nexists>us. ts = TComma # us"
  shows "\<exists>i'. parse_argument sy st i = Inr (put_arg a st, i') \<and> toks i' = ts"
proof -
  let ?rest = "(if comma then [TComma] else []) @ ts"
  obtain name vs where v: "arg_tokens spell a = TIdent name # TEq # vs" by (cases a) auto
  obtain i1 where i1: "sy_ident sy i = Inr (name, i1)" "toks i1 = TEq # vs @ ?rest"
    using takes_next [OF syn_lawsD(3) [OF laws], of i "TIdent name"] i v by auto
  obtain i2 where i2: "sy_eq sy i1 = Inr ((), i2)" "toks i2 = vs @ ?rest"
    using takes_next [OF syn_lawsD(4) [OF laws] i1(2)] by auto
  obtain i3 where i3: "parse_value sy name st i2 = Inr (put_arg a st, i3)" "toks i3 = ?rest"
    using parse_value_next [OF laws, of name i2 a ?rest st] i2(2) v sep by (cases comma) auto
  show ?thesis
  proof (cases comma)
    case True
    then obtain i4 where "sy_comma sy i3 = Inr ((), i4)" "toks i4 = ts"
      using takes_next [OF syn_lawsD(7) [OF laws], of i3 TComma ts] i3(2) by auto
    with True i1(1) i2(1) i3 show ?thesis by (simp add: parse_argument_def syn_lawsD(2) [OF laws])
  next
    case False
    with assms(4) i1(1) i2(1) i3 show ?thesis by (auto simp: parse_argument_def syn_lawsD(2) [OF laws])
  qed
qed

lemma written_front: "\<nexists>us. written spell as = TComma # us" "written spell as = [] \<longleftrightarrow> as = []"
proof -
  have "\<exists>n ts. arg_tokens spell a = TIdent n # ts" for a by (cases a) auto
  then show "\<nexists>us. written spell as = TComma # us" "written spell as = [] \<longleftrightarrow> as = []"
    by (cases as; (auto; fail | metis (no_types) append_Cons list.inject token.distinct written.simps(2) surj_pair list.distinct(1)))+
qed

lemma parse_arguments_written:
  assumes "syn_laws sy toks spell"
  shows "separated as \<Longrightarrow> toks i = written spell as \<Longrightarrow>
    parse_arguments sy st i = Some (Inr (fold put_arg (map fst as) st))"
proof (induction as arbitrary: st i)
  case Nil
  then show ?case by (subst parse_arguments.simps) (simp add: syn_lawsD(1) [OF assms])
next
  case (Cons x as)
  obtain a comma where x: "x = (a, comma)" by (cases x)
  have ne: "toks i \<noteq> []" using written_front(2) [of spell "x # as"] Cons.prems(2) by simp
  have sep: "comma \<or> written spell as = [] \<or> (\<nexists>e. a = ArgMiddleware e)" "separated as"
    using Cons.prems(1) x written_front(2) [of spell as] by auto
  obtain i' where "parse_argument sy st i = Inr (put_arg a st, i')" "toks i' = written spell as"
    using parse_argument_next [OF assms _ sep(1) written_front(1), of i st] Cons.prems(2) x by auto
  with Cons.IH [OF sep(2), of i' "put_arg a st"] ne x show ?case
    by (subst parse_arguments.simps) (simp add: syn_lawsD(1) [OF assms])
qed

text \<open>The value of the last argument of a kind.\<close>

definition latest :: "('e arg \<Rightarrow> 'a option) \<Rightarrow> 'e arg list \<Rightarrow> 'a option" where
  "latest f as = (case List.map_filter f as of [] \<Rightarrow> None | xs \<Rightarrow> Some (last xs))"

fun the_topic :: "'e arg \<Rightarrow> string option" where
  "the_topic (ArgTopic t) = Some t" | "the_topic _ = None"

fun the_workers :: "'e arg \<Rightarrow> u64 option" where
  "the_workers (ArgWorkers n) = Some n" | "the_workers _ = None"

fun the_timeout :: "'e arg \<Rightarrow> u64 option" where
  "the_timeout (ArgTimeout n) = Some n" | "the_timeout _ = None"

fun the_shutdown_timeout :: "'e arg \<Rightarrow> u64 option" where
  "the_shutdown_timeout (ArgShutdownTimeout n) = Some n" | "the_shutdown_timeout _ = None"

fun the_check_interval :: "'e arg \<Rightarrow> u64 option" where
  "the_check_interval (ArgCheckInterval n) = Some n" | "the_check_interval _ = None"

fun the_middleware :: "'e arg \<Rightarrow> 'e option" where
  "the_middleware (ArgMiddleware e) = Some e" | "the_middleware _ = None"

lemma latest_simps:
  "latest f [] = None"
  "latest f (a # as) = (case latest f as of None \<Rightarrow> f a | Some x \<Rightarrow> Some x)"
  by (auto simp: latest_def List.map_filter_def split: option.splits list.splits)

lemma put_all:
  "pa_topic (fold put_arg as st) = (case latest the_topic as of None \<Rightarrow> pa_topic st | Some t \<Rightarrow> Some t)"
  "pa_workers (fold put_arg as st) = (case latest the_workers as of None \<Rightarrow> pa_workers st | Some n \<Rightarrow> n)"
  "pa_timeout (fold put_arg as st) = (case latest the_timeout as of None \<Rightarrow> pa_timeout st | Some n \<Rightarrow> Some n)"
  "pa_shutdown_timeout (fold put_arg as st) =
     (case latest the_shutdown_timeout as of None \<Rightarrow> pa_shutdown_timeout st | Some n \<Rightarrow> Some n)"
  "pa_shutdown_check_interval (fold put_arg as st) =
     (case latest the_check_interval as of None \<Rightarrow> pa_shutdown_check_interval st | Some n \<Rightarrow> Some n)"
  "pa_middleware (fold put_arg as st) = (case latest the_middleware as of None \<Rightarrow> pa_middleware st | Some e \<Rightarrow> Some e)"
proof (induction as arbitrary: st)
  case Nil
  { case 1 show ?case by (simp add: latest_simps) }
  { case 2 show ?case by (simp add: latest_simps) }
  { case 3 show ?case by (simp add: latest_simps) }
  { case 4 show ?case by (simp add: latest_simps) }
  { case 5 show ?case by (simp add: latest_simps) }
  { case 6 show ?case by (simp add: latest_simps) }
next
  case (Cons a as)
  { case 1 show ?case using Cons(1) [of "put_arg a st"] by (cases a) (simp_all add: latest_simps split: option.split) }
  { case 2 show ?case using Cons(2) [of "put_arg a st"] by (cases a) (simp_all add: latest_simps split: option.split) }
  { case 3 show ?case using Cons(3) [of "put_arg a st"] by (cases a) (simp_all add: latest_simps split: option.split) }
  { case 4 show ?case using Cons(4) [of "put_arg a st"] by (cases a) (simp_all add: latest_simps split: option.split) }
  { case 5 show ?case using Cons(5) [of "put_arg a st"] by (cases a) (simp_all add: latest_simps split: option.split) }
  { case 6 show ?case using Cons(6) [of "put_arg a st"] by (cases a) (simp_all add: latest_simps split: option.split) }
qed

text \<open>The arguments that a list of written ones stands for.\<close>

definition meant :: "'e arg list \<Rightarrow> string + 'e handler_args" where
  "meant as = (case latest the_topic as of
       None \<Rightarrow> Inl ''required argument `topic` is missing''
     | Some t \<Rightarrow> Inr \<lparr>ha_topic = t, ha_workers = (case latest the_workers as of None \<Rightarrow> 1 | Some n \<Rightarrow> n),
         ha_timeout = latest the_timeout as, ha_shutdown_timeout = latest the_shutdown_timeout as,
         ha_shutdown_check_interval = latest the_check_interval as, ha_middleware = latest the_middleware as\<rparr>)"

lemma parse_written:
  assumes "syn_laws sy toks spell" and "separated as" and "toks i = written spell as"
  shows "parse_handler_args sy i = Some (meant (map fst as))"
  using parse_arguments_written [OF assms, of parsed_start]
  by (cases "latest the_topic (map fst as)")
    (simp_all add: meant_def parse_handler_args_def finish_args_def put_all parsed_start_def split: option.split)

text \<open>C31: the arguments of \<^verbatim>\<open>#[handler]\<close> are read as they are written. The parser returns on every
  input. On arguments in any order, with or without commas between them and repeated or not, each
  option has the value of its last occurrence, the number of workers is one and the other
  options are absent when they do not occur, and an attribute without a topic is refused; numbers are
  printed in decimal and come back exactly up to the last 64-bit value.\<close>

theorem handler_args_read_back:
  assumes "syn_laws sy toks spell"
  shows "(\<exists>y. parse_handler_args sy j = Some y) \<and>
    (separated as \<and> toks i = written spell as \<longrightarrow> parse_handler_args sy i = Some (meant (map fst as)))"
proof
  show "\<exists>y. parse_handler_args sy j = Some y"
    using parse_arguments_ends [OF assms, of parsed_start j] by (auto simp: parse_handler_args_def)
qed (simp add: parse_written [OF assms])

text \<open>A stream that is the list of its tokens, whose expressions are paths of one segment.\<close>

definition next_token :: "(token \<Rightarrow> 'a option) \<Rightarrow> token list \<Rightarrow> string + 'a \<times> token list" where
  "next_token get ts = (case ts of
       [] \<Rightarrow> Inl ''unexpected end of input''
     | t # us \<Rightarrow> (case get t of None \<Rightarrow> Inl ''unexpected token'' | Some x \<Rightarrow> Inr (x, us)))"

definition token_syn :: "(token list, string) syn" where
  "token_syn = \<lparr>sy_is_empty = (\<lambda>ts. ts = []), sy_ident = next_token get_ident, sy_eq = next_token get_eq,
     sy_lit_str = next_token get_str, sy_lit_int = next_token get_int, sy_expr = next_token get_ident,
     sy_peek_comma = (\<lambda>ts. case ts of TComma # _ \<Rightarrow> True | _ \<Rightarrow> False), sy_comma = next_token get_comma,
     sy_array = (\<lambda>_. None)\<rparr>"

lemma next_token_takes: "takes (\<lambda>ts. ts) get (next_token get)"
  by (auto simp: takes_def next_token_def is_ok_def split: list.splits option.splits)

lemma token_syn_laws: "syn_laws token_syn (\<lambda>ts. ts) (\<lambda>e. [TIdent e])"
proof -
  have "(case ts of TComma # _ \<Rightarrow> True | _ \<Rightarrow> False) = (\<exists>us. ts = TComma # us)" for ts
    by (cases ts) (auto split: token.splits)
  then show ?thesis
    using takes_shorter [OF next_token_takes, of get_ident]
    by (auto simp: syn_laws_def token_syn_def next_token_takes) (auto simp: next_token_def)
qed

theorem handler_args_read_back_witness:
  "parse_handler_args token_syn
      [TIdent ''workers'', TEq, TInt ''3'', TIdent ''middleware'', TEq, TIdent ''Log'', TComma, TIdent ''topic'', TEq, TStr ''jobs'']
    = Some (Inr \<lparr>ha_topic = ''jobs'', ha_workers = 3, ha_timeout = None, ha_shutdown_timeout = None,
        ha_shutdown_check_interval = None, ha_middleware = Some ''Log''\<rparr>)"
proof -
  let ?as = "[(ArgWorkers 3, False), (ArgMiddleware ''Log'', True), (ArgTopic ''jobs'', False)]"
  have "show_nat 3 = ''3''" by (subst show_nat.simps) code_simp
  then show ?thesis
    using handler_args_read_back [OF token_syn_laws, of "[]" ?as "written (\<lambda>e. [TIdent e]) ?as"]
    by (simp add: meant_def latest_simps)
qed


section \<open>The registration\<close>

text \<open>The middlewares an attribute names, in its order.\<close>

definition named_middlewares :: "('i, 'e) syn \<Rightarrow> 'e option \<Rightarrow> 'e list" where
  "named_middlewares sy mw = (case mw of None \<Rightarrow> [] | Some e \<Rightarrow> (case sy_array sy e of Some es \<Rightarrow> es | None \<Rightarrow> [e]))"

lemma fold_pipeline_with:
  "fold (\<lambda>e p. pipeline_with (eval e) p) es p = p\<lparr>middlewares := middlewares p @ map eval es\<rparr>"
  by (induction es arbitrary: p) (simp_all add: pipeline_with_def)

lemma pipeline_code_eq:
  "pipeline_code sy eval mw h = \<lparr>middlewares = map eval (named_middlewares sy mw), pl_handler = h\<rparr>"
  by (auto simp: pipeline_code_def named_middlewares_def fold_pipeline_with pipeline_new_def pipeline_with_def
      split: option.splits)

lemma worker_new_fields:
  obtains wk a where "worker_new t p q d i s w = (Ret wk, w\<lparr>w_amb := a\<rparr>)" "wk_topic wk = t" "wk_pipeline wk = p"
    "wk_time_out wk = d" "wk_check_interval wk = i" "wk_shutdown_timeout wk = s"
proof -
  have "\<exists>wk a. worker_new t p q d i s w = (Ret wk, w\<lparr>w_amb := a\<rparr>) \<and> wk_topic wk = t \<and> wk_pipeline wk = p \<and>
      wk_time_out wk = d \<and> wk_check_interval wk = i \<and> wk_shutdown_timeout wk = s"
    by (auto simp: worker_new_def wal_client_new_def make_message_def bindA_def outcome_simps
        try_get_node_name_def Let_def split: option.splits)
  with that show thesis by blast
qed

lemma discovery_message_topic:
  "\<exists>m a. discovery_message n t node w = (Ret m, w\<lparr>w_amb := a\<rparr>) \<and> msg_topic m = SYSTEM_TOPIC_WORKER_DISCOVERY"
  by (auto simp: discovery_message_def encode_with_def make_message_def bindA_def outcome_simps emessage_new_def)

lemma announce_ready:
  fixes w :: "('q link, mem_wal, 'z) world_scheme"
  assumes "env_ready flume_producer open_link memory_wal mw_inv w" and "\<not> starts_with (wk_topic wk) ''_system.''"
  shows "\<exists>a f m. announce_worker wk w = (Ret (), w\<lparr>w_amb := a, w_fabric := f\<rparr>) \<and>
    env_ready flume_producer open_link memory_wal mw_inv (w\<lparr>w_amb := a, w_fabric := f\<rparr>) \<and>
    link_items f = link_items (w_fabric w) @ [m] \<and> msg_topic m = SYSTEM_TOPIC_WORKER_DISCOVERY"
proof -
  obtain m a where m: "discovery_message (wk_name wk) (wk_topic wk) (w_node_name w) w = (Ret m, w\<lparr>w_amb := a\<rparr>)"
      "msg_topic m = SYSTEM_TOPIC_WORKER_DISCOVERY"
    using discovery_message_topic by blast
  obtain f where f: "send_system m (Some True) None (w\<lparr>w_amb := a\<rparr>) = (Ret (Inr ()), w\<lparr>w_amb := a, w_fabric := f\<rparr>)"
      "env_ready flume_producer open_link memory_wal mw_inv (w\<lparr>w_amb := a, w_fabric := f\<rparr>)"
      "link_items f = link_items (w_fabric w) @ [m]"
    using open_flume_memory.emit_open [of "w\<lparr>w_amb := a\<rparr>" m "Some True" None] assms(1)
    by (auto simp: send_system_def env_ready_def)
  obtain tr where "w_router w = Some tr"
    using assms(1) by (auto simp: env_ready_def router_ready_def split: option.splits)
  then have "announce_worker wk w = (Ret (), w\<lparr>w_amb := a, w_fabric := f\<rparr>)"
    using assms(2) m(1) f(1) by (simp add: announce_worker_def try_get_node_name_def bindA_def outcome_simps)
  then show ?thesis using f(2,3) m(2) by blast
qed

text \<open>What one worker of a handler looks like, and a router in which a handler has \<open>n\<close> of them.\<close>

definition hired :: "('i, 'e) syn \<Rightarrow> ('e \<Rightarrow> ('f, 'w) world middleware) \<Rightarrow> 'e handler_args
    \<Rightarrow> ('f, 'w) world ehandler \<Rightarrow> ('f, ('f, 'w) world) worker \<Rightarrow> bool" where
  "hired sy eval args h wk \<longleftrightarrow> wk_topic wk = ha_topic args \<and>
     wk_pipeline wk = \<lparr>middlewares = map eval (named_middlewares sy (ha_middleware args)), pl_handler = h\<rparr> \<and>
     wk_time_out wk = map_option (\<lambda>t. from_secs (unat t)) (ha_timeout args) \<and>
     wk_shutdown_timeout wk = map_option (\<lambda>t. from_secs (unat t)) (ha_shutdown_timeout args) \<and>
     wk_check_interval wk =
       (case ha_shutdown_check_interval args of None \<Rightarrow> from_millis 50 | Some t \<Rightarrow> from_millis (unat t))"

definition staffed :: "('i, 'e) syn \<Rightarrow> ('e \<Rightarrow> ('f, 'w) world middleware) \<Rightarrow> 'e handler_args
    \<Rightarrow> ('f, 'w) world ehandler \<Rightarrow> nat \<Rightarrow> ('f, 'w, 'k, 'q) consumer_router \<Rightarrow> bool" where
  "staffed sy eval args h n r \<longleftrightarrow> (\<exists>e. hm_get (cr_topics r) (ha_topic args) = Some e \<and> te_handler e = h \<and>
     te_pipeline e = None \<and> length (te_workers e) = n \<and>
     (\<forall>name \<in> set (te_workers e). \<exists>wk hd. hm_get (cr_index r) name = Some (wk, hd) \<and> hired sy eval args h wk))"

definition hiring :: "('i, 'e) syn \<Rightarrow> ('e \<Rightarrow> ('q link, mem_wal) world middleware) \<Rightarrow> 'e handler_args
    \<Rightarrow> ('q link, mem_wal) world ehandler \<Rightarrow> ('q link, mem_wal, 'k, 'p) consumer_router \<Rightarrow> nat
    \<Rightarrow> ('q link, mem_wal, 'k, 'p) consumer_router \<Rightarrow> bool" where
  "hiring sy eval args h r0 n r \<longleftrightarrow> env_ready flume_producer open_link memory_wal mw_inv (cr_world r) \<and>
     (\<exists>ch. cr_channel r (cr_batch r * 4) = Ret ch) \<and> cr_factory r = cr_factory r0 \<and> cr_channel r = cr_channel r0 \<and>
     cr_batch r = cr_batch r0 \<and> staffed sy eval args h n r \<and>
     ha_topic args \<in> set (router_topics (cr_world r)) \<and>
     (\<forall>t. t \<noteq> ha_topic args \<longrightarrow> hm_get (cr_topics r) t = hm_get (cr_topics r0) t) \<and>
     (\<exists>pre ms. link_items (w_fabric (cr_world r)) = pre @ ms \<and> length ms = n \<and>
        (\<forall>m \<in> set ms. msg_topic m = SYSTEM_TOPIC_WORKER_DISCOVERY))"

lemma staffed_added:
  assumes "staffed sy eval args h n r" and "hired sy eval args h wk"
    and "hm_get (cr_topics r) (ha_topic args) = Some e"
  shows "staffed sy eval args h (Suc n) (added (ha_topic args) e wk ch w r)"
  using assms unfolding staffed_def by (auto simp: added_def Let_def hm_simps)

lemma hiring_step:
  assumes g: "hiring sy eval args h r0 n r" and "\<not> starts_with (ha_topic args) ''_system.''"
  shows "\<exists>r'. handler_worker sy eval args h r = (Ret (Inr ()), r') \<and> hiring sy eval args h r0 (Suc n) r'"
proof -
  let ?t = "ha_topic args" and ?p = "pipeline_code sy eval (ha_middleware args) h"
  let ?d = "map_option (\<lambda>t. from_secs (unat t)) (ha_timeout args)"
  let ?s = "map_option (\<lambda>t. from_secs (unat t)) (ha_shutdown_timeout args)"
  let ?c = "map_option (\<lambda>t. from_millis (unat t)) (ha_shutdown_check_interval args)"
  have ready: "env_ready flume_producer open_link memory_wal mw_inv (cr_world r)" and st: "staffed sy eval args h n r"
    using g by (simp_all add: hiring_def)
  obtain e where e: "hm_get (cr_topics r) ?t = Some e" using st by (auto simp: staffed_def)
  obtain ch where ch: "cr_channel r (cr_batch r * 4) = Ret ch" using g by (auto simp: hiring_def)
  let ?i = "case ?c of Some x \<Rightarrow> x | None \<Rightarrow> from_millis 50"
  obtain wk a where wk: "worker_new ?t ?p (te_producer e) ?d ?i ?s (cr_world r) = (Ret wk, (cr_world r)\<lparr>w_amb := a\<rparr>)"
      "wk_topic wk = ?t" "wk_pipeline wk = ?p" "wk_time_out wk = ?d" "wk_check_interval wk = ?i" "wk_shutdown_timeout wk = ?s"
    by (rule worker_new_fields)
  have "hired sy eval args h wk"
    using wk(2-) by (simp add: hired_def pipeline_code_eq split: option.split)
  obtain a' f m where an: "announce_worker wk ((cr_world r)\<lparr>w_amb := a\<rparr>) = (Ret (), (cr_world r)\<lparr>w_amb := a', w_fabric := f\<rparr>)"
      "env_ready flume_producer open_link memory_wal mw_inv ((cr_world r)\<lparr>w_amb := a', w_fabric := f\<rparr>)"
      "link_items f = link_items (w_fabric (cr_world r)) @ [m]" "msg_topic m = SYSTEM_TOPIC_WORKER_DISCOVERY"
    using announce_ready [of "(cr_world r)\<lparr>w_amb := a\<rparr>" wk] ready wk(2) assms(2) by auto
  let ?r = "added ?t e wk ch ((cr_world r)\<lparr>w_amb := a', w_fabric := f\<rparr>) r"
  have "create_worker ?t ?p ?d ?s ?c r = (Ret (Inr (wk_name wk)), ?r)"
    using create_worker_eval [OF e wk(1) ch an(1)] by simp
  then have run: "handler_worker sy eval args h r = (Ret (Inr ()), ?r)"
    by (simp add: handler_worker_def bindQ_Inr ret_def)
  have "\<exists>pre ms. link_items f = pre @ ms \<and> length ms = Suc n \<and> (\<forall>m \<in> set ms. msg_topic m = SYSTEM_TOPIC_WORKER_DISCOVERY)"
  proof -
    obtain pre ms where "link_items (w_fabric (cr_world r)) = pre @ ms" "length ms = n"
        "\<forall>m \<in> set ms. msg_topic m = SYSTEM_TOPIC_WORKER_DISCOVERY"
      using g by (auto simp: hiring_def)
    then show ?thesis using an(3,4) by (intro exI [of _ pre] exI [of _ "ms @ [m]"]) auto
  qed
  moreover have "staffed sy eval args h (Suc n) ?r" by (rule staffed_added [OF st _ e]) fact
  ultimately have "hiring sy eval args h r0 (Suc n) ?r"
    using g an(2) ch unfolding hiring_def by (simp add: added_def Let_def hm_simps router_topics_def)
  with run show ?thesis by blast
qed

lemma hiring_loop:
  assumes "\<not> starts_with (ha_topic args) ''_system.''"
  shows "hiring sy eval args h r0 n r \<Longrightarrow> \<exists>r'. forQ (\<lambda>_. handler_worker sy eval args h) xs r = (Ret (Inr ()), r') \<and>
    hiring sy eval args h r0 (n + length xs) r'"
proof (induction xs arbitrary: n r)
  case Nil
  then show ?case by (auto simp: ret_def)
next
  case (Cons x xs)
  obtain r1 where r1: "handler_worker sy eval args h r = (Ret (Inr ()), r1)" "hiring sy eval args h r0 (Suc n) r1"
    using hiring_step [OF Cons.prems assms] by blast
  with Cons.IH [OF r1(2)] show ?case by (simp add: bindQ_Inr [where m = "handler_worker sy eval args h", OF r1(1)])
qed

lemma ready_with_topics: "env_ready pdr pinv ops winv w \<Longrightarrow> env_ready pdr pinv ops winv (with_topics ts w)"
  by (auto simp: with_topics_def env_ready_def router_ready_def registry_ready_def split: option.splits)

lemma register_handler_staffs:
  fixes r :: "('q link, mem_wal, 'k, 'p) consumer_router"
  assumes "env_ready flume_producer open_link memory_wal mw_inv (cr_world r)" and "open_factory open_link r"
    and "hm_get (cr_topics r) (ha_topic args) = None" and "\<not> starts_with (ha_topic args) ''_system.''"
  shows "\<exists>r'. register_handler sy eval args h tx r = (Ret (Inr ()), r') \<and>
    hiring sy eval args h r (unat (ha_workers args)) r'"
proof -
  let ?t = "ha_topic args"
  obtain p k f where q: "cr_factory r ?t (cr_world r) = (Ret (Inr (p, k)), (cr_world r)\<lparr>w_fabric := f\<rparr>)" "open_link f"
    using assms(1,2) unfolding open_factory_def env_ready_def by metis
  let ?w = "(cr_world r)\<lparr>w_fabric := f\<rparr>"
  let ?r = "r\<lparr>cr_world := ?w, cr_topics := hm_insert ?t
    \<lparr>te_producer = p, te_consumer_factory = k, te_handler = h, te_pipeline = None, te_workers = []\<rparr> (cr_topics r)\<rparr>"
  have reg: "cr_register ?t h r = (Ret (Inr ()), ?r)"
    using q(1) assms(3) by (simp add: cr_register_def in_world_def bindA_def bindQ_def outcome_simps)
  have ready: "env_ready flume_producer open_link memory_wal mw_inv ?w" using assms(1) q(2) by simp
  have some: "w_router ?w \<noteq> None" using ready by (auto simp: env_ready_def router_ready_def split: option.splits)
  define ts where "ts = (if ?t \<in> set (router_topics ?w) then router_topics ?w else router_topics ?w @ [?t])"
  let ?r1 = "?r\<lparr>cr_world := with_topics ts ?w\<rparr>"
  have top: "in_world (register_topic ?t) ?r = (Ret (), ?r1)"
    using register_topic_eval [OF some, of ?t] by (simp add: in_world_def ts_def)
  have "hiring sy eval args h r 0 ?r1"
    using ready_with_topics [OF ready, of ts] some assms(2)
    by (auto simp: hiring_def staffed_def open_factory_def ts_def)
  from hiring_loop [OF assms(4) this, of "[0..<unat (ha_workers args)]"] show ?thesis
    unfolding register_handler_def bindQ_Inr [where m = "cr_register ?t h", OF reg]
      bindA_Ret [where m = "in_world (register_topic ?t)", OF top] by simp
qed


text \<open>A handler for \<^verbatim>\<open>jobs\<close> with two workers and a logger.\<close>

definition jobs_args :: "string handler_args" where
  "jobs_args = \<lparr>ha_topic = ''jobs'', ha_workers = 2, ha_timeout = Some 30, ha_shutdown_timeout = None,
     ha_shutdown_check_interval = None, ha_middleware = Some ''Logger''\<rparr>"

lemma jobs_args_new:
  "env_ready flume_producer open_link memory_wal mw_inv (cr_world (nd_router (fresh_node calm_world)))"
  "open_factory open_link (nd_router (fresh_node calm_world))"
  "hm_get (cr_topics (nd_router (fresh_node calm_world))) (ha_topic jobs_args) = None"
  "\<not> starts_with (ha_topic jobs_args) ''_system.''"
  using calm_ready(3) [OF calm_world_calm] by (simp_all add: jobs_args_def)


text \<open>C30: middlewares do not run on scaled-out messages. After the registration above, which never
  stores the pipeline with \<^verbatim>\<open>set_pipeline\<close>, the one-shot worker that the router starts for a message
  when no worker is idle runs the bare handler, whatever middlewares the attribute names; the
  workers of the topic run them.\<close>

theorem ephemeral_worker_skips_middleware:
  fixes r :: "('q link, mem_wal, 'k, 'p) consumer_router"
  assumes "env_ready flume_producer open_link memory_wal mw_inv (cr_world r)" and "open_factory open_link r"
    and "hm_get (cr_topics r) (ha_topic args) = None" and "\<not> starts_with (ha_topic args) ''_system.''"
  shows "\<exists>r' r'' wk. register_handler sy eval args h tx r = (Ret (Inr ()), r') \<and>
    create_ephemeral_worker (ha_topic args) msg r' = (Ret (Inr ()), r'') \<and>
    cr_tasks r'' = cr_tasks r' @ [(OneShot wk msg, True)] \<and> pipeline_run (wk_pipeline wk) = call_handler h \<and>
    (\<forall>name \<in> set (te_workers (the (hm_get (cr_topics r') (ha_topic args)))). \<exists>wk hd.
       hm_get (cr_index r') name = Some (wk, hd) \<and> pipeline_run (wk_pipeline wk) =
         foldr (\<lambda>mw next. mw next) (map eval (named_middlewares sy (ha_middleware args))) (call_handler h))"
proof -
  obtain r' where r': "register_handler sy eval args h tx r = (Ret (Inr ()), r')"
      "hiring sy eval args h r (unat (ha_workers args)) r'"
    using register_handler_staffs [OF assms, of sy eval h tx] by blast
  obtain e where e: "hm_get (cr_topics r') (ha_topic args) = Some e" "te_handler e = h" "te_pipeline e = None"
      "\<forall>name \<in> set (te_workers e). \<exists>wk hd. hm_get (cr_index r') name = Some (wk, hd) \<and> hired sy eval args h wk"
    using r'(2) by (auto simp: hiring_def staffed_def)
  obtain wk a where wk: "worker_new (ha_topic args) (pipeline_from_arc h) (te_producer e) None (from_millis 50) None
      (cr_world r') = (Ret wk, (cr_world r')\<lparr>w_amb := a\<rparr>)" "wk_pipeline wk = pipeline_from_arc h"
    by (rule worker_new_fields)
  let ?r = "r'\<lparr>cr_world := (cr_world r')\<lparr>w_amb := a\<rparr>, cr_tasks := cr_tasks r' @ [(OneShot wk msg, True)]\<rparr>"
  have "create_ephemeral_worker (ha_topic args) msg r' = (Ret (Inr ()), ?r)"
    using e(1-3) wk(1) by (simp add: create_ephemeral_worker_def get_entry_def in_world_def spawn_def bindA_def bindQ_def outcome_simps)
  moreover have "pipeline_run (wk_pipeline wk) = call_handler h"
    by (simp add: wk(2) pipeline_from_arc_def pipeline_run_def next_run_at_end)
  moreover have "pipeline_run (wk_pipeline w) =
      foldr (\<lambda>mw next. mw next) (map eval (named_middlewares sy (ha_middleware args))) (call_handler h)"
    if "hired sy eval args h w" for w
    using that by (simp add: hired_def pipeline_run_def next_run_nested)
  moreover have "\<forall>name \<in> set (te_workers (the (hm_get (cr_topics r') (ha_topic args)))). \<exists>wk hd.
       hm_get (cr_index r') name = Some (wk, hd) \<and> pipeline_run (wk_pipeline wk) =
         foldr (\<lambda>mw next. mw next) (map eval (named_middlewares sy (ha_middleware args))) (call_handler h)"
    using e(1,4) calculation(3) by fastforce
  ultimately show ?thesis using r'(1) by (intro exI [of _ r'] exI [of _ ?r] exI [of _ wk] conjI) simp_all
qed

theorem ephemeral_worker_skips_middleware_witness:
  "\<exists>r' r'' wk. register_handler token_syn (\<lambda>_ _. ret (NoAck None 1)) jobs_args (\<lambda>m. ret Ack) ()
      (nd_router (fresh_node calm_world)) = (Ret (Inr ()), r') \<and>
    create_ephemeral_worker ''jobs'' (emessage_default 0) r' = (Ret (Inr ()), r'') \<and> last (cr_tasks r'') = (OneShot wk (emessage_default 0), True) \<and>
    pipeline_run (wk_pipeline wk) = call_handler (\<lambda>m. ret Ack)"
  using ephemeral_worker_skips_middleware [OF jobs_args_new, of token_syn "\<lambda>_ _. ret (NoAck None 1)" "\<lambda>m. ret Ack" "()" "emessage_default 0"]
  by (auto simp: jobs_args_def)


section \<open>The handlers of a program\<close>

lemma register_handler_loads:
  fixes r :: "('q link, mem_wal, 'k, 'p) consumer_router"
  assumes "env_ready flume_producer open_link memory_wal mw_inv (cr_world r)" and "open_factory open_link r"
    and "topic_load r (ha_topic args) = None" and "\<not> is_system_topic (ha_topic args)"
  shows "\<exists>r'. register_handler sy eval args h tx r = (Ret (Inr ()), r') \<and>
    env_ready flume_producer open_link memory_wal mw_inv (cr_world r') \<and> open_factory open_link r' \<and>
    topic_load r' = (topic_load r)(ha_topic args \<mapsto> (h, unat (ha_workers args)))"
proof -
  have "hm_get (cr_topics r) (ha_topic args) = None" "\<not> starts_with (ha_topic args) ''_system.''"
    using assms(3,4) by (simp_all add: topic_load_def is_system_topic_def)
  from register_handler_staffs [OF assms(1,2) this, of sy eval h tx] obtain r' where
    r': "register_handler sy eval args h tx r = (Ret (Inr ()), r')" "hiring sy eval args h r (unat (ha_workers args)) r'"
    by blast
  have "topic_load r' t = ((topic_load r)(ha_topic args \<mapsto> (h, unat (ha_workers args)))) t" for t
    using r'(2) by (auto simp: hiring_def staffed_def topic_load_def)
  moreover have "open_factory open_link r'" using r'(2) assms(2) by (simp add: hiring_def open_factory_def)
  ultimately show ?thesis using r' by (auto simp: hiring_def)
qed

definition declared_load :: "('e handler_args \<times> 's ehandler) list \<Rightarrow> string \<rightharpoonup> ('s ehandler \<times> nat)" where
  "declared_load ds = map_of (map (\<lambda>(a, h). (ha_topic a, (h, unat (ha_workers a)))) ds)"

lemma handlers_load:
  fixes r :: "('q link, mem_wal, 'k, 'p) consumer_router"
  assumes "env_ready flume_producer open_link memory_wal mw_inv (cr_world r)" and "open_factory open_link r"
    and "distinct (map (\<lambda>(a, h). ha_topic a) ds)"
    and "\<forall>(a, h) \<in> set ds. topic_load r (ha_topic a) = None \<and> \<not> is_system_topic (ha_topic a)"
  shows "\<exists>r'. register_all_handlers (map (\<lambda>(a, h). register_handler sy eval a h) ds) tx r = (Ret (Inr ()), r') \<and>
    env_ready flume_producer open_link memory_wal mw_inv (cr_world r') \<and> topic_load r' = topic_load r ++ declared_load ds"
  using assms
proof (induction ds arbitrary: r)
  case Nil
  then show ?case by (simp add: register_all_handlers_def declared_load_def ret_def)
next
  case (Cons d ds)
  obtain a h where d: "d = (a, h)" by (cases d)
  obtain r1 where r1: "register_handler sy eval a h tx r = (Ret (Inr ()), r1)"
      "env_ready flume_producer open_link memory_wal mw_inv (cr_world r1)" "open_factory open_link r1"
      "topic_load r1 = (topic_load r)(ha_topic a \<mapsto> (h, unat (ha_workers a)))"
    using register_handler_loads [OF Cons.prems(1,2), of a sy eval h tx] Cons.prems(4) d by auto
  have new: "\<forall>(b, k) \<in> set ds. topic_load r1 (ha_topic b) = None \<and> \<not> is_system_topic (ha_topic b)"
  proof (clarify, intro conjI)
    fix b k assume b: "(b, k) \<in> set ds"
    then have "ha_topic b \<noteq> ha_topic a" using Cons.prems(3) d by force
    moreover have "topic_load r (ha_topic b) = None \<and> \<not> is_system_topic (ha_topic b)" using Cons.prems(4) b by auto
    ultimately show "topic_load r1 (ha_topic b) = None" "\<not> is_system_topic (ha_topic b)" by (simp_all add: r1(4))
  qed
  have dist: "distinct (map (\<lambda>(a, h). ha_topic a) ds)" "ha_topic a \<notin> fst ` set (map (\<lambda>(a, h). (ha_topic a, (h, unat (ha_workers a)))) ds)"
    using Cons.prems(3) d by force+
  obtain r' where r': "register_all_handlers (map (\<lambda>(a, h). register_handler sy eval a h) ds) tx r1 = (Ret (Inr ()), r')"
      "env_ready flume_producer open_link memory_wal mw_inv (cr_world r')" "topic_load r' = topic_load r1 ++ declared_load ds"
    using Cons.IH [OF r1(2,3) dist(1) new] by blast
  have "declared_load ds (ha_topic a) = None" using dist(2) by (simp only: declared_load_def map_of_eq_None_iff not_False_eq_True)
  then have "topic_load r' = topic_load r ++ declared_load (d # ds)"
    by (intro ext) (simp add: r'(3) r1(4) d declared_load_def map_add_def split: option.split)
  moreover have "register_all_handlers (map (\<lambda>(a, h). register_handler sy eval a h) (d # ds)) tx r = (Ret (Inr ()), r')"
    using r'(1) r1(1) by (simp add: register_all_handlers_def d bindQ_def bindA_def)
  ultimately show ?case using r'(2) by blast
qed

lemma declared_entries_ok:
  fixes ds :: "('e handler_args \<times> ('q link, mem_wal) world ehandler) list"
    and entries :: "('x \<Rightarrow> (('q link, mem_wal, 'k, 'p) consumer_router, unit result) act) list"
  assumes "distinct (map (\<lambda>(a, h). ha_topic a) ds)" and "\<forall>(a, h) \<in> set ds. \<not> is_system_topic (ha_topic a)"
    and "entries = map (\<lambda>(a, h). register_handler sy eval a h) ds"
  shows "entries_ok (declared_load ds) entries tx"
  unfolding entries_ok_def
proof (intro allI impI)
  fix r :: "('q link, mem_wal, 'k, 'p) consumer_router"
  assume r: "env_ready flume_producer open_link memory_wal mw_inv (cr_world r) \<and> open_factory open_link r \<and>
    (\<forall>t. \<not> is_system_topic t \<longrightarrow> topic_load r t = None)"
  have user: "declared_load ds t = None" if "is_system_topic t" for t
  proof -
    have "t \<notin> fst ` set (map (\<lambda>(a, h). (ha_topic a, (h, unat (ha_workers a)))) ds)" using that assms(2) by auto
    then show ?thesis by (simp only: declared_load_def map_of_eq_None_iff not_False_eq_True)
  qed
  have "\<forall>(a, h) \<in> set ds. topic_load r (ha_topic a) = None \<and> \<not> is_system_topic (ha_topic a)" using assms(2) r by auto
  from handlers_load [OF conjunct1 [OF r] conjunct1 [OF conjunct2 [OF r]] assms(1) this, of sy eval tx] obtain r' where
    r': "register_all_handlers entries tx r = (Ret (Inr ()), r')"
      "env_ready flume_producer open_link memory_wal mw_inv (cr_world r')" "topic_load r' = topic_load r ++ declared_load ds"
    unfolding assms(3) by blast
  have "\<forall>t. topic_load r' t = (if is_system_topic t then topic_load r t else declared_load ds t)"
    using r user by (simp add: r'(3) map_add_def split: option.splits)
  with r'(1,2) show "\<exists>r'. register_all_handlers entries tx r = (Ret (Inr ()), r') \<and>
     env_ready flume_producer open_link memory_wal mw_inv (cr_world r') \<and>
     (\<forall>t. topic_load r' t = (if is_system_topic t then topic_load r t else declared_load ds t))" by blast
qed

end
