(* ===== verification/Trace_Layer.thy ===== *)
theory Trace_Layer
  imports Control_Plane
begin

text \<open>
  The layer that turns tracing spans and events into messages (\<^verbatim>\<open>event_base_core/src/trace_layer.rs\<close>). The
  \<^verbatim>\<open>tracing\<close> crates keep the spans and call the layer; a span is here its metadata with the one
  extension the layer puts on it. What is third-party is an argument: the serialised form of
  attributes and events (\<open>at_value\<close>, \<open>ev_value\<close>), how a JSON value is read as an object (\<open>obj\<close>), what
  a field displays as, the JSON codec of the record, and whether a runtime is there to spawn on. A
  spawned send is a task, run by \<open>run_trace_task\<close>.
\<close>

section \<open>Definitions\<close>

datatype level = LevelError | LevelWarn | LevelInfo | LevelDebug | LevelTrace

record 'v attributes =
  at_fields :: "(string \<times> string) list"
  at_value :: "string + 'v"

record 'v event =
  ev_name :: string
  ev_target :: string
  ev_level :: level
  ev_value :: "string + 'v"

record 'j span =
  sp_name :: string
  sp_target :: string
  sp_parent :: "u64 option"
  sp_record :: "'j trace_record option"

datatype trace_task = ProducerSend emessage | RouterSend emessage

record ('f, 'w, 'j) tracing =
  tg_world :: "('f, 'w) world"
  tg_spans :: "(u64, 'j span) hashmap"
  tg_tasks :: "trace_task list"

definition in_tracing :: "(('f, 'w) world, 'a) act \<Rightarrow> (('f, 'w, 'j) tracing, 'a) act" where
  "in_tracing m g = (case m (tg_world g) of (x, w) \<Rightarrow> (x, g\<lparr>tg_world := w\<rparr>))"

definition spawn_if_runtime :: "bool \<Rightarrow> trace_task \<Rightarrow> (('f, 'w, 'j) tracing, unit) act" where
  "spawn_if_runtime runtime t = (if runtime then putA (\<lambda>g. g\<lparr>tg_tasks := tg_tasks g @ [t]\<rparr>) else ret ())"

definition the_span :: "u64 \<Rightarrow> (('f, 'w, 'j) tracing, 'j span) act" where
  "the_span i = bindA (getA (\<lambda>g. hm_get (tg_spans g) i)) (\<lambda>s. case s of
       None \<Rightarrow> halt ''called `Option::unwrap()` on a `None` value''
     | Some span \<Rightarrow> ret span)"

definition set_record :: "u64 \<Rightarrow> 'j trace_record option \<Rightarrow> (('f, 'w, 'j) tracing, unit) act" where
  "set_record i rec = putA (\<lambda>g. g\<lparr>tg_spans := hm_modify (\<lambda>s. s\<lparr>sp_record := rec\<rparr>) i (tg_spans g)\<rparr>)"

text \<open>The members of an object, and none of what is no object or could not be serialised.\<close>

definition object_fields :: "('v \<Rightarrow> (string, 'j) hashmap option) \<Rightarrow> string + 'v \<Rightarrow> (string, 'j) hashmap" where
  "object_fields obj v = (case v of Inl _ \<Rightarrow> [] | Inr x \<Rightarrow> (case obj x of Some members \<Rightarrow> members | None \<Rightarrow> []))"

definition attribute_trace_id :: "'v attributes \<Rightarrow> string option" where
  "attribute_trace_id attrs = map_option snd (find (\<lambda>x. fst x = ''trace_id'') (at_fields attrs))"

definition on_new_span :: "('v \<Rightarrow> (string, 'j) hashmap option) \<Rightarrow> 'v attributes \<Rightarrow> u64
    \<Rightarrow> (('f, 'w, 'j) tracing, unit) act" where
  "on_new_span obj attrs i =
     bindA (the_span i) (\<lambda>span.
     bindA (in_tracing time_now) (\<lambda>now.
     let rec = \<lparr>tc_trace_id = attribute_trace_id attrs, tc_span_id = show_nat (unat i),
       tc_parent_span_id = map_option (\<lambda>p. show_nat (unat p)) (sp_parent span), tc_name = sp_name span,
       tc_target = sp_target span, tc_level = TraceInfo, tc_fields = object_fields obj (at_value attrs),
       tc_started_at = Some now, tc_finished_at = None, tc_duration = None, tc_message_id = None,
       tc_worker_id = None, tc_topic = None\<rparr> in
     bindA (set_record i (Some rec)) (\<lambda>_.
     if sp_record span = None then ret () else halt ''assertion failed: self.replace(val).is_none()'')))"

fun record_level :: "level \<Rightarrow> trace_level" where
  "record_level LevelError = TraceError"
| "record_level LevelWarn = TraceWarn"
| "record_level LevelInfo = TraceInfo"
| "record_level LevelDebug = TraceDebug"
| "record_level LevelTrace = TraceTrace"

definition trace_message :: "'j trace_record codec \<Rightarrow> 'j trace_record \<Rightarrow> (('f, 'w, 'j) tracing, emessage) act" where
  "trace_message json rec = (case cd_enc json rec of
       Inl _ \<Rightarrow> halt ''called `Result::unwrap()` on an `Err` value''
     | Inr b \<Rightarrow> in_tracing (make_message SYSTEM_TOPIC_TRACE b Standard None))"

definition on_event :: "('v \<Rightarrow> (string, 'j) hashmap option) \<Rightarrow> 'j trace_record codec \<Rightarrow> bool \<Rightarrow> 'v event
    \<Rightarrow> (('f, 'w, 'j) tracing, unit) act" where
  "on_event obj json runtime event =
     bindA (in_tracing time_now) (\<lambda>started.
     bindA (in_tracing time_now) (\<lambda>finished.
     bindA (trace_message json \<lparr>tc_trace_id = None, tc_span_id = [], tc_parent_span_id = None,
       tc_name = ev_name event, tc_target = ev_target event, tc_level = record_level (ev_level event),
       tc_fields = object_fields obj (ev_value event), tc_started_at = Some started, tc_finished_at = Some finished,
       tc_duration = None, tc_message_id = None, tc_worker_id = None, tc_topic = None\<rparr>) (\<lambda>msg.
     spawn_if_runtime runtime (ProducerSend msg))))"

text \<open>\<^verbatim>\<open>elapsed\<close> reads the clock again, and gives no time when the clock has gone back.\<close>

definition on_close :: "'j trace_record codec \<Rightarrow> bool \<Rightarrow> u64 \<Rightarrow> (('f, 'w, 'j) tracing, unit) act" where
  "on_close json runtime i =
     bindA (the_span i) (\<lambda>span. case sp_record span of
         None \<Rightarrow> ret ()
       | Some rec \<Rightarrow>
           bindA (set_record i None) (\<lambda>_.
           bindA (in_tracing time_now) (\<lambda>finished.
           bindA (case tc_started_at rec of
               None \<Rightarrow> ret (rec\<lparr>tc_finished_at := Some finished\<rparr>)
             | Some start \<Rightarrow> bindA (in_tracing time_now) (\<lambda>now.
                 ret (rec\<lparr>tc_finished_at := Some finished, tc_duration := Some (nat (now - start))\<rparr>))) (\<lambda>rec.
           bindA (trace_message json rec) (\<lambda>msg.
           spawn_if_runtime runtime (RouterSend msg))))))"

definition run_trace_task :: "'f eproducer \<Rightarrow> trace_task \<Rightarrow> (('f, 'w) world, unit) act" where
  "run_trace_task producer t = (case t of
       ProducerSend msg \<Rightarrow> bindA (on_fabric (ep_try_send producer msg)) (\<lambda>_. ret ())
     | RouterSend msg \<Rightarrow> bindA (topic_send SYSTEM_TOPIC_TRACE msg None None) (\<lambda>_. ret ()))"


section \<open>One operation each\<close>

lemma trace_message_eval:
  assumes "cd_enc json rec = Inr b"
  shows "\<exists>m a. trace_message json rec g = (Ret m, g\<lparr>tg_world := (tg_world g)\<lparr>w_amb := a\<rparr>\<rparr>) \<and>
    msg_topic m = SYSTEM_TOPIC_TRACE \<and> payload m = b \<and> deliver_at m = None \<and> delivery_mode m = Standard"
  using assms by (auto simp: trace_message_def in_tracing_def make_message_def bindA_def outcome_simps emessage_new_def)

lemma trace_task_sends:
  fixes w :: "('q link, mem_wal) world"
  assumes "env_ready flume_producer open_link memory_wal mw_inv w"
    and "msg_topic m = SYSTEM_TOPIC_TRACE" "deliver_at m = None" "delivery_mode m = Standard"
  shows "t \<in> {ProducerSend m, RouterSend m} \<Longrightarrow> \<exists>f. run_trace_task flume_producer t w = (Ret (), w\<lparr>w_fabric := f\<rparr>) \<and>
    link_items f = link_items (w_fabric w) @ [m]"
proof -
  assume t: "t \<in> {ProducerSend m, RouterSend m}"
  have r: "router_ready flume_producer w" "open_link (w_fabric w)" using assms(1) by (simp_all add: env_ready_def)
  have same: "m\<lparr>msg_topic := SYSTEM_TOPIC_TRACE\<rparr> = m" using assms(2) by (cases m) simp
  obtain f where f: "emit m None None w = (Ret (Inr ()), w\<lparr>w_fabric := f\<rparr>)" "link_items f = link_items (w_fabric w) @ [m]"
    using open_flume_memory.emit_open [OF r, of m None None] by auto
  obtain f' where f': "emit m (Some True) None w = (Ret (Inr ()), w\<lparr>w_fabric := f'\<rparr>)"
      "link_items f' = link_items (w_fabric w) @ [m]"
    using open_flume_memory.emit_open [OF r, of m "Some True" None] by auto
  have "emit m (Some True) None w = on_fabric (ep_try_send flume_producer m) w"
    using r(1) by (auto simp: emit_def the_router_def router_ready_def bindA_def outcome_simps split: option.splits)
  with t f f' show ?thesis
    by (auto simp: run_trace_task_def bindA_def ret_def send_plain assms(3,4) same)
qed


section \<open>A span from its opening to the collectors\<close>

definition opened :: "('v \<Rightarrow> (string, 'j) hashmap option) \<Rightarrow> 'v attributes \<Rightarrow> u64 \<Rightarrow> 'j span \<Rightarrow> time \<Rightarrow> 'j trace_record" where
  "opened obj attrs i span t =
     \<lparr>tc_trace_id = attribute_trace_id attrs, tc_span_id = show_nat (unat i),
      tc_parent_span_id = map_option (\<lambda>p. show_nat (unat p)) (sp_parent span), tc_name = sp_name span,
      tc_target = sp_target span, tc_level = TraceInfo, tc_fields = object_fields obj (at_value attrs),
      tc_started_at = Some t, tc_finished_at = None, tc_duration = None, tc_message_id = None,
      tc_worker_id = None, tc_topic = None\<rparr>"

lemma on_new_span_eval:
  assumes "hm_get (tg_spans g) i = Some span" and "sp_record span = None"
  shows "on_new_span obj attrs i g = (Ret (), g\<lparr>tg_world := (tg_world g)\<lparr>w_amb := snd (read_clock (w_amb (tg_world g)))\<rparr>,
    tg_spans := hm_modify (\<lambda>s. s\<lparr>sp_record :=
      Some (opened obj attrs i span (fst (read_clock (w_amb (tg_world g)))))\<rparr>) i (tg_spans g)\<rparr>)"
  using assms
  by (simp add: on_new_span_def the_span_def set_record_def in_tracing_def time_now_def opened_def bindA_def
      outcome_simps Let_def read_clock_def)

lemma on_close_eval:
  assumes "hm_get (tg_spans g) i = Some span" and "sp_record span = Some rec" and "tc_started_at rec = Some start"
    and "\<forall>x. is_ok (cd_enc json x)" and "runtime"
  shows "\<exists>m a t u. on_close json runtime i g = (Ret (), g\<lparr>tg_world := (tg_world g)\<lparr>w_amb := a\<rparr>,
      tg_spans := hm_modify (\<lambda>s. s\<lparr>sp_record := None\<rparr>) i (tg_spans g), tg_tasks := tg_tasks g @ [RouterSend m]\<rparr>) \<and>
    msg_topic m = SYSTEM_TOPIC_TRACE \<and> deliver_at m = None \<and> delivery_mode m = Standard \<and>
    t = clock_src (w_amb (tg_world g)) (clock_next (w_amb (tg_world g))) \<and>
    u = clock_src (w_amb (tg_world g)) (Suc (clock_next (w_amb (tg_world g)))) \<and>
    cd_enc json (rec\<lparr>tc_finished_at := Some t, tc_duration := Some (nat (u - start))\<rparr>) = Inr (payload m)"
proof -
  let ?a = "w_amb (tg_world g)"
  let ?t = "clock_src ?a (clock_next ?a)" and ?u = "clock_src ?a (Suc (clock_next ?a))"
  let ?rec = "rec\<lparr>tc_finished_at := Some ?t, tc_duration := Some (nat (?u - start))\<rparr>"
  let ?g = "g\<lparr>tg_world := (tg_world g)\<lparr>w_amb := snd (read_clock (snd (read_clock ?a)))\<rparr>,
    tg_spans := hm_modify (\<lambda>s. s\<lparr>sp_record := None\<rparr>) i (tg_spans g)\<rparr>"
  obtain b where b: "cd_enc json ?rec = Inr b" using assms(4) by (cases "cd_enc json ?rec") (auto simp: is_ok_def dest: spec [of _ ?rec])
  obtain m a where m: "trace_message json ?rec ?g = (Ret m, ?g\<lparr>tg_world := (tg_world ?g)\<lparr>w_amb := a\<rparr>\<rparr>)"
      "msg_topic m = SYSTEM_TOPIC_TRACE" "payload m = b" "deliver_at m = None" "delivery_mode m = Standard"
    using trace_message_eval [OF b, of ?g] by blast
  have "on_close json runtime i g =
      bindA (trace_message json ?rec) (\<lambda>msg. spawn_if_runtime runtime (RouterSend msg)) ?g"
    using assms(1-3)
    by (cases g) (simp add: on_close_def the_span_def set_record_def in_tracing_def time_now_def read_clock_def bindA_def outcome_simps)
  also have "\<dots> = (Ret (), ?g\<lparr>tg_world := (tg_world ?g)\<lparr>w_amb := a\<rparr>, tg_tasks := tg_tasks g @ [RouterSend m]\<rparr>)"
    unfolding bindA_Ret [where m = "trace_message json ?rec", OF m(1)] using assms(5)
    by (simp add: spawn_if_runtime_def putA_def)
  finally show ?thesis using m(2-) b by (intro exI [of _ m] exI [of _ a] exI [of _ ?t] exI [of _ ?u]) simp
qed

text \<open>C32: a traced span is reported once and whole. Let a span be opened, anything happen to other spans
  and to the world, and the span be closed while a runtime is there. Then one send is
  spawned; run over a queue that accepts messages it leaves exactly one message more, on the trace topic,
  and the node that handles that message hands its collectors a record with the span's number, parent,
  name, target and fields, the clock at its opening, the clock at its closing and the time
  between them. Closing the span again sends nothing.\<close>

theorem trace_span_reported:
  fixes g h :: "('q link, mem_wal, 'j) tracing"
  assumes "hm_get (tg_spans g) i = Some span" and "sp_record span = None"
    and "codec_ok json" and "\<forall>x. is_ok (cd_enc json x)"
    and "on_new_span obj attrs i g = (y, g')" and "hm_get (tg_spans h) i = hm_get (tg_spans g') i"
    and "env_ready flume_producer open_link memory_wal mw_inv (tg_world h)"
  shows "\<exists>m h' f t u rec. y = Ret () \<and> on_close json True i h = (Ret (), h') \<and> tg_tasks h' = tg_tasks h @ [RouterSend m] \<and>
    run_trace_task flume_producer (RouterSend m) (tg_world h') = (Ret (), (tg_world h')\<lparr>w_fabric := f\<rparr>) \<and>
    link_items f = link_items (w_fabric (tg_world h)) @ [m] \<and> msg_topic m = SYSTEM_TOPIC_TRACE \<and>
    system_trace_handler json collectors m = bindA (forA (\<lambda>c. c rec) collectors) (\<lambda>_. ret Ack) \<and>
    rec = (opened obj attrs i span (clock_src (w_amb (tg_world g)) (clock_next (w_amb (tg_world g)))))
      \<lparr>tc_finished_at := Some t,
       tc_duration := Some (nat (u - clock_src (w_amb (tg_world g)) (clock_next (w_amb (tg_world g)))))\<rparr> \<and>
    t = clock_src (w_amb (tg_world h)) (clock_next (w_amb (tg_world h))) \<and>
    u = clock_src (w_amb (tg_world h)) (Suc (clock_next (w_amb (tg_world h)))) \<and>
    on_close json True i h' = (Ret (), h')"
proof -
  let ?s = "clock_src (w_amb (tg_world g)) (clock_next (w_amb (tg_world g)))"
  let ?rec = "opened obj attrs i span ?s"
  from on_new_span_eval [OF assms(1,2), of obj attrs] assms(5)
  have y: "y = Ret ()" and "hm_get (tg_spans g') i = Some (span\<lparr>sp_record := Some ?rec\<rparr>)"
    using assms(1) by (auto simp: hm_simps read_clock_def)
  with assms(6) have h: "hm_get (tg_spans h) i = Some (span\<lparr>sp_record := Some ?rec\<rparr>)" by simp
  have o: "tc_started_at ?rec = Some ?s" by (simp add: opened_def)
  obtain m a t u where c: "on_close json True i h = (Ret (), h\<lparr>tg_world := (tg_world h)\<lparr>w_amb := a\<rparr>,
      tg_spans := hm_modify (\<lambda>s. s\<lparr>sp_record := None\<rparr>) i (tg_spans h), tg_tasks := tg_tasks h @ [RouterSend m]\<rparr>)"
    and m: "msg_topic m = SYSTEM_TOPIC_TRACE" "deliver_at m = None" "delivery_mode m = Standard"
    and t: "t = clock_src (w_amb (tg_world h)) (clock_next (w_amb (tg_world h)))"
      "u = clock_src (w_amb (tg_world h)) (Suc (clock_next (w_amb (tg_world h))))"
    and b: "cd_enc json (?rec\<lparr>tc_finished_at := Some t, tc_duration := Some (nat (u - ?s))\<rparr>) = Inr (payload m)"
    using on_close_eval [OF h _ o assms(4), of True] by auto
  let ?h = "h\<lparr>tg_world := (tg_world h)\<lparr>w_amb := a\<rparr>,
      tg_spans := hm_modify (\<lambda>s. s\<lparr>sp_record := None\<rparr>) i (tg_spans h), tg_tasks := tg_tasks h @ [RouterSend m]\<rparr>"
  have "env_ready flume_producer open_link memory_wal mw_inv (tg_world ?h)" using assms(7) by simp
  from trace_task_sends [OF this m, of "RouterSend m"] obtain f where
    f: "run_trace_task flume_producer (RouterSend m) (tg_world ?h) = (Ret (), (tg_world ?h)\<lparr>w_fabric := f\<rparr>)"
      "link_items f = link_items (w_fabric (tg_world h)) @ [m]" by auto
  have "system_trace_handler json collectors m =
      bindA (forA (\<lambda>c. c (?rec\<lparr>tc_finished_at := Some t, tc_duration := Some (nat (u - ?s))\<rparr>)) collectors) (\<lambda>_. ret Ack)"
    using assms(3) b by (simp add: system_trace_handler_def codec_ok_def)
  moreover have "on_close json True i ?h = (Ret (), ?h)"
    using h by (simp add: on_close_def the_span_def bindA_def outcome_simps hm_simps)
  ultimately show ?thesis using y c f m(1) t
    by (intro exI [of _ m] exI [of _ ?h] exI [of _ f] exI [of _ t] exI [of _ u]
        exI [of _ "?rec\<lparr>tc_finished_at := Some t, tc_duration := Some (nat (u - ?s))\<rparr>"] conjI) simp_all
qed

text \<open>A byte codec for records whose field values are strings, and a node with one span.\<close>

definition record_coder :: "string trace_record coder" where
  "record_coder = iso_coder
     (\<lambda>r. (tc_trace_id r, tc_span_id r, tc_parent_span_id r, tc_name r, tc_target r,
        (case tc_level r of TraceTrace \<Rightarrow> 0 | TraceDebug \<Rightarrow> 1 | TraceInfo \<Rightarrow> 2 | TraceWarn \<Rightarrow> 3 | TraceError \<Rightarrow> 4),
        tc_fields r, tc_started_at r, tc_finished_at r, tc_duration r, tc_message_id r, tc_worker_id r, tc_topic r))
     (\<lambda>(a, b, c, d, e, l, f, s, t, u, m, w, p). \<lparr>tc_trace_id = a, tc_span_id = b, tc_parent_span_id = c, tc_name = d,
        tc_target = e, tc_level = (if l = 0 then TraceTrace else if l = 1 then TraceDebug else if l = 2 then TraceInfo
          else if l = 3 then TraceWarn else TraceError),
        tc_fields = f, tc_started_at = s, tc_finished_at = t, tc_duration = u, tc_message_id = m, tc_worker_id = w,
        tc_topic = p\<rparr>)
     (let o_s = option_coder string_coder; o_t = option_coder time_coder in
      pair_coder o_s (pair_coder string_coder (pair_coder o_s (pair_coder string_coder (pair_coder string_coder
      (pair_coder nat_coder (pair_coder (list_coder (pair_coder string_coder string_coder))
      (pair_coder o_t (pair_coder o_t (pair_coder (option_coder nat_coder) (pair_coder o_s (pair_coder o_s o_s))))))))))))"

lemma record_coder_ok: "coder_ok record_coder"
  by (auto simp: record_coder_def Let_def intro!: coder_ok_iso split: trace_level.splits)

definition one_span :: "(emessage list link, mem_wal, string) tracing" where
  "one_span = \<lparr>tg_world = calm_world,
     tg_spans = [(7, \<lparr>sp_name = ''load'', sp_target = ''app'', sp_parent = None, sp_record = None\<rparr>)], tg_tasks = []\<rparr>"

definition load_attrs :: "(string, string) hashmap attributes" where
  "load_attrs = \<lparr>at_fields = [(''user'', ''user''), (''trace_id'', ''trace_id'')],
     at_value = Inr [(''user'', ''ada''), (''trace_id'', ''4bf9'')]\<rparr>"

theorem trace_span_reported_witness:
  "\<exists>g' m h'. on_new_span Some load_attrs 7 one_span = (Ret (), g') \<and>
    on_close (codec_of record_coder) True 7 g' = (Ret (), h') \<and> tg_tasks h' = [RouterSend m] \<and>
    msg_topic m = SYSTEM_TOPIC_TRACE"
proof -
  let ?span = "\<lparr>sp_name = ''load'', sp_target = ''app'', sp_parent = None, sp_record = None\<rparr>"
  have get: "hm_get (tg_spans one_span) 7 = Some ?span" by (simp add: one_span_def)
  obtain y g' where new: "on_new_span Some load_attrs 7 one_span = (y, g')" by fastforce
  have keep: "tg_tasks g' = []" "env_ready flume_producer open_link memory_wal mw_inv (tg_world g')"
    using on_new_span_eval [OF get, of Some load_attrs] new calm_ready(3) [OF calm_world_calm]
    by (auto simp: one_span_def)
  have "codec_ok (codec_of record_coder)" "\<forall>x. is_ok (cd_enc (codec_of record_coder) x)"
    by (simp_all add: record_coder_ok is_ok_def)
  from trace_span_reported [OF get _ this new refl keep(2), of "[]"] new keep(1) show ?thesis by auto
qed

text \<open>
  The number that correlates spans is lost. A span opened with a field \<^verbatim>\<open>trace_id\<close> is recorded with the
  name of that field in place of its value, since a field displays as its name.
\<close>

theorem trace_id_is_field_name:
  assumes "hm_get (tg_spans g) i = Some span" and "sp_record span = None"
    and "\<forall>(name, shown) \<in> set (at_fields attrs). shown = name" and "''trace_id'' \<in> fst ` set (at_fields attrs)"
  shows "\<exists>g' rec. on_new_span obj attrs i g = (Ret (), g') \<and>
    map_option sp_record (hm_get (tg_spans g') i) = Some (Some rec) \<and> tc_trace_id rec = Some ''trace_id''"
proof -
  have "find (\<lambda>x. fst x = ''trace_id'') (at_fields attrs) \<noteq> None"
    using assms(4) by (auto simp: find_None_iff)
  then obtain x where x: "find (\<lambda>x. fst x = ''trace_id'') (at_fields attrs) = Some x" by blast
  then have "x \<in> set (at_fields attrs)" "fst x = ''trace_id''" by (auto simp: find_Some_iff)
  with assms(3) x have "attribute_trace_id attrs = Some ''trace_id''" by (auto simp: attribute_trace_id_def)
  with on_new_span_eval [OF assms(1,2), of obj attrs] assms(1) show ?thesis by (simp add: hm_simps opened_def)
qed

text \<open>An event is sent at once, with its level, through the layer's own producer.\<close>

theorem trace_event_reported:
  fixes g :: "('q link, mem_wal, 'j) tracing"
  assumes "codec_ok json" and "\<forall>x. is_ok (cd_enc json x)"
    and "env_ready flume_producer open_link memory_wal mw_inv (tg_world g)"
  shows "\<exists>m g' f rec. on_event obj json True ev g = (Ret (), g') \<and> tg_tasks g' = tg_tasks g @ [ProducerSend m] \<and>
    run_trace_task flume_producer (ProducerSend m) (tg_world g') = (Ret (), (tg_world g')\<lparr>w_fabric := f\<rparr>) \<and>
    link_items f = link_items (w_fabric (tg_world g)) @ [m] \<and> cd_dec json (payload m) = Inr rec \<and>
    tc_name rec = ev_name ev \<and> tc_target rec = ev_target ev \<and> tc_level rec = record_level (ev_level ev) \<and>
    tc_fields rec = object_fields obj (ev_value ev)"
proof -
  let ?a = "w_amb (tg_world g)"
  let ?rec = "\<lparr>tc_trace_id = None, tc_span_id = [], tc_parent_span_id = None, tc_name = ev_name ev,
    tc_target = ev_target ev, tc_level = record_level (ev_level ev), tc_fields = object_fields obj (ev_value ev),
    tc_started_at = Some (clock_src ?a (clock_next ?a)), tc_finished_at = Some (clock_src ?a (Suc (clock_next ?a))),
    tc_duration = None, tc_message_id = None, tc_worker_id = None, tc_topic = None\<rparr>"
  let ?g = "g\<lparr>tg_world := (tg_world g)\<lparr>w_amb := snd (read_clock (snd (read_clock ?a)))\<rparr>\<rparr>"
  obtain b where b: "cd_enc json ?rec = Inr b"
    using assms(2) by (cases "cd_enc json ?rec") (auto simp: is_ok_def dest: spec [of _ ?rec])
  obtain m a where m: "trace_message json ?rec ?g = (Ret m, ?g\<lparr>tg_world := (tg_world ?g)\<lparr>w_amb := a\<rparr>\<rparr>)"
      "msg_topic m = SYSTEM_TOPIC_TRACE" "payload m = b" "deliver_at m = None" "delivery_mode m = Standard"
    using trace_message_eval [OF b, of ?g] by blast
  let ?h = "?g\<lparr>tg_world := (tg_world ?g)\<lparr>w_amb := a\<rparr>, tg_tasks := tg_tasks g @ [ProducerSend m]\<rparr>"
  have "on_event obj json True ev g = bindA (trace_message json ?rec) (\<lambda>msg. spawn_if_runtime True (ProducerSend msg)) ?g"
    by (simp add: on_event_def in_tracing_def bindA_def outcome_simps read_clock_def)
  also have "\<dots> = (Ret (), ?h)"
    unfolding bindA_Ret [where m = "trace_message json ?rec", OF m(1)] by (simp add: spawn_if_runtime_def putA_def)
  finally have run: "on_event obj json True ev g = (Ret (), ?h)" .
  have "env_ready flume_producer open_link memory_wal mw_inv (tg_world ?h)" using assms(3) by simp
  from trace_task_sends [OF this m(2,4,5), of "ProducerSend m"] obtain f where
    "run_trace_task flume_producer (ProducerSend m) (tg_world ?h) = (Ret (), (tg_world ?h)\<lparr>w_fabric := f\<rparr>)"
    "link_items f = link_items (w_fabric (tg_world g)) @ [m]" by auto
  moreover have "cd_dec json (payload m) = Inr ?rec" using assms(1) b m(3) by (simp add: codec_ok_def)
  ultimately show ?thesis using run
    by (intro exI [of _ m] exI [of _ ?h] exI [of _ f] exI [of _ ?rec] conjI) simp_all
qed

end
