(* ===== verification/Spec2Isabelle.thy ===== *)
theory Spec2Isabelle
  imports Middleware Queue_Crossfire Queue_Mpmc Wal_Persistent Redis_Pollers Stream_Group Worker_Process Dispatcher Startup
    Ebctl Handler_Macro Trace_Layer
begin

text \<open>
  A verification development of the event base, an asynchronous message system in Rust. The code
  is not generated from the model: each definition is a translation of the function or type it is
  named after, and file names below are relative to \<^verbatim>\<open>src/\<close>.

  \<^bold>\<open>The program.\<close> A process is one node, a host or a worker. User code publishes messages to topics
  through the topic router, which sends them to a queue, spreads a broadcast over the workers, or
  puts a delayed message into a write-ahead log until it is due. The consumer router keeps, for every
  topic, a queue, a handler and its workers; a dispatcher per topic claims messages and hands them to
  the workers' inboxes. A worker runs a message through the middlewares and the handler and settles it:
  acknowledged, repeated, retried, delayed, or dead-lettered. Nodes speak to each other on system
  topics about workers, topics, message states, audit records, metrics, traces and shutdown, and an
  operator speaks to a node through gRPC.

  \<^bold>\<open>Conventions\<close> (theory \<open>Prelude\<close>). An \<^verbatim>\<open>async fn\<close> is a function from a state to an outcome and a
  state: it returns, waits at an \<^verbatim>\<open>await\<close>, blocks its thread, or panics, with all effects so far in the
  state. A \<^verbatim>\<open>Result\<close> is a sum with the error on the left, a machine integer is a word, a time is in
  nanoseconds, a \<^verbatim>\<open>HashMap\<close> is an association list whose order no theorem depends on. Identifiers and clock
  readings come from a stream in the state; that identifiers differ is the hypothesis \<open>uuids_unique\<close> of
  the theorems that need it. The statics of the process are the record \<open>world\<close> (theory \<open>World\<close>).

  \<^bold>\<open>Which theory models which source.\<close>

  \<^item> \<open>Errors\<close>, \<open>Message\<close>, \<open>Middleware\<close>, \<open>Wire\<close>: \<^verbatim>\<open>event_base_core/src/error\<close>, \<^verbatim>\<open>message.rs\<close>,
    \<^verbatim>\<open>dead_letter.rs\<close>, \<^verbatim>\<open>constant.rs\<close>, \<^verbatim>\<open>handler.rs\<close>, \<^verbatim>\<open>middleware.rs\<close>, the messages of the system topics and
    \<^verbatim>\<open>event_base_middleware/src/logger.rs\<close>. The index-based walk of the middlewares is their nesting.
  \<^item> \<open>Queue\<close>: the traits of \<^verbatim>\<open>queues/mod.rs\<close>, and as locales the contracts of a producer (\<open>queue_producer\<close>,
    \<open>open_producer\<close>) and of a consumer with claims (\<open>claim_base\<close>, \<open>claim_requeue\<close>, \<open>claim_source\<close>, \<open>claim_queue\<close>).
    \<open>Queue_Memory\<close>, \<open>Queue_Flume\<close>, \<open>Queue_Mpmc\<close>, \<open>Queue_Crossfire\<close> (\<^verbatim>\<open>event_base_queue/src/flume.rs\<close>, \<^verbatim>\<open>mpmc.rs\<close>,
    \<^verbatim>\<open>crossfire.rs\<close>) and \<open>Queue_Redis\<close> (\<^verbatim>\<open>redis_streams.rs\<close>) interpret them: whatever sequence of calls is made,
    no message is lost or duplicated. A channel is a parameter with the laws of a queue.
  \<^item> \<open>Stream_Server\<close>, \<open>Stream_Group\<close>: the stream commands of a Redis server as a parameter with laws, and
    several nodes on it as the relation \<open>cluster_step\<close>. Every command may fail or lose its answer and nodes
    crash; a message that was sent stays readable or pending until a consumer reported it handled,
    and one sweep takes over what a crashed consumer held.
  \<^item> \<open>Wal\<close>: the trait and the codec of \<^verbatim>\<open>event_base_core/src/wal\<close>, with the contract of a log as the locale
    \<open>wal_backend\<close>. \<open>Wal_Memory\<close> and \<open>Wal_Persistent\<close> (\<^verbatim>\<open>event_base_wal/src/memory.rs\<close>, \<^verbatim>\<open>persistent.rs\<close>) interpret it;
    a flush that stops anywhere leaves the old or the new file. \<open>Redis_Server\<close>, \<open>Wal_Redis\<close>, \<open>Redis_Pollers\<close>
    (\<^verbatim>\<open>redis.rs\<close>): the log as sequences of Redis commands; pollers interleaved command by command deliver
    each due record exactly once.
  \<^item> \<open>Worker_Registry\<close>, \<open>Topic_Router\<close>: \<^verbatim>\<open>worker_registry.rs\<close> and \<^verbatim>\<open>topic.rs\<close>, over any producer and log that keep
    their contracts (locales \<open>router_env\<close>, \<open>open_router_env\<close>): the registry survives a restart, a delayed message is
    delivered once and not early, a broadcast reaches each worker once, a replay accounts for every record.
  \<^item> \<open>Worker\<close>, \<open>Worker_Process\<close>: \<^verbatim>\<open>worker.rs\<close> and \<^verbatim>\<open>wal/sync.rs\<close>. \<open>process_msg_fate\<close> says what becomes of a message
    in every case; retries end, repetitions are counted.
  \<^item> \<open>Consumer_Router\<close>, \<open>Router_Invariant\<close>, \<open>Dispatcher\<close>: \<^verbatim>\<open>queues/consumer_router.rs\<close>. The tables agree in every state
    that calls can reach; a dispatcher's turn conserves messages and serves the workers in turn.
  \<^item> \<open>Audit_Log\<close>, \<open>Metrics\<close>, \<open>Shutdown\<close>, \<open>System_Handlers\<close>: \<^verbatim>\<open>audit.rs\<close>, \<^verbatim>\<open>metrics\<close>, \<^verbatim>\<open>shutdown\<close> and
    \<^verbatim>\<open>system_handlers\<close>. \<open>Byte_Codec\<close> is a codec that satisfies what is asked of the serialisers.
  \<^item> \<open>Trace_Layer\<close>: \<^verbatim>\<open>trace_layer.rs\<close>, from a span's opening to the collectors.
  \<^item> \<open>Control_Plane\<close>, \<open>Ebctl\<close>: \<^verbatim>\<open>event_base_grpc/src\<close> and \<^verbatim>\<open>ebctl/src/main.rs\<close>. Without the token a client changes
    nothing; with it a command does on the node what it says.
  \<^item> \<open>Startup\<close>: \<^verbatim>\<open>src/config.rs\<close>, \<^verbatim>\<open>src/bootstrap.rs\<close>, \<^verbatim>\<open>event_base_macro_func/src\<close>, \<^verbatim>\<open>system_handlers/system.rs\<close> and
    \<^verbatim>\<open>registry.rs\<close>: the state of a node that has started. \<open>Handler_Macro\<close>: \<^verbatim>\<open>event_base_macro_attr/src/handler.rs\<close>, the
    parser of the attribute \<^verbatim>\<open>#[handler]\<close> and the registration it generates, which \<open>Startup\<close> runs. The theorem at the
    end of this theory spans both, from the attributes of a program to the topics its node serves.

  \<^bold>\<open>Bounds.\<close> A background loop that never returns is modelled by its body and by any number of rounds of it
  (\<open>delay_tick\<close>, \<open>dispatch_turn\<close>, \<open>recv_turn\<close>, \<open>heartbeat_once\<close>), so a theorem holds after every number of rounds. A loop
  that waits for the outside takes the list of what it observes, and is \<open>Pending\<close> when the list ends
  (\<open>graceful_loop\<close>, \<open>two_stage_poll\<close>, \<open>stream_receive\<close>); theorems that it returns say which observation makes it return. The
  parser of attribute arguments is a partial function, shown to return on every input. Redis holds scores as floating point
  numbers: due times are exact up to \<open>exact_horizon\<close>, 2^53 milliseconds. One call of \<open>stream_claim_stale\<close> takes over at
  most 64 entries, as the source asks for, and \<open>redis_stale_recovered\<close> assumes no more are pending.

  \<^bold>\<open>Parameters.\<close> Code outside the repository is an argument: channels, the ring buffer, the file system, the Redis
  server, serialisers, tonic, syn and the tracing crates. What is asked of them is a hypothesis, and every property with
  one has a witness in which a concrete function satisfies it.

  \<^bold>\<open>Not modelled.\<close> Interleavings inside an \<^verbatim>\<open>async fn\<close> of one process: a method runs to its end or to where it
  waits, and methods interleave as steps. Only for the Redis backends are single commands of several nodes interleaved.
  Log lines. In \<^verbatim>\<open>src/config.rs\<close> and \<^verbatim>\<open>src/bootstrap.rs\<close>, reading TOML (the toml crate), the choice of
  backend by the configuration (a backend is an argument of \<open>bootstrap_start\<close>, since the backends have states of different
  types) and \<^verbatim>\<open>Running::wait\<close>, which waits for a signal of the operating system. Parsing of the command line (clap),
  the entry points of the macro crates, the console writer of audit records, which prints, module lists, examples, the
  template and the support code of tests.
\<close>

section \<open>From the declarations of a program to a running node\<close>

text \<open>
  A function declared with \<^verbatim>\<open>#[handler(...)]\<close>: the stream the compiler hands to the attribute, the
  function's name, the function, and the arguments as they are written.
\<close>

type_synonym ('i, 'e, 's) declared_fn = "'i \<times> string \<times> 's ehandler \<times> ('e arg \<times> bool) list"

definition declared_args :: "('i, 'e, 's) declared_fn \<Rightarrow> 'e handler_args" where
  "declared_args d = (case d of (i, fn_name, fn, as) \<Rightarrow> projr (meant (map fst as)))"

definition compiled :: "('i, 'e) syn \<Rightarrow> ('e \<Rightarrow> ('f, 'w) world middleware) \<Rightarrow> ('i, 'e, ('f, 'w) world) declared_fn
    \<Rightarrow> 'x \<Rightarrow> (('f, 'w, 'k, 'q) consumer_router, unit result) act" where
  "compiled sy eval d = (case d of (i, fn_name, fn, as) \<Rightarrow> ex_register_fn (projr (the (handler_impl sy eval i fn_name fn))))"

definition well_declared :: "('i \<Rightarrow> token list) \<Rightarrow> ('e \<Rightarrow> token list) \<Rightarrow> ('i, 'e, 's) declared_fn \<Rightarrow> bool" where
  "well_declared toks spell d = (case d of (i, fn_name, fn, as) \<Rightarrow> separated as \<and> toks i = written spell as \<and>
     (\<exists>t. latest the_topic (map fst as) = Some t \<and> \<not> is_system_topic t))"

lemma compiled_registers:
  assumes "syn_laws sy toks spell" and "well_declared toks spell d"
  shows "compiled sy eval d = register_handler sy eval (declared_args d) (fst (snd (snd d)))"
    and "\<not> is_system_topic (ha_topic (declared_args d))"
proof -
  obtain i f h as where d: "d = (i, f, h, as)" by (cases d) auto
  obtain t where as: "separated as" "toks i = written spell as" "latest the_topic (map fst as) = Some t" "\<not> is_system_topic t"
    using assms(2) by (auto simp: well_declared_def d)
  obtain a where a: "meant (map fst as) = Inr a" "ha_topic a = t" using as(3) by (simp add: meant_def)
  show "compiled sy eval d = register_handler sy eval (declared_args d) (fst (snd (snd d)))"
    using parse_written [OF assms(1) as(1,2)] a(1) by (simp add: compiled_def declared_args_def d handler_impl_def)
  show "\<not> is_system_topic (ha_topic (declared_args d))" using a as(4) by (simp add: declared_args_def d)
qed


definition jobs_fn :: "(token list, string, (emessage list link, mem_wal) world) declared_fn" where
  "jobs_fn = (let as = [(ArgTopic ''jobs'', True), (ArgWorkers 2, False)] in
     (written (\<lambda>e. [TIdent e]) as, ''handle_job'', (\<lambda>m. ret Ack), as))"


end
